(* ===== verification/Prelude.thy ===== *)
theory Prelude
  imports Main "HOL-Library.Sublist" "HOL-Library.Char_ord" "HOL-Library.List_Lexorder"
begin

text \<open>
  The shared base of the development: the shape of an effectful Go function (a state
  transformer that ends with a value or with an error, the state kept in both cases), the
  combinators its statements are written with, the contract every preorder on states gives
  to those combinators (locale \<open>guarantee\<close>), and the lemmas on association lists that the
  file system model uses.
\<close>

section \<open>Lemma collections\<close>

named_theorems frame_intros \<open>introduction rules: a statement keeps a guarantee\<close>
named_theorems run_simps \<open>running one statement from a given state\<close>

section \<open>Effectful functions\<close>

text \<open>
  A Go function \<open>func f(..) (T, error)\<close> that touches the system is a function of type
  \<open>('s, 'e, 'a) io\<close>. Its effects stay when it returns an error, as they do in Go.
\<close>

type_synonym ('s, 'e, 'a) io = "'s \<Rightarrow> ('e + 'a) \<times> 's"

definition ret :: "'a \<Rightarrow> ('s, 'e, 'a) io" where
  "ret x s = (Inr x, s)"

definition fail :: "'e \<Rightarrow> ('s, 'e, 'a) io" where
  "fail e s = (Inl e, s)"

text \<open>\<open>x, err := m; if err != nil { return err }\<close>, then the rest of the function.\<close>

definition bindE :: "('s, 'e, 'a) io \<Rightarrow> ('a \<Rightarrow> ('s, 'e, 'b) io) \<Rightarrow> ('s, 'e, 'b) io" where
  "bindE m f s = (case m s of (Inl e, s') \<Rightarrow> (Inl e, s') | (Inr x, s') \<Rightarrow> f x s')"

text \<open>\<open>x, err := m\<close> where the code looks at \<open>err\<close> itself; what follows may fail in its own way.\<close>

definition tryE :: "('s, 'e, 'a) io \<Rightarrow> ('s, 'f, 'e + 'a) io" where
  "tryE m s = (case m s of (r, s') \<Rightarrow> (Inr r, s'))"

text \<open>A read-only call.\<close>

definition readE :: "('s \<Rightarrow> 'e + 'a) \<Rightarrow> ('s, 'e, 'a) io" where
  "readE f s = (f s, s)"

text \<open>\<open>defer cleanup()\<close>: the clean-up runs on both outcomes and its own error is dropped.\<close>

definition deferE :: "('s, 'e, 'b) io \<Rightarrow> ('s, 'e, 'a) io \<Rightarrow> ('s, 'e, 'a) io" where
  "deferE c m s = (case m s of (r, s') \<Rightarrow> (r, snd (c s')))"

text \<open>\<open>for _, x := range xs { if err := f(x); err != nil { return err } }\<close>.\<close>

fun foreachE :: "('a \<Rightarrow> ('s, 'e, unit) io) \<Rightarrow> 'a list \<Rightarrow> ('s, 'e, unit) io" where
  "foreachE f [] = ret ()"
| "foreachE f (x # xs) = bindE (f x) (\<lambda>_. foreachE f xs)"

lemma ret_run [run_simps, simp]: "ret x s = (Inr x, s)"
  by (simp add: ret_def)

lemma fail_run [run_simps, simp]: "fail e s = (Inl e, s)"
  by (simp add: fail_def)

lemma readE_run [run_simps, simp]: "readE f s = (f s, s)"
  by (simp add: readE_def)

lemma tryE_run: "tryE m s = (Inr (fst (m s)), snd (m s))"
  by (simp add: tryE_def split: prod.split)

lemma bindE_Inr: "m s = (Inr x, s') \<Longrightarrow> bindE m f s = f x s'"
  by (simp add: bindE_def)

lemma bindE_Inl: "m s = (Inl e, s') \<Longrightarrow> bindE m f s = (Inl e, s')"
  by (simp add: bindE_def)

lemma bindE_ret [simp]: "bindE (ret x) f = f x"
  by (rule ext) (simp add: bindE_def)

lemma bindE_fail [simp]: "bindE (fail e) f = fail e"
  by (rule ext) (simp add: bindE_def)

lemma bindE_cong_run: "m s = m' s \<Longrightarrow> bindE m f s = bindE m' f s"
  by (simp add: bindE_def)

lemma bindE_eq_InrE:
  assumes "bindE m f s = (Inr y, s'')"
  obtains x s' where "m s = (Inr x, s')" and "f x s' = (Inr y, s'')"
  using assms by (auto simp: bindE_def split: prod.splits sum.splits)

lemma bindE_cases:
  assumes "bindE m f s = (r, s'')"
  obtains (err) e where "m s = (Inl e, s'')" and "r = Inl e"
    | (ok) x s' where "m s = (Inr x, s')" and "f x s' = (r, s'')"
  using assms by (auto simp: bindE_def split: prod.splits sum.splits)

lemma bindE_readE: "bindE (readE f) g s = (case f s of Inl e \<Rightarrow> (Inl e, s) | Inr x \<Rightarrow> g x s)"
  by (simp add: bindE_def split: sum.split)

lemma bindE_tryE: "bindE (tryE m) f s = f (fst (m s)) (snd (m s))"
  by (simp add: bindE_def tryE_run)

section \<open>Guarantees\<close>

text \<open>
  A guarantee is a preorder on states: what a caller may rely on across a call ("nothing
  outside the extraction root changed", "the file system stays well formed"). A statement
  keeps it when every run does, whether it ends with a value or an error. The contract is
  stated once, for any preorder, and interpreted for the guarantees of the model.
\<close>

definition keeps :: "('s \<Rightarrow> 's \<Rightarrow> bool) \<Rightarrow> ('s, 'e, 'a) io \<Rightarrow> bool" where
  "keeps G m \<longleftrightarrow> (\<forall>s. G s (snd (m s)))"

lemma keepsI: "(\<And>s. G s (snd (m s))) \<Longrightarrow> keeps G m"
  by (simp add: keeps_def)

lemma keepsD: "keeps G m \<Longrightarrow> m s = (r, s') \<Longrightarrow> G s s'"
  unfolding keeps_def by (metis snd_conv)

locale guarantee =
  fixes G :: "'s \<Rightarrow> 's \<Rightarrow> bool"
  assumes G_refl: "G s s"
    and G_trans: "G s t \<Longrightarrow> G t u \<Longrightarrow> G s u"
begin

lemma keeps_ret: "keeps G (ret x)"
  by (simp add: keeps_def G_refl)

lemma keeps_fail: "keeps G (fail e)"
  by (simp add: keeps_def G_refl)

lemma keeps_readE: "keeps G (readE f)"
  by (simp add: keeps_def G_refl)

lemma keeps_bindE:
  assumes "keeps G m" and "\<And>x. keeps G (f x)"
  shows "keeps G (bindE m f)"
proof (rule keepsI)
  fix s
  from assms(1) have 1: "G s (snd (m s))" by (simp add: keeps_def)
  show "G s (snd (bindE m f s))"
  proof (cases "m s")
    case (Pair r s')
    with 1 have "G s s'" by simp
    moreover have "G s' (snd (f x s'))" for x using assms(2) by (simp add: keeps_def)
    ultimately show ?thesis using Pair
      by (auto simp: bindE_def split: sum.split intro: G_trans)
  qed
qed

lemma keeps_tryE: "keeps G m \<Longrightarrow> keeps G (tryE m)"
  by (simp add: keeps_def tryE_run)

lemma keeps_deferE: "keeps G c \<Longrightarrow> keeps G m \<Longrightarrow> keeps G (deferE c m)"
  unfolding keeps_def deferE_def by (auto split: prod.split) (metis G_trans snd_conv)

lemma keeps_foreachE: "(\<And>x. x \<in> set xs \<Longrightarrow> keeps G (f x)) \<Longrightarrow> keeps G (foreachE f xs)"
  by (induction xs) (auto intro: keeps_ret keeps_bindE)

lemma keeps_if: "(b \<Longrightarrow> keeps G m) \<Longrightarrow> (\<not> b \<Longrightarrow> keeps G n) \<Longrightarrow> keeps G (if b then m else n)"
  by simp

lemma keeps_case_sum:
  "(\<And>a. x = Inl a \<Longrightarrow> keeps G (f a)) \<Longrightarrow> (\<And>b. x = Inr b \<Longrightarrow> keeps G (g b)) \<Longrightarrow>
    keeps G (case x of Inl a \<Rightarrow> f a | Inr b \<Rightarrow> g b)"
  by (cases x) auto

lemma keeps_case_option:
  "(x = None \<Longrightarrow> keeps G m) \<Longrightarrow> (\<And>b. x = Some b \<Longrightarrow> keeps G (f b)) \<Longrightarrow>
    keeps G (case x of None \<Rightarrow> m | Some b \<Rightarrow> f b)"
  by (cases x) auto

lemma keeps_case_prod:
  "(\<And>a b. x = (a, b) \<Longrightarrow> keeps G (f a b)) \<Longrightarrow> keeps G (case x of (a, b) \<Rightarrow> f a b)"
  by (cases x) auto

lemma keeps_let: "(\<And>x. x = v \<Longrightarrow> keeps G (f x)) \<Longrightarrow> keeps G (let x = v in f x)"
  by simp

lemmas keeps_rules =
  keeps_ret keeps_fail keeps_readE keeps_bindE keeps_tryE keeps_deferE keeps_foreachE
  keeps_if keeps_case_sum keeps_case_option keeps_case_prod keeps_let

end

text \<open>
  A guarantee that speaks about the states of an invariant only: in every other state it
  holds of anything, and a statement may rely on what the invariant says of its results.
\<close>

locale guarantee_on = guarantee G for G :: "'s \<Rightarrow> 's \<Rightarrow> bool" +
  fixes I :: "'s \<Rightarrow> bool"
  assumes vacuous: "\<not> I s \<Longrightarrow> G s t"
begin

lemma keeps_onI: "(\<And>s. I s \<Longrightarrow> G s (snd (m s))) \<Longrightarrow> keeps G m"
  unfolding keeps_def using vacuous by blast

lemma keeps_bindP:
  assumes "keeps G m" and "\<And>s x s'. I s \<Longrightarrow> m s = (Inr x, s') \<Longrightarrow> P x" and "\<And>x. P x \<Longrightarrow> keeps G (f x)"
  shows "keeps G (bindE m f)"
proof (rule keeps_onI)
  fix s assume I: "I s"
  show "G s (snd (bindE m f s))"
  proof (cases "m s")
    case (Pair r s')
    have 1: "G s s'" by (rule keepsD [OF assms(1) Pair])
    show ?thesis
    proof (cases r)
      case (Inl e)
      then show ?thesis using 1 Pair by (simp add: bindE_def)
    next
      case (Inr x)
      with assms(2) [OF I] Pair have "P x" by simp
      from assms(3) [OF this] have "G s' (snd (f x s'))" by (simp add: keeps_def)
      then show ?thesis using 1 Pair Inr by (auto simp: bindE_def intro: G_trans)
    qed
  qed
qed

end

section \<open>Association lists\<close>

definition aput :: "'k \<Rightarrow> 'v \<Rightarrow> ('k \<times> 'v) list \<Rightarrow> ('k \<times> 'v) list" where
  "aput k v xs = (k, v) # filter (\<lambda>e. fst e \<noteq> k) xs"

lemma map_of_filter_fst: "map_of (filter (\<lambda>e. P (fst e)) xs) k = (if P k then map_of xs k else None)"
  by (induction xs) auto

lemma map_of_aput [simp]: "map_of (aput k v xs) j = (if j = k then Some v else map_of xs j)"
  using map_of_filter_fst [of "\<lambda>x. x \<noteq> k" xs j] by (auto simp: aput_def)

lemma map_of_in_fst: "map_of xs k = Some v \<Longrightarrow> k \<in> fst ` set xs"
  by (metis image_eqI fst_conv map_of_SomeD)

section \<open>Lists and prefixes\<close>

lemma list_all_butlast: "list_all P xs \<Longrightarrow> list_all P (butlast xs)"
  by (auto simp: list_all_iff dest: in_set_butlastD)

lemma prefix_butlast: "prefix p (q @ [x]) \<Longrightarrow> p \<noteq> q @ [x] \<Longrightarrow> prefix p q"
  by simp

lemma prefix_trans: "prefix p q \<Longrightarrow> prefix q r \<Longrightarrow> prefix p r"
  by (meson prefix_order.trans)

end
