(* ===== verification/GoPath.thy ===== *)
theory GoPath
  imports Prelude
begin

text \<open>
  The parts of Go's \<open>strings\<close>, \<open>path\<close> and \<open>path/filepath\<close> the program uses, for a Unix
  build (separator \<open>/\<close>, no volume names). A path is a string; \<open>comps\<close> is the list of its
  non-empty components, which is what a kernel walks. The lemmas say what cleaning, joining
  and making relative do to the components.
\<close>

section \<open>Package strings\<close>

definition HasPrefix :: "string \<Rightarrow> string \<Rightarrow> bool" where
  "HasPrefix s p \<longleftrightarrow> prefix p s"

definition HasSuffix :: "string \<Rightarrow> string \<Rightarrow> bool" where
  "HasSuffix s t \<longleftrightarrow> prefix (rev t) (rev s)"

definition CutPrefix :: "string \<Rightarrow> string \<Rightarrow> string option" where
  "CutPrefix s p = (if prefix p s then Some (drop (length p) s) else None)"

definition TrimPrefix :: "string \<Rightarrow> string \<Rightarrow> string" where
  "TrimPrefix s p = (if prefix p s then drop (length p) s else s)"

definition TrimSuffix :: "string \<Rightarrow> string \<Rightarrow> string" where
  "TrimSuffix s t = (if HasSuffix s t then take (length s - length t) s else s)"

definition TrimLeft :: "string \<Rightarrow> char \<Rightarrow> string" where
  "TrimLeft s c = dropWhile (\<lambda>x. x = c) s"

definition TrimRight :: "string \<Rightarrow> char \<Rightarrow> string" where
  "TrimRight s c = rev (dropWhile (\<lambda>x. x = c) (rev s))"

abbreviation slash :: char where
  "slash \<equiv> CHR ''/''"

text \<open>\<open>strings.Split(s, "/")\<close>: never the empty list.\<close>

fun split_slash :: "string \<Rightarrow> string list" where
  "split_slash [] = [[]]"
| "split_slash (c # cs) =
     (if c = slash then [] # split_slash cs
      else case split_slash cs of [] \<Rightarrow> [[c]] | x # xs \<Rightarrow> (c # x) # xs)"

text \<open>\<open>strings.Join(xs, "/")\<close>.\<close>

fun join_slash :: "string list \<Rightarrow> string" where
  "join_slash [] = []"
| "join_slash [x] = x"
| "join_slash (x # y # zs) = x @ slash # join_slash (y # zs)"

definition comps :: "string \<Rightarrow> string list" where
  "comps s = filter (\<lambda>c. c \<noteq> []) (split_slash s)"

lemma split_slash_ne [simp]: "split_slash s \<noteq> []"
  by (induction s) (auto split: list.split)

lemma split_slash_noslash: "c \<in> set (split_slash s) \<Longrightarrow> slash \<notin> set c"
proof (induction s arbitrary: c)
  case Nil
  then show ?case by simp
next
  case (Cons a s)
  obtain x xs where x: "split_slash s = x # xs" by (cases "split_slash s") auto
  from Cons.IH [of x] x have "slash \<notin> set x" by simp
  with Cons x show ?case by (auto split: if_splits)
qed

lemma split_slash_nosep: "slash \<notin> set c \<Longrightarrow> split_slash c = [c]"
  by (induction c) auto

lemma split_slash_append: "slash \<notin> set c \<Longrightarrow> split_slash (c @ slash # s) = c # split_slash s"
  by (induction c) auto

lemma split_slash_append_gen:
  "split_slash (s @ slash # t) = split_slash s @ split_slash t"
proof (induction s)
  case Nil
  then show ?case by simp
next
  case (Cons a s)
  obtain x xs where "split_slash s = x # xs" by (cases "split_slash s") auto
  with Cons show ?case by auto
qed

lemma split_join:
  "cs \<noteq> [] \<Longrightarrow> (\<And>c. c \<in> set cs \<Longrightarrow> slash \<notin> set c) \<Longrightarrow> split_slash (join_slash cs) = cs"
  by (induction cs rule: join_slash.induct)
    (auto simp: split_slash_nosep split_slash_append)

lemma join_split: "join_slash (split_slash s) = s"
proof (induction s)
  case Nil
  then show ?case by simp
next
  case (Cons a s)
  obtain x xs where x: "split_slash s = x # xs" by (cases "split_slash s") auto
  show ?case
  proof (cases xs)
    case Nil
    with x Cons show ?thesis by auto
  next
    case (Cons y ys)
    with x \<open>join_slash (split_slash s) = s\<close> show ?thesis by auto
  qed
qed

text \<open>A component a path can be made of: not empty, no separator.\<close>

definition is_comp :: "string \<Rightarrow> bool" where
  "is_comp c \<longleftrightarrow> c \<noteq> [] \<and> slash \<notin> set c"

lemma comps_is_comp: "c \<in> set (comps s) \<Longrightarrow> is_comp c"
  by (auto simp: comps_def is_comp_def dest: split_slash_noslash)

lemma list_all_is_comp_comps [simp]: "list_all is_comp (comps s)"
  by (simp add: list_all_iff comps_is_comp)

lemma comps_join: "list_all is_comp cs \<Longrightarrow> comps (join_slash cs) = cs"
proof (cases "cs = []")
  case False
  assume a: "list_all is_comp cs"
  then have "split_slash (join_slash cs) = cs"
    using False by (intro split_join) (auto simp: list_all_iff is_comp_def)
  moreover have "filter (\<lambda>c. c \<noteq> []) cs = cs"
    using a by (auto simp: list_all_iff is_comp_def intro: filter_True)
  ultimately show ?thesis by (simp add: comps_def)
qed (simp add: comps_def)

lemma comps_Cons_slash [simp]: "comps (slash # s) = comps s"
  by (simp add: comps_def)

lemma comps_Nil [simp]: "comps [] = []"
  by (simp add: comps_def)

lemma comps_append_slash: "comps (s @ slash # t) = comps s @ comps t"
  by (simp add: comps_def split_slash_append_gen)

lemma comps_single: "is_comp c \<Longrightarrow> comps c = [c]"
  by (simp add: comps_def is_comp_def split_slash_nosep)

lemma join_slash_eq_Nil: "list_all is_comp cs \<Longrightarrow> join_slash cs = [] \<longleftrightarrow> cs = []"
  by (cases cs rule: join_slash.cases) (auto simp: is_comp_def)

lemma join_slash_hd:
  "list_all is_comp cs \<Longrightarrow> join_slash cs = x # xs \<Longrightarrow> x \<noteq> slash"
  by (cases cs rule: join_slash.cases) (auto simp: is_comp_def append_eq_Cons_conv)

lemma join_slash_append:
  "xs \<noteq> [] \<Longrightarrow> ys \<noteq> [] \<Longrightarrow> join_slash (xs @ ys) = join_slash xs @ slash # join_slash ys"
proof (induction xs rule: join_slash.induct)
  case (2 x)
  then show ?case by (cases ys) auto
qed auto

lemma split_slash_join_eq: "split_slash (join_slash xs @ slash # s) = split_slash (join_slash xs) @ split_slash s"
  by (rule split_slash_append_gen)

section \<open>Packages path and path/filepath\<close>

definition IsAbs :: "string \<Rightarrow> bool" where
  "IsAbs s \<longleftrightarrow> prefix [slash] s"

abbreviation dot :: string where
  "dot \<equiv> ''.''"

abbreviation dotdot :: string where
  "dotdot \<equiv> ''..''"

text \<open>
  \<open>Clean\<close> on components: \<open>rooted\<close> tells whether the path starts with a slash, \<open>st\<close> is
  the output so far. A \<open>..\<close> removes the last output component, is dropped at the root of
  an absolute path, and is kept at the start of a relative one.
\<close>

fun clean_stack :: "bool \<Rightarrow> string list \<Rightarrow> string list \<Rightarrow> string list" where
  "clean_stack rooted st [] = st"
| "clean_stack rooted st (c # cs) =
     (if c = [] \<or> c = dot then clean_stack rooted st cs
      else if c = dotdot then
        (if st \<noteq> [] \<and> last st \<noteq> dotdot then clean_stack rooted (butlast st) cs
         else if rooted then clean_stack rooted st cs
         else clean_stack rooted (st @ [dotdot]) cs)
      else clean_stack rooted (st @ [c]) cs)"

definition render :: "bool \<Rightarrow> string list \<Rightarrow> string" where
  "render rooted cs =
     (if rooted then slash # join_slash cs else if cs = [] then dot else join_slash cs)"

definition Clean :: "string \<Rightarrow> string" where
  "Clean s = render (IsAbs s) (clean_stack (IsAbs s) [] (split_slash s))"

definition Join :: "string list \<Rightarrow> string" where
  "Join elems = (let es = filter (\<lambda>e. e \<noteq> []) elems in if es = [] then [] else Clean (join_slash es))"

text \<open>\<open>Split\<close>: the directory keeps its final slash, so that \<open>dir + file = path\<close>.\<close>

definition SplitFile :: "string \<Rightarrow> string" where
  "SplitFile s = rev (takeWhile (\<lambda>c. c \<noteq> slash) (rev s))"

definition SplitDir :: "string \<Rightarrow> string" where
  "SplitDir s = rev (dropWhile (\<lambda>c. c \<noteq> slash) (rev s))"

definition Dir :: "string \<Rightarrow> string" where
  "Dir s = Clean (SplitDir s)"

definition Base :: "string \<Rightarrow> string" where
  "Base s =
     (if s = [] then dot
      else let t = TrimRight s slash in if t = [] then [slash] else SplitFile t)"

definition IsLocal :: "string \<Rightarrow> bool" where
  "IsLocal s \<longleftrightarrow>
     \<not> IsAbs s \<and> s \<noteq> [] \<and>
     (let p = (if \<exists>c \<in> set (split_slash s). c = dot \<or> c = dotdot then Clean s else s)
      in p \<noteq> dotdot \<and> \<not> prefix ''../'' p)"

text \<open>
  \<open>Rel\<close> on components: the common prefix is dropped; what is left of the base must be
  climbed out of, which is impossible when it starts with \<open>..\<close>.
\<close>

fun rel_comps :: "string list \<Rightarrow> string list \<Rightarrow> string list option" where
  "rel_comps (b # bs) (t # ts) =
     (if b = t then rel_comps bs ts
      else if b = dotdot then None
      else Some (replicate (Suc (length bs)) dotdot @ t # ts))"
| "rel_comps [] ts = Some ts"
| "rel_comps (b # bs) [] =
     (if b = dotdot then None else Some (replicate (Suc (length bs)) dotdot))"

definition Rel :: "string \<Rightarrow> string \<Rightarrow> string option" where
  "Rel basepath targpath =
     (let base = Clean basepath; targ = Clean targpath
      in if targ = base then Some dot
         else if IsAbs base \<noteq> IsAbs targ then None
         else map_option join_slash
           (rel_comps (if base = dot then [] else comps base) (comps targ)))"

text \<open>On Unix the separator is already a slash.\<close>

definition ToSlash :: "string \<Rightarrow> string" where
  "ToSlash s = s"

definition FromSlash :: "string \<Rightarrow> string" where
  "FromSlash s = s"

section \<open>What cleaning does to the components\<close>

text \<open>A clean component list: some leading \<open>..\<close>, then ordinary names only.\<close>

definition is_name :: "string \<Rightarrow> bool" where
  "is_name c \<longleftrightarrow> is_comp c \<and> c \<noteq> dot \<and> c \<noteq> dotdot"

lemma is_name_simps: "is_name c \<Longrightarrow> c \<noteq> [] \<and> c \<noteq> dot \<and> c \<noteq> dotdot"
  by (simp add: is_name_def is_comp_def)

definition clean_form :: "bool \<Rightarrow> string list \<Rightarrow> bool" where
  "clean_form rooted cs \<longleftrightarrow>
     (\<exists>n ns. cs = replicate n dotdot @ ns \<and> list_all is_name ns \<and> (rooted \<longrightarrow> n = 0))"

lemma clean_form_Nil [simp]: "clean_form r []"
  by (auto simp: clean_form_def intro: exI [of _ 0])

lemma clean_form_names: "list_all is_name ns \<Longrightarrow> clean_form r ns"
  unfolding clean_form_def by (rule exI [of _ 0]) simp

lemma clean_formI:
  "cs = replicate n dotdot @ ns \<Longrightarrow> list_all is_name ns \<Longrightarrow> (r \<Longrightarrow> n = 0) \<Longrightarrow> clean_form r cs"
  unfolding clean_form_def by blast

lemma clean_formE:
  assumes "clean_form r cs"
  obtains n ns where "cs = replicate n dotdot @ ns" and "list_all is_name ns" and "r \<Longrightarrow> n = 0"
  using assms unfolding clean_form_def by blast

lemma clean_form_snoc_name:
  assumes "clean_form r cs" and "is_name c"
  shows "clean_form r (cs @ [c])"
  using assms(1)
proof (rule clean_formE)
  fix n ns
  assume "cs = replicate n dotdot @ ns" "list_all is_name ns" "r \<Longrightarrow> n = 0"
  with assms(2) show ?thesis by (intro clean_formI [of _ n "ns @ [c]"]) auto
qed

lemma last_replicate_dotdot: "cs = replicate n x \<Longrightarrow> cs \<noteq> [] \<Longrightarrow> last cs = x"
  by (cases n) (auto simp: last_replicate)

lemma clean_form_butlast:
  assumes "clean_form r cs" and "cs \<noteq> []" and "last cs \<noteq> dotdot"
  shows "clean_form r (butlast cs)"
  using assms(1)
proof (rule clean_formE)
  fix n ns
  assume cs: "cs = replicate n dotdot @ ns" "list_all is_name ns" "r \<Longrightarrow> n = 0"
  have "ns \<noteq> []" using cs(1) assms(2,3) last_replicate_dotdot [of cs n dotdot] by auto
  then have "butlast cs = replicate n dotdot @ butlast ns" by (simp add: cs butlast_append)
  moreover have "list_all is_name (butlast ns)"
    using cs(2) by (auto simp: list_all_iff dest: in_set_butlastD)
  ultimately show ?thesis using cs(3) by (intro clean_formI)
qed

lemma clean_form_snoc_dotdot:
  assumes "clean_form r cs" and "\<not> r" and "cs = [] \<or> last cs = dotdot"
  shows "clean_form r (cs @ [dotdot])"
  using assms(1)
proof (rule clean_formE)
  fix n ns
  assume cs: "cs = replicate n dotdot @ ns" "list_all is_name ns"
  have "ns = []"
  proof (rule ccontr)
    assume ne: "ns \<noteq> []"
    then have "is_name (last cs)" using cs by (auto simp: list_all_iff)
    with assms(3) cs ne show False by (auto simp: is_name_def)
  qed
  with cs have "cs @ [dotdot] = replicate (Suc n) dotdot @ []"
    by (simp add: replicate_append_same)
  then show ?thesis using assms(2) by (intro clean_formI [of _ "Suc n" "[]"]) auto
qed

lemma is_comp_dotdot [simp]: "is_comp dotdot"
  by (simp add: is_comp_def)

lemma clean_form_is_comp: "clean_form r cs \<Longrightarrow> list_all is_comp cs"
  by (erule clean_formE) (auto simp: list_all_iff is_name_def set_replicate_conv_if)

lemma clean_form_no_dot: "clean_form r cs \<Longrightarrow> dot \<notin> set cs"
  by (erule clean_formE) (auto simp: list_all_iff is_name_def set_replicate_conv_if)

lemma clean_stack_clean:
  "clean_form r st \<Longrightarrow> list_all (\<lambda>c. slash \<notin> set c) cs \<Longrightarrow> clean_form r (clean_stack r st cs)"
proof (induction r st cs rule: clean_stack.induct)
  case (1 rooted st)
  then show ?case by simp
next
  case (2 r st c cs)
  note form = \<open>clean_form r st\<close>
  have name: "is_name c" if "c \<noteq> []" "c \<noteq> dot" "c \<noteq> dotdot"
    using "2.prems"(2) that by (simp add: is_name_def is_comp_def)
  have rest: "list_all (\<lambda>c. slash \<notin> set c) cs" using "2.prems"(2) by simp
  consider (skip) "c = [] \<or> c = dot"
    | (pop) "c = dotdot" "st \<noteq> []" "last st \<noteq> dotdot"
    | (root) "c = dotdot" "st = [] \<or> last st = dotdot" "r"
    | (up) "c = dotdot" "st = [] \<or> last st = dotdot" "\<not> r"
    | (push) "c \<noteq> []" "c \<noteq> dot" "c \<noteq> dotdot"
    by blast
  then show ?case
  proof cases
    case skip
    with 2(1) [OF _ form rest] show ?thesis by auto
  next
    case pop
    with 2(2) [OF _ _ _ clean_form_butlast [OF form] rest] show ?thesis by auto
  next
    case root
    with 2(3) [OF _ _ _ _ form rest] show ?thesis by auto
  next
    case up
    with 2(4) [OF _ _ _ _ clean_form_snoc_dotdot [OF form] rest] show ?thesis by auto
  next
    case push
    with 2(5) [OF _ _ clean_form_snoc_name [OF form name] rest] show ?thesis by auto
  qed
qed

lemma clean_stack_comps: "clean_stack r st (filter (\<lambda>c. c \<noteq> []) cs) = clean_stack r st cs"
  by (induction r st cs rule: clean_stack.induct) auto

lemma clean_stack_names: "list_all is_name cs \<Longrightarrow> clean_stack r st (cs @ ds) = clean_stack r (st @ cs) ds"
proof (induction cs arbitrary: st)
  case (Cons c cs)
  then have "clean_stack r st ((c # cs) @ ds) = clean_stack r (st @ [c]) (cs @ ds)"
    by (simp add: is_name_def is_comp_def)
  with Cons show ?case by simp
qed simp

lemma clean_stack_replicate:
  "list_all (\<lambda>x. x = dotdot) st \<Longrightarrow>
    clean_stack False st (replicate n dotdot @ ds) = clean_stack False (st @ replicate n dotdot) ds"
proof (induction n arbitrary: st)
  case (Suc n)
  have "st = [] \<or> last st = dotdot" using Suc.prems by (cases st rule: rev_cases) auto
  then have "clean_stack False st (replicate (Suc n) dotdot @ ds)
      = clean_stack False (st @ [dotdot]) (replicate n dotdot @ ds)"
    by auto
  with Suc.IH [of "st @ [dotdot]"] Suc.prems show ?case by simp
qed simp

lemma clean_stack_fixpoint: "clean_form r cs \<Longrightarrow> clean_stack r [] cs = cs"
proof (erule clean_formE)
  fix n ns
  assume cs: "cs = replicate n dotdot @ ns" and ns: "list_all is_name ns" and r: "r \<Longrightarrow> n = 0"
  show "clean_stack r [] cs = cs"
  proof (cases r)
    case True
    with r ns clean_stack_names [of ns r "[]" "[]"] show ?thesis by (simp add: cs)
  next
    case False
    with clean_stack_replicate [of "[]" n ns] clean_stack_names [OF ns, of False _ "[]"]
    show ?thesis by (simp add: cs)
  qed
qed

definition clean_comps :: "string \<Rightarrow> string list" where
  "clean_comps s = clean_stack (IsAbs s) [] (split_slash s)"

lemma clean_comps_form: "clean_form (IsAbs s) (clean_comps s)"
  unfolding clean_comps_def
  by (rule clean_stack_clean) (auto simp: list_all_iff dest: split_slash_noslash)

lemma Clean_render: "Clean s = render (IsAbs s) (clean_comps s)"
  by (simp add: Clean_def clean_comps_def)

lemma IsAbs_Cons [simp]: "IsAbs (c # cs) \<longleftrightarrow> c = slash"
  by (auto simp: IsAbs_def)

lemma IsAbs_Nil [simp]: "\<not> IsAbs []"
  by (simp add: IsAbs_def)

lemma IsAbs_join: "list_all is_comp cs \<Longrightarrow> \<not> IsAbs (join_slash cs)"
  by (cases "join_slash cs") (auto dest: join_slash_hd)

lemma IsAbs_render: "list_all is_comp cs \<Longrightarrow> IsAbs (render r cs) = r"
  by (auto simp: render_def IsAbs_join)

lemma IsAbs_Clean [simp]: "IsAbs (Clean s) = IsAbs s"
  by (simp add: Clean_render IsAbs_render clean_form_is_comp [OF clean_comps_form])

lemma split_render:
  assumes "list_all is_comp cs"
  shows "clean_stack r [] (split_slash (render r cs)) = clean_stack r [] cs"
proof (cases "cs = []")
  case False
  have "split_slash (join_slash cs) = cs"
    using assms False by (intro split_join) (auto simp: list_all_iff is_comp_def)
  then show ?thesis using False by (simp add: render_def)
qed (simp add: render_def)

lemma clean_comps_render:
  assumes "clean_form r cs"
  shows "clean_comps (render r cs) = cs"
  by (simp add: clean_comps_def IsAbs_render clean_form_is_comp [OF assms] split_render
      clean_stack_fixpoint [OF assms])

lemma clean_comps_Clean: "clean_comps (Clean s) = clean_comps s"
  by (simp add: Clean_render clean_comps_render clean_comps_form)

lemma Clean_Clean [simp]: "Clean (Clean s) = Clean s"
  by (simp add: Clean_render [of "Clean s"] clean_comps_Clean) (simp add: Clean_render)

lemma Clean_fixed: "clean_form r cs \<Longrightarrow> Clean (render r cs) = render r cs"
  by (simp add: Clean_render clean_comps_render IsAbs_render clean_form_is_comp)

lemma comps_render: "list_all is_comp cs \<Longrightarrow> cs \<noteq> [] \<or> r \<Longrightarrow> comps (render r cs) = cs"
  by (auto simp: render_def comps_join)

section \<open>Local paths\<close>

text \<open>
  A clean local path other than \<open>.\<close>: one or more ordinary names. This is what the
  extractor's name check lets through.
\<close>

definition local_path :: "string \<Rightarrow> bool" where
  "local_path s \<longleftrightarrow> (\<exists>ns. ns \<noteq> [] \<and> list_all is_name ns \<and> s = join_slash ns)"

lemma names_are_comps: "list_all is_name ns \<Longrightarrow> list_all is_comp ns"
  by (simp add: list_all_iff is_name_def)

lemma comps_join_names [simp]: "list_all is_name ns \<Longrightarrow> comps (join_slash ns) = ns"
  by (simp add: comps_join names_are_comps)

lemma split_join_comps: "list_all is_comp ns \<Longrightarrow> ns \<noteq> [] \<Longrightarrow> split_slash (join_slash ns) = ns"
  by (intro split_join) (auto simp: list_all_iff is_comp_def)

lemma Clean_names: "list_all is_name ns \<Longrightarrow> ns \<noteq> [] \<Longrightarrow> Clean (join_slash ns) = join_slash ns"
  using Clean_fixed [OF clean_form_names [of ns False]] by (simp add: render_def)

lemma IsLocal_names:
  assumes "list_all is_name ns" and "ns \<noteq> []"
  shows "IsLocal (join_slash ns)"
proof -
  have c: "list_all is_comp ns" using assms(1) by (rule names_are_comps)
  have split: "split_slash (join_slash ns) = ns" using split_join_comps [OF c assms(2)] .
  have nodots: "\<not> (\<exists>x \<in> set ns. x = dot \<or> x = dotdot)"
    using assms(1) by (auto simp: list_all_iff is_name_def)
  have "join_slash ns \<noteq> dotdot"
  proof
    assume "join_slash ns = dotdot"
    then have "ns = [dotdot]" using split by simp
    with nodots show False by simp
  qed
  moreover have "\<not> prefix ''../'' (join_slash ns)"
  proof
    assume "prefix ''../'' (join_slash ns)"
    then obtain t where "join_slash ns = dotdot @ slash # t" by (auto simp: prefix_def)
    then have "ns = dotdot # split_slash t" using split by (simp add: split_slash_append)
    with nodots show False by simp
  qed
  ultimately show ?thesis
    using nodots by (simp add: IsLocal_def Let_def split IsAbs_join [OF c] join_slash_eq_Nil [OF c] assms(2))
qed

lemma prefix_dotdot_join:
  "n > 0 \<Longrightarrow> join_slash (replicate n dotdot @ ns) = dotdot \<or>
     prefix ''../'' (join_slash (replicate n dotdot @ ns))"
proof (cases n)
  case (Suc m)
  show ?thesis
  proof (cases "replicate m dotdot @ ns")
    case Nil
    with Suc show ?thesis by simp
  next
    case (Cons y ys)
    with Suc show ?thesis by (auto simp: prefix_def)
  qed
qed simp

lemma dotdot_in_split:
  "s = dotdot \<or> prefix ''../'' s \<Longrightarrow> dotdot \<in> set (split_slash s)"
  by (auto simp: prefix_def)

lemma IsLocal_Clean:
  assumes "IsLocal (Clean s)" and "Clean s \<noteq> dot"
  shows "local_path (Clean s)"
proof -
  let ?cs = "clean_comps s"
  have rel: "\<not> IsAbs s" using assms(1) IsAbs_Clean [of s] by (auto simp: IsLocal_def)
  then have C: "Clean s = render False ?cs" by (simp add: Clean_render)
  with assms(2) have ne: "?cs \<noteq> []" by (auto simp: render_def)
  obtain n ns where cs: "?cs = replicate n dotdot @ ns" and ns: "list_all is_name ns"
    using clean_comps_form [of s] by (rule clean_formE)
  have J: "Clean s = join_slash ?cs" using C ne by (simp add: render_def)
  have "n = 0"
  proof (rule ccontr)
    assume "n \<noteq> 0"
    then have esc: "Clean s = dotdot \<or> prefix ''../'' (Clean s)"
      using prefix_dotdot_join [of n ns] by (simp add: J cs)
    then have "dotdot \<in> set (split_slash (Clean s))" by (rule dotdot_in_split)
    with assms(1) esc show False by (auto simp: IsLocal_def Let_def split: if_splits)
  qed
  with cs ns ne J show ?thesis unfolding local_path_def by auto
qed

lemma local_path_IsLocal: "local_path s \<Longrightarrow> IsLocal s"
  by (auto simp: local_path_def IsLocal_names)

lemma local_path_Clean: "local_path s \<Longrightarrow> Clean s = s"
  by (auto simp: local_path_def Clean_names)

lemma local_path_comps: "local_path s \<Longrightarrow> list_all is_name (comps s) \<and> comps s \<noteq> []"
  by (auto simp: local_path_def)

lemma local_path_not_dot: "local_path s \<Longrightarrow> s \<noteq> dot"
proof
  assume "local_path s" and "s = dot"
  then have "list_all is_name (comps dot)" using local_path_comps by blast
  then show False by (simp add: comps_def is_name_def)
qed

section \<open>Joining\<close>

text \<open>\<open>root/names\<close> for a clean absolute root.\<close>

lemma Join_names:
  assumes root: "clean_form True rs" and ns: "list_all is_name ns"
  shows "Join [render True rs, Join ns] = render True (rs @ ns)"
proof -
  have names: "list_all is_comp (rs @ ns)"
    using clean_form_is_comp [OF root] names_are_comps [OF ns] by simp
  have rsn: "list_all is_name rs" using root by (auto elim: clean_formE)
  have filt: "filter (\<lambda>e. e \<noteq> []) ns = ns"
    using ns by (intro filter_True) (auto simp: list_all_iff is_name_def is_comp_def)
  show ?thesis
  proof (cases "ns = []")
    case True
    then show ?thesis using Clean_fixed [OF root] by (simp add: Join_def render_def)
  next
    case False
    then have J: "Join ns = join_slash ns"
      using Clean_names [OF ns False] by (simp add: Join_def filt)
    have "join_slash ns \<noteq> []" using False by (simp add: join_slash_eq_Nil names_are_comps [OF ns])
    then have "Join [render True rs, Join ns] = Clean (slash # join_slash rs @ slash # join_slash ns)"
      unfolding J by (simp add: Join_def render_def)
    also have "\<dots> = render True (clean_stack True [] (split_slash (slash # join_slash rs @ slash # join_slash ns)))"
      by (simp add: Clean_def)
    also have "clean_stack True [] (split_slash (slash # join_slash rs @ slash # join_slash ns))
        = clean_stack True [] (comps (join_slash rs @ slash # join_slash ns))"
      by (simp add: comps_def clean_stack_comps)
    also have "comps (join_slash rs @ slash # join_slash ns) = rs @ ns"
      using rsn ns by (simp add: comps_append_slash)
    also have "clean_stack True [] (rs @ ns) = rs @ ns"
      using rsn ns by (intro clean_stack_fixpoint clean_form_names) simp
    finally show ?thesis .
  qed
qed

lemma comps_abs_render: "list_all is_comp cs \<Longrightarrow> comps (render True cs) = cs"
  by (rule comps_render) auto

section \<open>Splitting and joining clean local paths\<close>

lemma split_append_slash: "slash \<notin> set b \<Longrightarrow> SplitDir (p @ slash # b) = p @ [slash] \<and> SplitFile (p @ slash # b) = b"
proof -
  assume b: "slash \<notin> set b"
  have t: "takeWhile (\<lambda>c. c \<noteq> slash) (rev b @ slash # rev p) = rev b"
    using b by (subst takeWhile_append2) auto
  have d: "dropWhile (\<lambda>c. c \<noteq> slash) (rev b @ slash # rev p) = slash # rev p"
    using b by (subst dropWhile_append2) auto
  show ?thesis by (simp add: SplitDir_def SplitFile_def t d)
qed

lemma split_no_slash: "slash \<notin> set b \<Longrightarrow> SplitDir b = [] \<and> SplitFile b = b"
proof -
  assume b: "slash \<notin> set b"
  then have "\<forall>x \<in> set (rev b). x \<noteq> slash" by auto
  then have "takeWhile (\<lambda>c. c \<noteq> slash) (rev b) = rev b" "dropWhile (\<lambda>c. c \<noteq> slash) (rev b) = []"
    by (simp_all add: takeWhile_eq_all_conv dropWhile_eq_Nil_conv)
  then show ?thesis unfolding SplitDir_def SplitFile_def by (simp only: rev_rev_ident rev.simps simp_thms)
qed

lemma Clean_dir:
  assumes "list_all is_name ns" and "ns \<noteq> []"
  shows "Clean (join_slash ns @ [slash]) = join_slash ns"
proof -
  have c: "list_all is_comp ns" using assms(1) by (rule names_are_comps)
  have abs: "\<not> IsAbs (join_slash ns @ [slash])"
    using IsAbs_join [OF c] join_slash_eq_Nil [OF c] assms(2)
    by (cases "join_slash ns") auto
  have "split_slash (join_slash ns @ [slash]) = ns @ [[]]"
    using split_slash_append_gen [of "join_slash ns" "[]"] split_join_comps [OF c assms(2)] by simp
  then have "clean_stack False [] (split_slash (join_slash ns @ [slash])) = ns"
    using clean_stack_names [OF assms(1), of False "[]" "[[]]"] by simp
  then show ?thesis using abs assms(2) by (simp add: Clean_def render_def)
qed

lemma split_local:
  assumes "list_all is_name (ps @ [b])"
  shows "SplitFile (join_slash (ps @ [b])) = b"
    and "ps = [] \<Longrightarrow> SplitDir (join_slash (ps @ [b])) = []"
    and "ps \<noteq> [] \<Longrightarrow> SplitDir (join_slash (ps @ [b])) = join_slash ps @ [slash]"
proof -
  have b: "slash \<notin> set b" using assms by (simp add: is_name_def is_comp_def)
  show "SplitFile (join_slash (ps @ [b])) = b"
    using b split_no_slash [OF b] split_append_slash [OF b, of "join_slash ps"]
    by (cases "ps = []") (simp_all add: join_slash_append)
  show "ps = [] \<Longrightarrow> SplitDir (join_slash (ps @ [b])) = []"
    using split_no_slash [OF b] by simp
  show "ps \<noteq> [] \<Longrightarrow> SplitDir (join_slash (ps @ [b])) = join_slash ps @ [slash]"
    using split_append_slash [OF b, of "join_slash ps"] by (simp add: join_slash_append)
qed

lemma Join_rel:
  assumes "list_all is_name ps" and "is_name b" and "ps \<noteq> []"
  shows "Join [join_slash ps, b] = join_slash (ps @ [b])"
proof -
  have "join_slash ps \<noteq> []" using assms(1,3) by (simp add: join_slash_eq_Nil names_are_comps)
  moreover have "b \<noteq> []" using assms(2) by (simp add: is_name_simps)
  ultimately show ?thesis
    using Clean_names [of "ps @ [b]"] assms by (simp add: Join_def join_slash_append)
qed

lemma Join_dot: "is_name b \<Longrightarrow> Join [dot, b] = b"
proof -
  assume b: "is_name b"
  then have "split_slash (dot @ slash # b) = [dot, b]"
    by (simp add: split_slash_nosep is_name_def is_comp_def)
  moreover have "b \<noteq> []" "b \<noteq> dot" "b \<noteq> dotdot" using b by (simp_all add: is_name_simps)
  ultimately show ?thesis by (simp add: Join_def Clean_def render_def)
qed

lemma rel_comps_append: "rel_comps rs (rs @ q) = Some q"
  by (induction rs) auto

lemma Rel_below:
  assumes "list_all is_name rs" and "list_all is_name q"
  shows "Rel (render True rs) (render True (rs @ q)) = Some (if q = [] then dot else join_slash q)"
proof -
  have f: "clean_form True rs" "clean_form True (rs @ q)"
    using assms by (simp_all add: clean_form_names)
  have c: "comps (render True rs) = rs" "comps (render True (rs @ q)) = rs @ q"
    using clean_form_is_comp [OF f(1)] clean_form_is_comp [OF f(2)] by (simp_all add: comps_abs_render)
  have eq: "render True (rs @ q) = render True rs \<longleftrightarrow> q = []"
    using c by (metis append_Nil2 append_self_conv)
  have "render True rs \<noteq> dot" by (simp add: render_def)
  then show ?thesis
    using eq by (simp add: Rel_def Let_def Clean_fixed [OF f(1)] Clean_fixed [OF f(2)] c
        IsAbs_render clean_form_is_comp [OF f(1)] clean_form_is_comp [OF f(2)] rel_comps_append [of rs q, simplified])
      (auto simp: render_def)
qed

lemma local_pathE:
  assumes "local_path name"
  obtains ps b where "list_all is_name ps" and "is_name b" and "name = join_slash (ps @ [b])"
proof -
  obtain ns where ns: "ns \<noteq> []" "list_all is_name ns" "name = join_slash ns"
    using assms by (auto simp: local_path_def)
  then have "list_all is_name (butlast ns)" "is_name (last ns)" "name = join_slash (butlast ns @ [last ns])"
    by (simp_all add: list_all_butlast) (simp add: list_all_iff)
  with that show ?thesis by blast
qed

lemma local_path_join: "list_all is_name ns \<Longrightarrow> ns \<noteq> [] \<Longrightarrow> local_path (join_slash ns)"
  by (auto simp: local_path_def)

lemma TrimRight_id: "s \<noteq> [] \<Longrightarrow> last s \<noteq> c \<Longrightarrow> TrimRight s c = s"
  by (cases s rule: rev_cases) (simp_all add: TrimRight_def)

lemma Base_names:
  assumes "list_all is_name (ps @ [b])"
  shows "Base (join_slash (ps @ [b])) = b"
proof -
  let ?s = "join_slash (ps @ [b])"
  have b: "b \<noteq> []" "slash \<notin> set b" using assms by (auto simp: is_name_def is_comp_def)
  have "last ?s = last b" "?s \<noteq> []"
    using b(1) by (cases "ps = []"; simp add: join_slash_append)+
  moreover have "last b \<noteq> slash" using b last_in_set by metis
  ultimately have "TrimRight ?s slash = ?s" by (simp add: TrimRight_id)
  then show ?thesis using split_local(1) [OF assms] \<open>?s \<noteq> []\<close> by (simp add: Base_def Let_def)
qed

lemma Base_local: "local_path p \<Longrightarrow> is_name (Base p)"
  by (erule local_pathE) (simp add: Base_names)

lemma SplitFile_local: "local_path p \<Longrightarrow> SplitFile p = Base p"
  by (erule local_pathE) (simp add: Base_names split_local(1))

section \<open>Absolute paths\<close>

definition abs_path :: "string list \<Rightarrow> string" where
  "abs_path q = render True q"

lemma Join_single: "is_name n \<Longrightarrow> Join [n] = n"
  using Clean_names [of "[n]"] by (auto simp: Join_def is_name_def is_comp_def)

lemma Join_abs: "list_all is_name p \<Longrightarrow> is_name n \<Longrightarrow> Join [abs_path p, n] = abs_path (p @ [n])"
  using Join_names [OF clean_form_names, of p "[n]"] by (simp add: abs_path_def Join_single)

lemma abs_path_slash: "list_all is_name p \<Longrightarrow> abs_path p = [slash] \<longleftrightarrow> p = []"
  by (auto simp: abs_path_def render_def join_slash_eq_Nil names_are_comps)

lemma abs_path_inj:
  "list_all is_name p \<Longrightarrow> list_all is_name q \<Longrightarrow> abs_path p = abs_path q \<longleftrightarrow> p = q"
  by (metis abs_path_def comps_abs_render names_are_comps)

lemma abs_path_Nil [simp]: "abs_path [] = [slash]"
  by (simp add: abs_path_def render_def)

lemma abs_path_ne [simp]: "abs_path p \<noteq> []"
  by (simp add: abs_path_def render_def)

lemma IsAbs_abs [simp]: "IsAbs (abs_path p)"
  by (simp add: abs_path_def render_def)

lemma comps_abs: "list_all is_name p \<Longrightarrow> comps (abs_path p) = p"
  by (simp add: abs_path_def comps_abs_render names_are_comps)

lemma Clean_abs: "list_all is_name p \<Longrightarrow> Clean (abs_path p) = abs_path p"
  by (simp add: abs_path_def Clean_fixed clean_form_names)

lemma abs_path_snoc: "abs_path (p @ [n]) = (if p = [] then [] else abs_path p) @ slash # n"
  by (simp add: abs_path_def render_def join_slash_append)

lemma Join_abs2:
  assumes "list_all is_name p" and "list_all is_name q"
  shows "Join [abs_path p, abs_path q] = abs_path (p @ q)"
proof -
  have "Join [abs_path p, abs_path q] = Clean (abs_path p @ slash # abs_path q)"
    by (simp add: Join_def)
  also have "\<dots> = render True (clean_stack True [] (comps (abs_path p @ slash # abs_path q)))"
    by (simp add: Clean_def comps_def clean_stack_comps abs_path_def render_def)
  also have "comps (abs_path p @ slash # abs_path q) = p @ q"
    by (simp add: comps_append_slash comps_abs assms)
  also have "clean_stack True [] (p @ q) = p @ q"
    using assms by (intro clean_stack_fixpoint clean_form_names) simp
  finally show ?thesis by (simp add: abs_path_def)
qed

lemma Dir_Base_abs:
  assumes "list_all is_name (p @ [n])"
  shows "Dir (abs_path (p @ [n])) = abs_path p" and "Base (abs_path (p @ [n])) = n"
proof -
  have n: "n \<noteq> []" "slash \<notin> set n" using assms by (auto simp: is_name_def is_comp_def)
  have p: "list_all is_name p" using assms by simp
  have "SplitDir (abs_path (p @ [n])) = (if p = [] then [] else abs_path p) @ [slash]"
    "SplitFile (abs_path (p @ [n])) = n"
    using split_append_slash [OF n(2)] by (simp_all add: abs_path_snoc)
  note sp = this
  have "Clean ((if p = [] then [] else abs_path p) @ [slash]) = abs_path p"
  proof -
    have "Clean ((if p = [] then [] else abs_path p) @ [slash]) =
        render True (clean_stack True [] (comps ((if p = [] then [] else abs_path p) @ [slash])))"
      by (simp add: Clean_def comps_def clean_stack_comps abs_path_def render_def)
    also have "comps ((if p = [] then [] else abs_path p) @ [slash]) = p"
      using comps_append_slash [of "if p = [] then [] else abs_path p" "[]"] p by (simp add: comps_abs)
    also have "clean_stack True [] p = p"
      using p by (intro clean_stack_fixpoint clean_form_names)
    finally show ?thesis by (simp add: abs_path_def)
  qed
  then show "Dir (abs_path (p @ [n])) = abs_path p" by (simp add: Dir_def sp)
  have "last (abs_path (p @ [n])) = last n" using n(1) by (simp add: abs_path_snoc)
  moreover have "last n \<noteq> slash" using n last_in_set by metis
  ultimately have "TrimRight (abs_path (p @ [n])) slash = abs_path (p @ [n])" by (simp add: TrimRight_id)
  then show "Base (abs_path (p @ [n])) = n" by (simp add: Base_def Let_def sp)
qed

lemma split_abs: "list_all is_name p \<Longrightarrow> filter (\<lambda>e. e \<noteq> []) (split_slash (abs_path p)) = p"
  by (simp add: comps_def [symmetric] comps_abs)

lemma Join_rebased:
  assumes "list_all is_name q"
  shows "Join [[slash], if q = [] then dot else join_slash q] = abs_path q"
proof (cases "q = []")
  case True
  then show ?thesis by (simp, code_simp)
next
  case False
  have ne: "filter (\<lambda>e. e \<noteq> []) q = q"
    using assms by (intro filter_True) (auto simp: list_all_iff is_name_def is_comp_def)
  then have "Join q = join_slash q" using Clean_names [OF assms False] False by (simp add: Join_def Let_def)
  then show ?thesis using Join_names [OF clean_form_names, of "[]" q] assms False
    by (simp add: abs_path_def render_def)
qed

end
