(* ===== verification/GoTypes.thy ===== *)
theory GoTypes
  imports GoPath "HOL-Library.Word"
begin

unbundle bit_operations_syntax

text \<open>
  Values shared by all components: errors as a datatype with Go's unwrapping, file modes as
  32-bit words with the bits of package \<open>io/fs\<close>, times as nanoseconds since the Unix epoch,
  and the header of an \<open>archive/tar\<close> entry.
\<close>

section \<open>Errors\<close>

datatype errno =
    EPERM | ENOENT | EIO | EACCES | EEXIST | EXDEV | ENOTDIR | EISDIR | EINVAL | ENOSPC | EROFS
  | ERANGE | ENAMETOOLONG | ENOSYS | ENOTEMPTY | ELOOP | ENODATA | EOPNOTSUPP

text \<open>
  \<open>PathError op path e\<close> is \<open>*os.PathError\<close> (and \<open>*os.LinkError\<close>, and \<open>*os.SyscallError\<close> with
  no path), \<open>BreakoutErr\<close> is
  \<open>*breakoutErr\<close>, \<open>ErrWrap fmt args e\<close> is \<open>fmt.Errorf(fmt, args..., e)\<close> with a \<open>%w\<close> verb,
  \<open>ErrMsg fmt args\<close> an error with nothing to unwrap, \<open>PathEscapes\<close> is package \<open>os\<close>'s unexported
  \<open>errPathEscapes\<close>. \<open>GoPanic\<close> stands for a run-time panic, which is not an error value but
  ends the call as one does.
\<close>

datatype goerror =
    Errno errno
  | PathEscapes
  | PathError string string goerror
  | BreakoutErr goerror
  | ErrWrap string "string list" goerror
  | ErrMsg string "string list"
  | TarError string
  | IOError string
  | GoPanic string

fun err_unwrap :: "goerror \<Rightarrow> goerror option" where
  "err_unwrap (PathError _ _ e) = Some e"
| "err_unwrap (BreakoutErr e) = Some e"
| "err_unwrap (ErrWrap _ _ e) = Some e"
| "err_unwrap _ = None"

text \<open>\<open>errors.Is(err, target)\<close> for a target that is a plain error number.\<close>

fun errors_is :: "goerror \<Rightarrow> errno \<Rightarrow> bool" where
  "errors_is (Errno n) t = (n = t)"
| "errors_is (PathError _ _ e) t = errors_is e t"
| "errors_is (BreakoutErr e) t = errors_is e t"
| "errors_is (ErrWrap _ _ e) t = errors_is e t"
| "errors_is _ t = False"

text \<open>\<open>os.IsNotExist\<close> looks through one path error only.\<close>

fun is_not_exist :: "goerror \<Rightarrow> bool" where
  "is_not_exist (Errno n) = (n = ENOENT)"
| "is_not_exist (PathError _ _ (Errno n)) = (n = ENOENT)"
| "is_not_exist _ = False"

text \<open>The text of an error that wraps nothing.\<close>

fun leaf_text :: "goerror \<Rightarrow> string" where
  "leaf_text PathEscapes = ''path escapes from parent''"
| "leaf_text (ErrMsg fmt _) = fmt"
| "leaf_text (TarError m) = ''archive/tar: '' @ m"
| "leaf_text _ = []"

section \<open>File modes\<close>

type_synonym filemode = "32 word"

definition ModeDir :: filemode where "ModeDir = 0x80000000"
definition ModeSymlink :: filemode where "ModeSymlink = 0x08000000"
definition ModeDevice :: filemode where "ModeDevice = 0x04000000"
definition ModeNamedPipe :: filemode where "ModeNamedPipe = 0x02000000"
definition ModeSocket :: filemode where "ModeSocket = 0x01000000"
definition ModeSetuid :: filemode where "ModeSetuid = 0x00800000"
definition ModeSetgid :: filemode where "ModeSetgid = 0x00400000"
definition ModeCharDevice :: filemode where "ModeCharDevice = 0x00200000"
definition ModeSticky :: filemode where "ModeSticky = 0x00100000"

definition ModePerm :: filemode where "ModePerm = 0x1FF"

text \<open>The permission bits of a Unix mode: set-user-id, set-group-id, sticky.\<close>

definition S_ISUID :: filemode where "S_ISUID = 0x800"
definition S_ISGID :: filemode where "S_ISGID = 0x400"
definition S_ISVTX :: filemode where "S_ISVTX = 0x200"

definition S_IFBLK :: filemode where "S_IFBLK = 0x6000"
definition S_IFCHR :: filemode where "S_IFCHR = 0x2000"
definition S_IFIFO :: filemode where "S_IFIFO = 0x1000"
definition S_IFMT :: filemode where "S_IFMT = 0xF000"

definition mode_perm :: "filemode \<Rightarrow> filemode" where
  "mode_perm m = m AND ModePerm"

definition mode_is_dir :: "filemode \<Rightarrow> bool" where
  "mode_is_dir m \<longleftrightarrow> m AND ModeDir \<noteq> 0"

definition mode_is_symlink :: "filemode \<Rightarrow> bool" where
  "mode_is_symlink m \<longleftrightarrow> m AND ModeSymlink \<noteq> 0"

definition mode_is_chardev :: "filemode \<Rightarrow> bool" where
  "mode_is_chardev m \<longleftrightarrow> m AND ModeCharDevice \<noteq> 0"

text \<open>The set-id and sticky bits of a Unix mode, as \<open>io/fs\<close> mode bits.\<close>

definition special_bits :: "filemode \<Rightarrow> filemode" where
  "special_bits m =
     (if m AND S_ISUID \<noteq> 0 then ModeSetuid else 0) OR
     (if m AND S_ISGID \<noteq> 0 then ModeSetgid else 0) OR
     (if m AND S_ISVTX \<noteq> 0 then ModeSticky else 0)"

section \<open>Time\<close>

text \<open>A \<open>time.Time\<close> as nanoseconds since the Unix epoch; \<open>zero_time\<close> is the zero value.\<close>

type_synonym time = int

definition second :: int where "second = 1000000000"

definition zero_time :: time where "zero_time = - 62135596800 * second"

definition time_unix :: "time \<Rightarrow> int" where "time_unix t = t div second"
definition time_nanosecond :: "time \<Rightarrow> int" where "time_nanosecond t = t mod second"

section \<open>Tar headers\<close>

datatype typeflag =
    TypeReg | TypeLink | TypeSymlink | TypeChar | TypeBlock | TypeDir | TypeFifo
  | TypeXGlobalHeader | TypeOther nat

record tarHeader =
  hTypeflag :: typeflag
  hName :: string
  hLinkname :: string
  hSize :: "64 word"
  hMode :: "64 word"
  hUid :: int
  hGid :: int
  hUname :: string
  hGname :: string
  hModTime :: time
  hAccessTime :: time
  hChangeTime :: time
  hDevmajor :: int
  hDevminor :: int
  hPAXRecords :: "(string \<times> string) list"

text \<open>
  \<open>hdr.FileInfo().Mode()\<close>: permission bits, special bits, the type from the mode's own type
  bits, then the type from the type flag.
\<close>

definition unix_type_bits :: "filemode \<Rightarrow> filemode" where
  "unix_type_bits m =
     (if m = 0x4000 then ModeDir
      else if m = 0x1000 then ModeNamedPipe
      else if m = 0xA000 then ModeSymlink
      else if m = 0x6000 then ModeDevice
      else if m = 0x2000 then ModeDevice OR ModeCharDevice
      else if m = 0xC000 then ModeSocket
      else 0)"

fun typeflag_bits :: "typeflag \<Rightarrow> filemode" where
  "typeflag_bits TypeSymlink = ModeSymlink"
| "typeflag_bits TypeChar = ModeDevice OR ModeCharDevice"
| "typeflag_bits TypeBlock = ModeDevice"
| "typeflag_bits TypeDir = ModeDir"
| "typeflag_bits TypeFifo = ModeNamedPipe"
| "typeflag_bits _ = 0"

definition hdr_info_mode :: "tarHeader \<Rightarrow> filemode" where
  "hdr_info_mode hdr =
     (let m = ucast (hMode hdr) :: filemode
      in mode_perm m OR special_bits m OR unix_type_bits (m AND NOT 0xFFF)
         OR typeflag_bits (hTypeflag hdr))"

section \<open>Decimal numbers\<close>

text \<open>\<open>strconv.Itoa\<close> on a natural number.\<close>

fun itoa :: "nat \<Rightarrow> string" where
  "itoa n = (if n < 10 then [char_of (48 + n)] else itoa (n div 10) @ [char_of (48 + n mod 10)])"

declare itoa.simps [simp del]

end
