(* ===== verification/FileSys.thy ===== *)
theory FileSys
  imports GoTypes
begin

text \<open>
  The system under the program: an inode file system, path resolution, and the operations of
  package \<open>os\<close> the program calls, both the ones on plain paths and the ones on an
  \<open>os.Root\<close>. Names map to inode numbers, so hard links share one inode; directories are
  listed by their names. Every operation may be refused by the host for a reason of its own
  (permissions, read-only media, I/O): the host's \<open>hFault\<close> decides from the operation, the
  path and the current state.
\<close>

section \<open>Inodes and names\<close>

type_synonym loc = "string list"

datatype ikind =
    KDir
  | KReg string
  | KSym string
  | KBlk "64 word"
  | KChr "64 word"
  | KFifo

text \<open>
  Inodes are numbered across all devices; \<open>inodev\<close> gives the device of an inode and its number
  there, which is what \<open>stat\<close> shows of it.
\<close>

record inode =
  ikind :: ikind
  iperm :: filemode
  iuid :: int
  igid :: int
  iatime :: time
  imtime :: time
  ixattrs :: "(string \<times> string) list"

record fsys =
  dents :: "(loc \<times> nat) list"
  inodes :: "nat \<Rightarrow> inode option"
  nextino :: nat
  umask :: filemode
  inodev :: "nat \<Rightarrow> nat \<times> nat"

definition ino_at :: "fsys \<Rightarrow> loc \<Rightarrow> nat option" where
  "ino_at s p = map_of (dents s) p"

definition node_at :: "fsys \<Rightarrow> loc \<Rightarrow> inode option" where
  "node_at s p = (case ino_at s p of None \<Rightarrow> None | Some i \<Rightarrow> inodes s i)"

definition dir_at :: "fsys \<Rightarrow> loc \<Rightarrow> bool" where
  "dir_at s p = (case node_at s p of None \<Rightarrow> False | Some nd \<Rightarrow> ikind nd = KDir)"

definition upd_inode :: "nat \<Rightarrow> (inode \<Rightarrow> inode) \<Rightarrow> fsys \<Rightarrow> fsys" where
  "upd_inode i f s = s\<lparr>inodes := (inodes s)(i := map_option f (inodes s i))\<rparr>"

definition upd_at :: "loc \<Rightarrow> (inode \<Rightarrow> inode) \<Rightarrow> fsys \<Rightarrow> fsys" where
  "upd_at p f s = (case ino_at s p of None \<Rightarrow> s | Some i \<Rightarrow> upd_inode i f s)"

text \<open>Creating or removing a name writes its directory, whose modification time moves.\<close>

definition touch_parent :: "time \<Rightarrow> loc \<Rightarrow> fsys \<Rightarrow> fsys" where
  "touch_parent now p s = upd_at (butlast p) (\<lambda>nd. nd\<lparr>imtime := now\<rparr>) s"

definition insert_node :: "time \<Rightarrow> loc \<Rightarrow> inode \<Rightarrow> fsys \<Rightarrow> fsys" where
  "insert_node now p nd s =
     touch_parent now p
       (s\<lparr>dents := aput p (nextino s) (dents s),
          inodes := (inodes s)(nextino s := Some nd),
          nextino := Suc (nextino s)\<rparr>)"

definition link_name :: "time \<Rightarrow> loc \<Rightarrow> nat \<Rightarrow> fsys \<Rightarrow> fsys" where
  "link_name now p i s = touch_parent now p (s\<lparr>dents := aput p i (dents s)\<rparr>)"

definition remove_tree :: "time \<Rightarrow> loc \<Rightarrow> fsys \<Rightarrow> fsys" where
  "remove_tree now p s =
     touch_parent now p (s\<lparr>dents := filter (\<lambda>e. \<not> prefix p (fst e)) (dents s)\<rparr>)"

text \<open>The names in a directory, sorted as \<open>os.ReadDir\<close> sorts them.\<close>

definition children :: "fsys \<Rightarrow> loc \<Rightarrow> string list" where
  "children s p =
     sort (remdups (map (\<lambda>e. last (fst e)) (filter (\<lambda>e. fst e \<noteq> [] \<and> butlast (fst e) = p) (dents s))))"

section \<open>The host\<close>

datatype sysop =
    OpLstat | OpStat | OpMkdir | OpOpen | OpWrite | OpRead | OpRemove | OpRemoveAll | OpLink | OpSymlink
  | OpReadlink | OpLchown | OpChown | OpChmod | OpChtimes | OpReadDir | OpOpenRoot | OpMkdirTemp

text \<open>
  \<open>golang.org/x/sys/unix\<close> is not part of the repository: its calls are parameters. A
  directory handle is the location of the directory, a file descriptor a number.
\<close>

type_synonym unix_result = "errno option \<times> fsys"

text \<open>
  \<open>uLgetxattr k path attr n\<close> is the \<open>k\<close>-th call of a sequence with a buffer of \<open>n\<close> bytes:
  the bytes it stored and the size it returned (the attribute may change between two calls).
\<close>

text \<open>\<open>uReadDirent k d n\<close> is the \<open>k\<close>-th call on an open directory with a buffer of \<open>n\<close> bytes.\<close>

record unixcalls =
  uReadDirent :: "nat \<Rightarrow> loc \<Rightarrow> nat \<Rightarrow> fsys \<Rightarrow> errno + string"
  uLgetxattr :: "nat \<Rightarrow> string \<Rightarrow> string \<Rightarrow> nat \<Rightarrow> fsys \<Rightarrow> errno + string \<times> nat"
  uMajor :: "64 word \<Rightarrow> 32 word"
  uMinor :: "64 word \<Rightarrow> 32 word"
  uLsetxattr :: "string \<Rightarrow> string \<Rightarrow> string \<Rightarrow> fsys \<Rightarrow> unix_result"
  uFsetxattr :: "loc \<Rightarrow> string \<Rightarrow> string \<Rightarrow> fsys \<Rightarrow> unix_result"
  uMknodat :: "loc \<Rightarrow> string \<Rightarrow> filemode \<Rightarrow> 64 word \<Rightarrow> fsys \<Rightarrow> unix_result"
  uMkdev :: "32 word \<Rightarrow> 32 word \<Rightarrow> 64 word"
  uFchownat :: "loc \<Rightarrow> string \<Rightarrow> int \<Rightarrow> int \<Rightarrow> fsys \<Rightarrow> unix_result"
  uFchmodat :: "loc \<Rightarrow> string \<Rightarrow> filemode \<Rightarrow> fsys \<Rightarrow> unix_result"
  uOpenatPath :: "loc \<Rightarrow> string \<Rightarrow> fsys \<Rightarrow> errno + nat"
  uFchmodatFd :: "loc \<Rightarrow> string \<Rightarrow> filemode \<Rightarrow> fsys \<Rightarrow> unix_result"
  uChmod :: "string \<Rightarrow> filemode \<Rightarrow> fsys \<Rightarrow> unix_result"
  uUtimesNanoAt :: "loc \<Rightarrow> string \<Rightarrow> (int \<times> int) \<Rightarrow> (int \<times> int) \<Rightarrow> fsys \<Rightarrow> unix_result"

text \<open>
  What else the program reads from its host: the process's root and working directory, the
  limits on followed symlinks of the kernel and of \<open>os.Root\<close>, the clock, the user and group
  the process creates files as, the name
  \<open>os.MkdirTemp\<close> picks, whether \<open>userns.RunningInUserNS()\<close>, and whether
  \<open>syscall.Timespec\<close> counts nanoseconds in 64 bits.
\<close>

record host =
  hFault :: "sysop \<Rightarrow> string \<Rightarrow> fsys \<Rightarrow> errno option"
  hUnix :: unixcalls
  hRoot :: loc
  hCwd :: loc
  hLinks :: nat
  hRootLinks :: nat
  hNow :: time
  hEuid :: int
  hEgid :: int
  hTempName :: "fsys \<Rightarrow> string"
  hUserNS :: bool
  hNsec64 :: bool

section \<open>Path resolution\<close>

text \<open>
  Two scopes of resolution below a base location. \<open>Beneath\<close> is \<open>os.Root\<close>: leaving the base
  through \<open>..\<close> or an absolute symlink is an error. \<open>InRoot\<close> is a kernel whose root is the
  base: \<open>..\<close> stops there and absolute symlinks start again there. \<open>st\<close> is the location
  reached below the base, \<open>links\<close> the number of symlinks that may still be followed, and
  \<open>follow\<close> whether the last component is followed. The last component need not exist.
\<close>

datatype scope = Beneath | InRoot

function walk :: "fsys \<Rightarrow> scope \<Rightarrow> loc \<Rightarrow> bool \<Rightarrow> nat \<Rightarrow> loc \<Rightarrow> string list \<Rightarrow> goerror + loc" where
  "walk s sc base follow links st [] = Inr st"
| "walk s sc base follow links st (c # cs) =
     (if c = [] \<or> c = dot then walk s sc base follow links st cs
      else if c = dotdot then
        (if st = [] then
           (case sc of Beneath \<Rightarrow> Inl PathEscapes | InRoot \<Rightarrow> walk s sc base follow links [] cs)
         else walk s sc base follow links (butlast st) cs)
      else
        (case node_at s (base @ st @ [c]) of
           None \<Rightarrow> (if cs = [] then Inr (st @ [c]) else Inl (Errno ENOENT))
         | Some nd \<Rightarrow>
             (case ikind nd of
                KSym t \<Rightarrow>
                  (if cs = [] \<and> \<not> follow then Inr (st @ [c])
                   else if links = 0 then Inl (Errno ELOOP)
                   else if IsAbs t then
                     (case sc of
                        Beneath \<Rightarrow> Inl PathEscapes
                      | InRoot \<Rightarrow> walk s sc base follow (links - 1) [] (split_slash t @ cs))
                   else walk s sc base follow (links - 1) st (split_slash t @ cs))
              | KDir \<Rightarrow> walk s sc base follow links (st @ [c]) cs
              | _ \<Rightarrow> (if cs = [] then Inr (st @ [c]) else Inl (Errno ENOTDIR)))))"
  by pat_completeness auto
termination
  by (relation "measures [\<lambda>(s, sc, b, f, l, st, cs). l, \<lambda>(s, sc, b, f, l, st, cs). length cs]") auto

declare walk.simps(2) [simp del]

text \<open>The kernel's resolution of a path name of this process, as a location.\<close>

definition kresolve :: "host \<Rightarrow> bool \<Rightarrow> string \<Rightarrow> fsys \<Rightarrow> goerror + loc" where
  "kresolve h follow path s =
     (if path = [] then Inl (Errno ENOENT)
      else map_sum id (\<lambda>q. hRoot h @ q)
        (walk s InRoot (hRoot h) follow (hLinks h)
          (if IsAbs path then [] else hCwd h) (split_slash path)))"

text \<open>An \<open>*os.Root\<close>: the name it was opened with and the directory it holds.\<close>

record goRoot =
  rName :: string
  rDir :: loc

definition rresolve :: "host \<Rightarrow> goRoot \<Rightarrow> bool \<Rightarrow> string \<Rightarrow> fsys \<Rightarrow> goerror + loc" where
  "rresolve h R follow name s =
     (if name = [] then Inl (Errno ENOENT)
      else if IsAbs name then Inl PathEscapes
      else map_sum id (\<lambda>q. rDir R @ q)
        (walk s Beneath (rDir R) follow (hRootLinks h) [] (split_slash name)))"

section \<open>Primitive operations at a location\<close>

type_synonym 'a prim = "loc \<Rightarrow> fsys \<Rightarrow> (errno + 'a) \<times> fsys"

record FileInfo =
  fiMode :: filemode
  fiSize :: int
  fiModTime :: time
  fiDev :: nat
  fiIno :: nat
  fiNlink :: nat
  fiUid :: int
  fiGid :: int
  fiRdev :: "64 word"

fun kind_bits :: "ikind \<Rightarrow> filemode" where
  "kind_bits KDir = ModeDir"
| "kind_bits (KReg _) = 0"
| "kind_bits (KSym _) = ModeSymlink"
| "kind_bits (KBlk _) = ModeDevice"
| "kind_bits (KChr _) = ModeDevice OR ModeCharDevice"
| "kind_bits KFifo = ModeNamedPipe"

fun kind_rdev :: "ikind \<Rightarrow> 64 word" where
  "kind_rdev (KBlk d) = d"
| "kind_rdev (KChr d) = d"
| "kind_rdev _ = 0"

fun kind_size :: "ikind \<Rightarrow> int" where
  "kind_size (KReg d) = int (length d)"
| "kind_size (KSym t) = int (length t)"
| "kind_size _ = 0"

definition inode_mode :: "inode \<Rightarrow> filemode" where
  "inode_mode nd = kind_bits (ikind nd) OR special_bits (iperm nd) OR mode_perm (iperm nd)"

definition fileinfo :: "fsys \<Rightarrow> nat \<Rightarrow> inode \<Rightarrow> FileInfo" where
  "fileinfo s i nd =
     \<lparr>fiMode = inode_mode nd, fiSize = kind_size (ikind nd), fiModTime = imtime nd,
      fiDev = fst (inodev s i), fiIno = snd (inodev s i), fiNlink = length (filter (\<lambda>e. snd e = i) (dents s)),
      fiUid = iuid nd, fiGid = igid nd, fiRdev = kind_rdev (ikind nd)\<rparr>"

definition fi_is_dir :: "FileInfo \<Rightarrow> bool" where
  "fi_is_dir fi = mode_is_dir (fiMode fi)"

definition fi_is_symlink :: "FileInfo \<Rightarrow> bool" where
  "fi_is_symlink fi = mode_is_symlink (fiMode fi)"

definition p_stat :: "FileInfo prim" where
  "p_stat p s =
     (case ino_at s p of
        None \<Rightarrow> (Inl ENOENT, s)
      | Some i \<Rightarrow> (case inodes s i of None \<Rightarrow> (Inl ENOENT, s) | Some nd \<Rightarrow> (Inr (fileinfo s i nd), s)))"

definition p_readlink :: "string prim" where
  "p_readlink p s =
     (case node_at s p of
        None \<Rightarrow> (Inl ENOENT, s)
      | Some nd \<Rightarrow> (case ikind nd of KSym t \<Rightarrow> (Inr t, s) | _ \<Rightarrow> (Inl EINVAL, s)))"

definition new_inode :: "host \<Rightarrow> ikind \<Rightarrow> filemode \<Rightarrow> inode" where
  "new_inode h k perm =
     \<lparr>ikind = k, iperm = perm, iuid = hEuid h, igid = hEgid h, iatime = hNow h, imtime = hNow h,
      ixattrs = []\<rparr>"

definition p_mkdir :: "host \<Rightarrow> filemode \<Rightarrow> unit prim" where
  "p_mkdir h perm p s =
     (if node_at s p \<noteq> None then (Inl EEXIST, s)
      else (Inr (), insert_node (hNow h) p (new_inode h KDir (mode_perm perm AND NOT (umask s))) s))"

text \<open>\<open>OpenFile\<close> with \<open>O_CREATE|O_WRONLY|O_TRUNC\<close>; the handle is the inode number.\<close>

definition p_create :: "host \<Rightarrow> filemode \<Rightarrow> nat prim" where
  "p_create h perm p s =
     (case ino_at s p of
        None \<Rightarrow> (Inr (nextino s), insert_node (hNow h) p (new_inode h (KReg []) (mode_perm perm AND NOT (umask s))) s)
      | Some i \<Rightarrow>
          (case inodes s i of
             None \<Rightarrow> (Inl ENOENT, s)
           | Some nd \<Rightarrow>
               (case ikind nd of
                  KDir \<Rightarrow> (Inl EISDIR, s)
                | KReg _ \<Rightarrow> (Inr i, upd_inode i (\<lambda>nd. nd\<lparr>ikind := KReg [], imtime := hNow h\<rparr>) s)
                | KSym _ \<Rightarrow> (Inl ELOOP, s)
                | _ \<Rightarrow> (Inr i, s))))"

definition p_open :: "loc prim" where
  "p_open p s = (if node_at s p = None then (Inl ENOENT, s) else (Inr p, s))"

definition p_remove_all :: "host \<Rightarrow> unit prim" where
  "p_remove_all h p s =
     (if ino_at s p = None then (Inr (), s) else (Inr (), remove_tree (hNow h) p s))"

definition p_symlink :: "host \<Rightarrow> string \<Rightarrow> unit prim" where
  "p_symlink h target p s =
     (if target = [] then (Inl ENOENT, s)
      else if node_at s p \<noteq> None then (Inl EEXIST, s)
      else (Inr (), insert_node (hNow h) p (new_inode h (KSym target) 0x1FF) s))"

text \<open>
  Changing the owner of anything but a directory clears its set-user-id bit, and its
  set-group-id bit where the group may execute it.
\<close>

definition kill_setid :: "ikind \<Rightarrow> filemode \<Rightarrow> filemode" where
  "kill_setid k m =
     (if k = KDir then m
      else if m AND 0x008 \<noteq> 0 then m AND NOT 0xC00
      else m AND NOT S_ISUID)"

definition p_lchown :: "int \<Rightarrow> int \<Rightarrow> unit prim" where
  "p_lchown uid gid p s =
     (if node_at s p = None then (Inl ENOENT, s)
      else (Inr (), upd_at p (\<lambda>nd. nd\<lparr>iuid := uid, igid := gid, iperm := kill_setid (ikind nd) (iperm nd)\<rparr>) s))"

definition p_chmod :: "filemode \<Rightarrow> unit prim" where
  "p_chmod perm p s =
     (if node_at s p = None then (Inl ENOENT, s)
      else (Inr (), upd_at p (\<lambda>nd. nd\<lparr>iperm := perm AND 0xFFF\<rparr>) s))"

definition p_chtimes :: "time \<Rightarrow> time \<Rightarrow> unit prim" where
  "p_chtimes at mt p s =
     (if node_at s p = None then (Inl ENOENT, s)
      else (Inr (), upd_at p (\<lambda>nd. nd\<lparr>iatime := at, imtime := mt\<rparr>) s))"

text \<open>A directory's entries: the names in order, each with whether it is a directory now.\<close>

definition p_readdir :: "(string \<times> bool) list prim" where
  "p_readdir p s =
     (case node_at s p of
        None \<Rightarrow> (Inl ENOENT, s)
      | Some nd \<Rightarrow>
          if ikind nd = KDir
          then (Inr (map (\<lambda>n. (n, dir_at s (p @ [n]))) (children s p)), s)
          else (Inl ENOTDIR, s))"

text \<open>Appending to an open regular file; writes to other kinds of file leave no trace here.\<close>

definition write_ino :: "host \<Rightarrow> nat \<Rightarrow> string \<Rightarrow> fsys \<Rightarrow> fsys" where
  "write_ino h i data s =
     upd_inode i
       (\<lambda>nd. case ikind nd of
               KReg d \<Rightarrow> nd\<lparr>ikind := KReg (d @ data), imtime := hNow h\<rparr>
             | _ \<Rightarrow> nd) s"

end
