(* ===== verification/OsCalls.thy ===== *)
theory OsCalls
  imports FileSys
begin

text \<open>
  Package \<open>os\<close> as the program calls it: the methods of \<open>os.Root\<close> and the functions on plain
  paths, each as a statement on the file system. A call first meets the host's own refusal,
  then resolves its path, then acts at the location reached; every error is wrapped with the
  operation and the path.
\<close>

section \<open>Methods of os.Root\<close>

definition root_op ::
  "host \<Rightarrow> goRoot \<Rightarrow> sysop \<Rightarrow> string \<Rightarrow> bool \<Rightarrow> 'a prim \<Rightarrow> string \<Rightarrow> (fsys, goerror, 'a) io" where
  "root_op h R op opname follow f name s =
     (case hFault h op name s of
        Some e \<Rightarrow> (Inl (PathError opname name (Errno e)), s)
      | None \<Rightarrow>
          (case rresolve h R follow name s of
             Inl e \<Rightarrow> (Inl (PathError opname name e), s)
           | Inr p \<Rightarrow>
               (case f p s of
                  (Inl e, s') \<Rightarrow> (Inl (PathError opname name (Errno e)), s')
                | (Inr x, s') \<Rightarrow> (Inr x, s'))))"

definition root_Stat :: "host \<Rightarrow> goRoot \<Rightarrow> string \<Rightarrow> (fsys, goerror, FileInfo) io" where
  "root_Stat h R = root_op h R OpStat ''statat'' True p_stat"

definition root_Lstat :: "host \<Rightarrow> goRoot \<Rightarrow> string \<Rightarrow> (fsys, goerror, FileInfo) io" where
  "root_Lstat h R = root_op h R OpLstat ''lstatat'' False p_stat"

definition root_Mkdir :: "host \<Rightarrow> goRoot \<Rightarrow> string \<Rightarrow> filemode \<Rightarrow> (fsys, goerror, unit) io" where
  "root_Mkdir h R name perm = root_op h R OpMkdir ''mkdirat'' False (p_mkdir h perm) name"

definition root_Create :: "host \<Rightarrow> goRoot \<Rightarrow> string \<Rightarrow> filemode \<Rightarrow> (fsys, goerror, nat) io" where
  "root_Create h R name perm = root_op h R OpOpen ''openat'' True (p_create h perm) name"

definition root_Open :: "host \<Rightarrow> goRoot \<Rightarrow> string \<Rightarrow> (fsys, goerror, loc) io" where
  "root_Open h R = root_op h R OpOpen ''openat'' True p_open"

text \<open>\<open>OpenFile\<close> with \<open>O_RDONLY|O_DIRECTORY\<close>.\<close>

definition root_OpenDir :: "host \<Rightarrow> goRoot \<Rightarrow> string \<Rightarrow> (fsys, goerror, loc) io" where
  "root_OpenDir h R =
     root_op h R OpOpen ''openat'' True
       (\<lambda>p s. if node_at s p = None then (Inl ENOENT, s)
               else if dir_at s p then (Inr p, s) else (Inl ENOTDIR, s))"

definition root_Symlink :: "host \<Rightarrow> goRoot \<Rightarrow> string \<Rightarrow> string \<Rightarrow> (fsys, goerror, unit) io" where
  "root_Symlink h R target name = root_op h R OpSymlink ''symlinkat'' False (p_symlink h target) name"

definition root_Lchown :: "host \<Rightarrow> goRoot \<Rightarrow> string \<Rightarrow> int \<Rightarrow> int \<Rightarrow> (fsys, goerror, unit) io" where
  "root_Lchown h R name uid gid = root_op h R OpLchown ''lchownat'' False (p_lchown uid gid) name"

definition root_Chtimes :: "host \<Rightarrow> goRoot \<Rightarrow> string \<Rightarrow> time \<Rightarrow> time \<Rightarrow> (fsys, goerror, unit) io" where
  "root_Chtimes h R name at mt = root_op h R OpChtimes ''chtimesat'' True (p_chtimes at mt) name"

text \<open>
  \<open>RemoveAll\<close> strips trailing slashes, refuses a name that ends with a dot component, and
  takes a missing file for success. The root itself is never removed.
\<close>

definition ends_with_dot :: "string \<Rightarrow> bool" where
  "ends_with_dot s \<longleftrightarrow> s = dot \<or> HasSuffix s ''/.''"

definition root_RemoveAll :: "host \<Rightarrow> goRoot \<Rightarrow> string \<Rightarrow> (fsys, goerror, unit) io" where
  "root_RemoveAll h R name s =
     (let name' = TrimRight name slash
      in if ends_with_dot name' then (Inl (PathError ''RemoveAll'' name' (Errno EINVAL)), s)
         else
           (case root_op h R OpRemoveAll ''RemoveAll'' False
                  (\<lambda>p s. if p = rDir R then (Inl EINVAL, s) else p_remove_all h p s) name' s of
              (Inl e, s') \<Rightarrow> if is_not_exist e then (Inr (), s') else (Inl e, s')
            | (Inr _, s') \<Rightarrow> (Inr (), s')))"

text \<open>\<open>Link(oldname, newname)\<close> follows neither final component.\<close>

definition p_link :: "host \<Rightarrow> loc \<Rightarrow> unit prim" where
  "p_link h old p s =
     (case ino_at s old of
        None \<Rightarrow> (Inl ENOENT, s)
      | Some i \<Rightarrow>
          (case inodes s i of
             None \<Rightarrow> (Inl ENOENT, s)
           | Some nd \<Rightarrow>
               (if ikind nd = KDir then (Inl EPERM, s)
                else if node_at s p \<noteq> None then (Inl EEXIST, s)
                else (Inr (), link_name (hNow h) p i s))))"

definition root_Link :: "host \<Rightarrow> goRoot \<Rightarrow> string \<Rightarrow> string \<Rightarrow> (fsys, goerror, unit) io" where
  "root_Link h R oldname newname s =
     (case rresolve h R False oldname s of
        Inl e \<Rightarrow> (Inl (PathError ''linkat'' oldname e), s)
      | Inr old \<Rightarrow> root_op h R OpLink ''linkat'' False (p_link h old) newname s)"

text \<open>\<open>io.Copy\<close> from an entry's body to an open file: what was read before a read error is written.\<close>

record body =
  bData :: string
  bErr :: "goerror option"

definition file_copy :: "host \<Rightarrow> nat \<Rightarrow> body \<Rightarrow> (fsys, goerror, unit) io" where
  "file_copy h i b s =
     (case hFault h OpWrite [] s of
        Some e \<Rightarrow> (Inl (PathError ''write'' [] (Errno e)), s)
      | None \<Rightarrow>
          (case bErr b of
             None \<Rightarrow> (Inr (), write_ino h i (bData b) s)
           | Some e \<Rightarrow> (Inl e, write_ino h i (bData b) s)))"

text \<open>Methods of an open directory: the handle is its location.\<close>

definition dir_op :: "host \<Rightarrow> sysop \<Rightarrow> string \<Rightarrow> 'a prim \<Rightarrow> loc \<Rightarrow> (fsys, goerror, 'a) io" where
  "dir_op h op opname f d s =
     (case hFault h op (join_slash d) s of
        Some e \<Rightarrow> (Inl (PathError opname [] (Errno e)), s)
      | None \<Rightarrow>
          (case f d s of
             (Inl e, s') \<Rightarrow> (Inl (PathError opname [] (Errno e)), s')
           | (Inr x, s') \<Rightarrow> (Inr x, s')))"

definition file_Chown :: "host \<Rightarrow> loc \<Rightarrow> int \<Rightarrow> int \<Rightarrow> (fsys, goerror, unit) io" where
  "file_Chown h d uid gid = dir_op h OpChown ''chown'' (p_lchown uid gid) d"

definition file_Chmod :: "host \<Rightarrow> loc \<Rightarrow> filemode \<Rightarrow> (fsys, goerror, unit) io" where
  "file_Chmod h d perm = dir_op h OpChmod ''chmod'' (p_chmod perm) d"

section \<open>Functions on plain paths\<close>

definition path_op ::
  "host \<Rightarrow> sysop \<Rightarrow> string \<Rightarrow> bool \<Rightarrow> 'a prim \<Rightarrow> string \<Rightarrow> (fsys, goerror, 'a) io" where
  "path_op h op opname follow f name s =
     (case hFault h op name s of
        Some e \<Rightarrow> (Inl (PathError opname name (Errno e)), s)
      | None \<Rightarrow>
          (case kresolve h follow name s of
             Inl e \<Rightarrow> (Inl (PathError opname name e), s)
           | Inr p \<Rightarrow>
               (case f p s of
                  (Inl e, s') \<Rightarrow> (Inl (PathError opname name (Errno e)), s')
                | (Inr x, s') \<Rightarrow> (Inr x, s'))))"

definition os_Lstat :: "host \<Rightarrow> string \<Rightarrow> (fsys, goerror, FileInfo) io" where
  "os_Lstat h = path_op h OpLstat ''lstat'' False p_stat"

definition os_Stat :: "host \<Rightarrow> string \<Rightarrow> (fsys, goerror, FileInfo) io" where
  "os_Stat h = path_op h OpStat ''stat'' True p_stat"

definition os_Readlink :: "host \<Rightarrow> string \<Rightarrow> (fsys, goerror, string) io" where
  "os_Readlink h = path_op h OpReadlink ''readlink'' False p_readlink"

definition os_ReadDir :: "host \<Rightarrow> string \<Rightarrow> (fsys, goerror, (string \<times> bool) list) io" where
  "os_ReadDir h = path_op h OpReadDir ''open'' True p_readdir"

definition os_OpenRoot :: "host \<Rightarrow> string \<Rightarrow> (fsys, goerror, goRoot) io" where
  "os_OpenRoot h name =
     path_op h OpOpenRoot ''open'' True
       (\<lambda>p s. if node_at s p = None then (Inl ENOENT, s)
               else if dir_at s p then (Inr \<lparr>rName = name, rDir = p\<rparr>, s)
               else (Inl ENOTDIR, s)) name"

definition os_RemoveAll :: "host \<Rightarrow> string \<Rightarrow> (fsys, goerror, unit) io" where
  "os_RemoveAll h name s =
     (if name = [] then (Inr (), s)
      else if ends_with_dot name then (Inl (PathError ''RemoveAll'' name (Errno EINVAL)), s)
      else
        (case path_op h OpRemoveAll ''unlinkat'' False (p_remove_all h) name s of
           (Inl e, s') \<Rightarrow> if is_not_exist e then (Inr (), s') else (Inl e, s')
         | (Inr _, s') \<Rightarrow> (Inr (), s')))"

definition p_remove :: "host \<Rightarrow> unit prim" where
  "p_remove h p s =
     (if ino_at s p = None then (Inl ENOENT, s)
      else if children s p \<noteq> [] then (Inl ENOTEMPTY, s)
      else (Inr (), remove_tree (hNow h) p s))"

definition os_Remove :: "host \<Rightarrow> string \<Rightarrow> (fsys, goerror, unit) io" where
  "os_Remove h = path_op h OpRemove ''remove'' False (p_remove h)"

text \<open>\<open>os.MkdirTemp(dir, pattern)\<close> appends a random string to the pattern; mode 0700.\<close>

definition os_MkdirTemp :: "host \<Rightarrow> string \<Rightarrow> string \<Rightarrow> (fsys, goerror, string) io" where
  "os_MkdirTemp h d pattern s =
     (let name = (if HasSuffix d [slash] then d else d @ [slash]) @ pattern @ hTempName h s
      in case path_op h OpMkdirTemp ''mkdirtemp'' False (p_mkdir h 0x1C0) name s of
           (Inl e, s') \<Rightarrow> (Inl e, s')
         | (Inr _, s') \<Rightarrow> (Inr name, s'))"

text \<open>\<open>os.Open\<close> followed by reading to the end.\<close>

definition os_ReadFile :: "host \<Rightarrow> string \<Rightarrow> (fsys, goerror, string) io" where
  "os_ReadFile h =
     path_op h OpOpen ''open'' True
       (\<lambda>p s. case node_at s p of
                 None \<Rightarrow> (Inl ENOENT, s)
               | Some nd \<Rightarrow> (case ikind nd of KReg d \<Rightarrow> (Inr d, s) | KDir \<Rightarrow> (Inl EISDIR, s) | _ \<Rightarrow> (Inr [], s)))"

definition wrap_unix :: "(errno \<Rightarrow> goerror) \<Rightarrow> (fsys \<Rightarrow> unix_result) \<Rightarrow> (fsys, goerror, unit) io" where
  "wrap_unix w f s = (case f s of (None, s') \<Rightarrow> (Inr (), s') | (Some e, s') \<Rightarrow> (Inl (w e), s'))"

section \<open>filepath.WalkDir\<close>

text \<open>
  The walk calls \<open>fn\<close> on a path, then on the entries of a directory in order. \<open>fn\<close> is
  called again with the error when the directory cannot be read, and may end the current
  directory (\<open>SkipDir\<close>) or the walk (an error). \<open>fuel\<close> bounds the depth;
  \<open>walk_depth\<close> is enough for any walk, as no path of the file system is longer.
\<close>

datatype wsignal = SkipDir | WalkErr goerror | WalkFuel

fun walk_entries ::
  "(string \<Rightarrow> bool \<Rightarrow> ('s, wsignal, unit) io) \<Rightarrow> (string \<times> bool) list \<Rightarrow> ('s, wsignal, unit) io" where
  "walk_entries f [] = ret ()"
| "walk_entries f ((n, d) # es) =
     bindE (tryE (f n d)) (\<lambda>r.
       case r of
         Inl SkipDir \<Rightarrow> ret ()
       | Inl e \<Rightarrow> fail e
       | Inr _ \<Rightarrow> walk_entries f es)"

text \<open>\<open>rd\<close> reads a directory in the state the walk runs in.\<close>

fun walkDir ::
  "nat \<Rightarrow> (string \<Rightarrow> ('s, goerror, (string \<times> bool) list) io) \<Rightarrow>
     (string \<Rightarrow> bool \<Rightarrow> goerror option \<Rightarrow> ('s, wsignal, unit) io) \<Rightarrow>
     string \<Rightarrow> bool \<Rightarrow> ('s, wsignal, unit) io" where
  "walkDir 0 rd fn path d = fail WalkFuel"
| "walkDir (Suc n) rd fn path d =
     bindE (tryE (fn path d None)) (\<lambda>r.
       case r of
         Inl SkipDir \<Rightarrow> if d then ret () else fail SkipDir
       | Inl e \<Rightarrow> fail e
       | Inr _ \<Rightarrow>
           if \<not> d then ret ()
           else
             bindE (tryE (rd path)) (\<lambda>dirs.
               case dirs of
                 Inl err \<Rightarrow>
                   bindE (tryE (fn path d (Some err))) (\<lambda>r.
                     case r of
                       Inl SkipDir \<Rightarrow> ret ()
                     | Inl e \<Rightarrow> fail e
                     | Inr _ \<Rightarrow> ret ())
               | Inr es \<Rightarrow> walk_entries (\<lambda>nm. walkDir n rd fn (Join [path, nm])) es))"

definition walk_depth :: "fsys \<Rightarrow> nat" where
  "walk_depth s = Suc (Suc (fold (\<lambda>e m. max (length (fst e)) m) (dents s) 0))"

text \<open>\<open>WalkDir\<close> in any state that holds a file system, which \<open>fs\<close> projects.\<close>

definition WalkDir_in ::
  "('s \<Rightarrow> fsys) \<Rightarrow> (string \<Rightarrow> ('s, goerror, FileInfo) io) \<Rightarrow>
     (string \<Rightarrow> ('s, goerror, (string \<times> bool) list) io) \<Rightarrow> string \<Rightarrow>
     (string \<Rightarrow> bool \<Rightarrow> goerror option \<Rightarrow> ('s, wsignal, unit) io) \<Rightarrow> ('s, goerror, unit) io" where
  "WalkDir_in fs lstat rd root fn s =
     (case (case lstat root s of
              (Inl err, s') \<Rightarrow> fn root False (Some err) s'
            | (Inr fi, s') \<Rightarrow> walkDir (walk_depth (fs s')) rd fn root (fi_is_dir fi) s') of
        (Inr _, s') \<Rightarrow> (Inr (), s')
      | (Inl SkipDir, s') \<Rightarrow> (Inr (), s')
      | (Inl (WalkErr e), s') \<Rightarrow> (Inl e, s')
      | (Inl WalkFuel, s') \<Rightarrow> (Inl (GoPanic ''walk fuel''), s'))"

definition WalkDir ::
  "host \<Rightarrow> string \<Rightarrow> (string \<Rightarrow> bool \<Rightarrow> goerror option \<Rightarrow> (fsys, wsignal, unit) io) \<Rightarrow>
     (fsys, goerror, unit) io" where
  "WalkDir h = WalkDir_in (\<lambda>s. s) (os_Lstat h) (os_ReadDir h)"

end
