(* ===== verification/Compress.thy ===== *)
theory Compress
  imports OsCalls
begin

text \<open>
  Package \<open>compression\<close>: recognising a compression format by its first bytes, and choosing the
  decompressor or compressor. The codecs themselves (\<open>compress/gzip\<close>, \<open>compress/bzip2\<close>,
  \<open>klauspost/compress/zstd\<close>), external commands and the environment are parameters (\<open>codecs\<close>).
  A reader is the bytes it yields and the error that ends it (\<open>body\<close>; no error is \<open>io.EOF\<close>).
\<close>

section \<open>Detection\<close>

datatype Compression = CompNone | Bzip2 | Gzip | Xz | Zstd

definition Extension :: "Compression \<Rightarrow> string" where
  "Extension c =
     (case c of
        CompNone \<Rightarrow> ''tar''
      | Bzip2 \<Rightarrow> ''tar.bz2''
      | Gzip \<Rightarrow> ''tar.gz''
      | Xz \<Rightarrow> ''tar.xz''
      | Zstd \<Rightarrow> ''tar.zst'')"

type_synonym bytes = "8 word list"

definition bzip2Magic :: bytes where "bzip2Magic = [0x42, 0x5A, 0x68]"
definition gzipMagic :: bytes where "gzipMagic = [0x1F, 0x8B, 0x08]"
definition xzMagic :: bytes where "xzMagic = [0xFD, 0x37, 0x7A, 0x58, 0x5A, 0x00]"
definition zstdMagic :: bytes where "zstdMagic = [0x28, 0xB5, 0x2F, 0xFD]"

definition zstdMagicSkippableStart :: "32 word" where
  "zstdMagicSkippableStart = 0x184D2A50"

definition zstdMagicSkippableMask :: "32 word" where
  "zstdMagicSkippableMask = 0xFFFFFFF0"

lemmas magic_defs = bzip2Magic_def gzipMagic_def xzMagic_def zstdMagic_def

definition magicNumberMatcher :: "bytes \<Rightarrow> bytes \<Rightarrow> bool" where
  "magicNumberMatcher m source \<longleftrightarrow> take (length m) source = m"

text \<open>\<open>binary.LittleEndian.Uint32\<close> of four bytes.\<close>

definition le_uint32 :: "bytes \<Rightarrow> 32 word" where
  "le_uint32 b =
     ucast (b ! 0) OR push_bit 8 (ucast (b ! 1)) OR push_bit 16 (ucast (b ! 2))
     OR push_bit 24 (ucast (b ! 3))"

definition zstdMatcher :: "bytes \<Rightarrow> bool" where
  "zstdMatcher source =
     (if magicNumberMatcher zstdMagic source then True
      else if length source < 8 then False
      else if le_uint32 (take 4 source) AND zstdMagicSkippableMask = zstdMagicSkippableStart then True
      else False)"

definition compressionMap :: "Compression \<Rightarrow> bytes \<Rightarrow> bool" where
  "compressionMap c =
     (case c of
        Bzip2 \<Rightarrow> magicNumberMatcher bzip2Magic
      | Gzip \<Rightarrow> magicNumberMatcher gzipMagic
      | Xz \<Rightarrow> magicNumberMatcher xzMagic
      | Zstd \<Rightarrow> zstdMatcher
      | CompNone \<Rightarrow> (\<lambda>_. False))"

fun detect_in :: "Compression list \<Rightarrow> bytes \<Rightarrow> Compression" where
  "detect_in [] source = CompNone"
| "detect_in (c # cs) source = (if compressionMap c source then c else detect_in cs source)"

definition Detect :: "bytes \<Rightarrow> Compression" where
  "Detect source = detect_in [Bzip2, Gzip, Xz, Zstd] source"

section \<open>The buffered reader\<close>

text \<open>
  \<open>bufferedReader\<close>: its buffer goes back to the pool at the end of the stream and is gone
  afterwards (\<open>None\<close>). \<open>Read\<close> takes up to \<open>n\<close> bytes.
\<close>

definition EOF :: goerror where
  "EOF = IOError ''EOF''"

text \<open>What an \<open>io.Pipe\<close> returns once its reading end is closed.\<close>

definition ErrClosedPipe :: goerror where
  "ErrClosedPipe = IOError ''io: read/write on closed pipe''"

type_synonym bufferedReader = "body option"

definition newBufferedReader :: "body \<Rightarrow> bufferedReader" where
  "newBufferedReader r = Some r"

definition bufio_Read :: "nat \<Rightarrow> body \<Rightarrow> (string \<times> goerror option) \<times> body" where
  "bufio_Read n r =
     (if n = 0 then (([], None), r)
      else if bData r = [] then (([], Some (case bErr r of None \<Rightarrow> EOF | Some e \<Rightarrow> e)), r)
      else ((take n (bData r), None), r\<lparr>bData := drop n (bData r)\<rparr>))"

definition bufferedReader_Read ::
  "nat \<Rightarrow> bufferedReader \<Rightarrow> (string \<times> goerror option) \<times> bufferedReader" where
  "bufferedReader_Read n r =
     (case r of
        None \<Rightarrow> (([], Some EOF), None)
      | Some b \<Rightarrow>
          (case bufio_Read n b of
             (res, b') \<Rightarrow> (res, if snd res = Some EOF then None else Some b')))"

definition bufferedReader_Peek :: "nat \<Rightarrow> bufferedReader \<Rightarrow> string \<times> goerror option" where
  "bufferedReader_Peek n r =
     (case r of
        None \<Rightarrow> ([], Some EOF)
      | Some b \<Rightarrow>
          (take n (bData b),
           if n \<le> length (bData b) then None else Some (case bErr b of None \<Rightarrow> EOF | Some e \<Rightarrow> e)))"

section \<open>Decompression\<close>

record codecs =
  cGzipReader :: "body \<Rightarrow> goerror + body"
  cBzip2Reader :: "body \<Rightarrow> body"
  cZstdReader :: "body \<Rightarrow> goerror + body"
  cStart :: "string list \<Rightarrow> goerror option"
  cStdout :: "string list \<Rightarrow> body \<Rightarrow> string"
  cWait :: "string list \<Rightarrow> body \<Rightarrow> goerror option"
  cStderr :: "string list \<Rightarrow> body \<Rightarrow> string"
  cLookPath :: "string \<Rightarrow> goerror + string"
  cGetenv :: "string \<Rightarrow> string"
  cGzipWriter :: "string \<Rightarrow> string"

text \<open>The output of a command as a stream; a failure ends the stream with an error.\<close>

definition cmdStream :: "codecs \<Rightarrow> string list \<Rightarrow> body \<Rightarrow> goerror + body" where
  "cmdStream cd cmd inp =
     (case cStart cd cmd of
        Some err \<Rightarrow> Inl err
      | None \<Rightarrow>
          Inr \<lparr>bData = cStdout cd cmd inp,
               bErr = (case cWait cd cmd inp of
                         None \<Rightarrow> None
                       | Some err \<Rightarrow> Some (ErrWrap ''%w: %s'' [cStderr cd cmd inp] err))\<rparr>)"

definition xzDecompress :: "codecs \<Rightarrow> body \<Rightarrow> goerror + body" where
  "xzDecompress cd archive = cmdStream cd [''xz'', ''-d'', ''-c'', ''-q''] archive"

definition ParseBool :: "string \<Rightarrow> bool option" where
  "ParseBool str =
     (if str \<in> set [''1'', ''t'', ''T'', ''TRUE'', ''true'', ''True''] then Some True
      else if str \<in> set [''0'', ''f'', ''F'', ''FALSE'', ''false'', ''False''] then Some False
      else None)"

definition gzipDecompress :: "codecs \<Rightarrow> body \<Rightarrow> goerror + body" where
  "gzipDecompress cd buf =
     (let noPigzEnv = cGetenv cd ''MOBY_DISABLE_PIGZ'';
          noPigz = (if noPigzEnv \<noteq> [] then (case ParseBool noPigzEnv of Some b \<Rightarrow> b | None \<Rightarrow> False)
                    else False)
      in if noPigz then cGzipReader cd buf
         else
           (case cLookPath cd ''unpigz'' of
              Inl _ \<Rightarrow> cGzipReader cd buf
            | Inr unpigzPath \<Rightarrow> cmdStream cd [unpigzPath, ''-d'', ''-c''] buf))"

definition to_bytes :: "string \<Rightarrow> bytes" where
  "to_bytes s = map of_char s"

definition DecompressStream :: "codecs \<Rightarrow> body \<Rightarrow> goerror + body" where
  "DecompressStream cd archive =
     (let buf = newBufferedReader archive;
          (bs, err) = bufferedReader_Peek 10 buf
      in if err \<noteq> None \<and> err \<noteq> Some EOF then Inl (the err)
         else
           (case Detect (to_bytes bs) of
              CompNone \<Rightarrow> Inr archive
            | Gzip \<Rightarrow> gzipDecompress cd archive
            | Bzip2 \<Rightarrow> Inr (cBzip2Reader cd archive)
            | Xz \<Rightarrow> xzDecompress cd archive
            | Zstd \<Rightarrow> cZstdReader cd archive))"

section \<open>Compression\<close>

datatype writeCloser = NopWriteCloser | GzipWriteCloser

definition CompressStream :: "Compression \<Rightarrow> goerror + writeCloser" where
  "CompressStream compression =
     (case compression of
        CompNone \<Rightarrow> Inr NopWriteCloser
      | Gzip \<Rightarrow> Inr GzipWriteCloser
      | Bzip2 \<Rightarrow> Inl (ErrMsg ''unsupported compression format: tar.bz2'' [])
      | Xz \<Rightarrow> Inl (ErrMsg ''unsupported compression format: tar.xz'' [])
      | Zstd \<Rightarrow> Inl (ErrMsg ''unsupported compression format'' [itoa 4]))"

text \<open>The bytes at the destination once the writer is closed.\<close>

fun written :: "codecs \<Rightarrow> writeCloser \<Rightarrow> string \<Rightarrow> string" where
  "written cd NopWriteCloser data = data"
| "written cd GzipWriteCloser data = cGzipWriter cd data"

end
