(* ===== verification/CmdPipe.thy ===== *)
theory CmdPipe
  imports Compress
begin

text \<open>
  \<open>cmdStream\<close> of package \<open>compression\<close> as the concurrent program it is: the command, the goroutines
  of \<open>os/exec\<close> that copy its streams, the goroutine that waits for it, the \<open>io.Pipe\<close> between them
  and the reader, and the close function of \<open>DecompressStream\<close>. The parties take steps in any order; every
  order in which the reader reads to the end is the stream that \<open>Compress.cmdStream\<close> describes, and closing
  always returns, after the command is gone.
\<close>

section \<open>The state\<close>

text \<open>
  What the command does with its output is a list of single bytes for its two streams; then it exits. It may
  be killed before that, or end with some status because nothing reads its output any more.
\<close>

datatype cmdByte = Stdout char | Stderr char

datatype child = Alive "cmdByte list" | Exited | Killed | BrokenPipe "goerror option"

text \<open>How far the close function has come: \<open>cancel\<close>, then \<open>reader.Close\<close>, then \<open><-done\<close>.\<close>

datatype closer = NotCalled | Cancelled | Waiting | Returned

text \<open>
  \<open>cmOut\<close> is what was written to standard output and not yet read by the reader (the pipe of the system and the
  buffer of \<open>io.Copy\<close>), \<open>cmErr\<close> what is on its way to \<open>errBuf\<close>. \<open>cmIn\<close>, \<open>cmCopied\<close> and \<open>cmErrCopied\<close> say whether and
  how the three copying goroutines have ended; \<open>cmWriter\<close> is what the writing end of the \<open>io.Pipe\<close>
  was closed with, where no error stands for \<open>io.EOF\<close>; \<open>cmCtx\<close> the error of the context that \<open>Wait\<close> reports.
  \<open>cmGot\<close> and \<open>cmEnd\<close> are what the reader has got: bytes, and the error of its last \<open>Read\<close>.
\<close>

record cmdState =
  cmChild :: child
  cmOut :: string
  cmErr :: string
  cmErrBuf :: string
  cmIn :: "goerror option option"
  cmCopied :: "goerror option option"
  cmErrCopied :: bool
  cmKillSent :: bool
  cmCtx :: "goerror option"
  cmWriter :: "goerror option option"
  cmDone :: bool
  cmReaderClosed :: bool
  cmCloser :: closer
  cmGot :: string
  cmEnd :: "goerror option"

text \<open>The command: its output, the status it exits with (no error is success), and its input.\<close>

record command =
  cdScript :: "cmdByte list"
  cdExit :: "goerror option"
  cdInput :: body

definition cmdStart :: "command \<Rightarrow> cmdState" where
  "cmdStart c =
     \<lparr>cmChild = Alive (cdScript c), cmOut = [], cmErr = [], cmErrBuf = [], cmIn = None, cmCopied = None,
      cmErrCopied = False, cmKillSent = False, cmCtx = None, cmWriter = None, cmDone = False, cmReaderClosed = False,
      cmCloser = NotCalled, cmGot = [], cmEnd = None\<rparr>"

section \<open>The steps\<close>

datatype cmdEvent =
    ChildStep
  | ChildBroken "goerror option"
  | InCopied bool
  | OutCopied
  | ErrCopy
  | WaitReturns
  | CloseDone
  | Kill
  | ReadN nat
  | CloseCancel
  | CloseReader
  | CloseReturns

text \<open>The status \<open>Process.Wait\<close> reports.\<close>

definition status :: "command \<Rightarrow> child \<Rightarrow> goerror option" where
  "status c ch =
     (case ch of
        Alive _ \<Rightarrow> None
      | Exited \<Rightarrow> cdExit c
      | Killed \<Rightarrow> Some (ErrMsg ''signal: killed'' [])
      | BrokenPipe r \<Rightarrow> r)"

definition is_alive :: "child \<Rightarrow> bool" where
  "is_alive ch \<longleftrightarrow> (case ch of Alive _ \<Rightarrow> True | _ \<Rightarrow> False)"

text \<open>\<open>Cmd.Wait\<close>: the status, else the error of the context, else the first error of the copying goroutines.\<close>

definition waitError :: "command \<Rightarrow> cmdState \<Rightarrow> goerror option" where
  "waitError c s =
     (case status c (cmChild s) of
        Some e \<Rightarrow> Some e
      | None \<Rightarrow>
          (case cmCtx s of
             Some e \<Rightarrow> Some e
           | None \<Rightarrow>
               (case the (cmIn s) of
                  Some e \<Rightarrow> Some e
                | None \<Rightarrow> the (cmCopied s))))"

definition streamError :: "string \<Rightarrow> goerror \<Rightarrow> goerror" where
  "streamError stderr e = ErrWrap ''%w: %s'' [stderr] e"

text \<open>
  One step with pipes of \<open>cap\<close> bytes; \<open>None\<close> where the event is not possible. \<open>InCopied True\<close> is the end
  of the input, \<open>InCopied False\<close> a write to a command that is gone, an error \<open>os/exec\<close> ignores. \<open>ReadN k\<close> is a \<open>Read\<close> that
  gets \<open>k\<close> bytes, where there are any, or the error of the pipe.
\<close>

fun cmdStep :: "nat \<Rightarrow> command \<Rightarrow> cmdState \<Rightarrow> cmdEvent \<Rightarrow> cmdState option" where
  "cmdStep cap c s ChildStep =
     (case cmChild s of
        Alive [] \<Rightarrow> Some (s\<lparr>cmChild := Exited\<rparr>)
      | Alive (Stdout x # rest) \<Rightarrow>
          (if cmCopied s = None \<and> length (cmOut s) < cap then Some (s\<lparr>cmChild := Alive rest, cmOut := cmOut s @ [x]\<rparr>) else None)
      | Alive (Stderr x # rest) \<Rightarrow>
          (if length (cmErr s) < cap then Some (s\<lparr>cmChild := Alive rest, cmErr := cmErr s @ [x]\<rparr>) else None)
      | _ \<Rightarrow> None)"
| "cmdStep cap c s (ChildBroken r) =
     (case cmChild s of
        Alive (Stdout x # rest) \<Rightarrow> (if cmCopied s \<noteq> None then Some (s\<lparr>cmChild := BrokenPipe r\<rparr>) else None)
      | _ \<Rightarrow> None)"
| "cmdStep cap c s (InCopied ended) =
     (if cmIn s = None \<and> (ended \<or> \<not> is_alive (cmChild s))
      then Some (s\<lparr>cmIn := Some (if ended then bErr (cdInput c) else None)\<rparr>)
      else None)"
| "cmdStep cap c s OutCopied =
     (if cmCopied s \<noteq> None then None
      else if cmOut s = [] then (if is_alive (cmChild s) then None else Some (s\<lparr>cmCopied := Some None\<rparr>))
      else if cmReaderClosed s then Some (s\<lparr>cmCopied := Some (Some ErrClosedPipe), cmOut := []\<rparr>)
      else None)"
| "cmdStep cap c s ErrCopy =
     (case cmErr s of
        x # rest \<Rightarrow> Some (s\<lparr>cmErr := rest, cmErrBuf := cmErrBuf s @ [x]\<rparr>)
      | [] \<Rightarrow> (if is_alive (cmChild s) \<or> cmErrCopied s then None else Some (s\<lparr>cmErrCopied := True\<rparr>)))"
| "cmdStep cap c s WaitReturns =
     (if cmWriter s = None \<and> \<not> is_alive (cmChild s) \<and> cmIn s \<noteq> None \<and> cmCopied s \<noteq> None \<and> cmErrCopied s
      then Some (s\<lparr>cmWriter := Some (map_option (streamError (cmErrBuf s)) (waitError c s))\<rparr>)
      else None)"
| "cmdStep cap c s CloseDone = (if cmWriter s \<noteq> None \<and> \<not> cmDone s then Some (s\<lparr>cmDone := True\<rparr>) else None)"
| "cmdStep cap c s Kill =
     (if cmCloser s \<noteq> NotCalled \<and> cmWriter s = None \<and> \<not> cmKillSent s
      then
        (if is_alive (cmChild s) then Some (s\<lparr>cmKillSent := True, cmChild := Killed\<rparr>)
         else Some (s\<lparr>cmKillSent := True, cmCtx := Some (ErrMsg ''context canceled'' [])\<rparr>))
      else None)"
| "cmdStep cap c s (ReadN k) =
     (if cmReaderClosed s then Some (s\<lparr>cmEnd := Some ErrClosedPipe\<rparr>)
      else
        (case cmWriter s of
           Some w \<Rightarrow> Some (s\<lparr>cmEnd := Some (case w of None \<Rightarrow> EOF | Some e \<Rightarrow> e)\<rparr>)
         | None \<Rightarrow>
             (if 0 < k \<and> k \<le> length (cmOut s) \<and> cmCopied s = None
              then Some (s\<lparr>cmGot := cmGot s @ take k (cmOut s), cmOut := drop k (cmOut s), cmEnd := None\<rparr>)
              else None)))"
| "cmdStep cap c s CloseCancel = (if cmCloser s = NotCalled then Some (s\<lparr>cmCloser := Cancelled\<rparr>) else None)"
| "cmdStep cap c s CloseReader =
     (if cmCloser s = Cancelled then Some (s\<lparr>cmReaderClosed := True, cmCloser := Waiting\<rparr>) else None)"
| "cmdStep cap c s CloseReturns =
     (if cmCloser s = Waiting \<and> cmDone s then Some (s\<lparr>cmCloser := Returned\<rparr>) else None)"

inductive cmd_reach :: "nat \<Rightarrow> command \<Rightarrow> cmdState \<Rightarrow> bool" for cap c where
  start: "cmd_reach cap c (cmdStart c)"
| step: "cmd_reach cap c s \<Longrightarrow> cmdStep cap c s ev = Some s' \<Longrightarrow> cmd_reach cap c s'"

fun cmdRun :: "nat \<Rightarrow> command \<Rightarrow> cmdState \<Rightarrow> cmdEvent list \<Rightarrow> cmdState option" where
  "cmdRun cap c s [] = Some s"
| "cmdRun cap c s (ev # evs) = (case cmdStep cap c s ev of None \<Rightarrow> None | Some s' \<Rightarrow> cmdRun cap c s' evs)"

lemma cmdRun_reach: "cmd_reach cap c s \<Longrightarrow> cmdRun cap c s evs = Some s' \<Longrightarrow> cmd_reach cap c s'"
  by (induction evs arbitrary: s) (auto intro: cmd_reach.step split: option.splits)

section \<open>The invariant\<close>

definition outs :: "cmdByte list \<Rightarrow> string" where
  "outs os = concat (map (\<lambda>x. case x of Stdout ch \<Rightarrow> [ch] | Stderr _ \<Rightarrow> []) os)"

definition errs :: "cmdByte list \<Rightarrow> string" where
  "errs os = concat (map (\<lambda>x. case x of Stderr ch \<Rightarrow> [ch] | Stdout _ \<Rightarrow> []) os)"

lemma outs_simps [simp]: "outs [] = []" "outs (Stdout x # os) = x # outs os" "outs (Stderr x # os) = outs os"
  by (simp_all add: outs_def)

lemma errs_simps [simp]: "errs [] = []" "errs (Stderr x # os) = x # errs os" "errs (Stdout x # os) = errs os"
  by (simp_all add: errs_def)

text \<open>What the command has still to write.\<close>

definition pending :: "child \<Rightarrow> cmdByte list" where
  "pending ch = (case ch of Alive os \<Rightarrow> os | _ \<Rightarrow> [])"

text \<open>The command has come to its own end or is on the way to it.\<close>

definition undisturbed :: "child \<Rightarrow> bool" where
  "undisturbed ch \<longleftrightarrow> (case ch of Alive _ \<Rightarrow> True | Exited \<Rightarrow> True | _ \<Rightarrow> False)"

text \<open>
  Nothing is lost before the reader is closed or the command killed; what went wrong is seen in the error
  the pipe ends with.
\<close>

definition data_inv :: "command \<Rightarrow> cmdState \<Rightarrow> bool" where
  "data_inv c s \<longleftrightarrow>
     prefix (cmGot s) (outs (cdScript c)) \<and>
     (\<not> cmReaderClosed s \<longrightarrow> prefix (cmGot s @ cmOut s) (outs (cdScript c))) \<and>
     (undisturbed (cmChild s) \<and> \<not> cmReaderClosed s \<longrightarrow>
        outs (cdScript c) = cmGot s @ cmOut s @ outs (pending (cmChild s))) \<and>
     (undisturbed (cmChild s) \<longrightarrow> errs (cdScript c) = cmErrBuf s @ cmErr s @ errs (pending (cmChild s))) \<and>
     (\<not> is_alive (cmChild s) \<and> \<not> undisturbed (cmChild s) \<and> \<not> cmReaderClosed s \<longrightarrow> cmChild s = Killed)"

definition order_inv :: "command \<Rightarrow> cmdState \<Rightarrow> bool" where
  "order_inv c s \<longleftrightarrow>
     (\<forall>r. cmCopied s = Some r \<longrightarrow> cmOut s = [] \<and> (r = None \<and> \<not> is_alive (cmChild s) \<or> cmReaderClosed s)) \<and>
     (cmErrCopied s \<longrightarrow> cmErr s = [] \<and> \<not> is_alive (cmChild s)) \<and>
     (\<forall>r. cmIn s = Some r \<longrightarrow> r = None \<or> r = bErr (cdInput c)) \<and>
     (cmKillSent s \<longrightarrow> \<not> is_alive (cmChild s) \<and> cmCloser s \<noteq> NotCalled) \<and>
     (cmCtx s \<noteq> None \<or> cmChild s = Killed \<longrightarrow> cmKillSent s) \<and>
     (cmReaderClosed s \<longrightarrow> cmCloser s = Waiting \<or> cmCloser s = Returned) \<and>
     (cmCloser s = Waiting \<or> cmCloser s = Returned \<longrightarrow> cmReaderClosed s) \<and>
     (cmCloser s = Returned \<longrightarrow> cmDone s) \<and>
     (cmDone s \<longrightarrow> cmWriter s \<noteq> None) \<and>
     (\<forall>w. cmWriter s = Some w \<longrightarrow> \<not> is_alive (cmChild s) \<and> cmIn s \<noteq> None \<and> cmCopied s \<noteq> None \<and> cmErrCopied s \<and>
        w = map_option (streamError (cmErrBuf s)) (waitError c s))"

definition end_inv :: "cmdState \<Rightarrow> bool" where
  "end_inv s \<longleftrightarrow>
     (\<forall>e. cmEnd s = Some e \<longrightarrow>
        e = ErrClosedPipe \<and> cmReaderClosed s \<or> (\<exists>w. cmWriter s = Some w \<and> e = (case w of None \<Rightarrow> EOF | Some e \<Rightarrow> e)))"


lemma child_simps [simp]:
  "is_alive (Alive os)" "\<not> is_alive Exited" "\<not> is_alive Killed" "\<not> is_alive (BrokenPipe r)"
  "undisturbed (Alive os)" "undisturbed Exited" "\<not> undisturbed Killed" "\<not> undisturbed (BrokenPipe r)"
  "pending (Alive os) = os" "pending Exited = []" "pending Killed = []" "pending (BrokenPipe r) = []"
  by (simp_all add: is_alive_def undisturbed_def pending_def)

lemma order_inv_start: "order_inv c (cmdStart c)"
  by (simp add: order_inv_def cmdStart_def)

lemma data_inv_start: "data_inv c (cmdStart c)"
  by (simp add: data_inv_def cmdStart_def)

text \<open>What each step does, and when.\<close>

lemma ChildStep_cases:
  assumes "cmdStep cap c s ChildStep = Some s'"
  obtains (exits) "cmChild s = Alive []" and "s' = s\<lparr>cmChild := Exited\<rparr>"
    | (out) x rest where "cmChild s = Alive (Stdout x # rest)" and "cmCopied s = None"
        and "s' = s\<lparr>cmChild := Alive rest, cmOut := cmOut s @ [x]\<rparr>"
    | (err) x rest where "cmChild s = Alive (Stderr x # rest)" and "s' = s\<lparr>cmChild := Alive rest, cmErr := cmErr s @ [x]\<rparr>"
  using assms by (auto split: child.splits list.splits cmdByte.splits if_splits)

lemma ChildBroken_cases:
  assumes "cmdStep cap c s (ChildBroken r) = Some s'"
  obtains x rest where "cmChild s = Alive (Stdout x # rest)" and "cmCopied s \<noteq> None" and "s' = s\<lparr>cmChild := BrokenPipe r\<rparr>"
  using assms by (auto split: child.splits list.splits cmdByte.splits if_splits)

lemma order_inv_alive:
  assumes "order_inv c s" and "is_alive (cmChild s)"
  shows "\<not> cmErrCopied s" "\<not> cmKillSent s" "cmCtx s = None" "cmWriter s = None" "\<not> cmDone s"
    "cmCopied s = Some r \<Longrightarrow> cmReaderClosed s \<and> cmOut s = []"
  using assms by (auto simp: order_inv_def)

lemma waitError_upd [simp]:
  "waitError c (s\<lparr>cmWriter := w\<rparr>) = waitError c s" "waitError c (s\<lparr>cmDone := d\<rparr>) = waitError c s"
  "waitError c (s\<lparr>cmEnd := e\<rparr>) = waitError c s" "waitError c (s\<lparr>cmCloser := cl\<rparr>) = waitError c s"
  "waitError c (s\<lparr>cmReaderClosed := r\<rparr>) = waitError c s"
  by (simp_all add: waitError_def cong: option.case_cong)

lemma order_inv_open:
  assumes "order_inv c s" and "cmIn s = None \<or> cmCopied s = None \<or> \<not> cmErrCopied s"
  shows "cmWriter s = None" "\<not> cmDone s" "cmCloser s \<noteq> Returned"
proof -
  have "cmIn s \<noteq> None \<and> cmCopied s \<noteq> None \<and> cmErrCopied s" if "cmWriter s = Some w" for w
    using assms(1) that unfolding order_inv_def by blast
  with assms(2) show w: "cmWriter s = None" by (cases "cmWriter s") auto
  then show d: "\<not> cmDone s" using assms(1) unfolding order_inv_def by blast
  then show "cmCloser s \<noteq> Returned" using assms(1) unfolding order_inv_def by blast
qed

lemma order_inv_step:
  assumes "order_inv c s" and "cmdStep cap c s ev = Some s'"
  shows "order_inv c s'"
proof (cases ev)
  case ChildStep
  from assms(2) [unfolded ChildStep] show ?thesis
  proof (cases rule: ChildStep_cases)
    case exits
    with assms(1) order_inv_alive(1-5) [OF assms(1)] show ?thesis by (simp add: order_inv_def; blast?)
  next
    case (out x rest)
    with assms(1) order_inv_alive(1-5) [OF assms(1)] show ?thesis by (simp add: order_inv_def; blast?)
  next
    case (err x rest)
    with assms(1) order_inv_alive(1-5) [OF assms(1)] show ?thesis by (simp add: order_inv_def; blast?)
  qed
next
  case (ChildBroken r)
  from assms(2) [unfolded ChildBroken] show ?thesis
  proof (cases rule: ChildBroken_cases)
    case (1 x rest)
    note alive = order_inv_alive [OF assms(1)]
    from 1 alive(6) have closed: "cmReaderClosed s" "cmOut s = []" by auto
    from 1 alive(5) have "\<not> cmDone s" by simp
    then have "cmCloser s = Waiting" using closed(1) assms(1) unfolding order_inv_def by blast
    with assms(1) alive(1-5) 1 closed show ?thesis by (simp add: order_inv_def; blast?)
  qed
next
  case (InCopied b)
  with assms(2) have i: "cmIn s = None" "s' = s\<lparr>cmIn := Some (if b then bErr (cdInput c) else None)\<rparr>"
    by (simp_all split: if_splits)
  with assms(1) order_inv_open [OF assms(1)] show ?thesis by (simp add: order_inv_def; blast?)
next
  case OutCopied
  with assms(2) have n: "cmCopied s = None" by (simp split: if_splits)
  note o = order_inv_open [OF assms(1) disjI2 [OF disjI1 [OF n]]]
  show ?thesis
  proof (cases "cmOut s = []")
    case True
    with OutCopied assms(2) have "\<not> is_alive (cmChild s)" "s' = s\<lparr>cmCopied := Some None\<rparr>" by (simp_all split: if_splits)
    with assms(1) o True show ?thesis by (simp add: order_inv_def; blast?)
  next
    case False
    with OutCopied assms(2) have "cmReaderClosed s" and s': "s' = s\<lparr>cmCopied := Some (Some ErrClosedPipe), cmOut := []\<rparr>"
      by (simp_all split: if_splits)
    then have "cmCloser s = Waiting" using o assms(1) by (simp add: order_inv_def; blast?)
    with assms(1) o s' \<open>cmReaderClosed s\<close> show ?thesis by (simp add: order_inv_def; blast?)
  qed
next
  case ErrCopy
  show ?thesis
  proof (cases "cmErr s")
    case Nil
    with ErrCopy assms(2) have "\<not> is_alive (cmChild s)" "\<not> cmErrCopied s" "s' = s\<lparr>cmErrCopied := True\<rparr>"
      by (simp_all split: if_splits)
    with assms(1) Nil order_inv_open [OF assms(1)] show ?thesis by (simp add: order_inv_def; blast?)
  next
    case (Cons x rest)
    with assms(1) have c: "\<not> cmErrCopied s" by (auto simp: order_inv_def)
    note order_inv_open [OF assms(1)]
    moreover from Cons ErrCopy assms(2) have "s' = s\<lparr>cmErr := rest, cmErrBuf := cmErrBuf s @ [x]\<rparr>" by simp
    ultimately show ?thesis using assms(1) c by (simp add: order_inv_def; blast?)
  qed
next
  case WaitReturns
  with assms(2) have w: "cmWriter s = None" "\<not> is_alive (cmChild s)" "cmIn s \<noteq> None" "cmCopied s \<noteq> None" "cmErrCopied s"
    "s' = s\<lparr>cmWriter := Some (map_option (streamError (cmErrBuf s)) (waitError c s))\<rparr>"
    by (simp_all split: if_splits)
  then have d: "\<not> cmDone s" using assms(1) unfolding order_inv_def by blast
  from assms(1) w d show ?thesis by (simp add: order_inv_def; blast?)
next
  case CloseDone
  with assms(2) obtain w where w: "cmWriter s = Some w" and s': "s' = s\<lparr>cmDone := True\<rparr>" by (auto split: if_splits)
  from assms(1) w s' show ?thesis by (simp add: order_inv_def; blast?)
next
  case Kill
  with assms(2) have k: "cmCloser s \<noteq> NotCalled" "cmWriter s = None" "\<not> cmKillSent s" by (simp_all split: if_splits)
  then have d: "\<not> cmDone s" using assms(1) unfolding order_inv_def by blast
  then have r: "cmCloser s \<noteq> Returned" using assms(1) unfolding order_inv_def by blast
  show ?thesis
  proof (cases "is_alive (cmChild s)")
    case True
    with Kill assms(2) k have "s' = s\<lparr>cmKillSent := True, cmChild := Killed\<rparr>" by simp
    with assms(1) k d r True order_inv_alive(1) [OF assms(1) True] show ?thesis by (simp add: order_inv_def; blast?)
  next
    case False
    with Kill assms(2) k have "s' = s\<lparr>cmKillSent := True, cmCtx := Some (ErrMsg ''context canceled'' [])\<rparr>" by simp
    with assms(1) k d r False show ?thesis by (simp add: order_inv_def; blast?)
  qed
next
  case (ReadN k)
  show ?thesis
  proof (cases "cmReaderClosed s \<or> cmWriter s \<noteq> None")
    case True
    with ReadN assms(2) obtain x where "s' = s\<lparr>cmEnd := x\<rparr>" by (auto split: if_splits option.splits)
    with assms(1) show ?thesis by (simp add: order_inv_def; blast?)
  next
    case False
    with ReadN assms(2) have "cmWriter s = None" "cmCopied s = None" "\<not> cmReaderClosed s"
      "s' = s\<lparr>cmGot := cmGot s @ take k (cmOut s), cmOut := drop k (cmOut s), cmEnd := None\<rparr>"
      by (auto split: if_splits)
    with assms(1) show ?thesis by (simp add: order_inv_def; blast?)
  qed
next
  case CloseCancel
  with assms(2) have n: "cmCloser s = NotCalled" and s': "s' = s\<lparr>cmCloser := Cancelled\<rparr>" by (simp_all split: if_splits)
  from n assms(1) have k: "\<not> cmKillSent s" "\<not> cmReaderClosed s" by (simp_all add: order_inv_def)
  then have "cmCtx s = None" "cmChild s \<noteq> Killed" using assms(1) unfolding order_inv_def by blast+
  note this n k
  with assms(1) s' show ?thesis by (simp add: order_inv_def; blast?)
next
  case CloseReader
  with assms(2) have "cmCloser s = Cancelled" and s': "s' = s\<lparr>cmReaderClosed := True, cmCloser := Waiting\<rparr>" by (simp_all split: if_splits)
  with assms(1) s' show ?thesis by (simp add: order_inv_def)
next
  case CloseReturns
  with assms(2) have "cmCloser s = Waiting" "cmDone s" and s': "s' = s\<lparr>cmCloser := Returned\<rparr>" by (simp_all split: if_splits)
  with assms(1) s' show ?thesis by (simp add: order_inv_def; blast?)
qed


lemma data_inv_step:
  assumes "data_inv c s" and o: "order_inv c s" and "cmdStep cap c s ev = Some s'"
  shows "data_inv c s'"
proof (cases ev)
  case ChildStep
  from assms(3) [unfolded ChildStep] show ?thesis
    by (cases rule: ChildStep_cases) (use assms(1) in \<open>simp_all add: data_inv_def\<close>)
next
  case (ChildBroken r)
  from assms(3) [unfolded ChildBroken] show ?thesis
  proof (cases rule: ChildBroken_cases)
    case (1 x rest)
    then have "cmReaderClosed s" using o by (auto simp: order_inv_def)
    then show ?thesis using assms(1) 1 by (simp add: data_inv_def)
  qed
next
  case (InCopied b)
  with assms(3) have "s' = s\<lparr>cmIn := Some (if b then bErr (cdInput c) else None)\<rparr>" by (simp split: if_splits)
  then show ?thesis using assms(1) by (simp add: data_inv_def)
next
  case OutCopied
  with assms(3) have "s' = s\<lparr>cmCopied := Some None\<rparr> \<or> cmReaderClosed s \<and> s' = s\<lparr>cmCopied := Some (Some ErrClosedPipe), cmOut := []\<rparr>"
    by (simp split: if_splits)
  then show ?thesis
  proof (elim disjE conjE)
    assume "s' = s\<lparr>cmCopied := Some None\<rparr>"
    then show ?thesis using assms(1) by (simp add: data_inv_def)
  next
    assume "cmReaderClosed s" "s' = s\<lparr>cmCopied := Some (Some ErrClosedPipe), cmOut := []\<rparr>"
    then show ?thesis using assms(1) by (simp add: data_inv_def)
  qed
next
  case ErrCopy
  show ?thesis
  proof (cases "cmErr s")
    case Nil
    with ErrCopy assms(3) have "s' = s\<lparr>cmErrCopied := True\<rparr>" by (simp split: if_splits)
    then show ?thesis using assms(1) by (simp add: data_inv_def)
  next
    case (Cons x rest)
    with ErrCopy assms(3) have "s' = s\<lparr>cmErr := rest, cmErrBuf := cmErrBuf s @ [x]\<rparr>" by simp
    then show ?thesis using assms(1) Cons by (simp add: data_inv_def)
  qed
next
  case WaitReturns
  with assms(3) obtain w where "s' = s\<lparr>cmWriter := w\<rparr>" by (auto split: if_splits)
  then show ?thesis using assms(1) by (simp add: data_inv_def)
next
  case CloseDone
  with assms(3) have "s' = s\<lparr>cmDone := True\<rparr>" by (simp split: if_splits)
  then show ?thesis using assms(1) by (simp add: data_inv_def)
next
  case Kill
  with assms(3) have "s' = s\<lparr>cmKillSent := True, cmChild := Killed\<rparr> \<or>
      s' = s\<lparr>cmKillSent := True, cmCtx := Some (ErrMsg ''context canceled'' [])\<rparr>"
    by (simp split: if_splits)
  then show ?thesis
  proof
    assume "s' = s\<lparr>cmKillSent := True, cmChild := Killed\<rparr>"
    then show ?thesis using assms(1) by (simp add: data_inv_def)
  next
    assume "s' = s\<lparr>cmKillSent := True, cmCtx := Some (ErrMsg ''context canceled'' [])\<rparr>"
    then show ?thesis using assms(1) by (simp add: data_inv_def)
  qed
next
  case (ReadN k)
  show ?thesis
  proof (cases "cmReaderClosed s \<or> cmWriter s \<noteq> None")
    case True
    with ReadN assms(3) obtain x where "s' = s\<lparr>cmEnd := x\<rparr>" by (auto split: if_splits option.splits)
    then show ?thesis using assms(1) by (simp add: data_inv_def)
  next
    case False
    then have k: "\<not> cmReaderClosed s" "s' = s\<lparr>cmGot := cmGot s @ take k (cmOut s), cmOut := drop k (cmOut s), cmEnd := None\<rparr>"
      using ReadN assms(3) by (auto split: if_splits option.splits)
    have split: "take k (cmOut s) @ drop k (cmOut s) @ rest = cmOut s @ rest" for rest by (metis append.assoc append_take_drop_id)
    have "prefix (cmGot s @ take k (cmOut s)) (cmGot s @ cmOut s)" by (simp add: take_is_prefix)
    then have "prefix (cmGot s @ take k (cmOut s)) (outs (cdScript c))"
      using assms(1) k(1) unfolding data_inv_def by (blast intro: prefix_order.trans)
    then show ?thesis using assms(1) k(1) by (simp add: k(2) data_inv_def split)
  qed
next
  case CloseCancel
  with assms(3) have "s' = s\<lparr>cmCloser := Cancelled\<rparr>" by (simp split: if_splits)
  then show ?thesis using assms(1) by (simp add: data_inv_def)
next
  case CloseReader
  with assms(3) have "s' = s\<lparr>cmReaderClosed := True, cmCloser := Waiting\<rparr>" by (simp split: if_splits)
  then show ?thesis using assms(1) by (simp add: data_inv_def)
next
  case CloseReturns
  with assms(3) have "s' = s\<lparr>cmCloser := Returned\<rparr>" by (simp split: if_splits)
  then show ?thesis using assms(1) by (simp add: data_inv_def)
qed

lemma end_inv_step:
  assumes "end_inv s" and "order_inv c s" and "cmdStep cap c s ev = Some s'"
  shows "end_inv s'"
proof (cases ev)
  case ChildStep
  from assms(3) [unfolded ChildStep] show ?thesis
    by (cases rule: ChildStep_cases) (use assms(1) in \<open>simp_all add: end_inv_def\<close>)
next
  case (ChildBroken r)
  from assms(3) [unfolded ChildBroken] show ?thesis
    by (cases rule: ChildBroken_cases) (use assms(1) in \<open>simp add: end_inv_def\<close>)
next
  case OutCopied
  with assms show ?thesis by (auto simp: end_inv_def split: if_splits)
next
  case ErrCopy
  with assms show ?thesis by (auto simp: end_inv_def split: list.splits if_splits)
next
  case WaitReturns
  with assms show ?thesis by (auto simp: end_inv_def split: if_splits)
next
  case (ReadN k)
  with assms show ?thesis by (auto simp: end_inv_def split: if_splits option.splits)
next
  case Kill
  with assms show ?thesis by (auto simp: end_inv_def split: if_splits)
next
  case CloseReader
  with assms show ?thesis by (auto simp: end_inv_def split: if_splits)
next
  case (InCopied b)
  with assms show ?thesis by (auto simp: end_inv_def split: if_splits)
next
  case CloseDone
  with assms show ?thesis by (auto simp: end_inv_def split: if_splits)
next
  case CloseCancel
  with assms show ?thesis by (auto simp: end_inv_def split: if_splits)
next
  case CloseReturns
  with assms show ?thesis by (auto simp: end_inv_def split: if_splits)
qed

lemma cmd_invs:
  assumes "cmd_reach cap c s"
  shows "order_inv c s \<and> data_inv c s \<and> end_inv s"
  using assms
proof induction
  case start
  show ?case using order_inv_start data_inv_start by (auto simp: end_inv_def cmdStart_def)
next
  case (step s ev s')
  then show ?case using order_inv_step data_inv_step end_inv_step by blast
qed

section \<open>Reading\<close>

text \<open>How the stream ends where nobody disturbs the command: its status, else the error of its input.\<close>

lemma undisturbed_end:
  assumes "cmd_reach cap c s" and "cmEnd s = Some e" and "cmCloser s = NotCalled"
  shows "cmGot s = outs (cdScript c) \<and>
    (\<exists>w. (w = cdExit c \<or> cdExit c = None \<and> w = bErr (cdInput c)) \<and>
       e = (case w of None \<Rightarrow> EOF | Some x \<Rightarrow> streamError (errs (cdScript c)) x))"
proof -
  have o: "order_inv c s" and d: "data_inv c s" and "end_inv s" using cmd_invs [OF assms(1)] by simp_all
  have open_r: "\<not> cmReaderClosed s" using o assms(3) by (simp add: order_inv_def)
  then obtain w where w: "cmWriter s = Some w" "e = (case w of None \<Rightarrow> EOF | Some e \<Rightarrow> e)"
    using \<open>end_inv s\<close> assms(2) by (auto simp: end_inv_def)
  have fin: "\<not> is_alive (cmChild s)" "cmErrCopied s" "w = map_option (streamError (cmErrBuf s)) (waitError c s)"
    using o w(1) unfolding order_inv_def by blast+
  obtain r i where r: "cmCopied s = Some r" and i: "cmIn s = Some i"
    using o w(1) unfolding order_inv_def by blast
  have killed: "cmCtx s = None" "cmChild s \<noteq> Killed" using o assms(3) by (auto simp: order_inv_def)
  then have ch: "cmChild s = Exited" using fin(1) d open_r by (cases "cmChild s") (auto simp: data_inv_def)
  have r0: "r = None" "cmOut s = []" using o r open_r by (auto simp: order_inv_def)
  have i0: "i = None \<or> i = bErr (cdInput c)" using o i by (simp add: order_inv_def)
  have e0: "cmErr s = []" using o fin(2) by (simp add: order_inv_def)
  have "cmGot s = outs (cdScript c)" "cmErrBuf s = errs (cdScript c)"
    using d open_r ch r0 e0 by (auto simp: data_inv_def)
  moreover have "waitError c s = (case cdExit c of Some x \<Rightarrow> Some x | None \<Rightarrow> i)"
    using killed(1) r0(1) by (simp add: waitError_def status_def ch r i split: option.split)
  moreover have "e = (case waitError c s of None \<Rightarrow> EOF | Some x \<Rightarrow> streamError (cmErrBuf s) x)"
    using w(2) fin(3) by (cases "waitError c s") simp_all
  ultimately show ?thesis using i0
    by (intro conjI exI [of _ "waitError c s"]) (simp_all split: option.split)
qed


text \<open>The stream of the functional model, where the parameters describe this command.\<close>

definition runs_command :: "codecs \<Rightarrow> string list \<Rightarrow> command \<Rightarrow> bool" where
  "runs_command cd cmd c \<longleftrightarrow>
     cStart cd cmd = None \<and> cStdout cd cmd (cdInput c) = outs (cdScript c) \<and> cStderr cd cmd (cdInput c) = errs (cdScript c) \<and>
     cWait cd cmd (cdInput c) = cdExit c \<and> (bErr (cdInput c) = None \<or> cdExit c \<noteq> None)"

lemma streamError_not_EOF [simp]: "streamError x e \<noteq> EOF" "EOF \<noteq> streamError x e" "ErrClosedPipe \<noteq> EOF" "EOF \<noteq> ErrClosedPipe"
  by (simp_all add: streamError_def EOF_def ErrClosedPipe_def)

lemma eof_complete:
  assumes "order_inv c s" and "data_inv c s" and "\<not> cmReaderClosed s" and w: "cmWriter s = Some None"
  shows "cmGot s = outs (cdScript c) \<and> cdExit c = None"
proof -
  have fin: "\<not> is_alive (cmChild s)" "waitError c s = None"
    using assms(1) w unfolding order_inv_def by auto
  obtain r i where r: "cmCopied s = Some r" and i: "cmIn s = Some i"
    using assms(1) w unfolding order_inv_def by blast
  have ok: "status c (cmChild s) = None"
    using fin(2) by (simp add: waitError_def r i split: option.splits)
  have out: "cmOut s = []" using assms(1) r by (simp add: order_inv_def)
  have "undisturbed (cmChild s) \<or> cmChild s = Killed" using assms(2,3) fin(1) unfolding data_inv_def by blast
  then have "cmChild s = Exited" using ok fin(1) by (cases "cmChild s") (simp_all add: status_def)
  then show ?thesis using ok out assms(2,3) by (simp add: data_inv_def status_def)
qed

definition eof_inv :: "command \<Rightarrow> cmdState \<Rightarrow> bool" where
  "eof_inv c s \<longleftrightarrow> (cmEnd s = Some EOF \<longrightarrow> cmGot s = outs (cdScript c) \<and> cdExit c = None)"

fun is_read :: "cmdEvent \<Rightarrow> bool" where
  "is_read (ReadN k) = True"
| "is_read _ = False"

lemma only_reads:
  "cmdStep cap c s ev = Some s' \<Longrightarrow> \<not> is_read ev \<Longrightarrow> cmEnd s' = cmEnd s \<and> cmGot s' = cmGot s"
  by (cases ev) (auto split: if_splits child.splits list.splits cmdByte.splits)

lemma eof_inv_reach: "cmd_reach cap c s \<Longrightarrow> eof_inv c s"
proof (induction rule: cmd_reach.induct)
  case start
  show ?case by (simp add: eof_inv_def cmdStart_def)
next
  case (step s ev s')
  show ?case
  proof (cases "is_read ev")
    case False
    then show ?thesis using step.IH only_reads [OF step.hyps(2)] by (simp add: eof_inv_def)
  next
    case True
    then obtain k where ev: "ev = ReadN k" by (cases ev) simp_all
    have o: "order_inv c s" "data_inv c s" using cmd_invs [OF step.hyps(1)] by simp_all
    show ?thesis
    proof (cases "cmReaderClosed s")
      case True
      then show ?thesis using step.hyps(2) ev by (auto simp: eof_inv_def)
    next
      case False
      have noEOF: "x \<noteq> EOF" if "cmWriter s = Some (Some x)" for x
      proof -
        have "Some x = map_option (streamError (cmErrBuf s)) (waitError c s)"
          using that o(1) unfolding order_inv_def by blast
        then show ?thesis by (cases "waitError c s") simp_all
      qed
      show ?thesis
      proof (cases "cmWriter s")
        case None
        then show ?thesis using step.hyps(2) ev False by (auto simp: eof_inv_def split: if_splits)
      next
        case (Some w)
        then have s': "s' = s\<lparr>cmEnd := Some (case w of None \<Rightarrow> EOF | Some e \<Rightarrow> e)\<rparr>" using step.hyps(2) ev False by simp
        show ?thesis
        proof (cases w)
          case None
          then show ?thesis using eof_complete [OF o False] Some s' by (simp add: eof_inv_def)
        next
          case (Some x)
          then show ?thesis using noEOF s' \<open>cmWriter s = Some w\<close> by (simp add: eof_inv_def)
        qed
      qed
    qed
  qed
qed

section \<open>Closing\<close>

text \<open>Each step of the machine but a \<open>Read\<close> that only returns an error uses up one of these.\<close>

definition todo :: "cmdState \<Rightarrow> nat" where
  "todo s =
     2 * length (pending (cmChild s)) + length (cmOut s) + length (cmErr s) + (if is_alive (cmChild s) then 1 else 0) +
     (if cmIn s = None then 1 else 0) + (if cmCopied s = None then 1 else 0) + (if cmErrCopied s then 0 else 1) +
     (if cmKillSent s then 0 else 1) + (if cmWriter s = None then 1 else 0) + (if cmDone s then 0 else 1) +
     (case cmCloser s of NotCalled \<Rightarrow> 3 | Cancelled \<Rightarrow> 2 | Waiting \<Rightarrow> 1 | Returned \<Rightarrow> 0)"

lemma todo_less:
  assumes "cmdStep cap c s ev = Some s'" and "\<not> is_read ev"
  shows "todo s' < todo s"
proof (cases ev)
  case ChildStep
  from assms(1) [unfolded ChildStep] show ?thesis by (cases rule: ChildStep_cases) (simp_all add: todo_def)
next
  case (ChildBroken r)
  from assms(1) [unfolded ChildBroken] show ?thesis by (cases rule: ChildBroken_cases) (simp add: todo_def)
next
  case (InCopied b)
  with assms(1) have "cmIn s = None" "s' = s\<lparr>cmIn := Some (if b then bErr (cdInput c) else None)\<rparr>" by (simp_all split: if_splits)
  then show ?thesis by (simp add: todo_def)
next
  case OutCopied
  show ?thesis
  proof (cases "cmOut s = []")
    case True
    with OutCopied assms(1) have "cmCopied s = None" "s' = s\<lparr>cmCopied := Some None\<rparr>" by (simp_all split: if_splits)
    then show ?thesis by (simp add: todo_def)
  next
    case False
    with OutCopied assms(1) have "cmCopied s = None" "s' = s\<lparr>cmCopied := Some (Some ErrClosedPipe), cmOut := []\<rparr>"
      by (simp_all split: if_splits)
    then show ?thesis by (simp add: todo_def)
  qed
next
  case ErrCopy
  show ?thesis
  proof (cases "cmErr s")
    case Nil
    with ErrCopy assms(1) have "\<not> cmErrCopied s" "s' = s\<lparr>cmErrCopied := True\<rparr>" by (simp_all split: if_splits)
    then show ?thesis by (simp add: todo_def)
  next
    case (Cons x rest)
    with ErrCopy assms(1) have "s' = s\<lparr>cmErr := rest, cmErrBuf := cmErrBuf s @ [x]\<rparr>" by simp
    then show ?thesis using Cons by (simp add: todo_def)
  qed
next
  case WaitReturns
  with assms(1) have "cmWriter s = None" "s' = s\<lparr>cmWriter := Some (map_option (streamError (cmErrBuf s)) (waitError c s))\<rparr>" by (simp_all split: if_splits)
  then show ?thesis by (simp add: todo_def)
next
  case CloseDone
  with assms(1) have "\<not> cmDone s" "s' = s\<lparr>cmDone := True\<rparr>" by (simp_all split: if_splits)
  then show ?thesis by (simp add: todo_def)
next
  case Kill
  with assms(1) have k: "\<not> cmKillSent s" by (simp split: if_splits)
  show ?thesis
  proof (cases "is_alive (cmChild s)")
    case True
    with Kill assms(1) have "s' = s\<lparr>cmKillSent := True, cmChild := Killed\<rparr>" by (simp split: if_splits)
    then show ?thesis using k True by (simp add: todo_def)
  next
    case False
    with Kill assms(1) have "s' = s\<lparr>cmKillSent := True, cmCtx := Some (ErrMsg ''context canceled'' [])\<rparr>" by (simp split: if_splits)
    then show ?thesis using k by (simp add: todo_def)
  qed
next
  case (ReadN k)
  with assms(2) show ?thesis by simp
next
  case CloseCancel
  with assms(1) have "cmCloser s = NotCalled" "s' = s\<lparr>cmCloser := Cancelled\<rparr>" by (simp_all split: if_splits)
  then show ?thesis by (simp add: todo_def)
next
  case CloseReader
  with assms(1) have "cmCloser s = Cancelled" "s' = s\<lparr>cmReaderClosed := True, cmCloser := Waiting\<rparr>" by (simp_all split: if_splits)
  then show ?thesis by (simp add: todo_def)
next
  case CloseReturns
  with assms(1) have "cmCloser s = Waiting" "s' = s\<lparr>cmCloser := Returned\<rparr>" by (simp_all split: if_splits)
  then show ?thesis by (simp add: todo_def)
qed

text \<open>
  The steps that are due whatever the command and the reader do: those of \<open>os/exec\<close>, of the goroutine and of
  the close function, once it was called; the kill only while the command lives.
\<close>

fun due :: "cmdState \<Rightarrow> cmdEvent \<Rightarrow> bool" where
  "due s ChildStep = False"
| "due s (ChildBroken r) = False"
| "due s (ReadN k) = False"
| "due s CloseCancel = False"
| "due s Kill = is_alive (cmChild s)"
| "due s _ = True"

lemma close_progress:
  assumes "order_inv c s" and called: "cmCloser s \<noteq> NotCalled" and stuck: "\<forall>ev. due s ev \<longrightarrow> cmdStep cap c s ev = None"
  shows "cmCloser s = Returned"
proof (rule ccontr)
  assume not: "cmCloser s \<noteq> Returned"
  have "cmdStep cap c s CloseReader = None" using spec [OF stuck, of "CloseReader"] by simp
  then have waiting: "cmCloser s = Waiting" using called not by (cases "cmCloser s") (simp_all split: if_splits)
  then have closed: "cmReaderClosed s" using assms(1) by (simp add: order_inv_def)
  have "cmdStep cap c s CloseReturns = None" using spec [OF stuck, of "CloseReturns"] by simp
  then have "\<not> cmDone s" using waiting by (simp split: if_splits)
  moreover have "cmdStep cap c s CloseDone = None" using spec [OF stuck, of "CloseDone"] by simp
  ultimately have writer: "cmWriter s = None" by (simp split: if_splits)
  have dead: "\<not> is_alive (cmChild s)"
  proof
    assume alive: "is_alive (cmChild s)"
    then have "\<not> cmKillSent s" using assms(1) by (simp add: order_inv_def)
    then have "cmdStep cap c s Kill \<noteq> None" using waiting writer alive by simp
    then show False using spec [OF stuck, of Kill] alive by (simp del: cmdStep.simps)
  qed
  have "cmdStep cap c s (InCopied True) = None" using spec [OF stuck, of "InCopied True"] by simp
  then have inp: "cmIn s \<noteq> None" by (simp split: if_splits)
  have "cmdStep cap c s OutCopied = None" using spec [OF stuck, of "OutCopied"] by simp
  then have copied: "cmCopied s \<noteq> None" using dead closed by (simp split: if_splits)
  have "cmdStep cap c s ErrCopy = None" using spec [OF stuck, of "ErrCopy"] by simp
  then have "cmErrCopied s" using dead by (simp split: list.splits if_splits)
  then have "cmdStep cap c s WaitReturns \<noteq> None" using writer dead inp copied by simp
  then show False using spec [OF stuck, of WaitReturns] by (simp del: cmdStep.simps)
qed

section \<open>The properties\<close>

text \<open>
  C13: reading from \<open>cmdStream\<close>, in whatever order the command, the copying goroutines, the waiting goroutine and
  the reader run: what was read is always the beginning of the command's output, the end of the stream is
  only seen after all of it and after the command exited with success, and where nothing was closed the
  reader that reads to the end has exactly the stream of \<open>cmdStream\<close>, its standard error
  in the error included.
\<close>

theorem cmdStream_pipe:
  assumes "cmd_reach cap c s"
  shows "prefix (cmGot s) (outs (cdScript c)) \<and>
    (cmEnd s = Some EOF \<longrightarrow> cmGot s = outs (cdScript c) \<and> cdExit c = None) \<and>
    (\<forall>e cd cmd. cmEnd s = Some e \<longrightarrow> cmCloser s = NotCalled \<longrightarrow> runs_command cd cmd c \<longrightarrow>
       cmdStream cd cmd (cdInput c) = Inr \<lparr>bData = cmGot s, bErr = (if e = EOF then None else Some e)\<rparr>)"
proof (intro conjI allI impI)
  show "prefix (cmGot s) (outs (cdScript c))" using cmd_invs [OF assms] by (simp add: data_inv_def)
next
  assume "cmEnd s = Some EOF"
  then show "cmGot s = outs (cdScript c)" "cdExit c = None" using eof_inv_reach [OF assms] by (simp_all add: eof_inv_def)
next
  fix e cd cmd
  assume e: "cmEnd s = Some e" "cmCloser s = NotCalled" and r: "runs_command cd cmd c"
  from undisturbed_end [OF assms e] obtain w where w: "cmGot s = outs (cdScript c)"
    "w = cdExit c \<or> cdExit c = None \<and> w = bErr (cdInput c)"
    "e = (case w of None \<Rightarrow> EOF | Some x \<Rightarrow> streamError (errs (cdScript c)) x)" by blast
  then have "w = cdExit c" using r by (auto simp: runs_command_def)
  then show "cmdStream cd cmd (cdInput c) = Inr \<lparr>bData = cmGot s, bErr = (if e = EOF then None else Some e)\<rparr>"
    using w(1,3) r by (cases "cdExit c") (simp_all add: cmdStream_def runs_command_def streamError_def EOF_def)
qed

definition failing_unpigz :: command where
  "failing_unpigz =
     \<lparr>cdScript = [Stdout CHR ''a'', Stderr CHR ''!'', Stdout CHR ''b''], cdExit = Some (ErrMsg ''exit status 1'' []),
      cdInput = \<lparr>bData = ''z'', bErr = None\<rparr>\<rparr>"

theorem cmdStream_pipe_witness:
  "\<exists>s. cmdRun 1 failing_unpigz (cmdStart failing_unpigz)
      [ChildStep, ReadN 1, ChildStep, ChildStep, ErrCopy, ChildStep, ReadN 1, InCopied True, OutCopied, ErrCopy,
       WaitReturns, ReadN 5, CloseDone] = Some s \<and>
     cmEnd s = Some (streamError ''!'' (ErrMsg ''exit status 1'' [])) \<and> prefix (cmGot s) ''ab''"
proof -
  let ?evs = "[ChildStep, ReadN 1, ChildStep, ChildStep, ErrCopy, ChildStep, ReadN 1, InCopied True, OutCopied, ErrCopy,
       WaitReturns, ReadN 5, CloseDone]"
  obtain s where s: "cmdRun 1 failing_unpigz (cmdStart failing_unpigz) ?evs = Some s"
    "cmEnd s = Some (streamError ''!'' (ErrMsg ''exit status 1'' []))"
    by (simp add: failing_unpigz_def cmdStart_def waitError_def status_def)
  from cmdRun_reach [OF cmd_reach.start s(1)] have "cmd_reach 1 failing_unpigz s" .
  from cmdStream_pipe [OF this] s show ?thesis by (auto simp: failing_unpigz_def)
qed

text \<open>
  C14: closing a decompressed stream returns: once the close function has begun, every step of the
  machine other than a read uses up some of a finite number, and while it has not returned a step is due
  that depends neither on the command nor on the reader. When it has returned, the command is gone, its
  streams are copied and the pipe is closed.
\<close>

theorem cmdStream_close:
  assumes "cmd_reach cap c s" and "cmCloser s \<noteq> NotCalled"
  shows "(\<forall>ev s'. cmdStep cap c s ev = Some s' \<longrightarrow> \<not> is_read ev \<longrightarrow> todo s' < todo s) \<and>
    ((\<forall>ev. due s ev \<longrightarrow> cmdStep cap c s ev = None) \<longrightarrow> cmCloser s = Returned) \<and>
    (cmCloser s = Returned \<longrightarrow> \<not> is_alive (cmChild s) \<and> cmIn s \<noteq> None \<and> cmCopied s \<noteq> None \<and> cmErrCopied s \<and> cmReaderClosed s)"
proof -
  have o: "order_inv c s" using cmd_invs [OF assms(1)] by simp
  have "\<not> is_alive (cmChild s) \<and> cmIn s \<noteq> None \<and> cmCopied s \<noteq> None \<and> cmErrCopied s \<and> cmReaderClosed s" if "cmCloser s = Returned"
  proof -
    have "cmDone s" "cmReaderClosed s" using o that by (simp_all add: order_inv_def)
    moreover from this(1) have "cmWriter s \<noteq> None" using o by (simp add: order_inv_def)
    ultimately show ?thesis using o unfolding order_inv_def by blast
  qed
  then show ?thesis using todo_less close_progress [OF o assms(2)] by blast
qed

theorem cmdStream_close_witness:
  "\<exists>s. cmdRun 1 failing_unpigz (cmdStart failing_unpigz)
      [ChildStep, CloseCancel, CloseReader, OutCopied, ChildStep, Kill, InCopied False, ErrCopy, ErrCopy, WaitReturns,
       CloseDone, CloseReturns] = Some s \<and> \<not> is_alive (cmChild s)"
proof -
  let ?evs = "[ChildStep, CloseCancel, CloseReader, OutCopied, ChildStep, Kill, InCopied False, ErrCopy, ErrCopy, WaitReturns,
       CloseDone, CloseReturns]"
  obtain s where s: "cmdRun 1 failing_unpigz (cmdStart failing_unpigz) ?evs = Some s" "cmCloser s = Returned"
    by (simp add: failing_unpigz_def cmdStart_def waitError_def status_def)
  from cmdRun_reach [OF cmd_reach.start s(1)] have "cmd_reach 1 failing_unpigz s" .
  moreover have "cmCloser s \<noteq> NotCalled" using s(2) by simp
  ultimately show ?thesis using cmdStream_close [of 1 failing_unpigz s] s by blast
qed

end
