(* ===== verification/FsFacts.thy ===== *)
theory FsFacts
  imports OsCalls
begin

text \<open>
  Facts about the file system model that every component uses: what file modes say about an
  inode's kind, and how path resolution proceeds: through directories, through names that
  are not there, beneath a root and inside one.
\<close>

section \<open>Modes and kinds\<close>


lemma and_perm_high: "ModePerm AND x = 0 \<Longrightarrow> mode_perm m AND x = 0"
  by (simp add: mode_perm_def and.assoc)

lemma special_bits_high:
  "ModeSetuid AND x = 0 \<Longrightarrow> ModeSetgid AND x = 0 \<Longrightarrow> ModeSticky AND x = 0 \<Longrightarrow> special_bits m AND x = 0"
  by (simp add: special_bits_def bit.conj_disj_distrib2)

lemmas mode_defs =
  ModeDir_def ModeSymlink_def ModeDevice_def ModeNamedPipe_def ModeSocket_def ModeSetuid_def
  ModeSetgid_def ModeCharDevice_def ModeSticky_def ModePerm_def

lemma inode_mode_dir: "mode_is_dir (inode_mode nd) \<longleftrightarrow> ikind nd = KDir"
proof -
  have "inode_mode nd AND ModeDir = kind_bits (ikind nd) AND ModeDir"
    by (simp add: inode_mode_def bit.conj_disj_distrib2 and_perm_high special_bits_high mode_defs)
  then show ?thesis
    by (cases "ikind nd") (simp_all add: mode_is_dir_def mode_defs)
qed

lemma inode_mode_symlink: "mode_is_symlink (inode_mode nd) \<longleftrightarrow> (\<exists>t. ikind nd = KSym t)"
proof -
  have "inode_mode nd AND ModeSymlink = kind_bits (ikind nd) AND ModeSymlink"
    by (simp add: inode_mode_def bit.conj_disj_distrib2 and_perm_high special_bits_high mode_defs)
  then show ?thesis
    by (cases "ikind nd") (simp_all add: mode_is_symlink_def mode_defs)
qed

lemma fileinfo_is_dir [simp]: "fi_is_dir (fileinfo s i nd) \<longleftrightarrow> ikind nd = KDir"
  by (simp add: fi_is_dir_def fileinfo_def inode_mode_dir)

lemma fileinfo_is_symlink [simp]: "fi_is_symlink (fileinfo s i nd) \<longleftrightarrow> (\<exists>t. ikind nd = KSym t)"
  by (simp add: fi_is_symlink_def fileinfo_def inode_mode_symlink)

section \<open>Path resolution\<close>

text \<open>Every non-empty prefix of \<open>q\<close> below \<open>base\<close> is a directory.\<close>

fun dirs_to :: "fsys \<Rightarrow> loc \<Rightarrow> loc \<Rightarrow> bool" where
  "dirs_to s base [] = True"
| "dirs_to s base (c # cs) = (dir_at s (base @ [c]) \<and> dirs_to s (base @ [c]) cs)"

lemma dirs_to_append: "dirs_to s base (p @ q) \<longleftrightarrow> dirs_to s base p \<and> dirs_to s (base @ p) q"
  by (induction p arbitrary: base) auto

lemma dirs_to_snoc: "dirs_to s base (q @ [c]) \<longleftrightarrow> dirs_to s base q \<and> dir_at s (base @ q @ [c])"
  by (simp add: dirs_to_append)

lemma dirs_to_prefix: "dirs_to s base q \<Longrightarrow> prefix p q \<Longrightarrow> dirs_to s base p"
  by (auto simp: prefix_def dirs_to_append)

lemma dirs_to_butlast: "dirs_to s base q \<Longrightarrow> dirs_to s base (butlast q)"
  by (rule dirs_to_prefix) (auto simp: prefixeq_butlast)

lemma dir_at_node: "dir_at s p \<longleftrightarrow> (\<exists>nd. node_at s p = Some nd \<and> ikind nd = KDir)"
  by (simp add: dir_at_def split: option.split)

lemma walk_name:
  "c \<noteq> [] \<Longrightarrow> c \<noteq> dot \<Longrightarrow> c \<noteq> dotdot \<Longrightarrow> walk s sc base f l st (c # cs) =
     (case node_at s (base @ st @ [c]) of
        None \<Rightarrow> (if cs = [] then Inr (st @ [c]) else Inl (Errno ENOENT))
      | Some nd \<Rightarrow>
          (case ikind nd of
             KSym t \<Rightarrow>
               (if cs = [] \<and> \<not> f then Inr (st @ [c])
                else if l = 0 then Inl (Errno ELOOP)
                else if IsAbs t then
                  (case sc of
                     Beneath \<Rightarrow> Inl PathEscapes
                   | InRoot \<Rightarrow> walk s sc base f (l - 1) [] (split_slash t @ cs))
                else walk s sc base f (l - 1) st (split_slash t @ cs))
           | KDir \<Rightarrow> walk s sc base f l (st @ [c]) cs
           | _ \<Rightarrow> (if cs = [] then Inr (st @ [c]) else Inl (Errno ENOTDIR))))"
  by (subst walk.simps(2)) (simp only: if_False simp_thms)

lemma walk_dirs:
  "dirs_to s (base @ st) ds \<Longrightarrow> list_all is_name ds \<Longrightarrow>
     walk s sc base f l st (ds @ cs) = walk s sc base f l (st @ ds) cs"
proof (induction ds arbitrary: st)
  case (Cons d ds)
  have d: "dir_at s (base @ st @ [d])" and ds: "dirs_to s (base @ (st @ [d])) ds"
    using Cons.prems(1) by simp_all
  from d Cons.prems(2) have "walk s sc base f l st ((d # ds) @ cs) = walk s sc base f l (st @ [d]) (ds @ cs)"
    by (auto simp: walk_name dir_at_node is_name_simps)
  also have "\<dots> = walk s sc base f l ((st @ [d]) @ ds) cs"
    using Cons.IH [OF ds] Cons.prems(2) by simp
  finally show ?case by simp
qed simp


text \<open>
  Induction along a resolution: the links left, the location reached, the components left.
\<close>

lemma walk_induct [case_names Nil skip top pop name]:
  fixes P :: "nat \<Rightarrow> loc \<Rightarrow> string list \<Rightarrow> bool"
  assumes Nil: "\<And>l st. P l st []"
    and skip: "\<And>l st c cs. c = [] \<or> c = dot \<Longrightarrow> P l st cs \<Longrightarrow> P l st (c # cs)"
    and top: "\<And>l cs. P l [] cs \<Longrightarrow> P l [] (dotdot # cs)"
    and pop: "\<And>l st cs. st \<noteq> [] \<Longrightarrow> P l (butlast st) cs \<Longrightarrow> P l st (dotdot # cs)"
    and name: "\<And>l st c cs. c \<noteq> [] \<Longrightarrow> c \<noteq> dot \<Longrightarrow> c \<noteq> dotdot \<Longrightarrow> P l (st @ [c]) cs \<Longrightarrow>
      (\<And>t st'. l \<noteq> 0 \<Longrightarrow> P (l - 1) st' (split_slash t @ cs)) \<Longrightarrow> P l st (c # cs)"
  shows "P l st cs"
proof (induction "(l, length cs)" arbitrary: l st cs rule: wf_induct_rule [OF wf_lex_prod [OF wf_less_than wf_less_than]])
  case (1 l cs st)
  have IH: "P l' st' cs'" if "l' < l \<or> (l' = l \<and> length cs' < length cs)" for l' st' cs'
    using 1 [of l' cs' st'] that by auto
  show ?case
  proof (cases cs)
    case Nil
    with assms(1) show ?thesis by simp
  next
    case (Cons c ds)
    have ds: "P l st' ds" for st' using IH Cons by simp
    consider "c = [] \<or> c = dot" | "c = dotdot" "st = []" | "c = dotdot" "st \<noteq> []"
      | "c \<noteq> []" "c \<noteq> dot" "c \<noteq> dotdot" by blast
    then show ?thesis
    proof cases
      case 4
      then show ?thesis unfolding Cons by (intro name ds IH) auto
    next
      case 3
      then show ?thesis unfolding Cons using pop ds by blast
    qed (simp_all only: Cons skip top ds)
  qed
qed

lemma walk_skip: "c = [] \<or> c = dot \<Longrightarrow> walk s sc base f l st (c # cs) = walk s sc base f l st cs"
  by (subst walk.simps(2)) (simp only: if_True)

lemma walk_top:
  "walk s sc base f l [] (dotdot # cs) =
     (case sc of Beneath \<Rightarrow> Inl PathEscapes | InRoot \<Rightarrow> walk s sc base f l [] cs)"
  by (subst walk.simps(2)) simp

lemma walk_pop: "st \<noteq> [] \<Longrightarrow> walk s sc base f l st (dotdot # cs) = walk s sc base f l (butlast st) cs"
  by (subst walk.simps(2)) simp

lemma walk_beneath_inroot:
  "walk s Beneath base f l st cs = Inr q \<Longrightarrow> l \<le> l' \<Longrightarrow> walk s InRoot base f l' st cs = Inr q"
proof (induction l st cs arbitrary: l' rule: walk_induct)
  case (name l st c cs)
  show ?case
  proof (cases "node_at s (base @ st @ [c])")
    case None
    with name.prems name.hyps show ?thesis by (simp add: walk_name)
  next
    case (Some nd)
    show ?thesis
    proof (cases "ikind nd")
      case (KSym t)
      then show ?thesis using name.prems name.hyps name.IH(2) [of st t "l' - 1"] Some
        by (auto simp: walk_name split: if_splits)
    qed (use name.prems name.hyps name.IH(1) Some in \<open>auto simp: walk_name split: if_splits\<close>)
  qed
qed (simp_all add: walk_skip walk_top walk_pop)

section \<open>Absolute paths through directories\<close>

text \<open>A machine that refuses nothing on its own.\<close>

definition no_faults :: "host \<Rightarrow> fsys \<Rightarrow> bool" where
  "no_faults h s \<longleftrightarrow> (\<forall>op p. hFault h op p s = None)"

lemma kresolve_abs:
  assumes "dirs_to s (hRoot h) ps" and "list_all is_name ps" and "is_name c"
    and "\<not> f \<or> (\<forall>t nd. node_at s (hRoot h @ ps @ [c]) = Some nd \<longrightarrow> ikind nd \<noteq> KSym t)"
  shows "kresolve h f (abs_path (ps @ [c])) s = Inr (hRoot h @ ps @ [c])"
proof -
  have names: "list_all is_name (ps @ [c])" using assms by simp
  have split: "split_slash (abs_path (ps @ [c])) = [] # ps @ [c]"
    using split_join_comps [OF names_are_comps [OF names]] by (simp add: abs_path_def render_def)
  have "walk s InRoot (hRoot h) f (hLinks h) [] ([] # (ps @ [c]))
      = walk s InRoot (hRoot h) f (hLinks h) ps [c]"
    using walk_dirs [of s "hRoot h" "[]" ps InRoot f "hLinks h" "[c]"] assms(1,2) by (simp add: walk_skip)
  also have "\<dots> = Inr (ps @ [c])"
    using assms(4) is_name_simps [OF assms(3)]
    by (auto simp: walk_name split: option.split ikind.split)
  finally show ?thesis by (simp add: kresolve_def split)
qed

lemma kresolve_root: "kresolve h f (abs_path []) s = Inr (hRoot h)"
  by (simp add: kresolve_def walk_skip)

lemma kresolve_dirs:
  assumes "dirs_to s (hRoot h) ps" and "list_all is_name ps"
  shows "kresolve h f (abs_path ps) s = Inr (hRoot h @ ps)"
proof (cases ps rule: rev_cases)
  case (snoc qs c)
  then show ?thesis
    using kresolve_abs [of s h qs c f] assms by (auto simp: dirs_to_snoc dir_at_node)
qed (use kresolve_root in simp)

lemma os_Lstat_abs:
  assumes "no_faults h s" and "kresolve h False path s = Inr p"
  shows "os_Lstat h path s =
    (case ino_at s p of
       None \<Rightarrow> (Inl (PathError ''lstat'' path (Errno ENOENT)), s)
     | Some i \<Rightarrow>
         (case inodes s i of
            None \<Rightarrow> (Inl (PathError ''lstat'' path (Errno ENOENT)), s)
          | Some nd \<Rightarrow> (Inr (fileinfo s i nd), s)))"
  using assms by (simp add: os_Lstat_def path_op_def no_faults_def p_stat_def split: option.split)

section \<open>Walks\<close>

lemma path_op_snd: "(\<And>p. snd (g p s) = s) \<Longrightarrow> snd (path_op h op opn f g name s) = s"
  by (auto simp: path_op_def split: option.split sum.split prod.split) (metis snd_conv)+

lemma os_ReadDir_snd [simp]: "snd (os_ReadDir h p s) = s"
  by (simp add: os_ReadDir_def path_op_snd p_readdir_def split: option.split)

lemma os_Lstat_snd [simp]: "snd (os_Lstat h p s) = s"
  by (simp add: os_Lstat_def path_op_snd p_stat_def split: option.split)

text \<open>A walk keeps what its callback, its stat and its reading of directories keep.\<close>

context guarantee
begin

lemma keeps_signal:
  "keeps G x \<Longrightarrow> keeps G m \<Longrightarrow> keeps G (case r of Inl SkipDir \<Rightarrow> x | Inl e \<Rightarrow> fail e | Inr (_::unit) \<Rightarrow> m)"
  by (cases r; cases "projl r") (auto simp: keeps_fail)

lemma keeps_walk_entries: "(\<And>n d. keeps G (f n d)) \<Longrightarrow> keeps G (walk_entries f es)"
proof (induction es)
  case (Cons e es)
  then show ?case
    by (cases e) (auto intro!: keeps_bindE keeps_tryE keeps_signal keeps_ret)
qed (simp add: keeps_ret)

lemma keeps_walkDir:
  "(\<And>p. keeps G (rd p)) \<Longrightarrow> (\<And>p d e. keeps G (fn p d e)) \<Longrightarrow> keeps G (walkDir n rd fn p d)"
proof (induction n arbitrary: p d)
  case (Suc n)
  show ?case unfolding walkDir.simps
    by (intro keeps_bindE keeps_tryE Suc.prems keeps_signal keeps_if keeps_ret keeps_fail
        keeps_case_sum keeps_walk_entries Suc.IH)
qed (simp add: keeps_fail)

lemma keeps_WalkDir_in:
  assumes "\<And>p. keeps G (lstat p)" and "\<And>p. keeps G (rd p)" and "\<And>p d e. keeps G (fn p d e)"
  shows "keeps G (WalkDir_in fs lstat rd root fn)"
proof (rule keepsI)
  fix s
  let ?m = "case lstat root s of
              (Inl err, s') \<Rightarrow> fn root False (Some err) s'
            | (Inr fi, s') \<Rightarrow> walkDir (walk_depth (fs s')) rd fn root (fi_is_dir fi) s'"
  have fn: "G t (snd (fn root False (Some e) t))" for e t using assms(3) by (simp add: keeps_def)
  have wd: "G t (snd (walkDir n rd fn root d t))" for n d t
    using keeps_walkDir [OF assms(2,3)] by (simp add: keeps_def)
  obtain r t where l: "lstat root s = (r, t)" by (cases "lstat root s")
  then have "G s t" using assms(1) by (rule keepsD [rotated])
  then have "G s (snd ?m)" using fn wd l by (auto split: sum.split intro: G_trans)
  moreover have "snd (WalkDir_in fs lstat rd root fn s) = snd ?m"
    unfolding WalkDir_in_def by (cases ?m) (simp split: sum.split wsignal.split)
  ultimately show "G s (snd (WalkDir_in fs lstat rd root fn s))" by simp
qed

end

end
