(* ===== verification/RootPath.thy ===== *)
theory RootPath
  imports FsFacts
begin

text \<open>
  Paths below the extraction root: \<open>rootpath.go\<close> (resolving a path as a process chrooted at
  the root would) and the three functions of \<open>archive.go\<close> that decide which root-relative
  path an entry is extracted to (\<open>isPathEscapes\<close>, \<open>resolveArchivePath\<close>,
  \<open>resolveHardlinkTarget\<close>). They only read the file system: each is a function of its state.
\<close>

section \<open>The definitions\<close>

definition errTooManyLinks :: goerror where
  "errTooManyLinks = ErrMsg ''too many links'' []"

record fsRootPathResult =
  rpPath :: string
  followedAbsoluteLink :: bool
  relativeEscapeBeforeAbsolute :: bool

text \<open>
  The loop of \<open>resolveFSRootPath\<close>. \<open>fa\<close> and \<open>re\<close> are the two flags of the result,
  \<open>resolved\<close> the components resolved so far, \<open>n\<close> the links walked, the list what is left of
  the path. The source tests \<open>linksWalked == 255\<close>; \<open>n\<close> starts at 0 and grows by one, so
  \<open>255 \<le> n\<close> is the same test.
\<close>

function resolve_loop ::
  "host \<Rightarrow> string \<Rightarrow> fsys \<Rightarrow> bool \<Rightarrow> bool \<Rightarrow> string list \<Rightarrow> nat \<Rightarrow> string list \<Rightarrow> goerror + fsRootPathResult"
where
  "resolve_loop h root s fa re resolved n [] =
     Inr \<lparr>rpPath = Join [root, Join resolved],
          followedAbsoluteLink = fa, relativeEscapeBeforeAbsolute = re\<rparr>"
| "resolve_loop h root s fa re resolved n (part # parts) =
     (if part = [] \<or> part = dot then resolve_loop h root s fa re resolved n parts
      else if part = dotdot then
        (if resolved \<noteq> [] then resolve_loop h root s fa re (butlast resolved) n parts
         else if \<not> fa then resolve_loop h root s fa True resolved n parts
         else resolve_loop h root s fa re resolved n parts)
      else
        (let candidate = Join [root, Join (resolved @ [part])]
         in case fst (os_Lstat h candidate s) of
              Inl err \<Rightarrow>
                (if is_not_exist err then resolve_loop h root s fa re (resolved @ [part]) n parts
                 else Inl err)
            | Inr fi \<Rightarrow>
                (if \<not> fi_is_symlink fi then
                   (if parts \<noteq> [] \<and> \<not> fi_is_dir fi
                    then Inl (PathError ''resolve'' candidate (Errno ENOTDIR))
                    else resolve_loop h root s fa re (resolved @ [part]) n parts)
                 else if 255 \<le> n then Inl errTooManyLinks
                 else
                   (case fst (os_Readlink h candidate s) of
                      Inl err \<Rightarrow> Inl err
                    | Inr target \<Rightarrow>
                        (if IsAbs target
                         then resolve_loop h root s True re [] (Suc n)
                                (split_slash (FromSlash target) @ parts)
                         else resolve_loop h root s fa re resolved (Suc n)
                                (split_slash (FromSlash target) @ parts))))))"
  by pat_completeness auto
termination
  by (relation "measures [\<lambda>(h, root, s, fa, re, res, n, ps). 255 - n,
                          \<lambda>(h, root, s, fa, re, res, n, ps). length ps]") auto

declare resolve_loop.simps(2) [simp del]

definition resolveFSRootPath :: "host \<Rightarrow> string \<Rightarrow> string \<Rightarrow> fsys \<Rightarrow> goerror + fsRootPathResult" where
  "resolveFSRootPath h root path s =
     resolve_loop h root s False False [] 0 (split_slash (FromSlash path))"

definition fsRootPath :: "host \<Rightarrow> string \<Rightarrow> string \<Rightarrow> fsys \<Rightarrow> goerror + string" where
  "fsRootPath h root path s = map_sum id rpPath (resolveFSRootPath h root path s)"

lemma err_unwrap_size: "err_unwrap e = Some e' \<Longrightarrow> size e' < size e"
  by (cases e) auto

function isPathEscapes :: "goerror \<Rightarrow> bool" where
  "isPathEscapes err =
     (case err_unwrap err of
        None \<Rightarrow> leaf_text err = ''path escapes from parent''
      | Some err' \<Rightarrow> isPathEscapes err')"
  by pat_completeness auto
termination
  by (relation "measure size") (auto dest: err_unwrap_size)

declare isPathEscapes.simps [simp del]

record resolvedArchivePath =
  raPath :: string
  parentWasPresent :: bool

definition resolveArchivePath :: "host \<Rightarrow> goRoot \<Rightarrow> string \<Rightarrow> fsys \<Rightarrow> goerror + resolvedArchivePath" where
  "resolveArchivePath h R name s =
     (let parent0 = SplitDir name; base = SplitFile name
      in if parent0 = [] then Inr \<lparr>raPath = name, parentWasPresent = True\<rparr>
         else
           (let parent = Clean parent0
            in case fst (root_Stat h R parent s) of
                 Inr _ \<Rightarrow> Inr \<lparr>raPath = name, parentWasPresent = True\<rparr>
               | Inl statErr \<Rightarrow>
                   (if \<not> is_not_exist statErr \<and> \<not> isPathEscapes statErr then Inl statErr
                    else
                      (case resolveFSRootPath h (rName R) parent s of
                         Inl err \<Rightarrow> Inl err
                       | Inr resolved \<Rightarrow>
                           (if isPathEscapes statErr \<and>
                               (\<not> followedAbsoluteLink resolved \<or> relativeEscapeBeforeAbsolute resolved)
                            then Inl statErr
                            else
                              (case Rel (rName R) (rpPath resolved) of
                                 None \<Rightarrow>
                                   Inl (BreakoutErr (ErrMsg ''could not make resolved parent relative to root''
                                     [rpPath resolved, rName R]))
                               | Some relParent \<Rightarrow>
                                   (if relParent \<noteq> dot \<and> \<not> IsLocal relParent
                                    then Inl (BreakoutErr (ErrMsg ''resolved parent escapes root''
                                      [rpPath resolved, rName R]))
                                    else Inr \<lparr>raPath = Join [relParent, base],
                                              parentWasPresent = False\<rparr>)))))))"

definition resolveHardlinkTarget :: "host \<Rightarrow> goRoot \<Rightarrow> string \<Rightarrow> fsys \<Rightarrow> goerror + string" where
  "resolveHardlinkTarget h R linkname s =
     (let cleaned0 = Clean linkname;
          cleaned = (if HasPrefix cleaned0 [slash] then Clean (TrimLeft linkname slash) else cleaned0)
      in if cleaned = dot \<or> \<not> IsLocal cleaned
         then Inl (BreakoutErr (ErrMsg ''invalid hardlink target'' [linkname]))
         else map_sum id raPath (resolveArchivePath h R (FromSlash cleaned) s))"

end
