(* ===== verification/Dirent.thy ===== *)
theory Dirent
  imports GoTypes
begin

text \<open>
  The records \<open>getdents(2)\<close> writes, and \<open>parseDirent\<close> and \<open>clen\<close> of \<open>changes_linux.go\<close>, which
  read them through pointers into the buffer. The parser is right on every sequence of
  well-formed records, whatever memory lies behind the buffer.
\<close>

section \<open>Numbers in memory\<close>

fun le_nat :: "string \<Rightarrow> nat" where
  "le_nat [] = 0"
| "le_nat (c # cs) = of_char c + 256 * le_nat cs"

fun le_bytes :: "nat \<Rightarrow> nat \<Rightarrow> string" where
  "le_bytes 0 n = []"
| "le_bytes (Suc k) n = char_of (n mod 256) # le_bytes k (n div 256)"

lemma length_le_bytes [simp]: "length (le_bytes k n) = k"
  by (induction k n rule: le_bytes.induct) simp_all

lemma le_nat_bytes: "n < 256 ^ k \<Longrightarrow> le_nat (le_bytes k n) = n"
  by (induction k n rule: le_bytes.induct) (simp_all add: less_mult_imp_div_less)

section \<open>The parser\<close>

record nameIno =
  niName :: string
  niIno :: nat

definition nul :: char where "nul = char_of (0::nat)"

definition clen :: "string \<Rightarrow> nat" where
  "clen n = length (takeWhile (\<lambda>c. c \<noteq> nul) n)"

text \<open>The fields of \<open>unix.Dirent\<close> at a pointer: the inode, the length of the record, the name.\<close>

definition dirent_Ino :: "string \<Rightarrow> nat" where
  "dirent_Ino m = le_nat (take 8 m)"

definition dirent_Reclen :: "string \<Rightarrow> nat" where
  "dirent_Reclen m = le_nat (take 2 (drop 16 m))"

definition dirent_Name :: "string \<Rightarrow> string" where
  "dirent_Name m = (let b = take 10000 (drop 19 m) in take (clen b) b)"

text \<open>
  \<open>behind\<close> is the memory after the slice, which a pointer into it can reach. A record length
  past the end of the slice panics; one of zero never ends (the value \<open>None\<close>).
\<close>

partial_function (option) parse_loop ::
  "string \<Rightarrow> string \<Rightarrow> nameIno list \<Rightarrow> (goerror + string \<times> nameIno list) option" where
  "parse_loop behind buf names =
     (if buf = [] then Some (Inr (buf, names))
      else
        (let dirent = buf @ behind
         in if dirent_Reclen dirent > length buf
            then Some (Inl (GoPanic ''slice bounds out of range''))
            else
              (let buf' = drop (dirent_Reclen dirent) buf
               in if dirent_Ino dirent = 0 then parse_loop behind buf' names
                  else if dirent_Name dirent = dot \<or> dirent_Name dirent = dotdot
                  then parse_loop behind buf' names
                  else parse_loop behind buf'
                         (names @ [\<lparr>niName = dirent_Name dirent, niIno = dirent_Ino dirent\<rparr>]))))"

definition parseDirent ::
  "string \<Rightarrow> string \<Rightarrow> nameIno list \<Rightarrow> (goerror + nat \<times> nameIno list) option" where
  "parseDirent behind buf names =
     map_option (map_sum id (\<lambda>(rest, names'). (length buf - length rest, names')))
       (parse_loop behind buf names)"

section \<open>Records\<close>

text \<open>
  A record as the kernel writes it: inode number, offset, record length, file type, the name
  with its terminator, padding to a multiple of eight bytes.
\<close>

definition dirent_size :: "nameIno \<Rightarrow> nat" where
  "dirent_size e = 8 * ((27 + length (niName e)) div 8)"

definition dirent_bytes :: "nat \<Rightarrow> nat \<Rightarrow> nameIno \<Rightarrow> string" where
  "dirent_bytes off ft e =
     (let b = le_bytes 8 (niIno e) @ le_bytes 8 off @ le_bytes 2 (dirent_size e) @ le_bytes 1 ft @ niName e
      in b @ replicate (dirent_size e - length b) nul)"

definition dirent_ok :: "nameIno \<Rightarrow> bool" where
  "dirent_ok e \<longleftrightarrow> niIno e < 2 ^ 64 \<and> nul \<notin> set (niName e) \<and> length (niName e) \<le> 255"

text \<open>The entries of a directory a reader cares about.\<close>

definition useful :: "nameIno \<Rightarrow> bool" where
  "useful e \<longleftrightarrow> niIno e \<noteq> 0 \<and> niName e \<noteq> dot \<and> niName e \<noteq> dotdot"

lemma dirent_size_bounds: "length (niName e) + 20 \<le> dirent_size e" "dirent_size e \<le> length (niName e) + 27"
  by (simp_all add: dirent_size_def)

lemma length_dirent: "length (dirent_bytes off ft e) = dirent_size e"
  using dirent_size_bounds [of e] by (simp add: dirent_bytes_def Let_def)

lemma takeWhile_nul: "nul \<notin> set n \<Longrightarrow> takeWhile (\<lambda>c. c \<noteq> nul) (n @ nul # xs) = n"
  by (induction n) auto

lemma dirent_split:
  obtains pad where "dirent_bytes off ft e =
    le_bytes 8 (niIno e) @ le_bytes 8 off @ le_bytes 2 (dirent_size e) @ le_bytes 1 ft @ niName e @ nul # pad"
proof -
  have "0 < dirent_size e - (19 + length (niName e))"
    using dirent_size_bounds(1) [of e] by simp
  then obtain k where "dirent_size e - (19 + length (niName e)) = Suc k"
    using gr0_implies_Suc by blast
  then show ?thesis by (intro that [of "replicate k nul"]) (simp add: dirent_bytes_def Let_def)
qed

lemma dirent_fields:
  assumes "dirent_ok e"
  shows "dirent_Ino (dirent_bytes off ft e @ m) = niIno e"
    and "dirent_Reclen (dirent_bytes off ft e @ m) = dirent_size e"
    and "dirent_Name (dirent_bytes off ft e @ m) = niName e"
proof -
  obtain pad where b: "dirent_bytes off ft e =
    le_bytes 8 (niIno e) @ le_bytes 8 off @ le_bytes 2 (dirent_size e) @ le_bytes 1 ft @ niName e @ nul # pad"
    by (rule dirent_split)
  show "dirent_Ino (dirent_bytes off ft e @ m) = niIno e"
    using assms by (simp add: dirent_Ino_def b le_nat_bytes dirent_ok_def)
  show "dirent_Reclen (dirent_bytes off ft e @ m) = dirent_size e"
    using assms dirent_size_bounds(2) [of e] by (simp add: dirent_Reclen_def b le_nat_bytes dirent_ok_def)
  have "take 10000 (niName e @ nul # pad @ m) = niName e @ nul # take (9999 - length (niName e)) (pad @ m)"
    using assms by (simp add: dirent_ok_def take_Cons')
  then show "dirent_Name (dirent_bytes off ft e @ m) = niName e"
    using assms by (simp add: dirent_Name_def b Let_def clen_def takeWhile_nul dirent_ok_def)
qed

lemma parse_loop_records:
  "\<forall>(off, ft, e) \<in> set es. dirent_ok e \<Longrightarrow>
     parse_loop behind (concat (map (\<lambda>(off, ft, e). dirent_bytes off ft e) es)) names =
       Some (Inr ([], names @ filter useful (map (\<lambda>(off, ft, e). e) es)))"
proof (induction es arbitrary: names)
  case Nil
  show ?case by (simp add: parse_loop.simps)
next
  case (Cons x es)
  obtain off ft e where x: "x = (off, ft, e)" by (cases x)
  let ?rest = "concat (map (\<lambda>(off, ft, e). dirent_bytes off ft e) es)"
  from Cons.prems x have ok: "dirent_ok e" by simp
  note f = dirent_fields [OF ok, of off ft "?rest @ behind"]
  have len: "length (dirent_bytes off ft e) = dirent_size e" by (rule length_dirent)
  then have ne: "dirent_bytes off ft e \<noteq> []" using dirent_size_bounds(1) [of e] by auto
  have e: "\<lparr>niName = niName e, niIno = niIno e\<rparr> = e" by simp
  have rest: "parse_loop behind ?rest ns = Some (Inr ([], ns @ filter useful (map (\<lambda>(off, ft, e). e) es)))" for ns
    using Cons.prems by (intro Cons.IH) simp
  show ?case
  proof (cases "useful e")
    case True
    then show ?thesis
      unfolding x list.map concat.simps prod.case
      by (subst parse_loop.simps) (simp add: ne f len e rest useful_def [of e] Let_def True)
  next
    case False
    then have "niIno e = 0 \<or> niName e = dot \<or> niName e = dotdot" by (auto simp: useful_def)
    with False show ?thesis
      unfolding x list.map concat.simps prod.case
      by (subst parse_loop.simps) (auto simp: ne f len rest Let_def)
  qed
qed

end
