(* ===== verification/Posix.thy ===== *)
theory Posix
  imports OsCalls Dirent
begin

text \<open>
  A concrete host: the calls of \<open>golang.org/x/sys/unix\<close> as a kernel with \<open>fchmodat2\<close> and
  without \<open>/proc\<close> implements them, on a machine that refuses nothing. The contracts of the
  other theories are interpreted on it, and concrete runs of the program use it.
\<close>

section \<open>The calls\<close>

definition posix_setxattr :: "string \<Rightarrow> string \<Rightarrow> loc \<Rightarrow> fsys \<Rightarrow> unix_result" where
  "posix_setxattr a d p s =
     (if node_at s p = None then (Some ENOENT, s)
      else (None, upd_at p (\<lambda>nd. nd\<lparr>ixattrs := aput a d (ixattrs nd)\<rparr>) s))"

definition posix_kind :: "filemode \<Rightarrow> 64 word \<Rightarrow> ikind" where
  "posix_kind mode dev =
     (let k = mode AND S_IFMT
      in if k = S_IFBLK then KBlk dev else if k = S_IFCHR then KChr dev
         else if k = S_IFIFO then KFifo else KReg [])"

definition posix_mknodat ::
  "(ikind \<Rightarrow> filemode \<Rightarrow> inode) \<Rightarrow> time \<Rightarrow> loc \<Rightarrow> string \<Rightarrow> filemode \<Rightarrow> 64 word \<Rightarrow> fsys \<Rightarrow> unix_result" where
  "posix_mknodat mk now d b mode dev s =
     (if \<not> dir_at s d then (Some ENOTDIR, s)
      else if node_at s (d @ [b]) \<noteq> None then (Some EEXIST, s)
      else (None, insert_node now (d @ [b]) (mk (posix_kind mode dev) (mode AND 0xFFF AND NOT (umask s))) s))"

text \<open>\<open>unix.Mkdev\<close>: the device number of glibc.\<close>

definition posix_mkdev :: "32 word \<Rightarrow> 32 word \<Rightarrow> 64 word" where
  "posix_mkdev major minor =
     push_bit 8 (ucast major AND 0xFFF) OR push_bit 32 (ucast major AND 0xFFFFF000)
     OR (ucast minor AND 0xFF) OR push_bit 12 (ucast minor AND 0xFFFFFF00)"

definition posix_major :: "64 word \<Rightarrow> 32 word" where
  "posix_major dev = ucast (drop_bit 8 dev AND 0xFFF) OR ucast (drop_bit 32 dev AND 0xFFFFF000)"

definition posix_minor :: "64 word \<Rightarrow> 32 word" where
  "posix_minor dev = ucast (dev AND 0xFF) OR ucast (drop_bit 12 dev AND 0xFFFFFF00)"

text \<open>A buffer of no bytes asks for the size; one that is too small is refused.\<close>

definition getxattr_value :: "string option \<Rightarrow> nat \<Rightarrow> errno + string \<times> nat" where
  "getxattr_value v n =
     (case v of
        None \<Rightarrow> Inl ENODATA
      | Some d \<Rightarrow>
          if n = 0 then Inr ([], length d)
          else if length d \<le> n then Inr (d, length d) else Inl ERANGE)"

text \<open>One record a call: the two dot entries, then the names of the directory.\<close>

definition ino_number :: "fsys \<Rightarrow> loc \<Rightarrow> nat" where
  "ino_number s p = (case ino_at s p of None \<Rightarrow> 0 | Some i \<Rightarrow> snd (inodev s i))"

definition dir_entries :: "fsys \<Rightarrow> loc \<Rightarrow> nameIno list" where
  "dir_entries s d = map (\<lambda>n. \<lparr>niName = n, niIno = ino_number s (d @ [n])\<rparr>) (children s d)"

definition dir_records :: "fsys \<Rightarrow> loc \<Rightarrow> nameIno list" where
  "dir_records s d =
     \<lparr>niName = dot, niIno = ino_number s d\<rparr> # \<lparr>niName = dotdot, niIno = ino_number s (butlast d)\<rparr> #
     dir_entries s d"

definition posix_readdirent :: "nat \<Rightarrow> loc \<Rightarrow> fsys \<Rightarrow> errno + string" where
  "posix_readdirent k d s =
     (if \<not> dir_at s d then Inl ENOTDIR
      else if k < length (dir_records s d) then Inr (dirent_bytes (Suc k) 0 (dir_records s d ! k))
      else Inr [])"

definition posix_fchownat :: "loc \<Rightarrow> string \<Rightarrow> int \<Rightarrow> int \<Rightarrow> fsys \<Rightarrow> unix_result" where
  "posix_fchownat d b uid gid s =
     (case p_lchown uid gid (d @ [b]) s of (Inl e, s') \<Rightarrow> (Some e, s') | (Inr _, s') \<Rightarrow> (None, s'))"

definition posix_fchmodat :: "loc \<Rightarrow> string \<Rightarrow> filemode \<Rightarrow> fsys \<Rightarrow> unix_result" where
  "posix_fchmodat d b m s =
     (case node_at s (d @ [b]) of
        None \<Rightarrow> (Some ENOENT, s)
      | Some nd \<Rightarrow>
          (case ikind nd of
             KSym _ \<Rightarrow> (Some EOPNOTSUPP, s)
           | _ \<Rightarrow> (None, upd_at (d @ [b]) (\<lambda>nd. nd\<lparr>iperm := m AND 0xFFF\<rparr>) s)))"

text \<open>A nanosecond count of \<open>UTIME_OMIT\<close> leaves the time as it is.\<close>

definition posix_time :: "int \<times> int \<Rightarrow> time \<Rightarrow> time" where
  "posix_time ts old = (if snd ts = 2 ^ 30 - 2 then old else fst ts * second + snd ts)"

definition posix_utimes :: "loc \<Rightarrow> string \<Rightarrow> int \<times> int \<Rightarrow> int \<times> int \<Rightarrow> fsys \<Rightarrow> unix_result" where
  "posix_utimes d b at mt s =
     (if node_at s (d @ [b]) = None then (Some ENOENT, s)
      else (None, upd_at (d @ [b])
              (\<lambda>nd. nd\<lparr>iatime := posix_time at (iatime nd), imtime := posix_time mt (imtime nd)\<rparr>) s))"

section \<open>The host\<close>

definition no_unix :: unixcalls where
  "no_unix =
     \<lparr>uReadDirent = (\<lambda>_ _ _ _. Inl ENOSYS), uLgetxattr = (\<lambda>_ _ _ _ _. Inl ENODATA), uMajor = posix_major, uMinor = posix_minor,
      uLsetxattr = (\<lambda>_ _ _ s. (Some ENOSYS, s)), uFsetxattr = (\<lambda>_ _ _ s. (Some ENOSYS, s)),
      uMknodat = (\<lambda>_ _ _ _ s. (Some ENOSYS, s)), uMkdev = posix_mkdev,
      uFchownat = (\<lambda>_ _ _ _ s. (Some ENOSYS, s)), uFchmodat = (\<lambda>_ _ _ s. (Some ENOSYS, s)),
      uOpenatPath = (\<lambda>_ _ _. Inl ENOSYS), uFchmodatFd = (\<lambda>_ _ _ s. (Some ENOSYS, s)),
      uChmod = (\<lambda>_ _ s. (Some ENOENT, s)), uUtimesNanoAt = (\<lambda>_ _ _ _ s. (Some ENOSYS, s))\<rparr>"

text \<open>The process runs as user and group \<open>0\<close> with its root and working directory at \<open>/\<close>.\<close>

definition base_host :: host where
  "base_host =
     \<lparr>hFault = (\<lambda>_ _ _. None), hUnix = no_unix, hRoot = [], hCwd = [], hLinks = 40, hRootLinks = 40,
      hNow = 1700000000 * second, hEuid = 0, hEgid = 0, hTempName = (\<lambda>_. ''123''), hUserNS = False,
      hNsec64 = True\<rparr>"

text \<open>The calls of a process that sees paths as \<open>h\<close> does.\<close>

definition posix_unix :: "host \<Rightarrow> unixcalls" where
  "posix_unix h = no_unix
     \<lparr>uReadDirent := (\<lambda>k d n s. posix_readdirent k d s),
      uLgetxattr := (\<lambda>k path a n s.
        case kresolve h False path s of
          Inl e \<Rightarrow> Inl ENOENT
        | Inr p \<Rightarrow>
            (case node_at s p of
               None \<Rightarrow> Inl ENOENT
             | Some nd \<Rightarrow> getxattr_value (map_of (ixattrs nd) a) n)),
      uLsetxattr := (\<lambda>path a d s.
        case kresolve h False path s of
          Inl e \<Rightarrow> (Some ENOENT, s)
        | Inr p \<Rightarrow> posix_setxattr a d p s),
      uFsetxattr := (\<lambda>p a d s. posix_setxattr a d p s),
      uMknodat := posix_mknodat (new_inode h) (hNow h),
      uFchownat := posix_fchownat,
      uFchmodat := posix_fchmodat,
      uUtimesNanoAt := posix_utimes\<rparr>"

definition with_unix :: "host \<Rightarrow> host" where
  "with_unix h = h\<lparr>hUnix := posix_unix h\<rparr>"

definition posix_host :: host where
  "posix_host = with_unix base_host"

lemma with_unix_simps [simp]:
  "hUnix (with_unix h) = posix_unix h" "hRoot (with_unix h) = hRoot h" "hCwd (with_unix h) = hCwd h"
  "hFault (with_unix h) = hFault h" "hTempName (with_unix h) = hTempName h"
  by (simp_all add: with_unix_def)

lemma with_unix_kresolve: "kresolve (with_unix h) f path s = kresolve h f path s"
  by (simp add: kresolve_def with_unix_def)

lemma posix_host_fault [simp]: "hFault posix_host op p s = None"
  by (simp add: posix_host_def base_host_def)

lemma posix_kresolve: "kresolve posix_host f path s = kresolve base_host f path s"
  by (simp add: posix_host_def with_unix_kresolve)

section \<open>A small file system\<close>

text \<open>\<open>/\<close>, \<open>/dest\<close>, \<open>/dest/etc\<close>, a file in it, a symlink out of the destination, and a file outside.\<close>

definition mk_node :: "ikind \<Rightarrow> filemode \<Rightarrow> inode" where
  "mk_node k perm = \<lparr>ikind = k, iperm = perm, iuid = 0, igid = 0, iatime = 0, imtime = 0, ixattrs = []\<rparr>"

definition demo_nodes :: "(loc \<times> inode) list" where
  "demo_nodes =
     [([], mk_node KDir 0x1ED),
      ([''dest''], mk_node KDir 0x1ED),
      ([''dest'', ''etc''], mk_node KDir 0x1ED),
      ([''dest'', ''etc'', ''motd''], mk_node (KReg ''hello'') 0x1A4),
      ([''dest'', ''link''], mk_node (KSym ''/etc'') 0x1FF),
      ([''dest'', ''up''], mk_node (KSym ''../..'') 0x1FF),
      ([''secret''], mk_node (KReg ''s3cret'') 0x180)]"

definition fs_of :: "(loc \<times> inode) list \<Rightarrow> fsys" where
  "fs_of ns =
     \<lparr>dents = zip (map fst ns) [0..<length ns],
      inodes = map_of (zip [0..<length ns] (map snd ns)),
      nextino = length ns, umask = 0x12, inodev = (\<lambda>i. (1, Suc i))\<rparr>"

definition demo_fs :: fsys where
  "demo_fs = fs_of demo_nodes"

definition demo_root :: goRoot where
  "demo_root = \<lparr>rName = ''/dest'', rDir = [''dest'']\<rparr>"

end
