(* ===== verification/RootPathFacts.thy ===== *)
theory RootPathFacts
  imports RootPath Posix
begin

text \<open>
  What the path resolvers of \<open>rootpath.go\<close> and \<open>archive.go\<close> promise. Two views of
  \<open>resolve_loop\<close>: where a process chrooted at the root resolves a path, it resolves it to
  the same place (\<open>resolve_loop_walk\<close>), and whatever it returns holds no symlink, so that
  using the path cannot leave the root (\<open>resolve_loop_safe\<close>).
\<close>


section \<open>The extraction root\<close>

text \<open>
  The root was opened under a clean absolute path without symlinks, the one it still has.
\<close>

definition canon_root :: "host \<Rightarrow> goRoot \<Rightarrow> fsys \<Rightarrow> bool" where
  "canon_root h R s \<longleftrightarrow>
     (let rs = comps (rName R)
      in list_all is_name rs \<and> rName R = render True rs \<and> rDir R = hRoot h @ rs \<and>
         dirs_to s (hRoot h) rs)"

lemma canon_rootE:
  assumes "canon_root h R s"
  obtains rs where "list_all is_name rs" and "rName R = render True rs"
    and "rDir R = hRoot h @ rs" and "dirs_to s (hRoot h) rs"
  using assms by (auto simp: canon_root_def Let_def)

text \<open>What the kernel finds under a path below the root none of whose directories is a symlink.\<close>

lemma kresolve_below:
  assumes "canon_root h R s" and "dirs_to s (rDir R) st" and "list_all is_name st" and "is_name c"
    and "\<not> f \<or> (\<forall>t nd. node_at s (rDir R @ st @ [c]) = Some nd \<longrightarrow> ikind nd \<noteq> KSym t)"
  shows "kresolve h f (Join [rName R, Join (st @ [c])]) s = Inr (rDir R @ st @ [c])"
  using assms(1)
proof (rule canon_rootE)
  fix rs
  assume rs: "list_all is_name rs" and R: "rName R = render True rs" "rDir R = hRoot h @ rs"
    and d: "dirs_to s (hRoot h) rs"
  let ?ds = "rs @ st"
  have names: "list_all is_name (?ds @ [c])" using rs assms(3,4) by simp
  have path: "Join [rName R, Join (st @ [c])] = slash # join_slash (?ds @ [c])"
    using Join_names [OF clean_form_names [OF rs], of "st @ [c]"] assms(3,4)
    by (simp add: R(1) render_def)
  have split: "split_slash (join_slash (rs @ st @ [c])) = rs @ st @ [c]"
    using split_join_comps [OF names_are_comps [OF names]] by simp
  have dirs: "dirs_to s (hRoot h @ []) ?ds"
    using d assms(2) by (simp add: dirs_to_append R(2))
  have "walk s InRoot (hRoot h) f (hLinks h) [] ([] # (?ds @ [c]))
      = walk s InRoot (hRoot h) f (hLinks h) ?ds [c]"
    using walk_dirs [OF dirs, of InRoot f "hLinks h" "[c]"] names by (simp add: walk_skip)
  also have "\<dots> = Inr (?ds @ [c])"
    using assms(5) is_name_simps [OF assms(4)]
    by (auto simp: walk_name R(2) split: option.split ikind.split)
  finally show ?thesis by (simp add: kresolve_def path split R(2))
qed


lemma os_Lstat_below:
  assumes "canon_root h R s" and "no_faults h s" and "dirs_to s (rDir R) st"
    and "list_all is_name st" and "is_name c"
  shows "fst (os_Lstat h (Join [rName R, Join (st @ [c])]) s) =
    (case ino_at s (rDir R @ st @ [c]) of
       None \<Rightarrow> Inl (PathError ''lstat'' (Join [rName R, Join (st @ [c])]) (Errno ENOENT))
     | Some i \<Rightarrow>
         (case inodes s i of
            None \<Rightarrow> Inl (PathError ''lstat'' (Join [rName R, Join (st @ [c])]) (Errno ENOENT))
          | Some nd \<Rightarrow> Inr (fileinfo s i nd)))"
  using kresolve_below [OF assms(1,3,4,5), of False] assms(2)
  by (simp add: os_Lstat_def path_op_def no_faults_def p_stat_def split: option.split)

lemma walk_False_last:
  "is_name c \<Longrightarrow> node_at s (base @ st @ [c]) = Some nd \<Longrightarrow> ikind nd = KSym t \<Longrightarrow>
    walk s sc base False l st [c] = Inr (st @ [c])"
  by (simp add: walk_name is_name_simps)

lemma os_Readlink_below:
  assumes "canon_root h R s" and "no_faults h s" and "dirs_to s (rDir R) st"
    and "list_all is_name st" and "is_name c"
    and "node_at s (rDir R @ st @ [c]) = Some nd" and "ikind nd = KSym t"
  shows "fst (os_Readlink h (Join [rName R, Join (st @ [c])]) s) = Inr t"
  using kresolve_below [OF assms(1,3,4,5), of False] assms(2,6,7)
  by (simp add: os_Readlink_def path_op_def no_faults_def p_readlink_def)

lemma resolve_skip:
  "c = [] \<or> c = dot \<Longrightarrow> resolve_loop h r s fa re st n (c # cs) = resolve_loop h r s fa re st n cs"
  by (subst resolve_loop.simps(2)) (simp only: if_True)

lemma resolve_top:
  "resolve_loop h r s fa re [] n (dotdot # cs) = resolve_loop h r s fa (re \<or> \<not> fa) [] n cs"
  by (subst resolve_loop.simps(2)) auto

lemma resolve_pop:
  "st \<noteq> [] \<Longrightarrow> resolve_loop h r s fa re st n (dotdot # cs) = resolve_loop h r s fa re (butlast st) n cs"
  by (subst resolve_loop.simps(2)) simp

lemma resolve_name:
  assumes "canon_root h R s" and "no_faults h s" and "dirs_to s (rDir R) st"
    and "list_all is_name st" and "is_name c"
  shows "resolve_loop h (rName R) s fa re st n (c # cs) =
    (case node_at s (rDir R @ st @ [c]) of
       None \<Rightarrow> resolve_loop h (rName R) s fa re (st @ [c]) n cs
     | Some nd \<Rightarrow>
         (case ikind nd of
            KSym t \<Rightarrow>
              (if 255 \<le> n then Inl errTooManyLinks
               else if IsAbs t
               then resolve_loop h (rName R) s True re [] (Suc n) (split_slash t @ cs)
               else resolve_loop h (rName R) s fa re st (Suc n) (split_slash t @ cs))
          | k \<Rightarrow>
              (if cs \<noteq> [] \<and> k \<noteq> KDir
               then Inl (PathError ''resolve'' (Join [rName R, Join (st @ [c])]) (Errno ENOTDIR))
               else resolve_loop h (rName R) s fa re (st @ [c]) n cs)))"
  using os_Lstat_below [OF assms] os_Readlink_below [OF assms] is_name_simps [OF assms(5)]
  by (subst resolve_loop.simps(2))
    (auto simp: Let_def node_at_def FromSlash_def split: option.split ikind.split)

abbreviation noslash :: "string list \<Rightarrow> bool" where
  "noslash cs \<equiv> list_all (\<lambda>c. slash \<notin> set c) cs"

lemma noslash_split [simp]: "noslash (split_slash t)"
  by (auto simp: list_all_iff dest: split_slash_noslash)

definition same_resolution ::
  "string \<Rightarrow> goerror + loc \<Rightarrow> goerror + fsRootPathResult \<Rightarrow> bool" where
  "same_resolution root w r \<longleftrightarrow>
     (case w of
        Inr q \<Rightarrow> (case r of Inr res \<Rightarrow> rpPath res = Join [root, Join q] | Inl _ \<Rightarrow> False)
      | Inl e \<Rightarrow>
          (e = Errno ELOOP \<longrightarrow> r = Inl errTooManyLinks) \<and>
          (e = Errno ENOTDIR \<longrightarrow> (\<exists>p. r = Inl (PathError ''resolve'' p (Errno ENOTDIR)))))"

lemma resolve_loop_walk:
  assumes "canon_root h R s" and "no_faults h s"
  shows "l \<le> 255 \<Longrightarrow> dirs_to s (rDir R) st \<Longrightarrow> list_all is_name st \<Longrightarrow> noslash cs \<Longrightarrow>
    same_resolution (rName R) (walk s InRoot (rDir R) True l st cs)
      (resolve_loop h (rName R) s fa re st (255 - l) cs)"
proof (induction l st cs arbitrary: fa re rule: walk_induct)
  case (name l st c cs)
  have c: "is_name c" using name.hyps name.prems(4) by (simp add: is_name_def is_comp_def)
  note R = resolve_name [OF assms name.prems(2,3) c]
  show ?case
  proof (cases "node_at s (rDir R @ st @ [c])")
    case None
    then show ?thesis using name.hyps by (simp add: R walk_name same_resolution_def)
  next
    case (Some nd)
    show ?thesis
    proof (cases "ikind nd")
      case KDir
      then have "dirs_to s (rDir R) (st @ [c])"
        using name.prems(2) Some by (simp add: dirs_to_snoc dir_at_node)
      then show ?thesis
        using name.IH(1) [of fa re] name.prems c KDir Some name.hyps by (simp add: R walk_name)
    next
      case (KSym t)
      have suc: "255 - (l - 1) = Suc (255 - l)" if "l \<noteq> 0" using that name.prems(1) by simp
      have ns: "noslash (split_slash t @ cs)" using name.prems(4) by simp
      have a: "l \<noteq> 0 \<Longrightarrow> same_resolution (rName R)
          (walk s InRoot (rDir R) True (l - 1) [] (split_slash t @ cs))
          (resolve_loop h (rName R) s True re [] (Suc (255 - l)) (split_slash t @ cs))"
        using name.IH(2) [of "[]" t True re] name.prems(1) ns suc by simp
      have b: "l \<noteq> 0 \<Longrightarrow> same_resolution (rName R)
          (walk s InRoot (rDir R) True (l - 1) st (split_slash t @ cs))
          (resolve_loop h (rName R) s fa re st (Suc (255 - l)) (split_slash t @ cs))"
        using name.IH(2) [of st t fa re] name.prems ns suc by simp
      show ?thesis
      proof (cases "l = 0")
        case True
        with KSym Some name.hyps show ?thesis by (simp add: R walk_name same_resolution_def)
      next
        case False
        then have "\<not> 255 \<le> 255 - l" using name.prems(1) by simp
        with False KSym Some name.hyps a b show ?thesis by (simp add: R walk_name)
      qed
    qed (use name.prems name.hyps Some in \<open>simp_all add: R walk_name same_resolution_def\<close>)
  qed
qed (simp_all add: walk_skip walk_top walk_pop resolve_skip resolve_top resolve_pop dirs_to_butlast
    list_all_butlast same_resolution_def)


section \<open>The resolved path holds no symlink\<close>

text \<open>
  \<open>nosym_dirs\<close>: walking the components meets only directories, until a name that is not
  there. \<open>nosym_path\<close>: the same, but the last component may be anything but a symlink.
\<close>

fun nosym_dirs :: "fsys \<Rightarrow> loc \<Rightarrow> loc \<Rightarrow> bool" where
  "nosym_dirs s base [] = True"
| "nosym_dirs s base (c # cs) =
     (case node_at s (base @ [c]) of
        None \<Rightarrow> True
      | Some nd \<Rightarrow> ikind nd = KDir \<and> nosym_dirs s (base @ [c]) cs)"

fun is_ksym :: "ikind \<Rightarrow> bool" where
  "is_ksym (KSym _) = True"
| "is_ksym _ = False"

fun nosym_path :: "fsys \<Rightarrow> loc \<Rightarrow> loc \<Rightarrow> bool" where
  "nosym_path s base [] = True"
| "nosym_path s base (c # cs) =
     (case node_at s (base @ [c]) of
        None \<Rightarrow> True
      | Some nd \<Rightarrow> if cs = [] then \<not> is_ksym (ikind nd)
                    else ikind nd = KDir \<and> nosym_path s (base @ [c]) cs)"

lemma nosym_dirs_path: "nosym_dirs s base q \<Longrightarrow> nosym_path s base q"
  by (induction s base q rule: nosym_dirs.induct) (auto split: option.splits)

lemma nosym_dirs_butlast: "nosym_dirs s base q \<Longrightarrow> nosym_dirs s base (butlast q)"
  by (induction s base q rule: nosym_dirs.induct) (auto split: option.splits)

lemma nosym_dirs_cases:
  "nosym_dirs s base st \<Longrightarrow>
     dirs_to s base st \<or> (\<exists>p a q. st = p @ a # q \<and> dirs_to s base p \<and> node_at s (base @ p @ [a]) = None)"
proof (induction s base st rule: nosym_dirs.induct)
  case (2 s base c cs)
  show ?case
  proof (cases "node_at s (base @ [c])")
    case None
    then show ?thesis by (intro disjI2 exI [of _ "[]"] exI [of _ c] exI [of _ cs]) auto
  next
    case (Some nd)
    with 2 have d: "dir_at s (base @ [c])" by (simp add: dir_at_node)
    from 2 Some consider "dirs_to s (base @ [c]) cs"
      | p a q where "cs = p @ a # q" "dirs_to s (base @ [c]) p" "node_at s ((base @ [c]) @ p @ [a]) = None"
      by auto
    then show ?thesis
    proof cases
      case 2
      then show ?thesis using d by (intro disjI2 exI [of _ "c # p"] exI [of _ a] exI [of _ q]) auto
    qed (use d in simp)
  qed
qed simp

lemma nosym_path_snoc:
  "nosym_dirs s base st \<Longrightarrow>
     (dirs_to s base st \<Longrightarrow> (case node_at s (base @ st @ [c]) of None \<Rightarrow> True | Some nd \<Rightarrow> \<not> is_ksym (ikind nd))) \<Longrightarrow>
     nosym_path s base (st @ [c])"
proof (induction s base st rule: nosym_dirs.induct)
  case (2 s base d ds)
  show ?case
  proof (cases "node_at s (base @ [d])")
    case (Some nd)
    with 2 show ?thesis by (simp add: dir_at_node)
  qed simp
qed (simp split: option.splits)

lemma nosym_dirs_snoc:
  "nosym_dirs s base st \<Longrightarrow>
     (dirs_to s base st \<Longrightarrow> (case node_at s (base @ st @ [c]) of None \<Rightarrow> True | Some nd \<Rightarrow> ikind nd = KDir)) \<Longrightarrow>
     nosym_dirs s base (st @ [c])"
proof (induction s base st rule: nosym_dirs.induct)
  case (2 s base d ds)
  show ?case
  proof (cases "node_at s (base @ [d])")
    case (Some nd)
    with 2 show ?thesis by (simp add: dir_at_node)
  qed simp
qed (simp split: option.splits)

lemma walk_nosym:
  "nosym_path s (base @ st) q \<Longrightarrow> list_all is_name q \<Longrightarrow>
     walk s sc base f l st q = Inr (st @ q) \<or> walk s sc base f l st q = Inl (Errno ENOENT)"
proof (induction q arbitrary: st)
  case (Cons c cs)
  have c: "c \<noteq> [] \<and> c \<noteq> dot \<and> c \<noteq> dotdot" using Cons.prems(2) by (simp add: is_name_simps)
  show ?case
  proof (cases "node_at s (base @ st @ [c])")
    case None
    with c show ?thesis by (simp add: walk_name)
  next
    case (Some nd)
    then show ?thesis using c Cons.prems Cons.IH [of "st @ [c]"]
      by (cases "ikind nd") (auto simp: walk_name split: if_splits)
  qed
qed simp

text \<open>The host reports a missing file only where one is missing.\<close>

definition honest :: "host \<Rightarrow> fsys \<Rightarrow> bool" where
  "honest h s \<longleftrightarrow> (\<forall>op p. hFault h op p s \<noteq> Some ENOENT)"

lemma kresolve_missing:
  assumes "canon_root h R s" and "dirs_to s (rDir R) p" and "node_at s (rDir R @ p @ [a]) = None"
    and "list_all is_name (p @ a # q)" and "q \<noteq> []"
  shows "kresolve h f (Join [rName R, Join (p @ a # q)]) s = Inl (Errno ENOENT)"
  using assms(1)
proof (rule canon_rootE)
  fix rs
  assume rs: "list_all is_name rs" and R: "rName R = render True rs" "rDir R = hRoot h @ rs"
    and d: "dirs_to s (hRoot h) rs"
  have names: "list_all is_name ((rs @ p) @ a # q)" using rs assms(4) by simp
  have path: "Join [rName R, Join (p @ a # q)] = slash # join_slash (rs @ p @ a # q)"
    using Join_names [OF clean_form_names [OF rs] assms(4)] by (simp add: R(1) render_def)
  have split: "split_slash (join_slash (rs @ p @ a # q)) = rs @ p @ a # q"
    using split_join_comps [OF names_are_comps [OF names]] by simp
  have dirs: "dirs_to s (hRoot h @ []) (rs @ p)"
    using d assms(2) by (simp add: dirs_to_append R(2))
  have "walk s InRoot (hRoot h) f (hLinks h) [] ([] # ((rs @ p) @ a # q))
      = walk s InRoot (hRoot h) f (hLinks h) (rs @ p) (a # q)"
    using walk_dirs [OF dirs, of InRoot f "hLinks h" "a # q"] names by (simp add: walk_skip)
  also have "\<dots> = Inl (Errno ENOENT)"
    using assms(3,4,5) is_name_simps [of a] by (simp add: walk_name R(2))
  finally show ?thesis by (simp add: kresolve_def path split)
qed

lemma os_Lstat_cases:
  assumes "canon_root h R s" and "honest h s" and "nosym_dirs s (rDir R) st"
    and "list_all is_name st" and "is_name c"
    and ok: "fst (os_Lstat h (Join [rName R, Join (st @ [c])]) s) = Inr fi"
  obtains i nd where "dirs_to s (rDir R) st" and "node_at s (rDir R @ st @ [c]) = Some nd"
    and "fi = fileinfo s i nd"
proof -
  let ?cand = "Join [rName R, Join (st @ [c])]"
  have dirs: "dirs_to s (rDir R) st"
  proof (rule ccontr)
    assume "\<not> dirs_to s (rDir R) st"
    then obtain p a q where p: "st = p @ a # q" "dirs_to s (rDir R) p"
        "node_at s (rDir R @ p @ [a]) = None"
      using nosym_dirs_cases [OF assms(3)] by blast
    have "kresolve h False ?cand s = Inl (Errno ENOENT)"
      using kresolve_missing [OF assms(1) p(2,3), of "q @ [c]" False] assms(4,5) p(1) by simp
    with ok show False by (auto simp: os_Lstat_def path_op_def split: option.splits)
  qed
  have "kresolve h False ?cand s = Inr (rDir R @ st @ [c])"
    using kresolve_below [OF assms(1) dirs assms(4,5)] by simp
  with ok have "\<exists>i nd. node_at s (rDir R @ st @ [c]) = Some nd \<and> fi = fileinfo s i nd"
    by (auto simp: os_Lstat_def path_op_def p_stat_def node_at_def split: option.splits)
  with dirs that show ?thesis by blast
qed

lemma os_Lstat_not_exist:
  assumes "canon_root h R s" and "honest h s" and "dirs_to s (rDir R) st"
    and "list_all is_name st" and "is_name c"
    and "fst (os_Lstat h (Join [rName R, Join (st @ [c])]) s) = Inl e" and "is_not_exist e"
  shows "node_at s (rDir R @ st @ [c]) = None"
  using kresolve_below [OF assms(1,3,4,5), of False] assms(2,6,7)
  by (auto simp: os_Lstat_def path_op_def honest_def p_stat_def node_at_def split: option.splits)

lemma resolve_loop_safe:
  assumes "canon_root h R s" and "honest h s"
  shows "l \<le> 255 \<Longrightarrow> nosym_dirs s (rDir R) st \<Longrightarrow> list_all is_name st \<Longrightarrow> noslash cs \<Longrightarrow>
    resolve_loop h (rName R) s fa re st (255 - l) cs = Inr res \<Longrightarrow>
    \<exists>q. list_all is_name q \<and> nosym_path s (rDir R) q \<and> rpPath res = Join [rName R, Join q]"
proof (induction l st cs arbitrary: fa re rule: walk_induct)
  case (Nil l st)
  then show ?case by (auto intro: nosym_dirs_path)
next
  case (name l st c cs)
  let ?cand = "Join [rName R, Join (st @ [c])]"
  have c: "is_name c" using name.hyps name.prems(4) by (simp add: is_name_def is_comp_def)
  have names: "list_all is_name (st @ [c])" using name.prems(3) c by simp
  have eq: "resolve_loop h (rName R) s fa re st (255 - l) (c # cs) = Inr res" by (rule name.prems)
  show ?case
  proof (cases "fst (os_Lstat h ?cand s)")
    case (Inl e)
    with eq name.hyps have ne: "is_not_exist e"
      and rest: "resolve_loop h (rName R) s fa re (st @ [c]) (255 - l) cs = Inr res"
      by (subst (asm) resolve_loop.simps(2), auto simp: Let_def split: if_splits)+
    have "nosym_dirs s (rDir R) (st @ [c])"
      by (rule nosym_dirs_snoc [OF name.prems(2)])
        (simp add: os_Lstat_not_exist [OF assms _ name.prems(3) c Inl ne])
    from name.IH(1) [OF name.prems(1) this names _ rest] name.prems(4) show ?thesis by simp
  next
    case (Inr fi)
    obtain i nd where dirs: "dirs_to s (rDir R) st"
      and nd: "node_at s (rDir R @ st @ [c]) = Some nd" and fi: "fi = fileinfo s i nd"
      using os_Lstat_cases [OF assms name.prems(2,3) c Inr] .
    show ?thesis
    proof (cases "is_ksym (ikind nd)")
      case False
      then have nl: "\<not> fi_is_symlink fi" unfolding fi by (cases "ikind nd") auto
      with eq Inr name.hyps have nd': "cs = [] \<or> fi_is_dir fi"
        and rest: "resolve_loop h (rName R) s fa re (st @ [c]) (255 - l) cs = Inr res"
        by (subst (asm) resolve_loop.simps(2), auto simp: Let_def split: if_splits)+
      show ?thesis
      proof (cases "ikind nd = KDir")
        case True
        then have "nosym_dirs s (rDir R) (st @ [c])"
          using nd by (intro nosym_dirs_snoc [OF name.prems(2)]) simp
        from name.IH(1) [OF name.prems(1) this names _ rest] name.prems(4) show ?thesis by simp
      next
        case F: False
        with nd' fi have "cs = []" by simp
        with rest have "rpPath res = Join [rName R, Join (st @ [c])]" by auto
        moreover have "nosym_path s (rDir R) (st @ [c])"
          using nd False by (intro nosym_path_snoc [OF name.prems(2)]) simp
        ultimately show ?thesis using names by blast
      qed
    next
      case True
      then have l: "fi_is_symlink fi" unfolding fi by (cases "ikind nd") auto
      have n: "l \<noteq> 0"
      proof
        assume "l = 0"
        with eq Inr name.hyps l show False
          by (subst (asm) resolve_loop.simps(2)) (simp add: Let_def)
      qed
      have suc: "Suc (255 - l) = 255 - (l - 1)" using n name.prems(1) by simp
      from eq Inr name.hyps l n name.prems(1) obtain t fa' st'
        where st': "st' = [] \<or> st' = st"
          and rest: "resolve_loop h (rName R) s fa' re st' (Suc (255 - l)) (split_slash t @ cs) = Inr res"
        by (subst (asm) resolve_loop.simps(2))
          (auto simp: Let_def FromSlash_def split: if_splits sum.splits)
      show ?thesis
        using name.IH(2) [OF n _ _ _ _ rest [unfolded suc]] st' name.prems by auto
    qed
  qed
qed (simp_all add: resolve_skip resolve_top resolve_pop nosym_dirs_butlast list_all_butlast)

section \<open>Names below the root\<close>

lemma walk_split_render:
  "list_all is_comp cs \<Longrightarrow> walk s sc b f l [] (split_slash (render True cs)) = walk s sc b f l [] cs"
  by (cases "cs = []") (simp_all add: render_def walk_skip split_join_comps)

lemma kresolve_names:
  assumes "canon_root h R s" and "list_all is_name q"
  shows "kresolve h f (Join [rName R, Join q]) s
    = map_sum id (\<lambda>p. hRoot h @ p) (walk s InRoot (hRoot h) f (hLinks h) (comps (rName R)) q)"
  using assms(1)
proof (rule canon_rootE)
  fix rs
  assume rs: "list_all is_name rs" and R: "rName R = render True rs" "rDir R = hRoot h @ rs"
    and d: "dirs_to s (hRoot h) rs"
  have names: "list_all is_comp (rs @ q)" using rs assms(2) by (simp add: names_are_comps)
  have path: "Join [rName R, Join q] = render True (rs @ q)"
    using Join_names [OF clean_form_names [OF rs] assms(2)] by (simp add: R(1))
  have "walk s InRoot (hRoot h) f (hLinks h) [] (rs @ q) = walk s InRoot (hRoot h) f (hLinks h) rs q"
    using walk_dirs [of s "hRoot h" "[]" rs] d rs by simp
  moreover have "comps (rName R) = rs" using rs by (simp add: R(1) comps_abs_render names_are_comps)
  moreover have "render True (rs @ q) \<noteq> []" by (simp add: render_def)
  moreover have "IsAbs (render True (rs @ q))" by (simp add: render_def)
  ultimately show ?thesis by (simp add: kresolve_def path walk_split_render [OF names])
qed

lemma kresolve_nosym:
  assumes "canon_root h R s" and "list_all is_name q" and "nosym_path s (rDir R) q"
  shows "kresolve h f (Join [rName R, Join q]) s = Inr (rDir R @ q) \<or>
    kresolve h f (Join [rName R, Join q]) s = Inl (Errno ENOENT)"
  using assms(1)
proof (rule canon_rootE)
  fix rs
  assume rs: "list_all is_name rs" and R: "rName R = render True rs" "rDir R = hRoot h @ rs"
  have c: "comps (rName R) = rs" using rs by (simp add: R(1) comps_abs_render names_are_comps)
  have "nosym_path s (hRoot h @ rs) q" using assms(3) R(2) by simp
  from walk_nosym [OF this assms(2), of InRoot f "hLinks h"]
  show ?thesis unfolding kresolve_names [OF assms(1,2)] c R(2) by auto
qed

lemma rresolve_names:
  "list_all is_name q \<Longrightarrow> q \<noteq> [] \<Longrightarrow>
     rresolve h R f (join_slash q) s = map_sum id (\<lambda>p. rDir R @ p) (walk s Beneath (rDir R) f (hRootLinks h) [] q)"
  by (simp add: rresolve_def join_slash_eq_Nil names_are_comps IsAbs_join split_join_comps)

text \<open>
  Resolving \<open>cs @ ds\<close> continues from the directory \<open>cs\<close> resolves to, with what is left of
  the links.
\<close>

lemma walk_append:
  "walk s sc base True l st cs = Inr q \<Longrightarrow> dir_at s (base @ q) \<Longrightarrow> ds \<noteq> [] \<Longrightarrow>
     \<exists>l' \<le> l. walk s sc base f l st (cs @ ds) = walk s sc base f l' q ds"
proof (induction l st cs rule: walk_induct)
  case (name l st c cs)
  show ?case
  proof (cases "node_at s (base @ st @ [c])")
    case None
    with name.prems name.hyps show ?thesis by (auto simp: walk_name dir_at_node split: if_splits)
  next
    case (Some nd)
    show ?thesis
    proof (cases "ikind nd")
      case KDir
      with Some name.hyps name.prems name.IH(1) show ?thesis by (simp add: walk_name)
    next
      case (KSym t)
      have l: "l \<noteq> 0" using KSym Some name.hyps name.prems(1) by (auto simp: walk_name split: if_splits)
      have abs: "IsAbs t \<Longrightarrow> sc = InRoot"
        using KSym Some name.hyps name.prems(1) l by (cases sc) (auto simp: walk_name split: if_splits)
      obtain st' where st': "st' = (if IsAbs t then [] else st)" by blast
      have "walk s sc base True (l - 1) st' (split_slash t @ cs) = Inr q"
        using KSym Some name.hyps name.prems(1) l abs st' by (auto simp: walk_name split: if_splits)
      from name.IH(2) [OF l this name.prems(2,3)] obtain l' where "l' \<le> l - 1"
        and "walk s sc base f (l - 1) st' ((split_slash t @ cs) @ ds) = walk s sc base f l' q ds" by blast
      moreover have "walk s sc base f l st (c # cs @ ds) = walk s sc base f (l - 1) st' (split_slash t @ cs @ ds)"
        using KSym Some name.hyps l abs st' name.prems(3) by (simp add: walk_name)
      ultimately show ?thesis by (intro exI [of _ l']) auto
    qed (use Some name.hyps name.prems in \<open>auto simp: walk_name dir_at_node split: if_splits\<close>)
  qed
qed (auto simp: walk_skip walk_top walk_pop split: scope.splits)


section \<open>Where an entry is extracted to\<close>

text \<open>
  The two ways \<open>resolveArchivePath\<close> succeeds on a clean local name \<open>ps/b\<close>: \<open>os.Root\<close> could
  walk the parent, and the name is kept; or the parent was resolved like in a chroot.
\<close>

lemma resolveArchivePath_cases:
  assumes "canon_root h R s" and "honest h s"
    and ps: "list_all is_name ps" and b: "is_name b"
    and ok: "resolveArchivePath h R (join_slash (ps @ [b])) s = Inr r"
  obtains (kept) "raPath r = join_slash (ps @ [b])" and "parentWasPresent r"
      and "ps = [] \<or> (\<exists>fi. fst (root_Stat h R (join_slash ps) s) = Inr fi)"
    | (resolved) q res where "raPath r = join_slash (q @ [b])" and "\<not> parentWasPresent r"
      and "ps \<noteq> []" and "list_all is_name q" and "nosym_path s (rDir R) q"
      and "resolveFSRootPath h (rName R) (join_slash ps) s = Inr res"
      and "rpPath res = Join [rName R, Join q]"
proof (cases "ps = []")
  case True
  with ok split_local [of ps b] b have "r = \<lparr>raPath = join_slash (ps @ [b]), parentWasPresent = True\<rparr>"
    by (simp add: resolveArchivePath_def)
  with True kept show ?thesis by simp
next
  case False
  have sp: "SplitFile (join_slash (ps @ [b])) = b" "SplitDir (join_slash (ps @ [b])) = join_slash ps @ [slash]"
    using split_local [of ps b] ps b False by simp_all
  show ?thesis
  proof (cases "fst (root_Stat h R (join_slash ps) s)")
    case (Inr fi)
    with ok sp have "r = \<lparr>raPath = join_slash (ps @ [b]), parentWasPresent = True\<rparr>"
      by (simp add: resolveArchivePath_def Clean_dir [OF ps False])
    with Inr kept show ?thesis by simp
  next
    case (Inl e)
    with ok sp obtain res where res: "resolveFSRootPath h (rName R) (join_slash ps) s = Inr res"
      and rest: "(case Rel (rName R) (rpPath res) of
           None \<Rightarrow> Inl (BreakoutErr (ErrMsg ''could not make resolved parent relative to root'' [rpPath res, rName R]))
         | Some relParent \<Rightarrow>
             (if relParent \<noteq> dot \<and> \<not> IsLocal relParent
              then Inl (BreakoutErr (ErrMsg ''resolved parent escapes root'' [rpPath res, rName R]))
              else Inr \<lparr>raPath = Join [relParent, b], parentWasPresent = False\<rparr>)) = Inr r"
      by (auto simp: resolveArchivePath_def Clean_dir [OF ps False] split: if_splits sum.splits)
    obtain q where q: "list_all is_name q" "nosym_path s (rDir R) q" "rpPath res = Join [rName R, Join q]"
      using resolve_loop_safe [OF assms(1,2), of 255 "[]" "split_slash (FromSlash (join_slash ps))" False False res] res
      by (auto simp: resolveFSRootPath_def)
    obtain rs where rs: "list_all is_name rs" "rName R = render True rs"
      using assms(1) by (rule canon_rootE)
    have path: "rpPath res = render True (rs @ q)"
      using Join_names [OF clean_form_names [OF rs(1)] q(1)] by (simp add: q(3) rs(2))
    have "Rel (rName R) (rpPath res) = Some (if q = [] then dot else join_slash q)"
      using Rel_below [OF rs(1) q(1)] by (simp add: path rs(2))
    with rest have "r = \<lparr>raPath = Join [if q = [] then dot else join_slash q, b], parentWasPresent = False\<rparr>"
      by (auto split: if_splits)
    then have "raPath r = join_slash (q @ [b])" "\<not> parentWasPresent r"
      using Join_rel [OF q(1) b] Join_dot [OF b] by simp_all
    then show ?thesis using resolved q res False by blast
  qed
qed

lemma walk_last: "is_name b \<Longrightarrow> walk s sc base False l st [b] = Inr (st @ [b])"
  by (simp add: walk_name is_name_simps split: option.split ikind.split)

lemma walk_result:
  "walk s sc base f l st cs = Inr q \<Longrightarrow> dirs_to s base st \<Longrightarrow> list_all is_name st \<Longrightarrow> noslash cs \<Longrightarrow>
     dirs_to s base (butlast q) \<and> list_all is_name q"
proof (induction l st cs rule: walk_induct)
  case (Nil l st)
  then show ?case by (simp add: dirs_to_butlast)
next
  case (name l st c cs)
  have c: "is_name c" using name.hyps name.prems(4) by (simp add: is_name_def is_comp_def)
  show ?case
  proof (cases "node_at s (base @ st @ [c])")
    case None
    with name.prems name.hyps c show ?thesis by (auto simp: walk_name split: if_splits)
  next
    case (Some nd)
    show ?thesis
    proof (cases "ikind nd")
      case KDir
      then have "dirs_to s base (st @ [c])" using name.prems(2) Some by (simp add: dirs_to_snoc dir_at_node)
      with KDir Some name.hyps name.prems name.IH(1) c show ?thesis by (simp add: walk_name)
    next
      case (KSym t)
      with name.IH(2) [of "[]" t] name.IH(2) [of st t] Some name.hyps name.prems c show ?thesis
        by (auto simp: walk_name split: if_splits scope.splits)
    qed (use Some name.hyps name.prems c in \<open>auto simp: walk_name split: if_splits\<close>)
  qed
qed (auto simp: walk_skip walk_top walk_pop dirs_to_butlast list_all_butlast split: scope.splits)

lemma Join_inj:
  assumes "canon_root h R s" and "list_all is_name p" and "list_all is_name q"
    and "Join [rName R, Join p] = Join [rName R, Join q]"
  shows "p = q"
  using assms(1)
proof (rule canon_rootE)
  fix rs
  assume rs: "list_all is_name rs" "rName R = render True rs"
  have "comps (render True (rs @ x)) = rs @ x" if "list_all is_name x" for x
    using that rs by (simp add: comps_abs_render names_are_comps)
  moreover have "render True (rs @ p) = render True (rs @ q)"
    using assms(2-4) Join_names [OF clean_form_names [OF rs(1)]] by (simp add: rs(2))
  ultimately have "rs @ p = rs @ q" using assms(2,3) by metis
  then show ?thesis by simp
qed

definition is_breakout :: "goerror \<Rightarrow> bool" where
  "is_breakout e \<longleftrightarrow> (case e of BreakoutErr _ \<Rightarrow> True | _ \<Rightarrow> False)"

lemma path_op_err: "fst (path_op h op opn f g name s) = Inl e \<Longrightarrow> \<not> is_breakout e"
  by (auto simp: path_op_def is_breakout_def split: option.splits sum.splits prod.splits)

lemma root_op_err: "fst (root_op h R op opn f g name s) = Inl e \<Longrightarrow> \<not> is_breakout e"
  by (auto simp: root_op_def is_breakout_def split: option.splits sum.splits prod.splits)

lemma resolve_loop_err:
  "l \<le> 255 \<Longrightarrow> resolve_loop h r s fa re st (255 - l) cs = Inl e \<Longrightarrow> \<not> is_breakout e"
proof (induction l st cs arbitrary: fa re rule: walk_induct)
  case (name l st c cs)
  note IH1 = name.IH(1) [OF name.prems(1)]
  have IH2: "\<not> is_breakout e"
    if l: "l \<noteq> 0" and r: "resolve_loop h r s fa re st' (Suc (255 - l)) (split_slash t @ cs) = Inl e"
    for fa re st' t
  proof -
    have "Suc (255 - l) = 255 - (l - 1)" using l name.prems(1) by simp
    with r have "resolve_loop h r s fa re st' (255 - (l - 1)) (split_slash t @ cs) = Inl e"
      by (simp only:)
    moreover have "l - 1 \<le> 255" using name.prems(1) by simp
    ultimately show ?thesis using name.IH(2) [OF l] by blast
  qed
  have l: "\<not> 255 \<le> 255 - l \<Longrightarrow> l \<noteq> 0" by simp
  show ?case
    using name.prems(2) name.hyps IH1 IH2 l
    by (subst (asm) resolve_loop.simps(2))
      (auto simp: Let_def FromSlash_def errTooManyLinks_def os_Lstat_def os_Readlink_def is_breakout_def
        dest: path_op_err split: if_splits sum.splits)
qed (auto simp: resolve_skip resolve_top resolve_pop)

lemma resolveArchivePath_err:
  assumes "canon_root h R s" and "honest h s" and ps: "list_all is_name ps" and b: "is_name b"
    and err: "resolveArchivePath h R (join_slash (ps @ [b])) s = Inl e"
  shows "\<not> is_breakout e"
proof (cases "ps = []")
  case True
  with err split_local [of ps b] b show ?thesis by (simp add: resolveArchivePath_def)
next
  case False
  have sp: "SplitFile (join_slash (ps @ [b])) = b" "SplitDir (join_slash (ps @ [b])) = join_slash ps @ [slash]"
    using split_local [of ps b] ps b False by simp_all
  obtain e' where e': "fst (root_Stat h R (join_slash ps) s) = Inl e'"
    using err sp by (cases "fst (root_Stat h R (join_slash ps) s)")
      (simp_all add: resolveArchivePath_def Clean_dir [OF ps False])
  have nb: "\<not> is_breakout e'" using e' by (auto simp: root_Stat_def dest: root_op_err)
  show ?thesis
  proof (cases "resolveFSRootPath h (rName R) (join_slash ps) s")
    case (Inl x)
    with resolve_loop_err [of 255 h "rName R" s False False "[]" "split_slash (join_slash ps)" x]
    have "\<not> is_breakout x" by (simp add: resolveFSRootPath_def FromSlash_def)
    with Inl err sp e' nb show ?thesis
      by (auto simp: resolveArchivePath_def Clean_dir [OF ps False] split: if_splits)
  next
    case (Inr res)
    obtain q where q: "list_all is_name q" "rpPath res = Join [rName R, Join q]"
      using resolve_loop_safe [OF assms(1,2), of 255 "[]" "split_slash (FromSlash (join_slash ps))" False False res] Inr
      by (auto simp: resolveFSRootPath_def)
    obtain rs where rs: "list_all is_name rs" "rName R = render True rs"
      using assms(1) by (rule canon_rootE)
    have "Rel (rName R) (rpPath res) = Some (if q = [] then dot else join_slash q)"
      using Rel_below [OF rs(1) q(1)] Join_names [OF clean_form_names [OF rs(1)] q(1)] by (simp add: q(2) rs(2))
    with Inr err sp e' nb IsLocal_names [OF q(1)] show ?thesis
      by (auto simp: resolveArchivePath_def Clean_dir [OF ps False] split: if_splits)
  qed
qed

section \<open>The resolvers' promises\<close>

text \<open>
  The specification: where a process whose root directory is the extraction root, and which
  may follow 255 symlinks, finds a path.
\<close>

definition chroot_resolve :: "goRoot \<Rightarrow> bool \<Rightarrow> string \<Rightarrow> fsys \<Rightarrow> goerror + loc" where
  "chroot_resolve R follow path s = walk s InRoot (rDir R) follow 255 [] (split_slash path)"

text \<open>A path below the root that meets no symlink in this state.\<close>

definition safe_path :: "goRoot \<Rightarrow> fsys \<Rightarrow> string \<Rightarrow> bool" where
  "safe_path R s p \<longleftrightarrow>
     (\<exists>q. list_all is_name q \<and> nosym_path s (rDir R) q \<and> p = Join [rName R, Join q])"

lemma fsRootPath_safe:
  assumes "canon_root h R s" and "honest h s" and "fsRootPath h (rName R) path s = Inr p"
  shows "safe_path R s p"
proof -
  obtain res where "resolve_loop h (rName R) s False False [] (255 - 255) (split_slash path) = Inr res"
    and p: "p = rpPath res"
    using assms(3) by (cases "resolveFSRootPath h (rName R) path s")
      (auto simp: fsRootPath_def resolveFSRootPath_def FromSlash_def)
  from resolve_loop_safe [OF assms(1,2) _ _ _ _ this(1)] p show ?thesis
    by (auto simp: safe_path_def)
qed

lemma safe_path_below:
  assumes "canon_root h R s" and "safe_path R s p" and "kresolve h f p s = Inr q"
  shows "prefix (rDir R) q"
proof -
  obtain ns where "list_all is_name ns" "nosym_path s (rDir R) ns" and p: "p = Join [rName R, Join ns]"
    using assms(2) by (auto simp: safe_path_def)
  from kresolve_nosym [OF assms(1) this(1,2), of f] assms(3) show ?thesis by (auto simp: p)
qed

lemma fsRootPath_walk:
  assumes "canon_root h R s" and "no_faults h s"
  shows "(chroot_resolve R True path s = Inr q \<longrightarrow>
            fsRootPath h (rName R) path s = Inr (Join [rName R, Join q])) \<and>
         (chroot_resolve R True path s = Inl (Errno ELOOP) \<longrightarrow>
            fsRootPath h (rName R) path s = Inl errTooManyLinks) \<and>
         (chroot_resolve R True path s = Inl (Errno ENOTDIR) \<longrightarrow>
            (\<exists>c. fsRootPath h (rName R) path s = Inl (PathError ''resolve'' c (Errno ENOTDIR))))"
  using resolve_loop_walk [OF assms, of 255 "[]" "split_slash path" False False]
  by (auto simp: same_resolution_def chroot_resolve_def fsRootPath_def resolveFSRootPath_def FromSlash_def
      split: sum.splits)

lemma resolveArchivePath_result:
  assumes "canon_root h R s" and "honest h s" and "local_path name"
  shows "case resolveArchivePath h R name s of
      Inr r \<Rightarrow> local_path (raPath r) \<and> SplitFile (raPath r) = SplitFile name
    | Inl e \<Rightarrow> (\<forall>e'. e \<noteq> BreakoutErr e')"
proof -
  obtain ps b where ps: "list_all is_name ps" and b: "is_name b" and name: "name = join_slash (ps @ [b])"
    using assms(3) by (rule local_pathE)
  show ?thesis
  proof (cases "resolveArchivePath h R name s")
    case (Inr r)
    from resolveArchivePath_cases [OF assms(1,2) ps b Inr [unfolded name]]
    obtain q where q: "list_all is_name q" "raPath r = join_slash (q @ [b])"
      using ps by metis
    then show ?thesis using Inr b split_local(1) [of q b] split_local(1) [of ps b] ps
      by (auto simp: name intro!: local_path_join)
  next
    case (Inl e)
    with resolveArchivePath_err [OF assms(1,2) ps b] show ?thesis
      by (auto simp: name is_breakout_def split: goerror.splits)
  qed
qed


lemma resolveArchivePath_beneath:
  assumes "canon_root h R s" and "no_faults h s" and "hRootLinks h \<le> 255" and "local_path name"
    and ok: "resolveArchivePath h R name s = Inr r"
    and parent: "chroot_resolve R True (Clean (SplitDir name)) s = Inr q"
    and dir: "dir_at s (rDir R @ q)"
  shows "rresolve h R False (raPath r) s = Inr (rDir R @ q @ [SplitFile name])"
proof -
  obtain ps b where ps: "list_all is_name ps" and b: "is_name b" and name: "name = join_slash (ps @ [b])"
    using assms(4) by (rule local_pathE)
  have honest: "honest h s" using assms(2) by (simp add: no_faults_def honest_def)
  have fileb: "SplitFile name = b" using split_local(1) [of ps b] ps b by (simp add: name)
  have wq: "walk s InRoot (rDir R) True 255 [] ps = Inr q"
  proof (cases "ps = []")
    case True
    have "Clean [] = dot" by (simp add: Clean_def render_def)
    with True parent split_local(2) [of ps b] b show ?thesis
      by (simp add: name chroot_resolve_def walk_skip)
  next
    case False
    with parent split_local(3) [of ps b] ps b show ?thesis
      by (simp add: name chroot_resolve_def Clean_dir split_join_comps names_are_comps)
  qed
  have q: "dirs_to s (rDir R) (butlast q)" "list_all is_name q"
    using walk_result [OF wq] ps by (auto simp: list_all_iff is_name_def is_comp_def)
  have dq: "dirs_to s (rDir R) q"
    using q(1) dir dirs_to_snoc [of s "rDir R" "butlast q" "last q"] by (cases "q = []") auto
  from assms(1) honest ps b ok [unfolded name] show ?thesis
  proof (cases rule: resolveArchivePath_cases)
    case kept
    have "walk s Beneath (rDir R) True (hRootLinks h) [] ps = Inr q"
    proof (cases "ps = []")
      case True
      with wq show ?thesis by simp
    next
      case False
      with kept(3) obtain fi where "fst (root_Stat h R (join_slash ps) s) = Inr fi" by blast
      then obtain q' where q': "walk s Beneath (rDir R) True (hRootLinks h) [] ps = Inr q'"
        using rresolve_names [OF ps False, of h R True s]
        by (cases "walk s Beneath (rDir R) True (hRootLinks h) [] ps")
          (auto simp: root_Stat_def root_op_def split: option.splits)
      from walk_beneath_inroot [OF this assms(3)] wq q' show ?thesis by simp
    qed
    from walk_append [OF this dir, of "[b]" False]
    have "walk s Beneath (rDir R) False (hRootLinks h) [] (ps @ [b]) = Inr (q @ [b])"
      by (auto simp: walk_last [OF b])
    with kept(1) ps b fileb show ?thesis by (simp add: rresolve_names)
  next
    case (resolved q' res)
    have "fsRootPath h (rName R) (join_slash ps) s = Inr (Join [rName R, Join q])"
      using fsRootPath_walk [OF assms(1,2), of "join_slash ps" q] wq ps resolved(3)
      by (simp add: chroot_resolve_def split_join_comps names_are_comps)
    then have "Join [rName R, Join q'] = Join [rName R, Join q]"
      using resolved(6,7) by (simp add: fsRootPath_def)
    then have "q' = q" using Join_inj [OF assms(1) resolved(4) q(2)] by simp
    moreover have "walk s Beneath (rDir R) False (hRootLinks h) [] (q @ [b]) = Inr (q @ [b])"
      using walk_dirs [of s "rDir R" "[]" q Beneath False _ "[b]"] dq q(2) by (simp add: walk_last [OF b])
    ultimately show ?thesis using resolved(1) q(2) b fileb by (simp add: rresolve_names)
  qed
qed

lemma resolveHardlinkTarget_result:
  assumes "canon_root h R s" and "honest h s" and "resolveHardlinkTarget h R linkname s = Inr p"
  shows "local_path p"
proof -
  let ?c = "if HasPrefix (Clean linkname) [slash] then Clean (TrimLeft linkname slash) else Clean linkname"
  have c: "?c \<noteq> dot" "IsLocal ?c"
    and r: "map_sum id raPath (resolveArchivePath h R ?c s) = Inr p"
    using assms(3) unfolding resolveHardlinkTarget_def Let_def FromSlash_def
    by (simp_all only: split: if_splits) simp_all
  have "Clean ?c = ?c" by simp
  with c IsLocal_Clean [of ?c] have "local_path ?c" by simp
  from resolveArchivePath_result [OF assms(1,2) this] r show ?thesis
    by (cases "resolveArchivePath h R ?c s") simp_all
qed


section \<open>The properties\<close>

lemma posix_honest [simp]: "honest posix_host s"
  by (simp add: honest_def)

lemma posix_no_faults [simp]: "no_faults posix_host s"
  by (simp add: no_faults_def)

lemma demo_canon [simp]: "canon_root posix_host demo_root demo_fs"
  by code_simp

text \<open>
  C7: what \<open>fsRootPath\<close> returns is a path below the root, and using it ends exactly there
  (or finds nothing): no symlink on it is followed, so the root is not left, whatever links
  the tree holds.
\<close>

theorem fsRootPath_contained:
  assumes "canon_root h R s" and "honest h s" and "fsRootPath h (rName R) path s = Inr p"
  shows "\<exists>q. list_all is_name q \<and> p = Join [rName R, Join q] \<and>
    (kresolve h f p s = Inr (rDir R @ q) \<or> kresolve h f p s = Inl (Errno ENOENT))"
proof -
  obtain q where "list_all is_name q" "nosym_path s (rDir R) q" "p = Join [rName R, Join q]"
    using fsRootPath_safe [OF assms] by (auto simp: safe_path_def)
  with kresolve_nosym [OF assms(1)] show ?thesis by blast
qed

theorem fsRootPath_contained_witness:
  "\<exists>q. list_all is_name q \<and> ''/dest/etc/passwd'' = Join [rName demo_root, Join q] \<and>
     (kresolve posix_host True ''/dest/etc/passwd'' demo_fs = Inr (rDir demo_root @ q) \<or>
      kresolve posix_host True ''/dest/etc/passwd'' demo_fs = Inl (Errno ENOENT))"
  by (rule fsRootPath_contained [of _ _ _ "''up/link/passwd''"], simp, simp, code_simp)

text \<open>
  C8: \<open>fsRootPath\<close> is the resolution of a process whose root directory is the root: the same
  location where that succeeds, "too many links" where it meets more than 255 symlinks, and
  \<open>ENOTDIR\<close> where it walks through a file.
\<close>

theorem fsRootPath_is_chroot:
  assumes "canon_root h R s" and "no_faults h s"
  shows "(chroot_resolve R True path s = Inr q \<longrightarrow>
            fsRootPath h (rName R) path s = Inr (Join [rName R, Join q])) \<and>
         (chroot_resolve R True path s = Inl (Errno ELOOP) \<longrightarrow>
            fsRootPath h (rName R) path s = Inl errTooManyLinks) \<and>
         (chroot_resolve R True path s = Inl (Errno ENOTDIR) \<longrightarrow>
            (\<exists>c. fsRootPath h (rName R) path s = Inl (PathError ''resolve'' c (Errno ENOTDIR))))"
  using fsRootPath_walk [OF assms] .

theorem fsRootPath_is_chroot_witness:
  "fsRootPath posix_host (rName demo_root) ''up/../link/motd'' demo_fs = Inr ''/dest/etc/motd''"
proof -
  have "chroot_resolve demo_root True ''up/../link/motd'' demo_fs = Inr [''etc'', ''motd'']" by code_simp
  moreover have "Join [rName demo_root, Join [''etc'', ''motd'']] = ''/dest/etc/motd''" by code_simp
  ultimately show ?thesis
    using fsRootPath_is_chroot [of posix_host demo_root demo_fs "''up/../link/motd''" "[''etc'', ''motd'']"]
    by simp
qed

text \<open>
  C10: the path an entry is extracted to is local (no \<open>..\<close>, not absolute, not empty) and keeps
  the entry's last component; for a local name the two "breakout" checks on the resolved
  parent never fire.
\<close>

theorem resolveArchivePath_local:
  assumes "canon_root h R s" and "honest h s" and "local_path name"
  shows "case resolveArchivePath h R name s of
      Inr r \<Rightarrow> local_path (raPath r) \<and> SplitFile (raPath r) = SplitFile name
    | Inl e \<Rightarrow> (\<forall>e'. e \<noteq> BreakoutErr e')"
  using resolveArchivePath_result [OF assms] .

theorem resolveArchivePath_local_witness:
  "resolveArchivePath posix_host demo_root ''link/passwd'' demo_fs =
     Inr \<lparr>raPath = ''etc/passwd'', parentWasPresent = False\<rparr> \<and> local_path ''etc/passwd''"
proof -
  have r: "resolveArchivePath posix_host demo_root ''link/passwd'' demo_fs =
     Inr \<lparr>raPath = ''etc/passwd'', parentWasPresent = False\<rparr>" by code_simp
  have "local_path (join_slash [''link'', ''passwd''])"
    by (rule local_path_join) (simp_all add: is_name_def is_comp_def)
  from resolveArchivePath_local [OF demo_canon posix_honest, of "''link/passwd''"] this r
  show ?thesis by simp
qed

text \<open>
  C9: \<open>os.Root\<close> resolves the path chosen for an entry to the very place where a process
  chrooted at the root finds the entry's parent, plus the entry's own name, although
  \<open>os.Root\<close> itself refuses absolute symlinks.
\<close>

theorem resolveArchivePath_place:
  assumes "canon_root h R s" and "no_faults h s" and "hRootLinks h \<le> 255" and "local_path name"
    and "resolveArchivePath h R name s = Inr r"
    and "chroot_resolve R True (Clean (SplitDir name)) s = Inr q"
    and "dir_at s (rDir R @ q)"
  shows "rresolve h R False (raPath r) s = Inr (rDir R @ q @ [SplitFile name])"
  by (rule resolveArchivePath_beneath [OF assms])

theorem resolveArchivePath_place_witness:
  "rresolve posix_host demo_root False ''etc/passwd'' demo_fs = Inr [''dest'', ''etc'', ''passwd'']"
proof -
  have name: "local_path ''link/passwd''"
    using local_path_join [of "[''link'', ''passwd'']"] by (simp add: is_name_def is_comp_def)
  have "resolveArchivePath posix_host demo_root ''link/passwd'' demo_fs =
      Inr \<lparr>raPath = ''etc/passwd'', parentWasPresent = False\<rparr>" by code_simp
  from resolveArchivePath_place [OF demo_canon posix_no_faults _ name this, of "[''etc'']"]
  show ?thesis
    by (simp add: posix_host_def base_host_def demo_root_def) code_simp
qed

text \<open>A hard link's target, once accepted, is a local path: absolute and escaping ones are refused.\<close>

theorem resolveHardlinkTarget_local:
  assumes "canon_root h R s" and "honest h s" and "resolveHardlinkTarget h R linkname s = Inr p"
  shows "local_path p"
  by (rule resolveHardlinkTarget_result [OF assms])

theorem resolveHardlinkTarget_local_witness: "local_path ''etc/motd''"
  by (rule resolveHardlinkTarget_local [of posix_host demo_root demo_fs "''//link/./motd''"], simp, simp)
    code_simp

end
