(* ===== verification/Confine.thy ===== *)
theory Confine
  imports RootPathFacts
begin

text \<open>
  Extraction stays inside its root. \<open>confined h R\<close> is the guarantee that no name outside the
  root appears, disappears or is bound anew, and that no inode without a name inside the root
  changes; \<open>unix_calls\<close> is what the program relies on of \<open>golang.org/x/sys/unix\<close>. Every
  operation of the extractors is shown to keep the guarantee.
\<close>

section \<open>The guarantee\<close>

definition named_in :: "fsys \<Rightarrow> loc \<Rightarrow> nat \<Rightarrow> bool" where
  "named_in s r i \<longleftrightarrow> (\<exists>p. prefix r p \<and> ino_at s p = Some i)"

fun kind_like :: "ikind \<Rightarrow> ikind \<Rightarrow> bool" where
  "kind_like (KReg _) k = (\<exists>d. k = KReg d)"
| "kind_like k k' = (k = k')"

lemma kind_like_refl [simp]: "kind_like k k"
  by (cases k) auto

lemma kind_like_trans: "kind_like k l \<Longrightarrow> kind_like l m \<Longrightarrow> kind_like k m"
  by (cases k; cases l) auto

lemma kind_like_dir [simp]: "kind_like KDir k \<longleftrightarrow> k = KDir"
  by auto

text \<open>Every name is bound to an inode number in use.\<close>

definition inos_ok :: "fsys \<Rightarrow> bool" where
  "inos_ok s \<longleftrightarrow> (\<forall>p i. ino_at s p = Some i \<longrightarrow> i < nextino s)"

definition root_ok :: "host \<Rightarrow> goRoot \<Rightarrow> fsys \<Rightarrow> bool" where
  "root_ok h R s \<longleftrightarrow> inos_ok s \<and> dir_at s (rDir R) \<and> canon_root h R s"

definition within :: "loc \<Rightarrow> fsys \<Rightarrow> fsys \<Rightarrow> bool" where
  "within r s s' \<longleftrightarrow>
     nextino s \<le> nextino s' \<and>
     (\<forall>p. \<not> strict_prefix r p \<longrightarrow> ino_at s' p = ino_at s p) \<and>
     (\<forall>i < nextino s. \<not> named_in s r i \<longrightarrow> \<not> named_in s' r i \<and> inodes s' i = inodes s i) \<and>
     (\<forall>i < nextino s. \<forall>nd. inodes s i = Some nd \<longrightarrow>
        (\<exists>nd'. inodes s' i = Some nd' \<and> kind_like (ikind nd) (ikind nd')))"

definition confined :: "host \<Rightarrow> goRoot \<Rightarrow> fsys \<Rightarrow> fsys \<Rightarrow> bool" where
  "confined h R s s' \<longleftrightarrow> (root_ok h R s \<longrightarrow> root_ok h R s' \<and> within (rDir R) s s')"

lemma within_refl: "within r s s"
  by (auto simp: within_def)

lemma within_trans:
  assumes "within r s t" and "within r t u"
  shows "within r s u"
  unfolding within_def
proof (intro conjI allI impI)
  fix i nd assume i: "i < nextino s" and nd: "inodes s i = Some nd"
  from assms(1) i nd obtain nd' where 1: "inodes t i = Some nd'" "kind_like (ikind nd) (ikind nd')"
    unfolding within_def by blast
  from i assms(1) have "i < nextino t" unfolding within_def by linarith
  with assms(2) 1 obtain nd'' where "inodes u i = Some nd''" "kind_like (ikind nd') (ikind nd'')"
    unfolding within_def by blast
  with 1 show "\<exists>nd''. inodes u i = Some nd'' \<and> kind_like (ikind nd) (ikind nd'')"
    using kind_like_trans by blast
qed (use assms in \<open>unfold within_def, auto\<close>)

text \<open>What is a directory stays one where its name stays.\<close>

lemma within_dir:
  assumes "within r s s'" and "inos_ok s" and "\<not> strict_prefix r p" and "dir_at s p"
  shows "dir_at s' p"
proof -
  from assms(4) obtain nd i where i: "ino_at s p = Some i" "inodes s i = Some nd" "ikind nd = KDir"
    by (auto simp: dir_at_node node_at_def split: option.splits)
  have "i < nextino s" using i assms(2) by (simp add: inos_ok_def)
  with assms(1) i obtain nd' where "inodes s' i = Some nd'" "kind_like KDir (ikind nd')"
    unfolding within_def by metis
  moreover have "ino_at s' p = Some i" using assms(1,3) i by (simp add: within_def)
  ultimately show ?thesis by (simp add: dir_at_node node_at_def)
qed

lemma within_dirs_to:
  assumes "within r s s'" and "inos_ok s" and "prefix (b @ q) r" and "dirs_to s b q"
  shows "dirs_to s' b q"
  using assms(3,4)
proof (induction q arbitrary: b)
  case (Cons c q)
  have "\<not> strict_prefix r (b @ [c])"
    using Cons.prems(1) by (auto simp: strict_prefix_def prefix_def)
  then show ?case using Cons within_dir [OF assms(1,2), of "b @ [c]"] by simp
qed simp

lemma within_root_ok:
  assumes "root_ok h R s" and "within (rDir R) s s'" and "inos_ok s'"
  shows "root_ok h R s'"
proof -
  from assms(1) have ok: "inos_ok s" "dir_at s (rDir R)" "canon_root h R s" by (simp_all add: root_ok_def)
  have "dir_at s' (rDir R)" using within_dir [OF assms(2) ok(1)] ok(2) by simp
  moreover have "canon_root h R s'"
    using ok(3) within_dirs_to [OF assms(2) ok(1), of "hRoot h" "comps (rName R)"]
    by (simp add: canon_root_def Let_def)
  ultimately show ?thesis using assms(3) by (simp add: root_ok_def)
qed

interpretation cf: guarantee_on "confined h R" "root_ok h R" for h R
proof unfold_locales
  show "confined h R s s" for s by (simp add: confined_def within_refl)
  show "confined h R s u" if "confined h R s t" and "confined h R t u" for s t u
    using that within_trans by (auto simp: confined_def)
  show "confined h R s t" if "\<not> root_ok h R s" for s t
    using that by (simp add: confined_def)
qed

lemma confinedI:
  assumes "root_ok h R s \<Longrightarrow> inos_ok s'" and "root_ok h R s \<Longrightarrow> within (rDir R) s s'"
  shows "confined h R s s'"
  using assms within_root_ok by (auto simp: confined_def)

section \<open>Changing the file system below the root\<close>

lemma ino_at_upd_inode [simp]: "ino_at (upd_inode i f s) p = ino_at s p"
  by (simp add: ino_at_def upd_inode_def)

lemma nextino_upd_inode [simp]: "nextino (upd_inode i f s) = nextino s"
  by (simp add: upd_inode_def)

lemma inodes_upd_inode: "inodes (upd_inode i f s) j = (if j = i then map_option f (inodes s i) else inodes s j)"
  by (simp add: upd_inode_def)

lemma ino_at_upd_at [simp]: "ino_at (upd_at q f s) p = ino_at s p"
  by (simp add: upd_at_def split: option.split)

lemma nextino_upd_at [simp]: "nextino (upd_at q f s) = nextino s"
  by (simp add: upd_at_def split: option.split)

lemma ino_at_touch_parent [simp]: "ino_at (touch_parent now q s) p = ino_at s p"
  by (simp add: touch_parent_def)

lemma ino_at_insert_node:
  "ino_at (insert_node now q nd s) p = (if p = q then Some (nextino s) else ino_at s p)"
  unfolding insert_node_def ino_at_touch_parent by (simp add: ino_at_def)

lemma named_in_cong: "(\<And>p. ino_at s' p = ino_at s p) \<Longrightarrow> named_in s' r i = named_in s r i"
  by (simp add: named_in_def)

lemma inos_ok_cong: "(\<And>p. ino_at s' p = ino_at s p) \<Longrightarrow> nextino s' = nextino s \<Longrightarrow> inos_ok s' = inos_ok s"
  by (simp add: inos_ok_def)

lemma within_upd_inode:
  assumes "named_in s r i" and "\<And>nd. inodes s i = Some nd \<Longrightarrow> kind_like (ikind nd) (ikind (f nd))"
  shows "within r s (upd_inode i f s)"
proof -
  have n: "named_in (upd_inode i f s) r j = named_in s r j" for j by (simp add: named_in_def)
  have k: "\<exists>nd'. inodes (upd_inode i f s) j = Some nd' \<and> kind_like (ikind nd) (ikind nd')"
    if "inodes s j = Some nd" for j nd
    using assms(2) that by (cases "j = i") (auto simp: inodes_upd_inode)
  have u: "inodes (upd_inode i f s) j = inodes s j" if "\<not> named_in s r j" for j
    using assms(1) that by (auto simp: inodes_upd_inode)
  show ?thesis unfolding within_def n by (simp add: k u)
qed

lemma within_upd_at:
  assumes "prefix r p" and "\<And>nd. node_at s p = Some nd \<Longrightarrow> kind_like (ikind nd) (ikind (f nd))"
  shows "within r s (upd_at p f s)"
proof (cases "ino_at s p")
  case None
  then show ?thesis by (simp add: upd_at_def within_refl)
next
  case (Some i)
  then have "named_in s r i" using assms(1) by (auto simp: named_in_def)
  from within_upd_inode [OF this] assms(2) Some show ?thesis
    by (simp add: upd_at_def node_at_def)
qed

lemma confined_upd_at:
  assumes "prefix (rDir R) p" and "\<And>nd. node_at s p = Some nd \<Longrightarrow> kind_like (ikind nd) (ikind (f nd))"
  shows "confined h R s (upd_at p f s)"
  using within_upd_at [of "rDir R" p s f] assms
  by (intro confinedI) (auto simp: root_ok_def inos_ok_def)

lemma confined_upd_inode:
  assumes "named_in s (rDir R) i" and "\<And>nd. inodes s i = Some nd \<Longrightarrow> kind_like (ikind nd) (ikind (f nd))"
  shows "confined h R s (upd_inode i f s)"
  using within_upd_inode [of s "rDir R" i f] assms
  by (intro confinedI) (auto simp: root_ok_def inos_ok_def)

lemma prefix_butlast_strict: "strict_prefix r p \<Longrightarrow> prefix r (butlast p)"
  by (cases p rule: rev_cases) (auto simp: strict_prefix_def)

lemma confined_touch_parent:
  "strict_prefix (rDir R) p \<Longrightarrow> confined h R s (touch_parent now p s)"
  unfolding touch_parent_def by (intro confined_upd_at) (simp_all add: prefix_butlast_strict)

lemma ino_at_dents_aput: "ino_at (s\<lparr>dents := aput p i (dents s)\<rparr>) q = (if q = p then Some i else ino_at s q)"
  by (simp add: ino_at_def)

lemma confined_link_name:
  assumes "strict_prefix (rDir R) p" and "named_in s (rDir R) i"
  shows "confined h R s (link_name now p i s)"
proof -
  let ?s = "s\<lparr>dents := aput p i (dents s)\<rparr>"
  have n: "nextino ?s = nextino s" "inodes ?s = inodes s" by simp_all
  have 1: "ino_at ?s q = (if q = p then Some i else ino_at s q)" for q by (rule ino_at_dents_aput)
  have "confined h R s ?s"
  proof (rule confinedI)
    assume "root_ok h R s"
    then have ok: "inos_ok s" by (simp add: root_ok_def)
    then have "i < nextino s" using assms(2) by (auto simp: named_in_def inos_ok_def)
    then show "inos_ok ?s" using ok by (simp add: inos_ok_def 1)
    have "named_in s (rDir R) j" if "named_in ?s (rDir R) j" for j
      using that assms(2) 1 by (auto simp: named_in_def split: if_splits)
    then show "within (rDir R) s ?s" using assms(1)
      by (auto simp: within_def 1)
  qed
  then show ?thesis
    using confined_touch_parent [OF assms(1)] cf.G_trans unfolding link_name_def by blast
qed

lemma confined_insert_node:
  assumes "strict_prefix (rDir R) p"
  shows "confined h R s (insert_node now p nd s)"
proof -
  let ?s = "s\<lparr>dents := aput p (nextino s) (dents s), inodes := (inodes s)(nextino s := Some nd),
               nextino := Suc (nextino s)\<rparr>"
  have 1: "ino_at ?s q = (if q = p then Some (nextino s) else ino_at s q)" for q
    by (simp add: ino_at_def)
  have "confined h R s ?s"
  proof (rule confinedI)
    assume "root_ok h R s"
    then have ok: "inos_ok s" by (simp add: root_ok_def)
    then show "inos_ok ?s" by (auto simp: inos_ok_def 1 less_Suc_eq)
    have "named_in s (rDir R) j" if "named_in ?s (rDir R) j" and "j < nextino s" for j
      using that 1 by (auto simp: named_in_def split: if_splits)
    then show "within (rDir R) s ?s" using assms
      by (auto simp: within_def 1)
  qed
  then show ?thesis
    using confined_touch_parent [OF assms(1)] cf.G_trans unfolding insert_node_def by blast
qed

lemma confined_remove_tree:
  assumes "strict_prefix (rDir R) p"
  shows "confined h R s (remove_tree now p s)"
proof -
  let ?s = "s\<lparr>dents := filter (\<lambda>e. \<not> prefix p (fst e)) (dents s)\<rparr>"
  have 1: "ino_at ?s q = (if prefix p q then None else ino_at s q)" for q
    using map_of_filter_fst [of "\<lambda>x. \<not> prefix p x" "dents s" q] by (simp add: ino_at_def)
  have "confined h R s ?s"
  proof (rule confinedI)
    assume "root_ok h R s"
    then have ok: "inos_ok s" by (simp add: root_ok_def)
    then show "inos_ok ?s" by (auto simp: inos_ok_def 1 split: if_splits)
    have "named_in s (rDir R) j" if "named_in ?s (rDir R) j" for j
      using that 1 by (auto simp: named_in_def split: if_splits)
    moreover have "\<not> prefix p q" if "\<not> strict_prefix (rDir R) q" for q
      using assms that prefix_order.less_le_trans by blast
    ultimately show "within (rDir R) s ?s"
      by (auto simp: within_def 1)
  qed
  then show ?thesis
    using confined_touch_parent [OF assms(1)] cf.G_trans unfolding remove_tree_def by blast
qed

lemma root_node: "root_ok h R s \<Longrightarrow> node_at s (rDir R) \<noteq> None"
  by (auto simp: root_ok_def dir_at_def split: option.splits)

text \<open>A location at or below the root where nothing is, is below it.\<close>

lemma fresh_below: "root_ok h R s \<Longrightarrow> prefix (rDir R) p \<Longrightarrow> node_at s p = None \<Longrightarrow> strict_prefix (rDir R) p"
  using root_node [of h R s] by (cases "p = rDir R") (auto simp: strict_prefix_def)

section \<open>Operations at a location\<close>

lemma confined_p_create:
  assumes "prefix (rDir R) p"
  shows "confined h R s (snd (p_create h' perm p s))"
proof (cases "root_ok h R s")
  case True
  show ?thesis
  proof (cases "ino_at s p")
    case None
    then have "node_at s p = None" by (simp add: node_at_def)
    from fresh_below [OF True assms this] None show ?thesis
      by (simp add: p_create_def confined_insert_node)
  next
    case (Some i)
    then have "named_in s (rDir R) i" using assms by (auto simp: named_in_def)
    then show ?thesis using Some
      by (auto simp: p_create_def cf.G_refl split: option.split ikind.split intro!: confined_upd_inode)
  qed
qed (simp add: confined_def)

lemma confined_fresh:
  assumes "prefix (rDir R) p" and "node_at s p = None"
  shows "confined h R s (insert_node now p nd s)"
  using assms fresh_below confined_insert_node by (cases "root_ok h R s") (auto simp: confined_def)

lemma confined_p_mkdir: "prefix (rDir R) p \<Longrightarrow> confined h R s (snd (p_mkdir h' perm p s))"
  by (simp add: p_mkdir_def cf.G_refl confined_fresh)

lemma confined_p_symlink: "prefix (rDir R) p \<Longrightarrow> confined h R s (snd (p_symlink h' t p s))"
  by (simp add: p_symlink_def cf.G_refl confined_fresh)

lemma confined_p_lchown: "prefix (rDir R) p \<Longrightarrow> confined h R s (snd (p_lchown uid gid p s))"
  by (auto simp: p_lchown_def cf.G_refl intro!: confined_upd_at)

lemma confined_p_chmod: "prefix (rDir R) p \<Longrightarrow> confined h R s (snd (p_chmod perm p s))"
  by (auto simp: p_chmod_def cf.G_refl intro!: confined_upd_at)

lemma confined_p_chtimes: "prefix (rDir R) p \<Longrightarrow> confined h R s (snd (p_chtimes at mt p s))"
  by (auto simp: p_chtimes_def cf.G_refl intro!: confined_upd_at)

lemma confined_p_link:
  assumes "prefix (rDir R) p" and "prefix (rDir R) old"
  shows "confined h R s (snd (p_link h' old p s))"
proof (cases "root_ok h R s")
  case True
  have "named_in s (rDir R) i" if "ino_at s old = Some i" for i
    using that assms(2) by (auto simp: named_in_def)
  then show ?thesis using True fresh_below [OF True assms(1)]
    by (auto simp: p_link_def cf.G_refl confined_link_name split: option.split)
qed (simp add: confined_def)

lemma confined_p_remove_all:
  "strict_prefix (rDir R) p \<Longrightarrow> confined h R s (snd (p_remove_all h' p s))"
  by (simp add: p_remove_all_def cf.G_refl confined_remove_tree)

lemma p_readonly [simp]:
  "snd (p_stat p s) = s" "snd (p_readlink p s) = s" "snd (p_open p s) = s" "snd (p_readdir p s) = s"
  by (auto simp: p_stat_def p_readlink_def p_open_def p_readdir_def split: option.split ikind.split)

end
