(* ===== verification/Times.thy ===== *)
theory Times
  imports FileSys
begin

text \<open>
  Time handling: \<open>time.go\<close> (\<open>boundTime\<close>, \<open>latestTime\<close>), \<open>timeToTimespec\<close> of
  \<open>time_nonwindows.go\<close> and \<open>sameFsTime\<close> of \<open>changes.go\<close>.
\<close>

section \<open>The definitions\<close>

definition minTime :: time where
  "minTime = 0"

definition maxTime :: "host \<Rightarrow> time" where
  "maxTime h = (if hNsec64 h then 2 ^ 63 - 1 else (2 ^ 31 - 1) * second)"

definition boundTime :: "host \<Rightarrow> time \<Rightarrow> time" where
  "boundTime h t = (if t < minTime \<or> maxTime h < t then minTime else t)"

definition latestTime :: "time \<Rightarrow> time \<Rightarrow> time" where
  "latestTime t1 t2 = (if t1 < t2 then t2 else t1)"

text \<open>\<open>Time.UnixNano\<close> is an int64: outside its range the count wraps around.\<close>

definition time_unix_nano :: "time \<Rightarrow> int" where
  "time_unix_nano t = sint (word_of_int t :: 64 word)"

text \<open>\<open>unix.NsecToTimespec\<close>: seconds and nanoseconds, the latter not negative.\<close>

definition nsec_to_timespec :: "int \<Rightarrow> int \<times> int" where
  "nsec_to_timespec n = (n div second, n mod second)"

definition timeToTimespec :: "time \<Rightarrow> int \<times> int" where
  "timeToTimespec t =
     (if t = zero_time then (0, 2 ^ 30 - 2) else nsec_to_timespec (time_unix_nano t))"

definition sameFsTime :: "time \<Rightarrow> time \<Rightarrow> bool" where
  "sameFsTime a b \<longleftrightarrow>
     a = b \<or>
     (time_unix a = time_unix b \<and> (time_nanosecond a = 0 \<or> time_nanosecond b = 0))"

section \<open>Bounds\<close>

lemma maxTime_bounds: "minTime \<le> maxTime h \<and> maxTime h < 2 ^ 63"
  by (simp add: maxTime_def minTime_def second_def)

lemma boundTime_range: "minTime \<le> boundTime h t \<and> boundTime h t \<le> maxTime h"
  using maxTime_bounds [of h] by (auto simp: boundTime_def)

lemma boundTime_idem: "boundTime h (boundTime h t) = boundTime h t"
  using boundTime_range [of h t] by (simp add: boundTime_def [of h "boundTime h t"])

lemma time_unix_nano_id: "0 \<le> t \<Longrightarrow> t < 2 ^ 63 \<Longrightarrow> time_unix_nano t = t"
  by (simp add: time_unix_nano_def sint_sbintrunc' signed_take_bit_int_eq_self)

end
