(* ===== verification/Options.thy ===== *)
theory Options
  imports RootPath Times Compress
begin

text \<open>
  What the extractors are configured with: \<open>TarOptions\<close> and \<open>ChownOpts\<close> of \<open>archive.go\<close>,
  the internal options of \<open>internal/archiveoptions\<close>, the identity mapping of
  \<open>github.com/moby/sys/user\<close> (not in the repository: a record of its functions), and the
  whiteout names of \<open>whiteouts.go\<close>.
\<close>

section \<open>Options\<close>

record IdentityMapping =
  imToHost :: "int \<Rightarrow> int \<Rightarrow> (int \<times> int) \<times> goerror option"
  imToContainer :: "int \<Rightarrow> int \<Rightarrow> (int \<times> int) \<times> goerror option"
  imRootPair :: "int \<times> int"
  imEmpty :: bool

record ChownOpts =
  coUID :: int
  coGID :: int

record archiveOptions =
  aoProcSelfFD :: "loc option"

datatype WhiteoutFormat = AUFSWhiteoutFormat | OverlayWhiteoutFormat

record TarOptions =
  oIncludeFiles :: "string list"
  oExcludePatterns :: "string list"
  oCompression :: Compression
  oNoLchown :: bool
  oIDMap :: IdentityMapping
  oChownOpts :: "ChownOpts option"
  oIncludeSourceDir :: bool
  oWhiteoutFormat :: WhiteoutFormat
  oNoOverwriteDirNonDir :: bool
  oRebaseNames :: "(string \<times> string) list"
  oInUserNS :: bool
  oBestEffortXattrs :: bool
  oInternalOptions :: "archiveOptions option"

text \<open>The zero value \<open>&TarOptions{}\<close>; the mapping of an empty \<open>user.IdentityMapping\<close> is \<open>m\<close>.\<close>

definition zeroTarOptions :: "IdentityMapping \<Rightarrow> TarOptions" where
  "zeroTarOptions m =
     \<lparr>oIncludeFiles = [], oExcludePatterns = [], oCompression = CompNone, oNoLchown = False, oIDMap = m, oChownOpts = None,
      oIncludeSourceDir = False, oWhiteoutFormat = AUFSWhiteoutFormat,
      oNoOverwriteDirNonDir = False, oRebaseNames = [], oInUserNS = False,
      oBestEffortXattrs = False, oInternalOptions = None\<rparr>"

definition ImpliedDirectoryMode :: filemode where
  "ImpliedDirectoryMode = 0x1ED"

section \<open>Whiteout names\<close>

definition WhiteoutPrefix :: string where
  "WhiteoutPrefix = ''.wh.''"

definition WhiteoutMetaPrefix :: string where
  "WhiteoutMetaPrefix = WhiteoutPrefix @ WhiteoutPrefix"

definition WhiteoutLinkDir :: string where
  "WhiteoutLinkDir = WhiteoutMetaPrefix @ ''plnk''"

definition WhiteoutOpaqueDir :: string where
  "WhiteoutOpaqueDir = WhiteoutMetaPrefix @ ''.opq''"

lemmas whiteout_names =
  WhiteoutPrefix_def WhiteoutMetaPrefix_def WhiteoutLinkDir_def WhiteoutOpaqueDir_def

section \<open>Owners\<close>

text \<open>
  \<open>remapIDs\<close> stores what the mapping returned in the header, also when it returned an error.
\<close>

definition remapIDs :: "IdentityMapping \<Rightarrow> tarHeader \<Rightarrow> goerror option \<times> tarHeader" where
  "remapIDs m hdr =
     (let r = imToHost m (hUid hdr) (hGid hdr)
      in (snd r, hdr\<lparr>hUid := fst (fst r), hGid := snd (fst r)\<rparr>))"

end
