(* ===== verification/TarFile.thy ===== *)
theory TarFile
  imports Options
begin

text \<open>
  Extracting one entry: \<open>createTarFile\<close> of \<open>archive.go\<close> with its helpers for devices
  (\<open>archive_unix.go\<close>, \<open>dev_unix.go\<close>), modes (\<open>archive_unix.go\<close>, \<open>chmod_linux.go\<close>),
  extended attributes (\<open>xattr_supported.go\<close>) and times (\<open>time_nonwindows.go\<close>), for Linux.
\<close>

section \<open>Devices\<close>

definition errInvalidArchive :: goerror where
  "errInvalidArchive = ErrMsg ''invalid archive'' []"

definition mknodInRoot ::
  "host \<Rightarrow> goRoot \<Rightarrow> string \<Rightarrow> filemode \<Rightarrow> 64 word \<Rightarrow> (fsys, goerror, unit) io" where
  "mknodInRoot h R path mode dev =
     bindE (root_OpenDir h R (Dir path)) (\<lambda>parent.
     wrap_unix Errno (uMknodat (hUnix h) parent (Base path) mode dev))"

definition handleTarTypeBlockCharFifo ::
  "host \<Rightarrow> goRoot \<Rightarrow> tarHeader \<Rightarrow> string \<Rightarrow> (fsys, goerror, unit) io" where
  "handleTarTypeBlockCharFifo h R hdr dstPath =
     (let mode0 = ucast (hMode hdr AND 0xFFF) :: filemode;
          mode = (case hTypeflag hdr of
                    TypeBlock \<Rightarrow> mode0 OR S_IFBLK
                  | TypeChar \<Rightarrow> mode0 OR S_IFCHR
                  | TypeFifo \<Rightarrow> mode0 OR S_IFIFO
                  | _ \<Rightarrow> mode0)
      in if hDevmajor hdr < 0 \<or> hDevmajor hdr > 2 ^ 32 - 1 \<or>
            hDevminor hdr < 0 \<or> hDevminor hdr > 2 ^ 32 - 1
         then fail (ErrWrap ''device number out of range'' [hName hdr] errInvalidArchive)
         else mknodInRoot h R dstPath mode
                (uMkdev (hUnix h) (word_of_int (hDevmajor hdr)) (word_of_int (hDevminor hdr))))"

section \<open>Modes\<close>

text \<open>The part of an \<open>os.FileMode\<close> that \<open>chmod\<close> can apply.\<close>

definition fileModeToPerm :: "filemode \<Rightarrow> filemode" where
  "fileModeToPerm mode =
     (let perm0 = mode_perm mode;
          perm1 = (if mode AND ModeSetuid \<noteq> 0 then perm0 OR S_ISUID else perm0);
          perm2 = (if mode AND ModeSetgid \<noteq> 0 then perm1 OR S_ISGID else perm1)
      in if mode AND ModeSticky \<noteq> 0 then perm2 OR S_ISVTX else perm2)"

text \<open>The fallback of \<open>chmod_linux.go\<close>, through a descriptor under \<open>/proc/self/fd\<close>.\<close>

definition chmodNoSymlinkFallback ::
  "host \<Rightarrow> loc \<Rightarrow> string \<Rightarrow> string \<Rightarrow> filemode \<Rightarrow> archiveOptions option \<Rightarrow> (fsys, goerror, unit) io" where
  "chmodNoSymlinkFallback h parentFD base name perm opts =
     bindE (readE (\<lambda>s. case uOpenatPath (hUnix h) parentFD base s of
                          Inl e \<Rightarrow> Inl (PathError ''openat'' name (Errno e))
                        | Inr fd \<Rightarrow> Inr fd)) (\<lambda>fd.
     case (case opts of None \<Rightarrow> None | Some ao \<Rightarrow> aoProcSelfFD ao) of
       Some proc \<Rightarrow>
         wrap_unix (\<lambda>e. PathError ''fchmodat'' name
             (ErrWrap ''via pre-opened /proc/self/fd'' [itoa fd] (Errno e)))
           (uFchmodatFd (hUnix h) proc (itoa fd) perm)
     | None \<Rightarrow>
         (let procPath = ''/proc/self/fd/'' @ itoa fd
          in wrap_unix (\<lambda>e. PathError ''chmod'' name (ErrWrap ''via'' [procPath] (Errno e)))
               (uChmod (hUnix h) procPath perm)))"

definition chmodNoSymlink ::
  "host \<Rightarrow> goRoot \<Rightarrow> string \<Rightarrow> filemode \<Rightarrow> archiveOptions option \<Rightarrow> (fsys, goerror, unit) io" where
  "chmodNoSymlink h R name mode opts =
     bindE (root_Open h R (Dir name)) (\<lambda>parent.
     let base = Base name; perm = fileModeToPerm mode
     in bindE (tryE (wrap_unix Errno (uFchmodat (hUnix h) parent base perm))) (\<lambda>r.
        case r of
          Inr _ \<Rightarrow> ret ()
        | Inl err \<Rightarrow>
            if \<not> errors_is err EOPNOTSUPP then fail (PathError ''fchmodat2'' name err)
            else chmodNoSymlinkFallback h parent base name perm opts))"

definition handleLChmod ::
  "host \<Rightarrow> goRoot \<Rightarrow> string \<Rightarrow> string \<Rightarrow> tarHeader \<Rightarrow> filemode \<Rightarrow> archiveOptions option \<Rightarrow>
     (fsys, goerror, unit) io" where
  "handleLChmod h R dstPath hardlinkTarget hdr mode opts =
     (case hTypeflag hdr of
        TypeSymlink \<Rightarrow> ret ()
      | TypeLink \<Rightarrow>
          bindE (tryE (root_Lstat h R hardlinkTarget)) (\<lambda>r.
            case r of
              Inl _ \<Rightarrow> ret ()
            | Inr fi \<Rightarrow>
                if fi_is_symlink fi then ret ()
                else chmodNoSymlink h R dstPath mode opts)
      | _ \<Rightarrow> chmodNoSymlink h R dstPath mode opts)"

section \<open>Extended attributes\<close>

definition paxSchilyXattr :: string where
  "paxSchilyXattr = ''SCHILY.xattr.''"

definition wrapPathError :: "string \<Rightarrow> string \<Rightarrow> string \<Rightarrow> errno \<Rightarrow> goerror" where
  "wrapPathError op filePath attr e = PathError op filePath (ErrWrap ''xattr'' [attr] (Errno e))"

definition lsetxattr :: "host \<Rightarrow> string \<Rightarrow> string \<Rightarrow> string \<Rightarrow> (fsys, goerror, unit) io" where
  "lsetxattr h filePath attr data =
     wrap_unix (wrapPathError ''lsetxattr'' filePath attr) (uLsetxattr (hUnix h) filePath attr data)"

text \<open>
  The loop over \<open>hdr.PAXRecords\<close>. \<open>xp\<close> is the resolved path once it is known, \<open>errs\<close> the
  errors ignored so far. A Go map has no order: the records are listed in the order the
  iteration takes, and every statement below holds for each.
\<close>

fun setXattrs ::
  "host \<Rightarrow> goRoot \<Rightarrow> string \<Rightarrow> bool \<Rightarrow> string option \<Rightarrow> goerror list \<Rightarrow> (string \<times> string) list \<Rightarrow>
     (fsys, goerror, goerror list) io" where
  "setXattrs h R dstPath best xp errs [] = ret errs"
| "setXattrs h R dstPath best xp errs ((key, value) # recs) =
     (case CutPrefix key paxSchilyXattr of
        None \<Rightarrow> setXattrs h R dstPath best xp errs recs
      | Some xattr \<Rightarrow>
          bindE (case xp of None \<Rightarrow> readE (fsRootPath h (rName R) dstPath) | Some p \<Rightarrow> ret p) (\<lambda>p.
          bindE (tryE (lsetxattr h p xattr value)) (\<lambda>r.
            case r of
              Inl err \<Rightarrow>
                if best \<and> errors_is err EOPNOTSUPP \<or> errors_is err EPERM
                then setXattrs h R dstPath best (Some p) (errs @ [err]) recs
                else fail err
            | Inr _ \<Rightarrow> setXattrs h R dstPath best (Some p) errs recs)))"

section \<open>Times\<close>

definition chtimes :: "host \<Rightarrow> goRoot \<Rightarrow> string \<Rightarrow> time \<Rightarrow> time \<Rightarrow> (fsys, goerror, unit) io" where
  "chtimes h R name atime mtime = root_Chtimes h R name atime mtime"

definition lchtimes :: "host \<Rightarrow> goRoot \<Rightarrow> string \<Rightarrow> time \<Rightarrow> time \<Rightarrow> (fsys, goerror, unit) io" where
  "lchtimes h R name atime mtime =
     (let dir0 = SplitDir (ToSlash name); base = SplitFile (ToSlash name)
      in if base = [] then fail (PathError ''lchtimes'' name (Errno EINVAL))
         else
           (let dir1 = TrimSuffix dir0 [slash];
                dir = (if dir1 = [] then dot else dir1)
            in bindE (root_Open h R dir) (\<lambda>parent.
               bindE (tryE (wrap_unix Errno
                 (uUtimesNanoAt (hUnix h) parent base (timeToTimespec atime) (timeToTimespec mtime)))) (\<lambda>r.
               case r of
                 Inr _ \<Rightarrow> ret ()
               | Inl err \<Rightarrow>
                   if errors_is err ENOSYS then ret () else fail (PathError ''lchtimes'' name err)))))"

section \<open>One entry\<close>

text \<open>
  The first half of \<open>createTarFile\<close>: making the node. The result is \<open>False\<close> where the
  function returns \<open>nil\<close> at once, leaving the rest out.
\<close>

definition createNode ::
  "host \<Rightarrow> goRoot \<Rightarrow> string \<Rightarrow> tarHeader \<Rightarrow> body \<Rightarrow> bool \<Rightarrow> string \<Rightarrow> (fsys, goerror, bool) io" where
  "createNode h R dstPath hdr b inUserns hardlinkTarget =
     (let perm = hdr_info_mode hdr AND 0x1FF
      in case hTypeflag hdr of
        TypeDir \<Rightarrow>
          bindE (tryE (root_Lstat h R dstPath)) (\<lambda>r.
            if (case r of Inl _ \<Rightarrow> True | Inr fi \<Rightarrow> \<not> fi_is_dir fi)
            then bindE (root_Mkdir h R dstPath perm) (\<lambda>_. ret True)
            else ret True)
      | TypeReg \<Rightarrow>
          bindE (root_Create h R dstPath perm) (\<lambda>file.
          bindE (file_copy h file b) (\<lambda>_. ret True))
      | TypeBlock \<Rightarrow>
          if inUserns then ret False
          else bindE (handleTarTypeBlockCharFifo h R hdr dstPath) (\<lambda>_. ret True)
      | TypeChar \<Rightarrow>
          if inUserns then ret False
          else bindE (handleTarTypeBlockCharFifo h R hdr dstPath) (\<lambda>_. ret True)
      | TypeFifo \<Rightarrow>
          bindE (tryE (handleTarTypeBlockCharFifo h R hdr dstPath)) (\<lambda>r.
            case r of
              Inr _ \<Rightarrow> ret True
            | Inl err \<Rightarrow> if inUserns \<and> errors_is err EPERM then ret False else fail err)
      | TypeLink \<Rightarrow> bindE (root_Link h R hardlinkTarget dstPath) (\<lambda>_. ret True)
      | TypeSymlink \<Rightarrow> bindE (root_Symlink h R (hLinkname hdr) dstPath) (\<lambda>_. ret True)
      | TypeXGlobalHeader \<Rightarrow> ret False
      | TypeOther n \<Rightarrow> fail (ErrMsg ''unhandled tar header type'' [itoa n]))"

text \<open>The owner: an explicit owner wins over the header's.\<close>

definition applyOwner ::
  "host \<Rightarrow> goRoot \<Rightarrow> string \<Rightarrow> tarHeader \<Rightarrow> bool \<Rightarrow> ChownOpts option \<Rightarrow> (fsys, goerror, unit) io" where
  "applyOwner h R dstPath hdr inUserns chownOpts =
     (let co = (case chownOpts of None \<Rightarrow> \<lparr>coUID = hUid hdr, coGID = hGid hdr\<rparr> | Some c \<Rightarrow> c)
      in bindE (tryE (root_Lchown h R dstPath (coUID co) (coGID co))) (\<lambda>r.
         case r of
           Inr _ \<Rightarrow> ret ()
         | Inl err \<Rightarrow>
             fail (ErrWrap ''failed to Lchown''
               [dstPath,
                if inUserns \<and> errors_is err EINVAL
                then ''(try increasing the number of subordinate IDs in /etc/subuid and /etc/subgid)''
                else []] err)))"

text \<open>The times of the entry; a hard link's are set only where its target is no symlink.\<close>

definition applyTimes ::
  "host \<Rightarrow> goRoot \<Rightarrow> string \<Rightarrow> tarHeader \<Rightarrow> string \<Rightarrow> (fsys, goerror, unit) io" where
  "applyTimes h R dstPath hdr hardlinkTarget =
     (let aTime = boundTime h (latestTime (hAccessTime hdr) (hModTime hdr));
          mTime = boundTime h (hModTime hdr)
      in case hTypeflag hdr of
           TypeSymlink \<Rightarrow> lchtimes h R dstPath aTime mTime
         | TypeLink \<Rightarrow>
             bindE (tryE (root_Lstat h R hardlinkTarget)) (\<lambda>r.
               if (case r of Inl _ \<Rightarrow> False | Inr fi \<Rightarrow> \<not> fi_is_symlink fi)
               then chtimes h R dstPath aTime mTime
               else ret ())
         | _ \<Rightarrow> chtimes h R dstPath aTime mTime)"

definition createTarFile ::
  "host \<Rightarrow> goRoot \<Rightarrow> string \<Rightarrow> tarHeader \<Rightarrow> body \<Rightarrow> TarOptions option \<Rightarrow> (fsys, goerror, unit) io" where
  "createTarFile h R dstPath hdr b opts =
     (let Lchown = (case opts of None \<Rightarrow> True | Some opt \<Rightarrow> \<not> oNoLchown opt);
          inUserns = (case opts of None \<Rightarrow> False | Some opt \<Rightarrow> oInUserNS opt);
          chownOpts = (case opts of None \<Rightarrow> None | Some opt \<Rightarrow> oChownOpts opt);
          bestEffort = (case opts of None \<Rightarrow> False | Some opt \<Rightarrow> oBestEffortXattrs opt);
          internalOpts = (case opts of None \<Rightarrow> None | Some opt \<Rightarrow> oInternalOptions opt)
      in bindE (if hTypeflag hdr = TypeLink then readE (resolveHardlinkTarget h R (hLinkname hdr))
                else ret []) (\<lambda>hardlinkTarget.
         bindE (createNode h R dstPath hdr b inUserns hardlinkTarget) (\<lambda>go.
         if \<not> go then ret ()
         else
           bindE (if Lchown then applyOwner h R dstPath hdr inUserns chownOpts else ret ()) (\<lambda>_.
           bindE (setXattrs h R dstPath bestEffort None [] (hPAXRecords hdr)) (\<lambda>_.
           bindE (handleLChmod h R dstPath hardlinkTarget hdr (hdr_info_mode hdr) internalOpts) (\<lambda>_.
           applyTimes h R dstPath hdr hardlinkTarget))))))"

end
