(* ===== verification/Unpack.thy ===== *)
theory Unpack
  imports TarFile
begin

text \<open>
  Unpacking an archive: \<open>Unpack\<close> of \<open>archive.go\<close> with \<open>createImpliedDirectories\<close>, and the
  overlay whiteout converter of \<open>archive_linux.go\<close> on the reading side. A tar stream is the
  list of entries \<open>tr.Next()\<close> yields, then end of file or the error that ends it.
\<close>

section \<open>The archive\<close>

record tarStream =
  tsEntries :: "(tarHeader \<times> body) list"
  tsEnd :: "goerror option"

text \<open>A directory whose times are restored when every entry has been extracted.\<close>

record unpackedDir =
  udName :: string
  udAtime :: time
  udMtime :: time

section \<open>Whiteouts on an overlay file system\<close>

text \<open>The converter is its one field, the attribute that marks an opaque directory.\<close>

definition newOverlayWhiteoutConverter :: "host \<Rightarrow> string" where
  "newOverlayWhiteoutConverter h =
     (if hUserNS h then ''user.overlay.opaque'' else ''trusted.overlay.opaque'')"

definition getWhiteoutConverter :: "host \<Rightarrow> WhiteoutFormat \<Rightarrow> string option" where
  "getWhiteoutConverter h format =
     (if format = OverlayWhiteoutFormat then Some (newOverlayWhiteoutConverter h) else None)"


definition ConvertRead ::
  "host \<Rightarrow> string \<Rightarrow> goRoot \<Rightarrow> tarHeader \<Rightarrow> string \<Rightarrow> (fsys, goerror, bool) io" where
  "ConvertRead h opaqueXattr R hdr filePath =
     (let base = Base filePath; dir = Dir filePath
      in if base = WhiteoutPrefix \<or> base = WhiteoutPrefix @ ''.'' \<or> base = WhiteoutPrefix @ ''..''
         then fail (ErrMsg ''invalid whiteout entry'' [hName hdr])
         else if base = WhiteoutOpaqueDir
         then
           bindE (root_Open h R dir) (\<lambda>parent.
           bindE (wrap_unix (\<lambda>e. ErrWrap ''fsetxattr'' [dir, opaqueXattr] (Errno e))
                   (uFsetxattr (hUnix h) parent opaqueXattr ''y'')) (\<lambda>_.
           ret False))
         else
           (case CutPrefix base WhiteoutPrefix of
              None \<Rightarrow> ret True
            | Some originalBase \<Rightarrow>
                bindE (root_Open h R dir) (\<lambda>parent.
                let originalPath = Join [dir, originalBase]
                in bindE (wrap_unix (\<lambda>e. ErrWrap ''failed to mknod'' [originalPath] (Errno e))
                       (uMknodat (hUnix h) parent originalBase S_IFCHR 0)) (\<lambda>_.
                   if hUid hdr \<noteq> 0 \<or> hGid hdr \<noteq> 0
                   then
                     bindE (wrap_unix (\<lambda>e. PathError ''lchown'' originalPath (Errno e))
                         (uFchownat (hUnix h) parent originalBase (hUid hdr) (hGid hdr))) (\<lambda>_.
                     ret False)
                   else ret False))))"

section \<open>Implied directories\<close>

text \<open>The loop over the components of the parent; \<open>cur\<close> is the path made so far.\<close>

fun makeDirs ::
  "host \<Rightarrow> goRoot \<Rightarrow> TarOptions \<Rightarrow> string \<Rightarrow> string list \<Rightarrow> (fsys, goerror, unit) io" where
  "makeDirs h R opts cur [] = ret ()"
| "makeDirs h R opts cur (c # cs) =
     (if c = [] then makeDirs h R opts cur cs
      else
        (let cur' = Join [cur, c]
         in bindE (tryE (root_Mkdir h R cur' ImpliedDirectoryMode)) (\<lambda>r.
            case r of
              Inl err \<Rightarrow>
                if \<not> errors_is err EEXIST then fail err
                else
                  bindE (root_Stat h R cur') (\<lambda>fi.
                  if fi_is_dir fi then makeDirs h R opts cur' cs
                  else fail (PathError ''mkdir'' cur' (Errno ENOTDIR)))
            | Inr _ \<Rightarrow>
                if oNoLchown opts then makeDirs h R opts cur' cs
                else
                  (let (uid, gid) = imRootPair (oIDMap opts)
                   in bindE (root_Open h R cur') (\<lambda>dir.
                      bindE (if uid \<noteq> 0 \<or> gid \<noteq> 0 then file_Chown h dir uid gid else ret ()) (\<lambda>_.
                      bindE (file_Chmod h dir ImpliedDirectoryMode) (\<lambda>_.
                      makeDirs h R opts cur' cs)))))))"

definition createImpliedDirectories ::
  "host \<Rightarrow> goRoot \<Rightarrow> resolvedArchivePath \<Rightarrow> TarOptions \<Rightarrow> (fsys, goerror, unit) io" where
  "createImpliedDirectories h R resolved opts =
     (let parent = Dir (raPath resolved)
      in if parent = dot \<or> parent = [] \<or> parentWasPresent resolved then ret ()
         else
           bindE (tryE (root_Lstat h R parent)) (\<lambda>r.
             case r of
               Inr _ \<Rightarrow> ret ()
             | Inl err \<Rightarrow>
                 if \<not> is_not_exist err then fail err
                 else makeDirs h R opts [] (split_slash parent)))"

section \<open>Windows names\<close>

definition ContainsAny :: "string \<Rightarrow> string \<Rightarrow> bool" where
  "ContainsAny s chars \<longleftrightarrow> (\<exists>c \<in> set s. c \<in> set chars)"

definition unrepresentableOnWindows :: "bool \<Rightarrow> tarHeader \<Rightarrow> goerror option" where
  "unrepresentableOnWindows windows hdr =
     (if \<not> windows then None
      else if ContainsAny (hName hdr) [CHR '':'', char_of (92::nat)]
      then Some (ErrMsg ''entry name contains a character Windows cannot represent in a path'' [hName hdr])
      else if hTypeflag hdr = TypeLink \<and> ContainsAny (hLinkname hdr) [CHR '':'', char_of (92::nat)]
      then Some (ErrMsg ''hardlink target contains a character Windows cannot represent in a path'' [hLinkname hdr])
      else None)"

section \<open>One entry of the loop\<close>

text \<open>What may be in the way of the new entry: removed, kept or refused.\<close>

definition clearTarget ::
  "host \<Rightarrow> goRoot \<Rightarrow> string \<Rightarrow> TarOptions \<Rightarrow> tarHeader \<Rightarrow> string \<Rightarrow> (fsys, goerror, bool) io" where
  "clearTarget h R dest opts hdr dstPath =
     bindE (tryE (root_Lstat h R dstPath)) (\<lambda>r.
       case r of
         Inl _ \<Rightarrow> ret True
       | Inr fi \<Rightarrow>
           if oNoOverwriteDirNonDir opts \<and> fi_is_dir fi \<and> hTypeflag hdr \<noteq> TypeDir
           then fail (ErrMsg ''cannot overwrite directory with non-directory'' [hName hdr, dest])
           else if oNoOverwriteDirNonDir opts \<and> \<not> fi_is_dir fi \<and> hTypeflag hdr = TypeDir
           then fail (ErrMsg ''cannot overwrite non-directory with directory'' [hName hdr, dest])
           else if fi_is_dir fi \<and> hName hdr = dot then ret False
           else if \<not> fi_is_dir fi \<or> hTypeflag hdr \<noteq> TypeDir
           then bindE (root_RemoveAll h R dstPath) (\<lambda>_. ret True)
           else ret True)"

text \<open>
  The body of the loop. The result is the directory to be put on the list of restored times,
  if any; \<open>ret None\<close> also stands for \<open>continue\<close>.
\<close>

definition unpackEntry ::
  "host \<Rightarrow> goRoot \<Rightarrow> string \<Rightarrow> TarOptions \<Rightarrow> string option \<Rightarrow> tarHeader \<times> body \<Rightarrow>
     (fsys, goerror, unpackedDir option) io" where
  "unpackEntry h R dest opts wc e =
     (let hdr0 = fst e; b = snd e
      in if hTypeflag hdr0 = TypeXGlobalHeader then ret None
         else
           (let name = Clean (TrimLeft (hName hdr0) slash)
            in if name = dot then ret None
               else if \<not> IsLocal name
               then fail (BreakoutErr (ErrMsg ''invalid entry name'' [hName hdr0]))
               else if \<exists>ex \<in> set (oExcludePatterns opts). HasPrefix name ex then ret None
               else
                 (let hdr1 = hdr0\<lparr>hName := name\<rparr>
                  in if unrepresentableOnWindows False hdr1 \<noteq> None then ret None
                     else
                       bindE (readE (resolveArchivePath h R (FromSlash (hName hdr1)))) (\<lambda>resolvedPath.
                       let dstPath = raPath resolvedPath
                       in bindE (clearTarget h R dest opts hdr1 dstPath) (\<lambda>go.
                          if \<not> go then ret None
                          else
                            (case remapIDs (oIDMap opts) hdr1 of
                               (Some err, _) \<Rightarrow> fail err
                             | (None, hdr) \<Rightarrow>
                                 bindE (createImpliedDirectories h R resolvedPath opts) (\<lambda>_.
                                 bindE (case wc of
                                          None \<Rightarrow> ret True
                                        | Some x \<Rightarrow> ConvertRead h x R hdr dstPath) (\<lambda>writeFile.
                                 if \<not> writeFile then ret None
                                 else
                                   bindE (createTarFile h R dstPath hdr b (Some opts)) (\<lambda>_.
                                   if hTypeflag hdr = TypeDir
                                   then ret (Some \<lparr>udName = dstPath,
                                     udAtime = boundTime h (latestTime (hAccessTime hdr) (hModTime hdr)),
                                     udMtime = boundTime h (hModTime hdr)\<rparr>)
                                   else ret None)))))))))"

section \<open>The loop and its end\<close>

definition restoreDirTimes :: "host \<Rightarrow> goRoot \<Rightarrow> unpackedDir list \<Rightarrow> (fsys, goerror, unit) io" where
  "restoreDirTimes h R dirs = foreachE (\<lambda>d. chtimes h R (udName d) (udAtime d) (udMtime d)) dirs"

fun unpackLoop ::
  "host \<Rightarrow> goRoot \<Rightarrow> string \<Rightarrow> TarOptions \<Rightarrow> string option \<Rightarrow> unpackedDir list \<Rightarrow>
     (tarHeader \<times> body) list \<Rightarrow> goerror option \<Rightarrow> (fsys, goerror, unit) io" where
  "unpackLoop h R dest opts wc dirs [] eos =
     (case eos of Some err \<Rightarrow> fail err | None \<Rightarrow> restoreDirTimes h R dirs)"
| "unpackLoop h R dest opts wc dirs (e # es) eos =
     bindE (unpackEntry h R dest opts wc e) (\<lambda>d.
     unpackLoop h R dest opts wc (case d of None \<Rightarrow> dirs | Some x \<Rightarrow> dirs @ [x]) es eos)"

text \<open>\<open>emptyMap\<close> is the mapping of the options a nil \<open>options\<close> is replaced with.\<close>

definition Unpack ::
  "host \<Rightarrow> IdentityMapping \<Rightarrow> tarStream \<Rightarrow> string \<Rightarrow> TarOptions option \<Rightarrow> (fsys, goerror, unit) io" where
  "Unpack h emptyMap archive dest options =
     (let opts = (case options of None \<Rightarrow> zeroTarOptions emptyMap | Some opt \<Rightarrow> opt)
      in bindE (os_OpenRoot h dest) (\<lambda>R.
         unpackLoop h R dest opts (getWhiteoutConverter h (oWhiteoutFormat opts)) []
           (tsEntries archive) (tsEnd archive)))"

end
