(* ===== verification/Layer.thy ===== *)
theory Layer
  imports Unpack Compress
begin

text \<open>
  Applying an image layer: \<open>UnpackLayer\<close> of \<open>diff.go\<close> and the functions around it. The local
  variables of the function that survive an iteration are the record \<open>layerState\<close>, of which
  the file system is one field, so that the deferred clean-up sees them on both outcomes.
\<close>

section \<open>The state of the loop\<close>

record layerState =
  lsFs :: fsys
  lsSize :: "64 word"
  lsDirs :: "unpackedDir list"
  lsUnpacked :: "string list"
  lsTempdir :: string
  lsHardlinks :: "(string \<times> tarHeader) list"

text \<open>A statement on the file system, in the larger state.\<close>

definition onFs :: "(fsys, 'e, 'a) io \<Rightarrow> (layerState, 'e, 'a) io" where
  "onFs m st = (case m (lsFs st) of (r, s') \<Rightarrow> (r, st\<lparr>lsFs := s'\<rparr>))"

definition modifyL :: "(layerState \<Rightarrow> layerState) \<Rightarrow> (layerState, 'e, unit) io" where
  "modifyL f st = (Inr (), f st)"

definition getL :: "(layerState \<Rightarrow> 'a) \<Rightarrow> (layerState, 'e, 'a) io" where
  "getL f st = (Inr (f st), st)"

section \<open>Hard links into the link directory\<close>

text \<open>
  Regular files below \<open>.wh..wh.plnk\<close> are kept in a temporary directory of the destination,
  which is made at the first of them.
\<close>

definition stashHardlink ::
  "host \<Rightarrow> string \<Rightarrow> TarOptions \<Rightarrow> tarHeader \<Rightarrow> body \<Rightarrow> (layerState, goerror, unit) io" where
  "stashHardlink h dest opts hdr b =
     (let basename = Base (hName hdr)
      in bindE (modifyL (\<lambda>st. st\<lparr>lsHardlinks := aput basename hdr (lsHardlinks st)\<rparr>)) (\<lambda>_.
         bindE (getL lsTempdir) (\<lambda>tempdir.
         bindE (if tempdir = []
                then bindE (onFs (os_MkdirTemp h dest ''dockerplnk'')) (\<lambda>d.
                     modifyL (\<lambda>st. st\<lparr>lsTempdir := d\<rparr>))
                else ret ()) (\<lambda>_.
         bindE (getL lsTempdir) (\<lambda>tempdir.
         bindE (onFs (os_OpenRoot h tempdir)) (\<lambda>aufsRoot.
         onFs (createTarFile h aufsRoot basename hdr b (Some opts))))))))"

section \<open>Whiteouts\<close>

text \<open>The callback of the walk for an opaque directory.\<close>

definition opaqueVisit ::
  "host \<Rightarrow> goRoot \<Rightarrow> string \<Rightarrow> string list \<Rightarrow> string \<Rightarrow> bool \<Rightarrow> goerror option \<Rightarrow>
     (fsys, wsignal, unit) io" where
  "opaqueVisit h R absDir unpackedPaths p d err =
     (case err of
        Some e \<Rightarrow> if is_not_exist e then ret () else fail (WalkErr e)
      | None \<Rightarrow>
          if p = absDir then ret ()
          else
            (case Rel (rName R) p of
               None \<Rightarrow> fail (WalkErr (ErrMsg ''Rel: can't make relative'' [p, rName R]))
             | Some rel \<Rightarrow>
                 if rel \<notin> set unpackedPaths
                 then (\<lambda>s. case root_RemoveAll h R rel s of (r, s') \<Rightarrow> (map_sum WalkErr id r, s'))
                 else ret ()))"

definition applyWhiteout ::
  "host \<Rightarrow> goRoot \<Rightarrow> string list \<Rightarrow> string \<Rightarrow> string \<Rightarrow> (fsys, goerror, unit) io" where
  "applyWhiteout h R unpackedPaths base dstPath =
     (let dir = Dir dstPath
      in if base = WhiteoutOpaqueDir
         then
           bindE (root_Lstat h R dir) (\<lambda>_.
           bindE (readE (fsRootPath h (rName R) dir)) (\<lambda>absDir.
           WalkDir h absDir (opaqueVisit h R absDir unpackedPaths)))
         else
           (let originalBase = drop (length WhiteoutPrefix) base;
                originalPath = Join [dir, originalBase]
            in root_RemoveAll h R originalPath))"

section \<open>One entry\<close>

definition clearLayerTarget ::
  "host \<Rightarrow> goRoot \<Rightarrow> tarHeader \<Rightarrow> string \<Rightarrow> (fsys, goerror, unit) io" where
  "clearLayerTarget h R hdr dstPath =
     bindE (tryE (root_Lstat h R dstPath)) (\<lambda>r.
       case r of
         Inl _ \<Rightarrow> ret ()
       | Inr fi \<Rightarrow>
           if \<not> fi_is_dir fi \<or> hTypeflag hdr \<noteq> TypeDir then root_RemoveAll h R dstPath
           else ret ())"

text \<open>
  Where the header and the data of an entry come from: a hard link into the link directory
  is retargeted to the file kept for it. \<open>os.Open\<close> of that file and the reading of it are one
  step. The first component of the result names the kept header, if it is one.
\<close>

definition os_OpenBody :: "host \<Rightarrow> string \<Rightarrow> (fsys, goerror, body) io" where
  "os_OpenBody h name =
     path_op h OpOpen ''open'' True
       (\<lambda>p s. case node_at s p of
                 None \<Rightarrow> (Inl ENOENT, s)
               | Some nd \<Rightarrow>
                   (case ikind nd of
                      KReg d \<Rightarrow> (Inr \<lparr>bData = d, bErr = None\<rparr>, s)
                    | KDir \<Rightarrow> (Inr \<lparr>bData = [], bErr = Some (PathError ''read'' name (Errno EISDIR))\<rparr>, s)
                    | _ \<Rightarrow> (Inr \<lparr>bData = [], bErr = None\<rparr>, s))) name"

definition entrySource ::
  "host \<Rightarrow> tarHeader \<Rightarrow> body \<Rightarrow> (layerState, goerror, string option \<times> tarHeader \<times> body) io" where
  "entrySource h hdr b =
     (if hTypeflag hdr = TypeLink \<and> HasPrefix (Clean (hLinkname hdr)) WhiteoutLinkDir
      then
        (let linkBasename = Base (hLinkname hdr)
         in bindE (getL (\<lambda>st. map_of (lsHardlinks st) linkBasename)) (\<lambda>kept.
            case kept of
              None \<Rightarrow> fail (ErrMsg ''invalid aufs hardlink'' [])
            | Some srcHdr \<Rightarrow>
                bindE (getL lsTempdir) (\<lambda>tempdir.
                bindE (onFs (os_OpenBody h (Join [tempdir, linkBasename]))) (\<lambda>srcData.
                ret (Some linkBasename, srcHdr, srcData)))))
      else ret (None, hdr, b))"

text \<open>
  An entry that is no whiteout. The kept header is shared: what \<open>remapIDs\<close> stores in it
  stays there.
\<close>

definition layerNode ::
  "host \<Rightarrow> goRoot \<Rightarrow> TarOptions \<Rightarrow> tarHeader \<Rightarrow> body \<Rightarrow> string \<Rightarrow> (layerState, goerror, unit) io" where
  "layerNode h R opts hdr b dstPath =
     bindE (onFs (clearLayerTarget h R hdr dstPath)) (\<lambda>_.
     bindE (entrySource h hdr b) (\<lambda>(kept, srcHdr, srcData).
     let err = fst (remapIDs (oIDMap opts) srcHdr);
         srcHdr' = snd (remapIDs (oIDMap opts) srcHdr)
     in bindE (case kept of
                 None \<Rightarrow> ret ()
               | Some k \<Rightarrow> modifyL (\<lambda>st. st\<lparr>lsHardlinks := aput k srcHdr' (lsHardlinks st)\<rparr>)) (\<lambda>_.
        case err of
          Some e \<Rightarrow> fail e
        | None \<Rightarrow>
            bindE (onFs (createTarFile h R dstPath srcHdr' srcData (Some opts))) (\<lambda>_.
            modifyL (\<lambda>st. st\<lparr>
              lsDirs :=
                (if hTypeflag hdr = TypeDir
                 then lsDirs st @ [\<lparr>udName = dstPath,
                        udAtime = boundTime h (latestTime (hAccessTime hdr) (hModTime hdr)),
                        udMtime = boundTime h (hModTime hdr)\<rparr>]
                 else lsDirs st),
              lsUnpacked := dstPath # lsUnpacked st\<rparr>)))))"

text \<open>An entry with a valid name: its whiteout or its node, below the implied directories.\<close>

definition layerPath ::
  "host \<Rightarrow> goRoot \<Rightarrow> TarOptions \<Rightarrow> tarHeader \<Rightarrow> body \<Rightarrow> (layerState, goerror, unit) io" where
  "layerPath h R opts hdr b =
     bindE (onFs (readE (resolveArchivePath h R (FromSlash (hName hdr))))) (\<lambda>resolvedPath.
     let dstPath = raPath resolvedPath; base = Base dstPath
     in bindE (onFs (createImpliedDirectories h R resolvedPath opts)) (\<lambda>_.
        if HasPrefix base WhiteoutPrefix
        then bindE (getL lsUnpacked) (\<lambda>unpackedPaths.
             onFs (applyWhiteout h R unpackedPaths base dstPath))
        else layerNode h R opts hdr b dstPath))"

definition layerEntry ::
  "host \<Rightarrow> goRoot \<Rightarrow> string \<Rightarrow> TarOptions \<Rightarrow> tarHeader \<times> body \<Rightarrow> (layerState, goerror, unit) io" where
  "layerEntry h R dest opts e =
     (let hdr0 = fst e; b = snd e
      in bindE (modifyL (\<lambda>st. st\<lparr>lsSize := lsSize st + hSize hdr0\<rparr>)) (\<lambda>_.
         let name = Clean (TrimLeft (hName hdr0) slash)
         in if name = dot then ret ()
            else if \<not> IsLocal name
            then fail (BreakoutErr (ErrMsg ''invalid entry name'' [hName hdr0]))
            else
              (let hdr = hdr0\<lparr>hName := name\<rparr>
               in if unrepresentableOnWindows False hdr \<noteq> None then ret ()
                  else if HasPrefix name WhiteoutMetaPrefix
                  then
                    bindE (if HasPrefix name WhiteoutLinkDir \<and> hTypeflag hdr = TypeReg
                           then stashHardlink h dest opts hdr b
                           else ret ()) (\<lambda>_.
                    if name \<noteq> WhiteoutOpaqueDir then ret ()
                    else layerPath h R opts hdr b)
                  else layerPath h R opts hdr b)))"

section \<open>The loop\<close>

fun layerLoop ::
  "host \<Rightarrow> goRoot \<Rightarrow> string \<Rightarrow> TarOptions \<Rightarrow> (tarHeader \<times> body) list \<Rightarrow> goerror option \<Rightarrow>
     (layerState, goerror, unit) io" where
  "layerLoop h R dest opts [] eos = (case eos of Some err \<Rightarrow> fail err | None \<Rightarrow> ret ())"
| "layerLoop h R dest opts (e # es) eos =
     bindE (layerEntry h R dest opts e) (\<lambda>_. layerLoop h R dest opts es eos)"

definition removeTempdir :: "host \<Rightarrow> (layerState, goerror, unit) io" where
  "removeTempdir h =
     bindE (getL lsTempdir) (\<lambda>tempdir.
     if tempdir = [] then ret () else onFs (os_RemoveAll h tempdir))"

definition initLayerState :: "fsys \<Rightarrow> layerState" where
  "initLayerState s =
     \<lparr>lsFs = s, lsSize = 0, lsDirs = [], lsUnpacked = [], lsTempdir = [], lsHardlinks = []\<rparr>"

definition layerBody ::
  "host \<Rightarrow> goRoot \<Rightarrow> string \<Rightarrow> TarOptions \<Rightarrow> tarStream \<Rightarrow> (layerState, goerror, 64 word) io" where
  "layerBody h R dest opts layer =
     bindE (layerLoop h R dest opts (tsEntries layer) (tsEnd layer)) (\<lambda>_.
     bindE (getL lsDirs) (\<lambda>dirs.
     bindE (onFs (restoreDirTimes h R dirs)) (\<lambda>_.
     getL lsSize)))"

definition UnpackLayer ::
  "host \<Rightarrow> IdentityMapping \<Rightarrow> string \<Rightarrow> tarStream \<Rightarrow> TarOptions option \<Rightarrow> (fsys, goerror, 64 word) io" where
  "UnpackLayer h emptyMap dest layer options =
     bindE (os_OpenRoot h dest) (\<lambda>R.
     let opts = (case options of None \<Rightarrow> zeroTarOptions emptyMap | Some opt \<Rightarrow> opt)
     in (\<lambda>s. case deferE (removeTempdir h) (layerBody h R dest opts layer) (initLayerState s) of
               (r, st) \<Rightarrow> (r, lsFs st)))"

section \<open>The entry points\<close>

text \<open>\<open>archive/tar\<close>'s reader is the parameter \<open>parse\<close>.\<close>

definition set_umask :: "filemode \<Rightarrow> (fsys, 'e, unit) io" where
  "set_umask m s = (Inr (), s\<lparr>umask := m AND 0x1FF\<rparr>)"

text \<open>\<open>overrideUmask\<close> and the deferred call of what it returns.\<close>

definition with_umask :: "filemode \<Rightarrow> (fsys, 'e, 'a) io \<Rightarrow> (fsys, 'e, 'a) io" where
  "with_umask m body s =
     (let oldMask = umask s
      in deferE (set_umask oldMask) (bindE (set_umask m) (\<lambda>_. body)) s)"

definition applyLayerHandler ::
  "host \<Rightarrow> codecs \<Rightarrow> (body \<Rightarrow> tarStream) \<Rightarrow> IdentityMapping \<Rightarrow> string \<Rightarrow> body \<Rightarrow> TarOptions option \<Rightarrow>
     bool \<Rightarrow> (fsys, goerror, 64 word) io" where
  "applyLayerHandler h cd parse emptyMap dest0 layer options decompress =
     (let dest = Clean dest0
      in with_umask 0
           (if decompress
            then bindE (readE (\<lambda>_. DecompressStream cd layer)) (\<lambda>layer'.
                 UnpackLayer h emptyMap dest (parse layer') options)
            else UnpackLayer h emptyMap dest (parse layer) options))"

definition ApplyLayer ::
  "host \<Rightarrow> codecs \<Rightarrow> (body \<Rightarrow> tarStream) \<Rightarrow> IdentityMapping \<Rightarrow> string \<Rightarrow> body \<Rightarrow>
     (fsys, goerror, 64 word) io" where
  "ApplyLayer h cd parse emptyMap dest layer =
     applyLayerHandler h cd parse emptyMap dest layer (Some (zeroTarOptions emptyMap)) True"

definition ApplyUncompressedLayer ::
  "host \<Rightarrow> codecs \<Rightarrow> (body \<Rightarrow> tarStream) \<Rightarrow> IdentityMapping \<Rightarrow> string \<Rightarrow> body \<Rightarrow> TarOptions option \<Rightarrow>
     (fsys, goerror, 64 word) io" where
  "ApplyUncompressedLayer h cd parse emptyMap dest layer options =
     applyLayerHandler h cd parse emptyMap dest layer options False"

definition IsEmpty :: "codecs \<Rightarrow> (body \<Rightarrow> tarStream) \<Rightarrow> body \<Rightarrow> bool \<times> goerror option" where
  "IsEmpty cd parse rd =
     (case DecompressStream cd rd of
        Inl err \<Rightarrow> (True, Some (ErrWrap ''failed to decompress archive'' [] err))
      | Inr decompRd \<Rightarrow>
          (case tsEntries (parse decompRd) of
             [] \<Rightarrow>
               (case tsEnd (parse decompRd) of
                  None \<Rightarrow> (True, None)
                | Some err \<Rightarrow> (False, Some (ErrWrap ''failed to read next archive header'' [] err)))
           | _ # _ \<Rightarrow> (False, None)))"

end
