(* ===== verification/Samples.thy ===== *)
theory Samples
  imports Posix Layer
begin

text \<open>
  Concrete inputs for the runs that accompany the theorems: an identity mapping that maps
  nothing, archive entries, and small archives.
\<close>

definition no_map :: IdentityMapping where
  "no_map =
     \<lparr>imToHost = (\<lambda>u g. ((u, g), None)), imToContainer = (\<lambda>u g. ((u, g), None)),
      imRootPair = (0, 0), imEmpty = True\<rparr>"

text \<open>A mapping that shifts every ID by 100000.\<close>

definition shift_map :: IdentityMapping where
  "shift_map =
     \<lparr>imToHost = (\<lambda>u g. ((u + 100000, g + 100000), None)),
      imToContainer = (\<lambda>u g. ((u - 100000, g - 100000), None)),
      imRootPair = (100000, 100000), imEmpty = False\<rparr>"

definition sample_hdr :: "typeflag \<Rightarrow> string \<Rightarrow> string \<Rightarrow> tarHeader" where
  "sample_hdr t name link =
     \<lparr>hTypeflag = t, hName = name, hLinkname = link, hSize = 0, hMode = 0x9A4,
      hUid = 1000, hGid = 1001, hUname = [], hGname = [], hModTime = 5 * second,
      hAccessTime = 3 * second, hChangeTime = 0, hDevmajor = 1, hDevminor = 3,
      hPAXRecords = [(''SCHILY.xattr.user.k'', ''v'')]\<rparr>"

definition entry :: "typeflag \<Rightarrow> string \<Rightarrow> string \<Rightarrow> string \<Rightarrow> tarHeader \<times> body" where
  "entry t name link data =
     (sample_hdr t name link\<lparr>hSize := of_nat (length data)\<rparr>, \<lparr>bData = data, bErr = None\<rparr>)"

text \<open>A symlink to \<open>/\<close>, and entries that try to leave through it and through the links there.\<close>

definition evil_archive :: tarStream where
  "evil_archive =
     \<lparr>tsEntries =
        [entry TypeSymlink ''out'' ''/'' [],
         entry TypeReg ''out/secret'' [] ''gone'',
         entry TypeReg ''/link/passwd'' [] ''root'',
         entry TypeLink ''up/up2/h'' ''/../../secret'' [],
         entry TypeReg ''../secret'' [] ''gone''],
      tsEnd = None\<rparr>"

definition sample_layer :: tarStream where
  "sample_layer =
     \<lparr>tsEntries =
        [entry TypeDir ''new/'' [] [],
         entry TypeReg ''new/f'' [] ''data'',
         entry TypeReg ''etc/.wh.motd'' [] [],
         entry TypeReg ''link/.wh..wh..opq'' [] []],
      tsEnd = None\<rparr>"

end
