(* ===== verification/Containment.thy ===== *)
theory Containment
  imports Confine Samples
begin

text \<open>
  The extractors keep the guarantee \<open>confined\<close>: the methods of \<open>os.Root\<close> by construction,
  the calls of \<open>golang.org/x/sys/unix\<close> by their contract \<open>unix_calls\<close> where the program hands
  them a directory of the root and a plain name, \<open>lsetxattr\<close> because \<open>fsRootPath\<close> has
  resolved the path it is given.
\<close>

section \<open>os.Root\<close>

lemma rresolve_prefix: "rresolve h R f name s = Inr p \<Longrightarrow> prefix (rDir R) p"
  by (cases "walk s Beneath (rDir R) f (hRootLinks h) [] (split_slash name)")
    (auto simp: rresolve_def split: if_splits)

lemma keeps_root_op:
  assumes "\<And>p s. prefix (rDir R) p \<Longrightarrow> confined h R s (snd (g p s))"
  shows "keeps (confined h R) (root_op h R op opn f g name)"
proof (rule keepsI)
  fix s
  show "confined h R s (snd (root_op h R op opn f g name s))"
    using assms rresolve_prefix [of h R f name s]
    by (auto simp: root_op_def cf.G_refl split: option.split sum.split prod.split) (metis snd_conv)+
qed

lemma keeps_root_Lstat: "keeps (confined h R) (root_Lstat h R name)"
  unfolding root_Lstat_def by (rule keeps_root_op) (simp add: cf.G_refl)

lemma keeps_root_Stat: "keeps (confined h R) (root_Stat h R name)"
  unfolding root_Stat_def by (rule keeps_root_op) (simp add: cf.G_refl)

lemma keeps_root_Open: "keeps (confined h R) (root_Open h R name)"
  unfolding root_Open_def by (rule keeps_root_op) (simp add: cf.G_refl)

lemma keeps_root_OpenDir: "keeps (confined h R) (root_OpenDir h R name)"
  unfolding root_OpenDir_def by (rule keeps_root_op) (simp add: cf.G_refl)

lemma keeps_root_Mkdir: "keeps (confined h R) (root_Mkdir h R name perm)"
  unfolding root_Mkdir_def by (rule keeps_root_op) (rule confined_p_mkdir)

lemma keeps_root_Create: "keeps (confined h R) (root_Create h R name perm)"
  unfolding root_Create_def by (rule keeps_root_op) (rule confined_p_create)

lemma keeps_root_Symlink: "keeps (confined h R) (root_Symlink h R t name)"
  unfolding root_Symlink_def by (rule keeps_root_op) (rule confined_p_symlink)

lemma keeps_root_Lchown: "keeps (confined h R) (root_Lchown h R name u g)"
  unfolding root_Lchown_def by (rule keeps_root_op) (rule confined_p_lchown)

lemma keeps_root_Chtimes: "keeps (confined h R) (root_Chtimes h R name at mt)"
  unfolding root_Chtimes_def by (rule keeps_root_op) (rule confined_p_chtimes)

lemma keeps_root_RemoveAll: "keeps (confined h R) (root_RemoveAll h R name)"
proof (rule keepsI)
  fix s
  let ?m = "root_op h R OpRemoveAll ''RemoveAll'' False
    (\<lambda>p s. if p = rDir R then (Inl EINVAL, s) else p_remove_all h p s) (TrimRight name slash)"
  have "keeps (confined h R) ?m"
    by (rule keeps_root_op) (simp add: cf.G_refl confined_p_remove_all strict_prefix_def)
  then have "confined h R s (snd (?m s))" by (simp add: keeps_def)
  then show "confined h R s (snd (root_RemoveAll h R name s))"
    by (auto simp: root_RemoveAll_def Let_def cf.G_refl split: prod.split sum.split)
qed

lemma keeps_root_Link: "keeps (confined h R) (root_Link h R old new)"
proof (rule keepsI)
  fix s
  show "confined h R s (snd (root_Link h R old new s))"
  proof (cases "rresolve h R False old s")
    case (Inr q)
    have "keeps (confined h R) (root_op h R OpLink ''linkat'' False (p_link h q) new)"
      by (rule keeps_root_op) (rule confined_p_link [OF _ rresolve_prefix [OF Inr]])
    then show ?thesis by (simp add: root_Link_def Inr keeps_def)
  qed (simp add: root_Link_def cf.G_refl)
qed

lemma root_Open_below: "root_Open h R name s = (Inr d, s') \<Longrightarrow> prefix (rDir R) d"
  using rresolve_prefix [of h R True name s]
  by (auto simp: root_Open_def root_op_def p_open_def split: option.splits sum.splits prod.splits if_splits)

lemma root_OpenDir_below: "root_OpenDir h R name s = (Inr d, s') \<Longrightarrow> prefix (rDir R) d"
  using rresolve_prefix [of h R True name s]
  by (auto simp: root_OpenDir_def root_op_def split: option.splits sum.splits prod.splits if_splits)

lemma root_Create_below: "root_Create h R name perm s = (Inr i, s') \<Longrightarrow> named_in s' (rDir R) i"
proof -
  assume c: "root_Create h R name perm s = (Inr i, s')"
  then obtain p where p: "prefix (rDir R) p" and pc: "p_create h perm p s = (Inr i, s')"
    using rresolve_prefix [of h R True name s]
    by (auto simp: root_Create_def root_op_def split: option.splits sum.splits prod.splits)
  have "ino_at s' p = Some i"
    using pc by (auto simp: p_create_def ino_at_insert_node split: option.splits ikind.splits)
  with p show ?thesis by (auto simp: named_in_def)
qed

lemma keeps_write:
  assumes "root_Create h R name perm s = (Inr i, s')"
  shows "confined h R s' (snd (file_copy h' i b s'))"
  using root_Create_below [OF assms]
  by (auto simp: file_copy_def write_ino_def cf.G_refl split: option.split ikind.split
      intro!: confined_upd_inode)

lemma keeps_dir_op:
  assumes "prefix (rDir R) d" and "\<And>p s. prefix (rDir R) p \<Longrightarrow> confined h R s (snd (g p s))"
  shows "keeps (confined h R) (dir_op h op opn g d)"
  using assms by (auto simp: keeps_def dir_op_def cf.G_refl split: option.split sum.split prod.split)
    (metis snd_conv)+

lemma keeps_file_Chown: "prefix (rDir R) d \<Longrightarrow> keeps (confined h R) (file_Chown h d u g)"
  unfolding file_Chown_def by (rule keeps_dir_op) (simp_all add: confined_p_lchown)

lemma keeps_file_Chmod: "prefix (rDir R) d \<Longrightarrow> keeps (confined h R) (file_Chmod h d m)"
  unfolding file_Chmod_def by (rule keeps_dir_op) (simp_all add: confined_p_chmod)

lemmas keeps_root =
  keeps_root_Lstat keeps_root_Stat keeps_root_Open keeps_root_OpenDir keeps_root_Mkdir
  keeps_root_Create keeps_root_Symlink keeps_root_Lchown keeps_root_Chtimes keeps_root_RemoveAll
  keeps_root_Link

section \<open>golang.org/x/sys/unix\<close>

text \<open>
  What a call may have done to the file system: nothing, or a change of the attributes of the
  inode at one location; nothing, or a new node at a location where there was none.
\<close>

definition attr_change :: "loc \<Rightarrow> fsys \<Rightarrow> fsys \<Rightarrow> bool" where
  "attr_change p s s' \<longleftrightarrow> s' = s \<or> (\<exists>f. (\<forall>nd. ikind (f nd) = ikind nd) \<and> s' = upd_at p f s)"

definition node_made :: "loc \<Rightarrow> fsys \<Rightarrow> fsys \<Rightarrow> bool" where
  "node_made p s s' \<longleftrightarrow> s' = s \<or> (node_at s p = None \<and> (\<exists>now nd. s' = insert_node now p nd s))"

text \<open>
  The documented effects of the calls: each acts at the location its arguments denote.
  \<open>lsetxattr\<close> resolves its path without following the last component; the \<open>*at\<close> calls act on
  a name in the directory they are given and do not follow it; the path and the name under
  \<open>/proc/self/fd\<close> (\<open>procfd\<close> is an open handle of that directory) denote the file the
  descriptor was opened on.
\<close>

locale unix_calls =
  fixes h :: host and procfd :: loc
  assumes lsetxattr_at: "kresolve h False path s = Inr p \<Longrightarrow>
      attr_change p s (snd (uLsetxattr (hUnix h) path a d s))"
    and lsetxattr_err: "kresolve h False path s = Inl e \<Longrightarrow> snd (uLsetxattr (hUnix h) path a d s) = s"
    and fsetxattr_at: "attr_change p s (snd (uFsetxattr (hUnix h) p a d s))"
    and mknodat_at: "is_name b \<Longrightarrow> node_made (p @ [b]) s (snd (uMknodat (hUnix h) p b m dev s))"
    and fchownat_at: "is_name b \<Longrightarrow> attr_change (p @ [b]) s (snd (uFchownat (hUnix h) p b uid gid s))"
    and fchmodat_at: "is_name b \<Longrightarrow> attr_change (p @ [b]) s (snd (uFchmodat (hUnix h) p b m s))"
    and utimes_at: "is_name b \<Longrightarrow> attr_change (p @ [b]) s (snd (uUtimesNanoAt (hUnix h) p b t1 t2 s))"
    and chmod_fd: "is_name b \<Longrightarrow> uOpenatPath (hUnix h) p b s = Inr fd \<Longrightarrow>
      attr_change (p @ [b]) s (snd (uChmod (hUnix h) (''/proc/self/fd/'' @ itoa fd) m s))"
    and fchmodat_fd: "is_name b \<Longrightarrow> uOpenatPath (hUnix h) p b s = Inr fd \<Longrightarrow>
      attr_change (p @ [b]) s (snd (uFchmodatFd (hUnix h) procfd (itoa fd) m s))"

text \<open>The options' own handle of \<open>/proc/self/fd\<close>, where there is one, is that directory.\<close>

definition procfd_ok :: "loc \<Rightarrow> archiveOptions option \<Rightarrow> bool" where
  "procfd_ok procfd ao \<longleftrightarrow> (\<forall>x p. ao = Some x \<longrightarrow> aoProcSelfFD x = Some p \<longrightarrow> p = procfd)"

lemma confined_attr_change: "attr_change p s s' \<Longrightarrow> prefix (rDir R) p \<Longrightarrow> confined h R s s'"
  by (auto simp: attr_change_def cf.G_refl intro!: confined_upd_at)

lemma confined_node_made: "node_made p s s' \<Longrightarrow> prefix (rDir R) p \<Longrightarrow> confined h R s s'"
  by (auto simp: node_made_def cf.G_refl intro: confined_fresh)

lemma wrap_unix_snd [simp]: "snd (wrap_unix w f s) = snd (f s)"
  by (auto simp: wrap_unix_def split: prod.split option.split)

lemma keeps_wrap_unix: "(\<And>s. confined h R s (snd (f s))) \<Longrightarrow> keeps (confined h R) (wrap_unix w f)"
  by (simp add: keeps_def)


section \<open>Resolved paths\<close>

lemma upd_at_kind:
  assumes "\<And>nd. ikind (f nd) = ikind nd"
  shows "map_option ikind (node_at (upd_at q f s) p) = map_option ikind (node_at s p)"
proof (cases "ino_at s q")
  case (Some i)
  have "node_at (upd_inode i f s) p =
      (case ino_at s p of None \<Rightarrow> None | Some j \<Rightarrow> if j = i then map_option f (inodes s i) else inodes s j)"
    by (simp add: node_at_def inodes_upd_inode cong: option.case_cong)
  then show ?thesis using Some assms
    by (simp add: upd_at_def node_at_def option.map_comp o_def split: option.split)
qed (simp add: upd_at_def)

lemma attr_change_kind:
  "attr_change q s s' \<Longrightarrow> map_option ikind (node_at s' p) = map_option ikind (node_at s p)"
  by (auto simp: attr_change_def upd_at_kind)

lemma nosym_path_cong:
  assumes "\<And>p. map_option ikind (node_at s' p) = map_option ikind (node_at s p)"
  shows "nosym_path s' b q = nosym_path s b q"
proof (induction q arbitrary: b)
  case (Cons c q)
  have "map_option ikind (node_at s' (b @ [c])) = map_option ikind (node_at s (b @ [c]))" by (rule assms)
  then show ?case using Cons by (auto simp: map_option_case split: option.splits)
qed simp

lemma safe_path_attr_change: "attr_change q s s' \<Longrightarrow> safe_path R s' p = safe_path R s p"
  by (simp add: safe_path_def nosym_path_cong [OF attr_change_kind])

section \<open>createTarFile\<close>

lemma bindE_fst_Inr: "fst (m s) = Inr x \<Longrightarrow> bindE m f s = f x (snd (m s))"
  by (cases "m s") (simp add: bindE_def)

context unix_calls
begin

lemma keeps_mknodInRoot:
  "is_name (Base path) \<Longrightarrow> keeps (confined h R) (mknodInRoot h R path mode dev)"
  unfolding mknodInRoot_def
  by (rule cf.keeps_bindP [where P = "prefix (rDir R)"])
    (auto intro!: keeps_root keeps_wrap_unix confined_node_made [OF mknodat_at] dest: root_OpenDir_below
      intro: prefix_order.trans)

lemma keeps_handleTarTypeBlockCharFifo:
  "is_name (Base path) \<Longrightarrow> keeps (confined h R) (handleTarTypeBlockCharFifo h R hdr path)"
  unfolding handleTarTypeBlockCharFifo_def Let_def
  by (intro cf.keeps_rules keeps_mknodInRoot)

lemma keeps_chmodNoSymlinkFallback:
  assumes "is_name b" and "prefix (rDir R) d" and "procfd_ok procfd ao"
  shows "keeps (confined h R) (chmodNoSymlinkFallback h d b name perm ao)"
proof (rule keepsI)
  fix s
  have pre: "prefix (rDir R) (d @ [b])" using assms(2) by (simp add: prefix_order.trans)
  show "confined h R s (snd (chmodNoSymlinkFallback h d b name perm ao s))"
  proof (cases "uOpenatPath (hUnix h) d b s")
    case (Inr fd)
    note a = confined_attr_change [OF chmod_fd [OF assms(1) Inr] pre]
      confined_attr_change [OF fchmodat_fd [OF assms(1) Inr] pre]
    show ?thesis using Inr assms(3) a
      by (auto simp: chmodNoSymlinkFallback_def bindE_readE procfd_ok_def Let_def split: option.split)
  qed (simp add: chmodNoSymlinkFallback_def bindE_readE cf.G_refl)
qed

lemma keeps_chmodNoSymlink:
  assumes "is_name (Base name)" and "procfd_ok procfd ao"
  shows "keeps (confined h R) (chmodNoSymlink h R name mode ao)"
  unfolding chmodNoSymlink_def Let_def
proof (rule cf.keeps_bindP [where P = "prefix (rDir R)"])
  fix d assume d: "prefix (rDir R) d"
  then have pre: "prefix (rDir R) (d @ [Base name])" by (simp add: prefix_order.trans)
  show "keeps (confined h R)
    (bindE (tryE (wrap_unix Errno (uFchmodat (hUnix h) d (Base name) (fileModeToPerm mode))))
      (\<lambda>r. case r of
          Inl err \<Rightarrow>
            if \<not> errors_is err EOPNOTSUPP then fail (PathError ''fchmodat2'' name err)
            else chmodNoSymlinkFallback h d (Base name) name (fileModeToPerm mode) ao
        | Inr _ \<Rightarrow> ret ()))"
    by (intro cf.keeps_rules keeps_wrap_unix keeps_chmodNoSymlinkFallback assms d
        confined_attr_change [OF fchmodat_at pre])
qed (auto intro: keeps_root dest: root_Open_below)

lemma keeps_handleLChmod:
  "is_name (Base p) \<Longrightarrow> procfd_ok procfd ao \<Longrightarrow> keeps (confined h R) (handleLChmod h R p t hdr mode ao)"
  unfolding handleLChmod_def
  by (cases "hTypeflag hdr")
    (simp_all, (intro cf.keeps_rules keeps_root keeps_chmodNoSymlink; assumption)+)

lemma keeps_lchtimes: "is_name (SplitFile (ToSlash p)) \<Longrightarrow> keeps (confined h R) (lchtimes h R p at mt)"
  unfolding lchtimes_def Let_def
  apply (intro cf.keeps_if cf.keeps_fail)
  apply (rule cf.keeps_bindP [where P = "prefix (rDir R)"])
    apply (rule keeps_root)
   apply (erule root_Open_below)
  apply (intro cf.keeps_rules keeps_wrap_unix confined_attr_change [OF utimes_at], assumption)
  apply (simp add: prefix_order.trans)
  done

lemma setXattrs_confined:
  assumes honest: "\<And>s. honest h s"
  shows "root_ok h R s \<Longrightarrow> (\<And>p. xp = Some p \<Longrightarrow> safe_path R s p) \<Longrightarrow>
    confined h R s (snd (setXattrs h R dstPath best xp errs recs s))"
proof (induction recs arbitrary: xp errs s)
  case (Cons r recs)
  obtain k v where r: "r = (k, v)" by (cases r)
  show ?case
  proof (cases "CutPrefix k paxSchilyXattr")
    case None
    then show ?thesis using Cons by (simp add: r)
  next
    case (Some a)
    let ?get = "case xp of None \<Rightarrow> readE (fsRootPath h (rName R) dstPath) | Some p \<Rightarrow> ret p"
    have get: "snd (?get s) = s" by (simp split: option.split)
    show ?thesis
    proof (cases "fst (?get s)")
      case (Inl e)
      then have "?get s = (Inl e, s)" using get by (metis prod.collapse)
      then show ?thesis by (simp add: r Some bindE_Inl cf.G_refl)
    next
      case (Inr p)
      then have g: "?get s = (Inr p, s)" using get by (metis prod.collapse)
      have canon: "canon_root h R s" using Cons.prems(1) by (simp add: root_ok_def)
      have safe: "safe_path R s p"
        using Cons.prems(2) fsRootPath_safe [OF canon honest, of dstPath p] Inr
        by (cases xp) auto
      let ?s = "snd (uLsetxattr (hUnix h) p a v s)"
      have "\<exists>q. attr_change q s ?s \<and> prefix (rDir R) q"
      proof (cases "kresolve h False p s")
        case (Inl e)
        from lsetxattr_err [OF this] show ?thesis by (auto simp: attr_change_def)
      next
        case (Inr q)
        from lsetxattr_at [OF this] safe_path_below [OF canon safe Inr] show ?thesis by blast
      qed
      then obtain q where q: "attr_change q s ?s" "prefix (rDir R) q" by blast
      have 1: "confined h R s ?s" by (rule confined_attr_change [OF q])
      then have ok: "root_ok h R ?s" using Cons.prems(1) by (simp add: confined_def)
      have safe': "safe_path R ?s p" using safe safe_path_attr_change [OF q(1)] by simp
      have 2: "confined h R ?s (snd (setXattrs h R dstPath best (Some p) errs' recs ?s))" for errs'
        by (rule Cons.IH [OF ok]) (simp add: safe')
      have 3: "confined h R s (snd (setXattrs h R dstPath best (Some p) errs' recs ?s))" for errs'
        by (rule cf.G_trans [OF 1 2])
      show ?thesis
        by (simp add: r Some bindE_Inr [where m = ?get and s = s, OF g] bindE_tryE lsetxattr_def 1 3 split: sum.split)
    qed
  qed
qed (simp add: cf.G_refl)

lemma keeps_createNode:
  assumes "is_name (Base p)"
  shows "keeps (confined h R) (createNode h R p hdr b inUserns t)"
proof (cases "hTypeflag hdr = TypeReg")
  case True
  show ?thesis
  proof (rule keepsI)
    fix s
    let ?m = "root_Create h R p (hdr_info_mode hdr AND 0x1FF)"
    have 0: "confined h R s (snd (?m s))" using keeps_root_Create by (simp add: keeps_def)
    show "confined h R s (snd (createNode h R p hdr b inUserns t s))"
    proof (cases "fst (?m s)")
      case (Inl e)
      then have "?m s = (Inl e, snd (?m s))" by (metis prod.collapse)
      then show ?thesis using 0 True by (simp add: createNode_def Let_def bindE_Inl)
    next
      case (Inr i)
      then have m: "?m s = (Inr i, snd (?m s))" by (metis prod.collapse)
      have 1: "confined h R s (snd (file_copy h i b (snd (?m s))))"
        by (rule cf.G_trans [OF 0 keeps_write [OF m]])
      have 2: "snd (bindE n (\<lambda>_. ret True) t) = snd (n t)" for n :: "(fsys, goerror, unit) io" and t
        by (simp add: bindE_def split: prod.split sum.split)
      show ?thesis
        using True 1 by (simp add: createNode_def Let_def bindE_Inr [where m = ?m and s = s, OF m] 2)
    qed
  qed
next
  case False
  then show ?thesis unfolding createNode_def Let_def
    by (cases "hTypeflag hdr")
      (simp_all split del: if_split,
        (intro cf.keeps_rules keeps_root keeps_handleTarTypeBlockCharFifo assms)+)
qed

lemma keeps_applyOwner: "keeps (confined h R) (applyOwner h R p hdr u c)"
  unfolding applyOwner_def Let_def by (intro cf.keeps_rules keeps_root)

lemma keeps_applyTimes:
  "is_name (SplitFile (ToSlash p)) \<Longrightarrow> keeps (confined h R) (applyTimes h R p hdr t)"
  unfolding applyTimes_def Let_def chtimes_def
  by (cases "hTypeflag hdr")
    (simp_all, (intro cf.keeps_rules keeps_root keeps_lchtimes; assumption)+)

lemma keeps_createTarFile:
  assumes "\<And>s. honest h s" and "local_path p" and "\<And>x. opts = Some x \<Longrightarrow> procfd_ok procfd (oInternalOptions x)"
  shows "keeps (confined h R) (createTarFile h R p hdr b opts)"
proof -
  have n: "is_name (Base p)" "is_name (SplitFile (ToSlash p))"
    using assms(2) by (simp_all add: Base_local SplitFile_local ToSlash_def)
  have x: "keeps (confined h R) (setXattrs h R p best None [] recs)" for best recs
    by (rule cf.keeps_onI, rule setXattrs_confined [OF assms(1)]) simp_all
  have ao: "procfd_ok procfd (case opts of None \<Rightarrow> None | Some x \<Rightarrow> oInternalOptions x)"
    using assms(3) by (cases opts) (simp_all add: procfd_ok_def)
  show ?thesis unfolding createTarFile_def Let_def
    by (intro cf.keeps_bindE cf.keeps_if cf.keeps_ret cf.keeps_readE keeps_createNode keeps_applyOwner
        x keeps_handleLChmod keeps_applyTimes n ao)
qed

end


section \<open>Unpack\<close>

lemma resolveArchivePath_dst:
  assumes "root_ok h R s" and "honest h s" and "name \<noteq> dot" and "IsLocal name" and "Clean name = name"
    and "resolveArchivePath h R (FromSlash name) s = Inr r"
  shows "local_path (raPath r)"
proof -
  have "local_path name" using IsLocal_Clean [of name] assms(3,4,5) by simp
  from resolveArchivePath_result [OF _ assms(2) this, of R] assms(1,6) show ?thesis
    by (simp add: root_ok_def FromSlash_def)
qed

lemma keeps_makeDirs: "keeps (confined h R) (makeDirs h R opts cur cs)"
proof (induction cs arbitrary: cur)
  case (Cons c cs)
  have opened: "keeps (confined h R)
      (bindE (root_Open h R p) (\<lambda>dir. bindE (if b then file_Chown h dir u g else ret ())
        (\<lambda>_. bindE (file_Chmod h dir ImpliedDirectoryMode) (\<lambda>_. makeDirs h R opts p cs))))" for p b u g
    by (rule cf.keeps_bindP [where P = "prefix (rDir R)"])
      (auto intro!: cf.keeps_rules keeps_root keeps_file_Chown keeps_file_Chmod Cons.IH
        dest: root_Open_below)
  show ?case unfolding makeDirs.simps Let_def
    by (intro cf.keeps_if cf.keeps_bindE cf.keeps_tryE cf.keeps_case_sum cf.keeps_case_prod cf.keeps_fail
        keeps_root Cons.IH opened)
qed (simp add: cf.keeps_rules)

lemma keeps_createImpliedDirectories: "keeps (confined h R) (createImpliedDirectories h R r opts)"
  unfolding createImpliedDirectories_def Let_def
  by (intro cf.keeps_rules keeps_root keeps_makeDirs)

lemma keeps_clearTarget: "keeps (confined h R) (clearTarget h R dest opts hdr p)"
  unfolding clearTarget_def by (intro cf.keeps_rules keeps_root)

lemma keeps_restoreDirTimes: "keeps (confined h R) (restoreDirTimes h R dirs)"
  unfolding restoreDirTimes_def chtimes_def by (intro cf.keeps_rules keeps_root)

lemma whiteout_name:
  assumes "is_name b" and "CutPrefix b WhiteoutPrefix = Some ob"
    and "b \<noteq> WhiteoutPrefix" and "b \<noteq> WhiteoutPrefix @ ''.''" and "b \<noteq> WhiteoutPrefix @ ''..''"
  shows "is_name ob"
proof -
  have "b = WhiteoutPrefix @ ob" using assms(2) by (auto simp: CutPrefix_def prefix_def split: if_splits)
  with assms show ?thesis by (auto simp: is_name_def is_comp_def)
qed

context unix_calls
begin

lemma keeps_ConvertRead:
  assumes "local_path p"
  shows "keeps (confined h R) (ConvertRead h x R hdr p)"
proof -
  have b: "is_name (Base p)" using assms by (rule Base_local)
  have o: "keeps (confined h R) (bindE (root_Open h R (Dir p)) f)"
    if "\<And>d. prefix (rDir R) d \<Longrightarrow> keeps (confined h R) (f d)" for f :: "loc \<Rightarrow> (fsys, goerror, bool) io"
    by (rule cf.keeps_bindP [where P = "prefix (rDir R)"]) (auto intro: keeps_root that dest: root_Open_below)
  show ?thesis unfolding ConvertRead_def Let_def
    by (intro cf.keeps_if cf.keeps_fail o cf.keeps_case_option cf.keeps_ret cf.keeps_bindE keeps_wrap_unix
        confined_attr_change [OF fsetxattr_at] confined_attr_change [OF fchownat_at]
        confined_node_made [OF mknodat_at] whiteout_name [OF b])
      (auto intro: prefix_order.trans)
qed

lemma keeps_unpackEntry:
  assumes "\<And>s. honest h s" and "procfd_ok procfd (oInternalOptions opts)"
  shows "keeps (confined h R) (unpackEntry h R dest opts wc e)"
proof -
  have ao: "\<And>x. Some opts = Some x \<Longrightarrow> procfd_ok procfd (oInternalOptions x)" using assms(2) by simp
  show ?thesis unfolding unpackEntry_def Let_def
    apply (intro cf.keeps_if cf.keeps_ret cf.keeps_fail)
    apply (rule cf.keeps_bindP [where P = "\<lambda>r. local_path (raPath r)"])
      apply (rule cf.keeps_readE)
     apply (erule resolveArchivePath_dst [OF _ assms(1)]; simp)
    apply (intro cf.keeps_bindE keeps_clearTarget cf.keeps_if cf.keeps_ret cf.keeps_case_prod
        cf.keeps_case_option cf.keeps_fail keeps_createImpliedDirectories keeps_ConvertRead
        keeps_createTarFile assms(1) ao; assumption)
    done
qed

end


text \<open>The root \<open>os.OpenRoot(dest)\<close> opens where \<open>dest\<close> is a path without symlinks.\<close>

definition root_at :: "host \<Rightarrow> string \<Rightarrow> goRoot" where
  "root_at h dest = \<lparr>rName = dest, rDir = hRoot h @ comps dest\<rparr>"

lemma os_OpenRoot_at:
  assumes "canon_root h (root_at h dest) s"
  shows "os_OpenRoot h dest s = (Inr (root_at h dest), s) \<or> (\<exists>e. os_OpenRoot h dest s = (Inl e, s))"
proof -
  let ?R = "root_at h dest"
  from assms have c: "list_all is_name (comps dest)" "dest = render True (comps dest)"
    by (auto simp: canon_root_def root_at_def Let_def)
  have "Join [dest, Join []] = dest"
    using Clean_fixed [OF clean_form_names [OF c(1)], of True] c(2)
    by (simp add: Join_def)
  with kresolve_nosym [OF assms, of "[]" True]
  have "kresolve h True dest s = Inr (hRoot h @ comps dest) \<or> kresolve h True dest s = Inl (Errno ENOENT)"
    by (simp add: root_at_def)
  then show ?thesis
    by (cases "node_at s (hRoot h @ comps dest)"; cases "dir_at s (hRoot h @ comps dest)")
      (auto simp: os_OpenRoot_def path_op_def root_at_def split: option.split)
qed

context unix_calls
begin

lemma keeps_unpackLoop:
  assumes "\<And>s. honest h s" and "procfd_ok procfd (oInternalOptions opts)"
  shows "keeps (confined h R) (unpackLoop h R dest opts wc dirs es eos)"
proof (induction es arbitrary: dirs)
  case Nil
  show ?case unfolding unpackLoop.simps by (intro cf.keeps_rules keeps_restoreDirTimes)
next
  case (Cons e es)
  show ?case unfolding unpackLoop.simps
    by (intro cf.keeps_bindE keeps_unpackEntry assms Cons.IH)
qed

lemma Unpack_within:
  assumes "\<And>s. honest h s" and "\<And>x. options = Some x \<Longrightarrow> procfd_ok procfd (oInternalOptions x)"
    and "root_ok h (root_at h dest) s" and "Unpack h emptyMap archive dest options s = (r, s')"
  shows "within (hRoot h @ comps dest) s s'"
proof -
  let ?opts = "case options of None \<Rightarrow> zeroTarOptions emptyMap | Some opt \<Rightarrow> opt"
  let ?rest = "\<lambda>R. unpackLoop h R dest ?opts (getWhiteoutConverter h (oWhiteoutFormat ?opts)) []
                (tsEntries archive) (tsEnd archive)"
  have ao: "procfd_ok procfd (oInternalOptions ?opts)"
    using assms(2) by (cases options) (simp_all add: procfd_ok_def zeroTarOptions_def)
  have canon: "canon_root h (root_at h dest) s" using assms(3) by (simp add: root_ok_def)
  have run: "bindE (os_OpenRoot h dest) ?rest s = (r, s')"
    using assms(4) by (simp add: Unpack_def Let_def)
  from os_OpenRoot_at [OF canon] show ?thesis
  proof
    assume "os_OpenRoot h dest s = (Inr (root_at h dest), s)"
    then have "?rest (root_at h dest) s = (r, s')" using run by (simp add: bindE_def)
    from keepsD [OF keeps_unpackLoop [OF assms(1) ao] this] assms(3)
    show ?thesis by (simp add: confined_def root_at_def)
  next
    assume "\<exists>e. os_OpenRoot h dest s = (Inl e, s)"
    then have "s' = s" using run by (auto simp: bindE_def)
    then show ?thesis by (simp add: within_refl)
  qed
qed

end

section \<open>UnpackLayer\<close>

text \<open>The walk over an opaque directory changes what its callback changes.\<close>

lemma keeps_WalkDir:
  "(\<And>p d e. keeps (confined h R) (fn p d e)) \<Longrightarrow> keeps (confined h R) (WalkDir h root fn)"
  unfolding WalkDir_def by (rule cf.keeps_WalkDir_in) (simp_all add: keeps_def cf.G_refl)

lemma keeps_opaqueVisit: "keeps (confined h R) (opaqueVisit h R absDir unp p d err)"
proof -
  have "keeps (confined h R) (\<lambda>s. case root_RemoveAll h R rel s of (r, s') \<Rightarrow> (map_sum WalkErr id r, s'))" for rel
    using keeps_root_RemoveAll [of h R rel] by (simp add: keeps_def split: prod.split) (metis snd_conv)
  then show ?thesis unfolding opaqueVisit_def
    by (intro cf.keeps_rules)
qed

lemma keeps_applyWhiteout: "keeps (confined h R) (applyWhiteout h R unp base p)"
  unfolding applyWhiteout_def Let_def
  by (intro cf.keeps_rules keeps_root keeps_WalkDir keeps_opaqueVisit)

lemma keeps_clearLayerTarget: "keeps (confined h R) (clearLayerTarget h R hdr p)"
  unfolding clearLayerTarget_def by (intro cf.keeps_rules keeps_root)


text \<open>
  The loop over a layer that keeps no file of the link directory aside. (The temporary
  directory for these lies inside the destination and is opened again by its path.)
\<close>

definition layer_ok :: "host \<Rightarrow> goRoot \<Rightarrow> layerState \<Rightarrow> bool" where
  "layer_ok h R st \<longleftrightarrow> root_ok h R (lsFs st) \<and> lsTempdir st = [] \<and> lsHardlinks st = []"

definition layer_confined :: "host \<Rightarrow> goRoot \<Rightarrow> layerState \<Rightarrow> layerState \<Rightarrow> bool" where
  "layer_confined h R st st' \<longleftrightarrow>
     (layer_ok h R st \<longrightarrow> layer_ok h R st' \<and> within (rDir R) (lsFs st) (lsFs st'))"

interpretation lc: guarantee_on "layer_confined h R" "layer_ok h R" for h R
proof unfold_locales
  show "layer_confined h R s s" for s by (simp add: layer_confined_def within_refl)
  show "layer_confined h R s u" if "layer_confined h R s t" and "layer_confined h R t u" for s t u
    using that within_trans by (auto simp: layer_confined_def)
  show "layer_confined h R s t" if "\<not> layer_ok h R s" for s t
    using that by (simp add: layer_confined_def)
qed

lemma keeps_onFs: "keeps (confined h R) m \<Longrightarrow> keeps (layer_confined h R) (onFs m)"
  by (auto simp: keeps_def layer_confined_def confined_def layer_ok_def onFs_def split: prod.split)

lemma keeps_getL: "keeps (layer_confined h R) (getL f)"
  by (simp add: keeps_def getL_def lc.G_refl)

lemma keeps_modifyL:
  assumes "\<And>st. lsFs (f st) = lsFs st" and "\<And>st. lsTempdir (f st) = lsTempdir st"
    and "\<And>st. lsHardlinks st = [] \<Longrightarrow> lsHardlinks (f st) = []"
  shows "keeps (layer_confined h R) (modifyL f)"
  using assms by (simp add: keeps_def modifyL_def layer_confined_def layer_ok_def within_refl)

definition stashed :: "tarHeader \<Rightarrow> bool" where
  "stashed hdr \<longleftrightarrow>
     HasPrefix (Clean (TrimLeft (hName hdr) slash)) WhiteoutLinkDir \<and> hTypeflag hdr = TypeReg"

lemma onFs_readE: "onFs (readE f) st = (Inr x, st') \<Longrightarrow> f (lsFs st) = Inr x"
  by (auto simp: onFs_def)

context unix_calls
begin

lemma keeps_layerNode:
  assumes "\<And>s. honest h s" and "procfd_ok procfd (oInternalOptions opts)" and "local_path p"
  shows "keeps (layer_confined h R) (layerNode h R opts hdr b p)"
proof -
  have ao: "\<And>x. Some opts = Some x \<Longrightarrow> procfd_ok procfd (oInternalOptions x)" using assms(2) by simp
  have src: "keeps (layer_confined h R) (entrySource h hdr b)"
  proof (rule lc.keeps_onI)
    fix st assume "layer_ok h R st"
    then show "layer_confined h R st (snd (entrySource h hdr b st))"
      by (simp add: entrySource_def Let_def layer_ok_def getL_def bindE_def lc.G_refl)
  qed
  have kept: "fst x = None" if "layer_ok h R st" and "entrySource h hdr b st = (Inr x, st')" for st st' x
    using that by (auto simp: entrySource_def Let_def layer_ok_def getL_def bindE_def split: if_splits)
  show ?thesis unfolding layerNode_def Let_def
    apply (rule lc.keeps_bindE)
     apply (rule keeps_onFs, rule keeps_clearLayerTarget)
    apply (rule lc.keeps_bindP [where P = "\<lambda>x. fst x = None"])
      apply (rule src)
     apply (rule kept; assumption)
    apply (auto intro!: lc.keeps_rules keeps_onFs keeps_createTarFile assms(1,3) ao keeps_modifyL
        split: option.split)
    done
qed

lemma keeps_layerPath:
  assumes "\<And>s. honest h s" and "procfd_ok procfd (oInternalOptions opts)"
    and "hName hdr \<noteq> dot" and "IsLocal (hName hdr)" and "Clean (hName hdr) = hName hdr"
  shows "keeps (layer_confined h R) (layerPath h R opts hdr b)"
  unfolding layerPath_def Let_def
proof (rule lc.keeps_bindP [where P = "\<lambda>r. local_path (raPath r)"])
  show "keeps (layer_confined h R) (onFs (readE (resolveArchivePath h R (FromSlash (hName hdr)))))"
    by (intro keeps_onFs cf.keeps_readE)
  show "local_path (raPath r)"
    if "layer_ok h R st" and "onFs (readE (resolveArchivePath h R (FromSlash (hName hdr)))) st = (Inr r, st')"
    for r st st'
    using resolveArchivePath_dst [OF _ assms(1,3,4,5) onFs_readE [OF that(2)]] that(1)
    by (simp add: layer_ok_def)
next
  fix r :: resolvedArchivePath assume r: "local_path (raPath r)"
  show "keeps (layer_confined h R)
    (bindE (onFs (createImpliedDirectories h R r opts))
      (\<lambda>_. if HasPrefix (Base (raPath r)) WhiteoutPrefix
            then bindE (getL lsUnpacked) (\<lambda>unp. onFs (applyWhiteout h R unp (Base (raPath r)) (raPath r)))
            else layerNode h R opts hdr b (raPath r)))"
    by (intro lc.keeps_rules keeps_onFs keeps_createImpliedDirectories keeps_getL keeps_applyWhiteout
        keeps_layerNode assms(1,2) r)
qed

lemma keeps_layerEntry:
  assumes "\<And>s. honest h s" and "procfd_ok procfd (oInternalOptions opts)" and "\<not> stashed (fst e)"
  shows "keeps (layer_confined h R) (layerEntry h R dest opts e)"
proof -
  let ?n = "Clean (TrimLeft (hName (fst e)) slash)"
  have p: "keeps (layer_confined h R) (layerPath h R opts (fst e\<lparr>hName := ?n\<rparr>) b)"
    if "?n \<noteq> dot" and "IsLocal ?n" for b
    by (rule keeps_layerPath [OF assms(1,2)]) (use that in simp_all)
  have sz: "keeps (layer_confined h R) (modifyL (\<lambda>st. st\<lparr>lsSize := lsSize st + x\<rparr>))" for x
    by (rule keeps_modifyL) simp_all
  have st: "keeps (layer_confined h R) (if HasPrefix ?n WhiteoutLinkDir \<and> hTypeflag (fst e\<lparr>hName := ?n\<rparr>) = TypeReg
      then m else ret ())" for m
    using assms(3) by (auto simp: stashed_def lc.keeps_ret)
  show ?thesis unfolding layerEntry_def Let_def
    apply (intro lc.keeps_bindE [OF sz] lc.keeps_if lc.keeps_ret lc.keeps_fail)
     apply (rule lc.keeps_bindE [OF st])
     apply (intro lc.keeps_if lc.keeps_ret p; simp)
    apply (rule p; simp)
    done
qed

lemma keeps_layerLoop:
  assumes "\<And>s. honest h s" and "procfd_ok procfd (oInternalOptions opts)"
    and "\<And>e. e \<in> set es \<Longrightarrow> \<not> stashed (fst e)"
  shows "keeps (layer_confined h R) (layerLoop h R dest opts es eos)"
  using assms(3)
proof (induction es)
  case (Cons e es)
  then show ?case unfolding layerLoop.simps
    by (intro lc.keeps_bindE keeps_layerEntry assms(1,2)) simp_all
qed (simp add: lc.keeps_rules)

lemma UnpackLayer_within:
  assumes "\<And>s. honest h s" and "\<And>x. options = Some x \<Longrightarrow> procfd_ok procfd (oInternalOptions x)"
    and "root_ok h (root_at h dest) s" and "\<And>e. e \<in> set (tsEntries layer) \<Longrightarrow> \<not> stashed (fst e)"
    and "UnpackLayer h emptyMap dest layer options s = (r, s')"
  shows "within (hRoot h @ comps dest) s s'"
proof -
  let ?R = "root_at h dest"
  let ?opts = "case options of None \<Rightarrow> zeroTarOptions emptyMap | Some opt \<Rightarrow> opt"
  let ?m = "\<lambda>R. deferE (removeTempdir h) (layerBody h R dest ?opts layer)"
  have ao: "procfd_ok procfd (oInternalOptions ?opts)"
    using assms(2) by (cases options) (simp_all add: procfd_ok_def zeroTarOptions_def)
  have canon: "canon_root h ?R s" using assms(3) by (simp add: root_ok_def)
  have run: "bindE (os_OpenRoot h dest) (\<lambda>R s. case ?m R (initLayerState s) of (r, st) \<Rightarrow> (r, lsFs st)) s = (r, s')"
    using assms(5) by (simp add: UnpackLayer_def Let_def)
  have rm: "keeps (layer_confined h ?R) (removeTempdir h)"
    by (rule lc.keeps_onI) (simp add: removeTempdir_def getL_def bindE_def layer_ok_def lc.G_refl)
  have k: "keeps (layer_confined h ?R) (?m ?R)"
    unfolding layerBody_def
    by (intro lc.keeps_rules rm keeps_layerLoop keeps_onFs keeps_restoreDirTimes keeps_getL assms(1,4) ao)
  have ok: "layer_ok h ?R (initLayerState s)" using assms(3) by (simp add: layer_ok_def initLayerState_def)
  from os_OpenRoot_at [OF canon] show ?thesis
  proof
    assume "os_OpenRoot h dest s = (Inr ?R, s)"
    then obtain st where st: "?m ?R (initLayerState s) = (r, st)" "s' = lsFs st"
      using run by (auto simp: bindE_def split: prod.splits)
    from keepsD [OF k st(1)] ok st(2)
    show ?thesis by (simp add: layer_confined_def root_at_def initLayerState_def)
  next
    assume "\<exists>e. os_OpenRoot h dest s = (Inl e, s)"
    then have "s' = s" using run by (auto simp: bindE_def)
    then show ?thesis by (simp add: within_refl)
  qed
qed

end


section \<open>The contract on the concrete host\<close>

lemma attr_change_refl [simp]: "attr_change p s s"
  by (simp add: attr_change_def)

lemma attr_changeI [intro]: "(\<And>nd. ikind (f nd) = ikind nd) \<Longrightarrow> attr_change p s (upd_at p f s)"
  by (auto simp: attr_change_def)

lemma with_unix_calls: "unix_calls (with_unix h) procfd"
proof
  let ?u = "hUnix (with_unix h)"
  have u: "?u = posix_unix h" by simp
  show "attr_change p s (snd (uLsetxattr ?u path a d s))" if "kresolve (with_unix h) False path s = Inr p" for path s p a d
    using that by (auto simp: u posix_unix_def with_unix_kresolve posix_setxattr_def)
  show "snd (uLsetxattr ?u path a d s) = s" if "kresolve (with_unix h) False path s = Inl e" for path s e a d
    using that by (simp add: u posix_unix_def with_unix_kresolve)
  show "attr_change p s (snd (uFsetxattr ?u p a d s))" for p a d s
    by (auto simp: u posix_unix_def posix_setxattr_def)
  show "node_made (p @ [b]) s (snd (uMknodat ?u p b m dev s))" for p b m dev s
    by (auto simp: u posix_unix_def posix_mknodat_def node_made_def)
  show "attr_change (p @ [b]) s (snd (uFchownat ?u p b uid gid s))" for p b uid gid s
    by (auto simp: u posix_unix_def posix_fchownat_def p_lchown_def)
  show "attr_change (p @ [b]) s (snd (uFchmodat ?u p b m s))" for p b m s
    by (auto simp: u posix_unix_def posix_fchmodat_def split: option.split ikind.split)
  show "attr_change (p @ [b]) s (snd (uUtimesNanoAt ?u p b t1 t2 s))" for p b t1 t2 s
    by (auto simp: u posix_unix_def posix_utimes_def)
  show "attr_change (p @ [b]) s (snd (uChmod ?u (''/proc/self/fd/'' @ itoa fd) m s))" for p b fd m s
    by (simp add: u posix_unix_def no_unix_def)
  show "attr_change (p @ [b]) s (snd (uFchmodatFd ?u procfd (itoa fd) m s))" for p b fd m s
    by (simp add: u posix_unix_def no_unix_def)
qed

lemma posix_calls: "unix_calls posix_host procfd"
  unfolding posix_host_def by (rule with_unix_calls)

interpretation posix: unix_calls posix_host procfd for procfd
  by (rule posix_calls)

section \<open>The properties\<close>

lemma demo_root_ok: "root_ok posix_host (root_at posix_host ''/dest'') demo_fs"
  unfolding root_ok_def
proof (intro conjI)
  show "inos_ok demo_fs"
    by (simp add: inos_ok_def demo_fs_def fs_of_def demo_nodes_def ino_at_def)
qed code_simp+

text \<open>
  C1: extraction is contained. Whatever the archive holds and however \<open>Unpack\<close> ends, no name
  outside the destination is created, removed or bound to another inode, and no inode changes
  that has no name inside the destination.
\<close>

theorem Unpack_confined:
  assumes "unix_calls h procfd" and "\<And>s. honest h s"
    and "\<And>x. options = Some x \<Longrightarrow> procfd_ok procfd (oInternalOptions x)"
    and "root_ok h (root_at h dest) s"
    and "Unpack h emptyMap archive dest options s = (r, s')"
  shows "(\<forall>p. \<not> strict_prefix (hRoot h @ comps dest) p \<longrightarrow> ino_at s' p = ino_at s p) \<and>
    (\<forall>i < nextino s. \<not> named_in s (hRoot h @ comps dest) i \<longrightarrow>
       inodes s' i = inodes s i \<and> \<not> named_in s' (hRoot h @ comps dest) i)"
  using unix_calls.Unpack_within [OF assms(1-5)] by (simp add: within_def)

theorem Unpack_confined_witness:
  "ino_at (snd (Unpack posix_host no_map evil_archive ''/dest'' None demo_fs)) [''secret''] =
     ino_at demo_fs [''secret'']"
proof -
  obtain r s' where run: "Unpack posix_host no_map evil_archive ''/dest'' None demo_fs = (r, s')"
    by (cases "Unpack posix_host no_map evil_archive ''/dest'' None demo_fs")
  have "\<not> strict_prefix (hRoot posix_host @ comps ''/dest'') [''secret'']" by code_simp
  with Unpack_confined [OF posix_calls posix_honest _ demo_root_ok run] run show ?thesis
    by simp
qed

text \<open>
  C6: applying a layer is contained in the same way, for layers that hold no regular file in
  the AUFS link directory (such a file is kept in a temporary directory of the destination,
  which is opened again by its path).
\<close>

theorem UnpackLayer_confined:
  assumes "unix_calls h procfd" and "\<And>s. honest h s"
    and "\<And>x. options = Some x \<Longrightarrow> procfd_ok procfd (oInternalOptions x)"
    and "root_ok h (root_at h dest) s" and "\<And>e. e \<in> set (tsEntries layer) \<Longrightarrow> \<not> stashed (fst e)"
    and "UnpackLayer h emptyMap dest layer options s = (r, s')"
  shows "(\<forall>p. \<not> strict_prefix (hRoot h @ comps dest) p \<longrightarrow> ino_at s' p = ino_at s p) \<and>
    (\<forall>i < nextino s. \<not> named_in s (hRoot h @ comps dest) i \<longrightarrow>
       inodes s' i = inodes s i \<and> \<not> named_in s' (hRoot h @ comps dest) i)"
  using unix_calls.UnpackLayer_within [OF assms(1-6)] by (simp add: within_def)

theorem UnpackLayer_confined_witness:
  "ino_at (snd (UnpackLayer posix_host no_map ''/dest'' sample_layer None demo_fs)) [''secret''] =
     ino_at demo_fs [''secret'']"
proof -
  obtain r s' where run: "UnpackLayer posix_host no_map ''/dest'' sample_layer None demo_fs = (r, s')"
    by (cases "UnpackLayer posix_host no_map ''/dest'' sample_layer None demo_fs")
  have "\<not> strict_prefix (hRoot posix_host @ comps ''/dest'') [''secret'']" by code_simp
  moreover have "list_all (\<lambda>e. \<not> stashed (fst e)) (tsEntries sample_layer)" by code_simp
  ultimately show ?thesis
    using UnpackLayer_confined [OF posix_calls posix_honest _ demo_root_ok _ run] run
    by (simp add: list_all_iff)
qed

text \<open>
  A whiteout of \<open>.\<close> removes the directory it is in, one of \<open>..\<close> the directory above.
\<close>

lemma whiteout_of_dot:
  "ino_at (snd (UnpackLayer posix_host no_map ''/dest''
      \<lparr>tsEntries = [entry TypeReg ''etc/.wh..'' [] []], tsEnd = None\<rparr> None demo_fs)) [''dest'', ''etc''] = None"
  "ino_at (snd (UnpackLayer posix_host no_map ''/dest''
      \<lparr>tsEntries = [entry TypeDir ''etc/d/'' [] [], entry TypeReg ''etc/d/.wh...'' [] []], tsEnd = None\<rparr> None demo_fs))
      [''dest'', ''etc''] = None"
  by code_simp+


end
