(* ===== verification/Changes.thy ===== *)
theory Changes
  imports FsFacts Options
begin

text \<open>
  Comparing two trees: \<open>changes.go\<close> (the tree of file infos and \<open>addChanges\<close>,
  \<open>ChangesSize\<close>) with \<open>changes_unix.go\<close>. A Go map is an association list in the order one
  iteration takes; every statement holds for each order.
\<close>

section \<open>Changes\<close>

datatype ChangeType = ChangeModify | ChangeAdd | ChangeDelete

definition ChangeType_String :: "ChangeType \<Rightarrow> string" where
  "ChangeType_String c =
     (case c of ChangeModify \<Rightarrow> ''C'' | ChangeAdd \<Rightarrow> ''A'' | ChangeDelete \<Rightarrow> ''D'')"

record Change =
  cPath :: string
  cKind :: ChangeType

definition Change_String :: "Change \<Rightarrow> string" where
  "Change_String c = ChangeType_String (cKind c) @ '' '' @ cPath c"

text \<open>\<open>sort.Sort(changesByPath(changes))\<close>: strings are compared bytewise.\<close>

definition changesByPath :: "Change list \<Rightarrow> Change list" where
  "changesByPath cs = sort_key cPath cs"

section \<open>Stat results\<close>

definition statDifferent :: "FileInfo \<Rightarrow> FileInfo \<Rightarrow> bool" where
  "statDifferent oldStat newStat \<longleftrightarrow>
     fiMode oldStat \<noteq> fiMode newStat \<or>
     fiUid oldStat \<noteq> fiUid newStat \<or>
     fiGid oldStat \<noteq> fiGid newStat \<or>
     fiRdev oldStat \<noteq> fiRdev newStat \<or>
     (\<not> fi_is_dir oldStat \<and>
       (\<not> sameFsTime (fiModTime oldStat) (fiModTime newStat) \<or> fiSize oldStat \<noteq> fiSize newStat))"

definition getIno :: "FileInfo \<Rightarrow> nat" where
  "getIno fi = fiIno fi"

definition hasHardlinks :: "FileInfo \<Rightarrow> bool" where
  "hasHardlinks fi \<longleftrightarrow> fiNlink fi > 1"

section \<open>The tree of file infos\<close>

text \<open>
  A \<open>FileInfo\<close> of \<open>changes.go\<close>. The parent pointer is the position in the tree; the root, which
  has no parent, is the node without a stat result. The flag \<open>added\<close> is written and read within
  one call of \<open>addChanges\<close>: it is an argument of that call.
\<close>

datatype finfo = FNode (fName: string) (fStat: "FileInfo option") (fCapability: string)
  (fChildren: "(string \<times> finfo) list")

definition newRootFileInfo :: finfo where
  "newRootFileInfo = FNode [slash] None [] []"

text \<open>\<open>path()\<close>: from the names of a node and of its ancestors, the node's own first.\<close>

fun info_path :: "string list \<Rightarrow> string" where
  "info_path [] = [slash]"
| "info_path (name # ancestors) = Join [info_path ancestors, name]"

lemma info_path_abs: "list_all is_name q \<Longrightarrow> info_path (rev q) = abs_path q"
  by (induction q rule: rev_induct) (simp_all add: Join_abs)

definition f_isDir :: "finfo \<Rightarrow> bool" where
  "f_isDir info = (case fStat info of None \<Rightarrow> True | Some st \<Rightarrow> fi_is_dir st)"

fun lookup_elems :: "finfo \<Rightarrow> string list \<Rightarrow> finfo option" where
  "lookup_elems parent [] = Some parent"
| "lookup_elems parent (elem # elems) =
     (if elem = [] then lookup_elems parent elems
      else (case map_of (fChildren parent) elem of
              None \<Rightarrow> None
            | Some child \<Rightarrow> lookup_elems child elems))"

definition LookUp :: "finfo \<Rightarrow> string \<Rightarrow> finfo option" where
  "LookUp info path = (if path = [slash] then Some info else lookup_elems info (split_slash path))"

section \<open>Comparing two trees\<close>

text \<open>Whether a child that is in both trees is reported itself.\<close>

definition differs :: "finfo \<Rightarrow> finfo \<Rightarrow> bool" where
  "differs oldChild newChild \<longleftrightarrow>
     (case (fStat oldChild, fStat newChild) of
        (Some oldStat, Some newStat) \<Rightarrow> statDifferent oldStat newStat
      | _ \<Rightarrow> False) \<or> fCapability oldChild \<noteq> fCapability newChild"

text \<open>
  \<open>addChanges path added info oldInfo changes\<close>: \<open>path\<close> is \<open>info.path()\<close> (\<open>info_path\<close>), the result \<open>*changes\<close>.
  \<open>addChildren\<close> is the loop over the children; its second result is what is left of
  \<open>oldChildren\<close>. The two children lists are maps: the first binding of a name counts.
\<close>

fun addChanges :: "string \<Rightarrow> bool \<Rightarrow> finfo \<Rightarrow> finfo option \<Rightarrow> Change list \<Rightarrow> Change list"
  and addChildren :: "string \<Rightarrow> (string \<times> finfo) list \<Rightarrow> (string \<times> finfo) list \<Rightarrow> Change list \<Rightarrow>
    Change list \<times> (string \<times> finfo) list"
where
  "addChanges path added (FNode nm st cap ch) oldInfo changes =
     (let info = FNode nm st cap ch;
          sizeAtEntry = length changes;
          added' = (added \<or> oldInfo = None);
          changes1 = (if oldInfo = None then changes @ [\<lparr>cPath = path, cKind = ChangeAdd\<rparr>] else changes);
          oldChildren = (case oldInfo of None \<Rightarrow> [] | Some old \<Rightarrow> if f_isDir info then fChildren old else []);
          (changes2, oldChildren') = addChildren path ch oldChildren changes1;
          changes3 = changes2 @
            map (\<lambda>e. \<lparr>cPath = Join [path, fst e], cKind = ChangeDelete\<rparr>) oldChildren'
      in if length changes3 > sizeAtEntry \<and> f_isDir info \<and> \<not> added' \<and> path \<noteq> [slash]
         then take sizeAtEntry changes3 @ \<lparr>cPath = path, cKind = ChangeModify\<rparr> # drop sizeAtEntry changes3
         else changes3)"
| "addChildren path [] oldChildren changes = (changes, oldChildren)"
| "addChildren path ((name, newChild) # rest) oldChildren changes =
     (let cpath = Join [path, name]
      in case map_of oldChildren name of
           None \<Rightarrow> addChildren path rest oldChildren (addChanges cpath False newChild None changes)
         | Some oldChild \<Rightarrow>
             (let d = differs oldChild newChild;
                  changes1 = (if d then changes @ [\<lparr>cPath = cpath, cKind = ChangeModify\<rparr>] else changes)
              in addChildren path rest (filter (\<lambda>e. fst e \<noteq> name) oldChildren)
                   (addChanges cpath d newChild (Some oldChild) changes1)))"

definition info_Changes :: "finfo \<Rightarrow> finfo option \<Rightarrow> Change list" where
  "info_Changes info oldInfo = addChanges [slash] False info oldInfo []"

section \<open>The size of changes\<close>

text \<open>The loop of \<open>ChangesSize\<close>; \<open>sf\<close> holds the inodes with several links counted so far.\<close>

fun changesSize_loop ::
  "host \<Rightarrow> string \<Rightarrow> fsys \<Rightarrow> 64 word \<Rightarrow> nat list \<Rightarrow> Change list \<Rightarrow> 64 word" where
  "changesSize_loop h newDir s sz sf [] = sz"
| "changesSize_loop h newDir s sz sf (change # cs) =
     (if cKind change = ChangeModify \<or> cKind change = ChangeAdd then
        (case fst (os_Lstat h (Join [newDir, cPath change]) s) of
           Inl _ \<Rightarrow> changesSize_loop h newDir s sz sf cs
         | Inr fileInfo \<Rightarrow>
             if \<not> fi_is_dir fileInfo then
               if hasHardlinks fileInfo then
                 if getIno fileInfo \<notin> set sf
                 then changesSize_loop h newDir s (sz + word_of_int (fiSize fileInfo)) (getIno fileInfo # sf) cs
                 else changesSize_loop h newDir s sz sf cs
               else changesSize_loop h newDir s (sz + word_of_int (fiSize fileInfo)) sf cs
             else changesSize_loop h newDir s sz sf cs)
      else changesSize_loop h newDir s sz sf cs)"

definition ChangesSize :: "host \<Rightarrow> string \<Rightarrow> Change list \<Rightarrow> fsys \<Rightarrow> 64 word" where
  "ChangesSize h newDir changes s = changesSize_loop h newDir s 0 [] changes"


section \<open>What the comparison reports\<close>

text \<open>The node of a tree at a path, as a list of names.\<close>

fun tree_at :: "finfo \<Rightarrow> string list \<Rightarrow> finfo option" where
  "tree_at t [] = Some t"
| "tree_at t (n # ns) = (case map_of (fChildren t) n of None \<Rightarrow> None | Some c \<Rightarrow> tree_at c ns)"

definition old_at :: "finfo option \<Rightarrow> string list \<Rightarrow> finfo option" where
  "old_at old q = (case old of None \<Rightarrow> None | Some t \<Rightarrow> tree_at t q)"

text \<open>A tree: directories have named children, each name once, and nothing else has any.\<close>

fun wf_tree :: "finfo \<Rightarrow> bool" where
  "wf_tree (FNode nm st cap ch) \<longleftrightarrow>
     distinct (map fst ch) \<and> (\<forall>e \<in> set ch. is_name (fst e) \<and> wf_tree (snd e)) \<and>
     (f_isDir (FNode nm st cap ch) \<or> ch = [])"

text \<open>
  The specification, path by path: added is what is in the new tree only; deleted is what is
  in the old tree only, reported at its topmost path below a directory of the new tree;
  changed is what differs itself, and every directory that is in both trees and has a
  difference anywhere below it.
\<close>

definition is_added :: "finfo \<Rightarrow> finfo option \<Rightarrow> string list \<Rightarrow> bool" where
  "is_added new old q \<longleftrightarrow> tree_at new q \<noteq> None \<and> old_at old q = None"

definition is_deleted :: "finfo \<Rightarrow> finfo option \<Rightarrow> string list \<Rightarrow> bool" where
  "is_deleted new old q \<longleftrightarrow>
     q \<noteq> [] \<and> old_at old q \<noteq> None \<and> tree_at new q = None \<and>
     (\<exists>d. tree_at new (butlast q) = Some d \<and> f_isDir d)"

definition differs_at :: "finfo \<Rightarrow> finfo option \<Rightarrow> string list \<Rightarrow> bool" where
  "differs_at new old q \<longleftrightarrow>
     (\<exists>n t. tree_at new q = Some n \<and> old_at old q = Some t \<and> differs t n)"

definition touched :: "finfo \<Rightarrow> finfo option \<Rightarrow> string list \<Rightarrow> bool" where
  "touched new old q \<longleftrightarrow> is_added new old q \<or> is_deleted new old q \<or> differs_at new old q"

definition is_modified :: "finfo \<Rightarrow> finfo option \<Rightarrow> string list \<Rightarrow> bool" where
  "is_modified new old q \<longleftrightarrow>
     differs_at new old q \<or>
     (\<exists>n. tree_at new q = Some n \<and> f_isDir n \<and> old_at old q \<noteq> None \<and>
       (\<exists>q'. q' \<noteq> [] \<and> touched new old (q @ q')))"

definition change_spec :: "finfo \<Rightarrow> finfo option \<Rightarrow> string list \<Rightarrow> ChangeType \<Rightarrow> bool" where
  "change_spec new old q k =
     (case k of
        ChangeAdd \<Rightarrow> is_added new old q
      | ChangeDelete \<Rightarrow> is_deleted new old q
      | ChangeModify \<Rightarrow> is_modified new old q)"

section \<open>The accumulator\<close>

definition child_changes :: "string \<Rightarrow> string \<Rightarrow> finfo \<Rightarrow> finfo option \<Rightarrow> Change list" where
  "child_changes path n c old =
     (case old of
        None \<Rightarrow> addChanges (Join [path, n]) False c None []
      | Some t \<Rightarrow>
          (if differs t c then [\<lparr>cPath = Join [path, n], cKind = ChangeModify\<rparr>] else []) @
          addChanges (Join [path, n]) (differs t c) c (Some t) [])"

lemma addChildren_step:
  assumes "\<And>path a old cs. addChanges path a c old cs = cs @ addChanges path a c old []"
  shows "addChildren path ((n, c) # rest) oc cs =
    addChildren path rest (filter (\<lambda>e. fst e \<noteq> n) oc) (cs @ child_changes path n c (map_of oc n))"
proof (cases "map_of oc n")
  case None
  then have "filter (\<lambda>e. fst e \<noteq> n) oc = oc"
    by (intro filter_True) (auto simp: map_of_eq_None_iff image_iff)
  then show ?thesis
    using assms [of _ _ _ cs] by (simp add: None child_changes_def)
next
  case (Some t)
  show ?thesis
    using assms [of _ _ _ cs] assms [of _ _ _ "cs @ _"] assms [of _ _ _ "[_]"]
    by (simp add: Some child_changes_def Let_def)
qed

definition kids :: "string \<Rightarrow> (string \<times> finfo) list \<Rightarrow> (string \<times> finfo) list \<Rightarrow> Change list" where
  "kids path ch oc = concat (map (\<lambda>e. child_changes path (fst e) (snd e) (map_of oc (fst e))) ch)"

lemma addChildren_eq:
  assumes "distinct (map fst ch)"
    and "\<And>e path a old cs. e \<in> set ch \<Longrightarrow>
      addChanges path a (snd e) old cs = cs @ addChanges path a (snd e) old []"
  shows "addChildren path ch oc cs = (cs @ kids path ch oc, filter (\<lambda>e. fst e \<notin> fst ` set ch) oc)"
  using assms
proof (induction ch arbitrary: oc cs)
  case (Cons e ch)
  obtain n c where e: "e = (n, c)" by (cases e)
  have c: "addChanges p a c old cs = cs @ addChanges p a c old []" for p a old cs
    using Cons.prems(2) [OF list.set_intros(1)] unfolding e snd_conv .
  have m: "map_of (filter (\<lambda>e. fst e \<noteq> n) oc) k = map_of oc k" if "k \<in> fst ` set ch" for k
    using that Cons.prems(1) by (auto simp: e map_of_filter_fst [where P = "\<lambda>x. x \<noteq> n"])
  have kids: "kids path ch (filter (\<lambda>e. fst e \<noteq> n) oc) = kids path ch oc"
    unfolding kids_def by (intro arg_cong [where f = concat] map_cong) (simp_all add: m)
  have ch: "addChanges p a (snd e') old cs = cs @ addChanges p a (snd e') old []" if "e' \<in> set ch" for e' p a old cs
    by (rule Cons.prems(2)) (use that in simp)
  have d: "distinct (map fst ch)" using Cons.prems(1) by simp
  have "addChildren path ch (filter (\<lambda>x. fst x \<noteq> n) oc) (cs @ child_changes path n c (map_of oc n)) =
      ((cs @ child_changes path n c (map_of oc n)) @ kids path ch (filter (\<lambda>e. fst e \<noteq> n) oc),
       filter (\<lambda>x. fst x \<notin> fst ` set ch) (filter (\<lambda>x. fst x \<noteq> n) oc))"
    by (rule Cons.IH [OF d ch])
  then show ?case
    unfolding e addChildren_step [OF c] kids by (simp add: kids_def conj_commute)
qed (simp add: kids_def)

lemma addChildren_wf:
  assumes "\<And>e path a old cs. e \<in> set ch \<Longrightarrow> wf_tree (snd e) \<Longrightarrow>
      addChanges path a (snd e) old cs = cs @ addChanges path a (snd e) old []"
    and "wf_tree (FNode nm st cap ch)"
  shows "addChildren path ch oc cs = (cs @ kids path ch oc, filter (\<lambda>e. fst e \<notin> fst ` set ch) oc)"
proof (rule addChildren_eq)
  show "distinct (map fst ch)" using assms(2) by simp
  fix e path a old cs assume e: "e \<in> set ch"
  then have "wf_tree (snd e)" using assms(2) by simp
  then show "addChanges path a (snd e) old cs = cs @ addChanges path a (snd e) old []"
    by (rule assms(1) [OF e])
qed

lemma addChanges_append:
  "wf_tree info \<Longrightarrow> addChanges path a info old cs = cs @ addChanges path a info old []"
proof (induction info arbitrary: path a old cs)
  case (FNode nm st cap ch)
  have k: "addChildren path ch oc cs = (cs @ kids path ch oc, filter (\<lambda>e. fst e \<notin> fst ` set ch) oc)" for oc cs
    by (rule addChildren_wf [OF _ FNode.prems]) (rule FNode.IH, auto simp: snds.simps)
  show ?case
    by (simp add: k Let_def split del: if_split) (simp split: if_split)
qed


section \<open>The comparison meets its specification\<close>

lemma old_at_Cons: "old_at old (n # q) = old_at (old_at old [n]) q"
  by (cases old) (auto simp: old_at_def split: option.split)

lemma old_at_Nil [simp]: "old_at old [] = old"
  by (cases old) (simp_all add: old_at_def)

lemma differs_at_Cons:
  "differs_at (FNode nm st cap ch) old (n # q) \<longleftrightarrow>
     (\<exists>c. map_of ch n = Some c \<and> differs_at c (old_at old [n]) q)"
  by (auto simp: differs_at_def old_at_Cons [of old n q] split: option.splits)

lemma is_added_Cons:
  "is_added (FNode nm st cap ch) old (n # q) \<longleftrightarrow>
     (\<exists>c. map_of ch n = Some c \<and> is_added c (old_at old [n]) q)"
  by (auto simp: is_added_def old_at_Cons [of old n q] split: option.splits)

lemma is_deleted_Cons:
  "is_deleted (FNode nm st cap ch) old (n # q) \<longleftrightarrow>
     (case map_of ch n of
        Some c \<Rightarrow> is_deleted c (old_at old [n]) q
      | None \<Rightarrow> q = [] \<and> old_at old [n] \<noteq> None \<and> f_isDir (FNode nm st cap ch))"
  using old_at_Cons [of old n q] by (cases "q = []") (auto simp: is_deleted_def split: option.splits)

lemma touched_Cons:
  "touched (FNode nm st cap ch) old (n # q) \<longleftrightarrow>
     (case map_of ch n of
        Some c \<Rightarrow> touched c (old_at old [n]) q
      | None \<Rightarrow> q = [] \<and> old_at old [n] \<noteq> None \<and> f_isDir (FNode nm st cap ch))"
  by (auto simp: touched_def is_added_Cons is_deleted_Cons differs_at_Cons split: option.split)

lemma is_modified_Cons:
  "is_modified (FNode nm st cap ch) old (n # q) \<longleftrightarrow>
     (\<exists>c. map_of ch n = Some c \<and> is_modified c (old_at old [n]) q)"
  by (auto simp: is_modified_def differs_at_Cons touched_Cons old_at_Cons [of old n q] split: option.splits)

lemma change_spec_Cons:
  "change_spec (FNode nm st cap ch) old (n # q) k \<longleftrightarrow>
     (case map_of ch n of
        Some c \<Rightarrow> change_spec c (old_at old [n]) q k
      | None \<Rightarrow> k = ChangeDelete \<and> q = [] \<and> old_at old [n] \<noteq> None \<and> f_isDir (FNode nm st cap ch))"
  by (cases k) (auto simp: change_spec_def is_added_Cons is_deleted_Cons is_modified_Cons split: option.split)

lemma touched_spec: "(\<exists>q. q \<noteq> [] \<and> touched new old q) \<longleftrightarrow> (\<exists>q k. q \<noteq> [] \<and> change_spec new old q k)"
proof
  assume "\<exists>q. q \<noteq> [] \<and> touched new old q"
  then obtain q where "q \<noteq> []" "touched new old q" by blast
  then show "\<exists>q k. q \<noteq> [] \<and> change_spec new old q k"
    by (auto simp: touched_def change_spec_def is_modified_def split: ChangeType.split)
next
  assume "\<exists>q k. q \<noteq> [] \<and> change_spec new old q k"
  then obtain q k where q: "q \<noteq> []" and s: "change_spec new old q k" by blast
  show "\<exists>q. q \<noteq> [] \<and> touched new old q"
  proof (cases "touched new old q")
    case False
    with s have "is_modified new old q" by (cases k) (auto simp: change_spec_def touched_def)
    with False obtain q' where "touched new old (q @ q')" by (auto simp: is_modified_def touched_def)
    then show ?thesis using q by (metis append_is_Nil_conv)
  qed (use q in blast)
qed

text \<open>What one node contributes, and what one child does.\<close>

definition mk_change :: "string list \<Rightarrow> ChangeType \<Rightarrow> Change" where
  "mk_change q k = \<lparr>cPath = abs_path q, cKind = k\<rparr>"

definition below :: "string list \<Rightarrow> finfo \<Rightarrow> finfo option \<Rightarrow> Change set" where
  "below p new old = {mk_change (p @ q) k |q k. q \<noteq> [] \<and> change_spec new old q k}"

definition node_set :: "string list \<Rightarrow> bool \<Rightarrow> finfo \<Rightarrow> finfo option \<Rightarrow> Change set" where
  "node_set p added new old =
     below p new old \<union> (if old = None then {mk_change p ChangeAdd} else {}) \<union>
     (if old \<noteq> None \<and> \<not> added \<and> f_isDir new \<and> p \<noteq> [] \<and> below p new old \<noteq> {}
      then {mk_change p ChangeModify} else {})"

lemma below_empty: "below p new old = {} \<longleftrightarrow> \<not> (\<exists>q. q \<noteq> [] \<and> touched new old q)"
  unfolding touched_spec by (auto simp: below_def)

lemma spec_Nil:
  "change_spec new old [] k \<longleftrightarrow>
     (case k of
        ChangeAdd \<Rightarrow> old = None
      | ChangeDelete \<Rightarrow> False
      | ChangeModify \<Rightarrow> \<exists>t. old = Some t \<and> (differs t new \<or> (f_isDir new \<and> below p new old \<noteq> {})))"
  by (cases k)
    (auto simp: change_spec_def is_added_def is_deleted_def is_modified_def differs_at_def below_empty)

lemma all_below:
  "{mk_change (p @ q) k |q k. change_spec new old q k} =
     below p new old \<union> {mk_change p k |k. change_spec new old [] k}"
proof -
  have "(\<exists>q. P q) \<longleftrightarrow> (\<exists>q. q \<noteq> [] \<and> P q) \<or> P []" for P :: "string list \<Rightarrow> bool" by metis
  then have "(\<exists>q k. x = mk_change (p @ q) k \<and> change_spec new old q k) \<longleftrightarrow>
      (\<exists>q k. x = mk_change (p @ q) k \<and> q \<noteq> [] \<and> change_spec new old q k) \<or>
      (\<exists>k. x = mk_change p k \<and> change_spec new old [] k)" for x
    by (smt (verit, best) append_Nil2)
  then show ?thesis unfolding below_def by auto
qed

lemma nil_set:
  "{mk_change p k |k. change_spec new old [] k} =
     (case old of
        None \<Rightarrow> {mk_change p ChangeAdd}
      | Some t \<Rightarrow>
          if differs t new \<or> (f_isDir new \<and> below p new old \<noteq> {}) then {mk_change p ChangeModify} else {})"
  unfolding spec_Nil [where p = p]
  by (cases old) (auto split: ChangeType.splits, (metis ChangeType.exhaust)+)

lemma below_Cons: "below p new old = {mk_change (p @ n # q) k |n q k. change_spec new old (n # q) k}"
  unfolding below_def by (auto simp: neq_Nil_conv)

lemma child_set:
  assumes "\<And>a old. (\<And>t. old = Some t \<Longrightarrow> wf_tree t) \<Longrightarrow>
      set (addChanges (abs_path (p @ [n])) a c old []) = node_set (p @ [n]) a c old"
    and "list_all is_name p" and "is_name n" and "\<And>t. old = Some t \<Longrightarrow> wf_tree t"
  shows "set (child_changes (abs_path p) n c old) =
    {mk_change (p @ n # q) k |q k. change_spec c old q k}"
proof -
  have "{mk_change (p @ n # q) k |q k. change_spec c old q k} =
      below (p @ [n]) c old \<union> {mk_change (p @ [n]) k |k. change_spec c old [] k}"
    using all_below [of "p @ [n]" c old] by simp
  also have "\<dots> = set (child_changes (abs_path p) n c old)"
  proof (cases old)
    case None
    have "set (addChanges (abs_path (p @ [n])) False c None []) = node_set (p @ [n]) False c None"
      by (rule assms(1)) simp
    then show ?thesis
      unfolding nil_set by (simp add: None child_changes_def Join_abs assms(2,3) node_set_def)
  next
    case (Some t)
    have "set (addChanges (abs_path (p @ [n])) d c (Some t) []) = node_set (p @ [n]) d c (Some t)" for d
      by (rule assms(1)) (simp add: assms(4) Some)
    then show ?thesis
      unfolding nil_set
      by (simp add: Some child_changes_def Join_abs assms(2,3) node_set_def
          mk_change_def [of "p @ [n]" ChangeModify, symmetric])
  qed
  finally show ?thesis by simp
qed

lemma dels_set:
  assumes "list_all is_name p" and "\<And>e. e \<in> set oc \<Longrightarrow> is_name (fst e)"
  shows "set (map (\<lambda>e. \<lparr>cPath = Join [abs_path p, fst e], cKind = ChangeDelete\<rparr>)
      (filter (\<lambda>e. fst e \<notin> fst ` set ch) oc)) =
    {mk_change (p @ [n]) ChangeDelete |n. map_of ch n = None \<and> map_of oc n \<noteq> None}"
proof -
  have "(\<lambda>e. \<lparr>cPath = Join [abs_path p, fst e], cKind = ChangeDelete\<rparr>) ` {e \<in> set oc. fst e \<notin> fst ` set ch} =
      (\<lambda>e. mk_change (p @ [fst e]) ChangeDelete) ` {e \<in> set oc. fst e \<notin> fst ` set ch}"
    by (rule image_cong) (simp_all add: mk_change_def Join_abs assms)
  also have "\<dots> = (\<lambda>n. mk_change (p @ [n]) ChangeDelete) ` {n \<in> fst ` set oc. n \<notin> fst ` set ch}"
    by auto
  also have "\<dots> = {mk_change (p @ [n]) ChangeDelete |n. map_of ch n = None \<and> map_of oc n \<noteq> None}"
    by (auto simp: map_of_eq_None_iff)
  finally show ?thesis by simp
qed

lemma nonempty_length: "A = set xs \<union> set ys \<Longrightarrow> A \<noteq> {} \<longleftrightarrow> 0 < length (xs @ ys)"
  by auto

lemma addChanges_set:
  "wf_tree info \<Longrightarrow> (\<And>t. old = Some t \<Longrightarrow> wf_tree t) \<Longrightarrow> list_all is_name p \<Longrightarrow>
    set (addChanges (abs_path p) added info old []) = node_set p added info old"
proof (induction info arbitrary: p added old)
  case (FNode nm st cap ch)
  let ?info = "FNode nm st cap ch"
  let ?oc = "case old of None \<Rightarrow> [] | Some t \<Rightarrow> if f_isDir ?info then fChildren t else []"
  let ?rest = "map (\<lambda>e. \<lparr>cPath = Join [abs_path p, fst e], cKind = ChangeDelete\<rparr>)
      (filter (\<lambda>e. fst e \<notin> fst ` set ch) ?oc)"
  have wf: "distinct (map fst ch)" "\<And>e. e \<in> set ch \<Longrightarrow> is_name (fst e) \<and> wf_tree (snd e)"
    "f_isDir ?info \<or> ch = []" using FNode.prems(1) by auto
  have old_names: "is_name (fst e)" "wf_tree (snd e)" if "e \<in> set ?oc" for e
    using that FNode.prems(2) by (cases old; cases "the old"; auto split: if_splits)+
  have oc: "map_of ?oc n = old_at old [n]" if "f_isDir ?info" for n
    using that by (auto simp: old_at_def split: option.split)
  have child: "set (child_changes (abs_path p) n c (map_of ?oc n)) =
      {mk_change (p @ n # q) k |q k. change_spec c (old_at old [n]) q k}" if "(n, c) \<in> set ch" for n c
  proof -
    have dir: "f_isDir ?info" using that wf(3) by auto
    have nc: "is_name n" "wf_tree c" using wf(2) [OF that] by auto
    have w: "wf_tree t" if "map_of ?oc n = Some t" for t
      using old_names(2) [OF map_of_SomeD [OF that]] by simp
    have "set (child_changes (abs_path p) n c (map_of ?oc n)) =
        {mk_change (p @ n # q) k |q k. change_spec c (map_of ?oc n) q k}"
    proof (rule child_set)
      show "set (addChanges (abs_path (p @ [n])) a c old' []) = node_set (p @ [n]) a c old'"
        if "\<And>t. old' = Some t \<Longrightarrow> wf_tree t" for a old'
        by (rule FNode.IH [OF \<open>(n, c) \<in> set ch\<close>]) (use nc that FNode.prems(3) in auto)
    qed (use FNode.prems(3) nc w in auto)
    then show ?thesis by (simp only: oc [OF dir])
  qed
  have "set (kids (abs_path p) ch ?oc) =
      (\<Union>e \<in> set ch. {mk_change (p @ fst e # q) k |q k. change_spec (snd e) (old_at old [fst e]) q k})"
    unfolding kids_def by (auto simp: child)
  also have "\<dots> = {mk_change (p @ n # q) k |n q k. \<exists>c. map_of ch n = Some c \<and> change_spec c (old_at old [n]) q k}"
    using wf(1) by (auto simp: map_of_eq_Some_iff) force+
  finally have kids: "set (kids (abs_path p) ch ?oc) =
      {mk_change (p @ n # q) k |n q k. \<exists>c. map_of ch n = Some c \<and> change_spec c (old_at old [n]) q k}" .
  have rest: "set ?rest = {mk_change (p @ [n]) ChangeDelete |n. map_of ch n = None \<and> map_of ?oc n \<noteq> None}"
    by (rule dels_set [OF FNode.prems(3) old_names(1)])
  have "map_of ?oc n \<noteq> None \<longleftrightarrow> f_isDir ?info \<and> old_at old [n] \<noteq> None" for n
    using oc by (cases "f_isDir ?info") (auto split: option.splits)
  then have cs: "change_spec ?info old (n # q) k \<longleftrightarrow>
      (\<exists>c. map_of ch n = Some c \<and> change_spec c (old_at old [n]) q k) \<or>
      (k = ChangeDelete \<and> q = [] \<and> map_of ch n = None \<and> map_of ?oc n \<noteq> None)" for n q k
    unfolding change_spec_Cons by (auto split: option.split)
  have below: "below p ?info old = set (kids (abs_path p) ch ?oc) \<union> set ?rest"
    unfolding rest kids below_Cons cs by blast
  have k: "addChildren (abs_path p) ch oc cs =
      (cs @ kids (abs_path p) ch oc, filter (\<lambda>e. fst e \<notin> fst ` set ch) oc)" for oc cs
    by (rule addChildren_wf [OF addChanges_append FNode.prems(1)])
  have ne: "below p ?info old \<noteq> {} \<longleftrightarrow> 0 < length (kids (abs_path p) ch ?oc @ ?rest)"
    by (rule nonempty_length [OF below])
  have eq: "addChanges (abs_path p) added ?info old [] =
      (let cs = (if old = None then [mk_change p ChangeAdd] else []) @ kids (abs_path p) ch ?oc @ ?rest
       in if 0 < length cs \<and> f_isDir ?info \<and> \<not> (added \<or> old = None) \<and> p \<noteq> []
          then mk_change p ChangeModify # cs else cs)"
    by (simp add: k Let_def mk_change_def abs_path_slash [OF FNode.prems(3)] del: append_assoc)
  show ?case
    unfolding eq node_set_def Let_def using ne below by (cases old) auto
qed

lemma info_Changes_set:
  assumes "wf_tree new" and "wf_tree old"
  shows "c \<in> set (info_Changes new (Some old)) \<longleftrightarrow>
    (\<exists>q k. q \<noteq> [] \<and> c = \<lparr>cPath = abs_path q, cKind = k\<rparr> \<and> change_spec new (Some old) q k)"
proof -
  have "abs_path [] = [slash]" by (simp add: abs_path_def render_def)
  then have "set (info_Changes new (Some old)) = node_set [] False new (Some old)"
    using addChanges_set [OF assms(1), of "Some old" "[]" False] assms(2) by (simp add: info_Changes_def)
  then show ?thesis by (auto simp: node_set_def below_def mk_change_def)
qed

section \<open>The properties\<close>

definition old_tree :: finfo where
  "old_tree =
     (let f = \<lparr>fiMode = 0x1A4, fiSize = 1, fiModTime = 5 * second, fiDev = 1, fiIno = 7, fiNlink = 1,
               fiUid = 0, fiGid = 0, fiRdev = 0\<rparr>;
          d = f\<lparr>fiMode := ModeDir OR 0x1ED\<rparr>
      in FNode [slash] None []
           [(''a'', FNode ''a'' (Some d) [] [(''x'', FNode ''x'' (Some f) [] [])]),
            (''b'', FNode ''b'' (Some d) [] [(''y'', FNode ''y'' (Some f) [] [])]),
            (''c'', FNode ''c'' (Some f) [] [])])"

definition new_tree :: finfo where
  "new_tree =
     (let f = \<lparr>fiMode = 0x1A4, fiSize = 2, fiModTime = 5 * second, fiDev = 1, fiIno = 8, fiNlink = 1,
               fiUid = 0, fiGid = 0, fiRdev = 0\<rparr>;
          d = f\<lparr>fiMode := ModeDir OR 0x1ED\<rparr>
      in FNode [slash] None []
           [(''c'', FNode ''c'' (Some d) [] [(''z'', FNode ''z'' (Some f) [] [])]),
            (''a'', FNode ''a'' (Some d) [] [(''x'', FNode ''x'' (Some f) [] [])])])"

text \<open>
  C12: \<open>Changes\<close> of two trees reports exactly what the specification says: an addition for
  every path of the new tree only, a deletion for every topmost path of the old tree only, a
  modification for every path of both that differs and for every directory of both with a
  difference below it, whatever the order of the maps. In particular a file replaced by a
  directory is not reported as deleted, and nothing below a removed directory is.
\<close>

theorem Changes_exact:
  assumes "wf_tree new" and "wf_tree old"
  shows "c \<in> set (info_Changes new (Some old)) \<longleftrightarrow>
    (\<exists>q k. q \<noteq> [] \<and> c = \<lparr>cPath = abs_path q, cKind = k\<rparr> \<and> change_spec new (Some old) q k)"
  by (rule info_Changes_set [OF assms])

theorem Changes_exact_witness:
  "\<not> change_spec new_tree (Some old_tree) [''b'', ''y''] ChangeDelete \<and>
   (\<exists>q k. q \<noteq> [] \<and> \<lparr>cPath = ''/a'', cKind = ChangeModify\<rparr> = \<lparr>cPath = abs_path q, cKind = k\<rparr> \<and>
      change_spec new_tree (Some old_tree) q k)"
proof -
  have wf: "wf_tree new_tree" "wf_tree old_tree" by code_simp+
  note exact = Changes_exact [OF wf]
  have eval: "\<lparr>cPath = ''/b/y'', cKind = ChangeDelete\<rparr> \<notin> set (info_Changes new_tree (Some old_tree))"
    "\<lparr>cPath = ''/a'', cKind = ChangeModify\<rparr> \<in> set (info_Changes new_tree (Some old_tree))" by code_simp+
  have "abs_path [''b'', ''y''] = ''/b/y''" by code_simp
  then show ?thesis using eval unfolding exact by (metis list.distinct(1))
qed

end
