(* ===== verification/Streams.thy ===== *)
theory Streams
  imports Unpack Samples
begin

text \<open>
  Rewriting tar streams: \<open>ReplaceFileTarWrapper\<close> of \<open>archive.go\<close>, \<open>newNameRebaser\<close> and
  \<open>RebaseArchiveEntries\<close> of \<open>copy.go\<close>, \<open>Generate\<close> of \<open>wrap.go\<close>. The writer of \<open>archive/tar\<close>
  is modelled by the entries written so far; whether a header can be encoded is the parameter
  \<open>enc\<close>. A goroutine that writes to a pipe is the stream its reader sees: the entries, whether
  the end-of-archive trailer follows, and the error the pipe was closed with.
\<close>

section \<open>The tar writer\<close>

record tarWriter =
  twEntries :: "(tarHeader \<times> string) list"
  twLeft :: nat
  twTrailer :: bool

type_synonym encoder = "tarHeader \<Rightarrow> goerror option"

definition newTarWriter :: tarWriter where
  "newTarWriter = \<lparr>twEntries = [], twLeft = 0, twTrailer = False\<rparr>"

text \<open>Entry types without a body, and the type of a header that leaves it out (flag zero).\<close>

fun header_only :: "typeflag \<Rightarrow> bool" where
  "header_only TypeReg = False"
| "header_only (TypeOther _) = False"
| "header_only TypeXGlobalHeader = False"
| "header_only _ = True"

definition written_type :: "tarHeader \<Rightarrow> typeflag" where
  "written_type hdr =
     (if hTypeflag hdr = TypeOther 0
      then if HasSuffix (hName hdr) [slash] then TypeDir else TypeReg
      else hTypeflag hdr)"

definition WriteHeader :: "encoder \<Rightarrow> tarHeader \<Rightarrow> tarWriter \<Rightarrow> goerror option \<times> tarWriter" where
  "WriteHeader enc hdr tw =
     (if twLeft tw \<noteq> 0 then (Some (TarError ''missed writing bytes''), tw)
      else
        (case enc hdr of
           Some e \<Rightarrow> (Some e, tw)
         | None \<Rightarrow>
             (None, tw\<lparr>twEntries := twEntries tw @ [(hdr\<lparr>hTypeflag := written_type hdr\<rparr>, [])],
                       twLeft := (if header_only (written_type hdr) then 0 else unat (hSize hdr))\<rparr>)))"

definition append_last :: "string \<Rightarrow> (tarHeader \<times> string) list \<Rightarrow> (tarHeader \<times> string) list" where
  "append_last d es = (if es = [] then [] else butlast es @ [(fst (last es), snd (last es) @ d)])"

definition tar_Write :: "string \<Rightarrow> tarWriter \<Rightarrow> goerror option \<times> tarWriter" where
  "tar_Write data tw =
     (let n = min (length data) (twLeft tw);
          tw' = tw\<lparr>twEntries := append_last (take n data) (twEntries tw), twLeft := twLeft tw - n\<rparr>
      in (if n < length data then Some (TarError ''write too long'') else None, tw'))"

definition tar_Close :: "tarWriter \<Rightarrow> goerror option \<times> tarWriter" where
  "tar_Close tw =
     (if twLeft tw \<noteq> 0 then (Some (TarError ''missed writing bytes''), tw)
      else (None, tw\<lparr>twTrailer := True\<rparr>))"

text \<open>Copying an entry's body to the writer.\<close>

definition copy_body :: "body \<Rightarrow> tarWriter \<Rightarrow> goerror option \<times> tarWriter" where
  "copy_body b tw =
     (case tar_Write (bData b) tw of
        (Some e, tw') \<Rightarrow> (Some e, tw')
      | (None, tw') \<Rightarrow> (bErr b, tw'))"

definition write_entry :: "encoder \<Rightarrow> tarHeader \<Rightarrow> body \<Rightarrow> tarWriter \<Rightarrow> goerror option \<times> tarWriter" where
  "write_entry enc hdr b tw =
     (case WriteHeader enc hdr tw of
        (Some e, tw') \<Rightarrow> (Some e, tw')
      | (None, tw') \<Rightarrow> copy_body b tw')"

text \<open>What the reader of the pipe sees.\<close>

record pipeOut =
  poWriter :: tarWriter
  poErr :: "goerror option"

definition out_stream :: "pipeOut \<Rightarrow> tarStream" where
  "out_stream p =
     \<lparr>tsEntries = map (\<lambda>e. (fst e, \<lparr>bData = snd e, bErr = None\<rparr>)) (twEntries (poWriter p)),
      tsEnd = poErr p\<rparr>"

section \<open>Generate\<close>

fun parseStringPairs :: "string list \<Rightarrow> (string \<times> string) list" where
  "parseStringPairs [] = []"
| "parseStringPairs [x] = [(x, [])]"
| "parseStringPairs (x # y # zs) = (x, y) # parseStringPairs zs"

definition zeroHeader :: tarHeader where
  "zeroHeader =
     \<lparr>hTypeflag = TypeOther 0, hName = [], hLinkname = [], hSize = 0, hMode = 0, hUid = 0, hGid = 0,
      hUname = [], hGname = [], hModTime = zero_time, hAccessTime = zero_time,
      hChangeTime = zero_time, hDevmajor = 0, hDevminor = 0, hPAXRecords = []\<rparr>"

fun generate_loop :: "encoder \<Rightarrow> (string \<times> string) list \<Rightarrow> tarWriter \<Rightarrow> goerror + tarWriter" where
  "generate_loop enc [] tw = (case tar_Close tw of (Some e, _) \<Rightarrow> Inl e | (None, tw') \<Rightarrow> Inr tw')"
| "generate_loop enc ((name, content) # fs) tw =
     (let hdr = zeroHeader\<lparr>hName := name, hSize := of_nat (length content)\<rparr>
      in case WriteHeader enc hdr tw of
           (Some e, _) \<Rightarrow> Inl e
         | (None, tw1) \<Rightarrow>
             (case tar_Write content tw1 of
                (Some e, _) \<Rightarrow> Inl e
              | (None, tw2) \<Rightarrow> generate_loop enc fs tw2))"

definition Generate :: "encoder \<Rightarrow> string list \<Rightarrow> goerror + tarWriter" where
  "Generate enc input = generate_loop enc (parseStringPairs input) newTarWriter"

section \<open>Rebasing names\<close>

definition newNameRebaser :: "string \<Rightarrow> string \<Rightarrow> string \<Rightarrow> string" where
  "newNameRebaser oldBase0 newBase0 name =
     (let oldBase = TrimRight (ToSlash oldBase0) slash;
          newBase = TrimRight (ToSlash newBase0) slash
      in if oldBase = []
         then
           (let name' = TrimLeft name slash
            in if newBase = [] then name' else newBase @ [slash] @ name')
         else
           (case CutPrefix name oldBase of
              None \<Rightarrow> name
            | Some suf \<Rightarrow>
                if suf \<noteq> [] \<and> \<not> HasPrefix suf [slash] then name else newBase @ suf))"

definition rebase_header :: "string \<Rightarrow> string \<Rightarrow> tarHeader \<Rightarrow> tarHeader" where
  "rebase_header oldBase newBase hdr =
     (let rebase = newNameRebaser oldBase newBase;
          hdr' = hdr\<lparr>hName := rebase (hName hdr)\<rparr>
      in if hTypeflag hdr' = TypeLink then hdr'\<lparr>hLinkname := rebase (hLinkname hdr')\<rparr> else hdr')"

fun rebase_loop ::
  "encoder \<Rightarrow> string \<Rightarrow> string \<Rightarrow> (tarHeader \<times> body) list \<Rightarrow> goerror option \<Rightarrow> tarWriter \<Rightarrow> pipeOut" where
  "rebase_loop enc oldBase newBase [] eos tw =
     (case eos of
        None \<Rightarrow> \<lparr>poWriter = snd (tar_Close tw), poErr = None\<rparr>
      | Some err \<Rightarrow> \<lparr>poWriter = tw, poErr = Some err\<rparr>)"
| "rebase_loop enc oldBase newBase ((hdr, b) # es) eos tw =
     (case write_entry enc (rebase_header oldBase newBase hdr) b tw of
        (Some err, tw') \<Rightarrow> \<lparr>poWriter = tw', poErr = Some err\<rparr>
      | (None, tw') \<Rightarrow> rebase_loop enc oldBase newBase es eos tw')"

definition RebaseArchiveEntries :: "encoder \<Rightarrow> tarStream \<Rightarrow> string \<Rightarrow> string \<Rightarrow> pipeOut" where
  "RebaseArchiveEntries enc srcContent oldBase newBase =
     rebase_loop enc oldBase newBase (tsEntries srcContent) (tsEnd srcContent) newTarWriter"

section \<open>Replacing files\<close>

text \<open>
  A modifier gets the name, and the header and body of the entry if there is one. The map of
  modifiers is listed in the order the final iteration takes.
\<close>

type_synonym modifier =
  "string \<Rightarrow> tarHeader option \<Rightarrow> body option \<Rightarrow> goerror + (tarHeader option \<times> string)"

definition modify ::
  "encoder \<Rightarrow> string \<Rightarrow> tarHeader option \<Rightarrow> modifier \<Rightarrow> body option \<Rightarrow> tarWriter \<Rightarrow>
     goerror option \<times> tarWriter" where
  "modify enc name original m content tw =
     (case m name original content of
        Inl err \<Rightarrow> (Some err, tw)
      | Inr (None, data) \<Rightarrow> (None, tw)
      | Inr (Some header0, data) \<Rightarrow>
          (let header1 = (if hName header0 = [] then header0\<lparr>hName := name\<rparr> else header0);
               header = header1\<lparr>hSize := of_nat (length data)\<rparr>
           in case WriteHeader enc header tw of
                (Some err, tw') \<Rightarrow> (Some err, tw')
              | (None, tw') \<Rightarrow> if length data \<noteq> 0 then tar_Write data tw' else (None, tw')))"

text \<open>The modifiers that matched no entry.\<close>

fun modify_rest :: "encoder \<Rightarrow> (string \<times> modifier) list \<Rightarrow> tarWriter \<Rightarrow> pipeOut" where
  "modify_rest enc [] tw = \<lparr>poWriter = tw, poErr = None\<rparr>"
| "modify_rest enc ((name, m) # mods) tw =
     (case modify enc name None m None tw of
        (Some err, tw') \<Rightarrow> \<lparr>poWriter = tw', poErr = Some err\<rparr>
      | (None, tw') \<Rightarrow> modify_rest enc mods tw')"

fun replace_loop ::
  "encoder \<Rightarrow> (string \<times> modifier) list \<Rightarrow> (tarHeader \<times> body) list \<Rightarrow> goerror option \<Rightarrow> tarWriter \<Rightarrow> pipeOut" where
  "replace_loop enc mods [] eos tw =
     (case eos of
        Some err \<Rightarrow> \<lparr>poWriter = tw, poErr = Some err\<rparr>
      | None \<Rightarrow> modify_rest enc mods tw)"
| "replace_loop enc mods ((hdr, b) # es) eos tw =
     (case map_of mods (hName hdr) of
        None \<Rightarrow>
          (case write_entry enc hdr b tw of
             (Some err, tw') \<Rightarrow> \<lparr>poWriter = tw', poErr = Some err\<rparr>
           | (None, tw') \<Rightarrow> replace_loop enc mods es eos tw')
      | Some m \<Rightarrow>
          (case modify enc (hName hdr) (Some hdr) m (Some b) tw of
             (Some err, tw') \<Rightarrow> \<lparr>poWriter = tw', poErr = Some err\<rparr>
           | (None, tw') \<Rightarrow> replace_loop enc (filter (\<lambda>e. fst e \<noteq> hName hdr) mods) es eos tw'))"

text \<open>
  The pipe is closed before the deferred \<open>tarWriter.Close\<close>, on the good path and on every
  error path: what that writes reaches no reader, so the stream has no trailer.
\<close>

definition ReplaceFileTarWrapper :: "encoder \<Rightarrow> tarStream \<Rightarrow> (string \<times> modifier) list \<Rightarrow> pipeOut" where
  "ReplaceFileTarWrapper enc inputTarStream mods =
     replace_loop enc mods (tsEntries inputTarStream) (tsEnd inputTarStream) newTarWriter"


section \<open>Writing entries\<close>

text \<open>An entry as \<open>archive/tar\<close> yields it: the body has the size the header gives.\<close>

definition entry_ok :: "encoder \<Rightarrow> tarHeader \<times> body \<Rightarrow> bool" where
  "entry_ok enc e \<longleftrightarrow>
     enc (fst e) = None \<and> bErr (snd e) = None \<and> hTypeflag (fst e) \<noteq> TypeOther 0 \<and>
     length (bData (snd e)) = (if header_only (hTypeflag (fst e)) then 0 else unat (hSize (fst e)))"

lemma append_last_snoc [simp]: "append_last d (es @ [(h, x)]) = es @ [(h, x @ d)]"
  by (simp add: append_last_def)

lemma written_type_id: "hTypeflag hdr \<noteq> TypeOther 0 \<Longrightarrow> hdr\<lparr>hTypeflag := written_type hdr\<rparr> = hdr"
  by (simp add: written_type_def)

lemma write_entry_ok:
  assumes "entry_ok enc (hdr, b)" and "twLeft tw = 0"
  shows "write_entry enc hdr b tw = (None, tw\<lparr>twEntries := twEntries tw @ [(hdr, bData b)]\<rparr>)"
proof -
  have "written_type hdr = hTypeflag hdr" using assms(1) by (simp add: entry_ok_def written_type_def)
  then show ?thesis using assms
    by (simp add: write_entry_def WriteHeader_def entry_ok_def copy_body_def tar_Write_def Let_def)
qed

section \<open>Rebasing\<close>

lemma TrimRight_noslash: "\<not> HasSuffix s [slash] \<Longrightarrow> TrimRight s slash = s"
proof (cases s rule: rev_cases)
  case (snoc xs x)
  assume "\<not> HasSuffix s [slash]"
  then have "x \<noteq> slash" by (auto simp: snoc HasSuffix_def)
  then show ?thesis by (simp add: snoc TrimRight_def)
qed (simp add: TrimRight_def)

text \<open>A name is the base itself or lies below it.\<close>

definition under :: "string \<Rightarrow> string \<Rightarrow> bool" where
  "under base name \<longleftrightarrow> name = base \<or> (\<exists>rest. name = base @ slash # rest)"

lemma rebaser_under:
  assumes "oldB \<noteq> []" and "\<not> HasSuffix oldB [slash]" and "\<not> HasSuffix newB [slash]"
  shows "newNameRebaser oldB newB (oldB @ suf) =
    (if suf = [] \<or> HasPrefix suf [slash] then newB @ suf else oldB @ suf)"
  using assms
  by (simp add: newNameRebaser_def ToSlash_def TrimRight_noslash Let_def CutPrefix_def)

lemma rebaser_other:
  assumes "oldB \<noteq> []" and "\<not> HasSuffix oldB [slash]" and "\<not> under oldB name"
  shows "newNameRebaser oldB newB name = name"
proof (cases "prefix oldB name")
  case True
  then obtain suf where n: "name = oldB @ suf" by (auto simp: prefix_def)
  with assms(3) have "suf \<noteq> [] \<and> \<not> HasPrefix suf [slash]"
    by (cases suf) (auto simp: under_def HasPrefix_def)
  then show ?thesis using assms(1,2)
    by (simp add: n newNameRebaser_def ToSlash_def TrimRight_noslash Let_def CutPrefix_def)
qed (use assms in \<open>simp add: newNameRebaser_def ToSlash_def TrimRight_noslash Let_def CutPrefix_def\<close>)

lemma rebase_loop_ok:
  assumes "\<And>e. e \<in> set es \<Longrightarrow> entry_ok enc (rebase_header oldB newB (fst e), snd e)" and "twLeft tw = 0"
  shows "rebase_loop enc oldB newB es None tw =
    \<lparr>poWriter = tw\<lparr>twEntries := twEntries tw @ map (\<lambda>e. (rebase_header oldB newB (fst e), bData (snd e))) es,
                   twTrailer := True\<rparr>, poErr = None\<rparr>"
  using assms
proof (induction es arbitrary: tw)
  case (Cons e es)
  obtain hdr b where e: "e = (hdr, b)" by (cases e)
  have "entry_ok enc (rebase_header oldB newB hdr, b)" using Cons.prems(1) [of e] by (simp add: e)
  from write_entry_ok [OF this Cons.prems(2)] Cons.IH [of "tw\<lparr>twEntries := twEntries tw @ [(rebase_header oldB newB hdr, bData b)]\<rparr>"]
  show ?case using Cons.prems by (simp add: e)
qed (simp add: tar_Close_def)

section \<open>Replacing\<close>

lemma modify_trailer: "twTrailer (snd (modify enc n h m c tw)) = twTrailer tw"
  by (auto simp: modify_def WriteHeader_def tar_Write_def Let_def
      split: sum.split option.split prod.split)

lemma write_entry_trailer: "twTrailer (snd (write_entry enc h b tw)) = twTrailer tw"
  by (auto simp: write_entry_def copy_body_def WriteHeader_def tar_Write_def Let_def
      split: option.split prod.split)

lemma modify_trailer': "modify enc n h m c tw = (r, tw') \<Longrightarrow> twTrailer tw' = twTrailer tw"
  using modify_trailer [of enc n h m c tw] by simp

lemma write_entry_trailer': "write_entry enc h b tw = (r, tw') \<Longrightarrow> twTrailer tw' = twTrailer tw"
  using write_entry_trailer [of enc h b tw] by simp

lemma modify_rest_trailer: "twTrailer (poWriter (modify_rest enc mods tw)) = twTrailer tw"
  by (induction enc mods tw rule: modify_rest.induct)
    (auto split: prod.split option.split dest: modify_trailer')

lemma replace_loop_trailer: "twTrailer (poWriter (replace_loop enc mods es eos tw)) = twTrailer tw"
  by (induction enc mods es eos tw rule: replace_loop.induct)
    (auto split: prod.split option.split dest: modify_trailer' write_entry_trailer' simp: modify_rest_trailer)

text \<open>The entries no modifier is for.\<close>

definition modifier_ok :: "string set \<Rightarrow> string \<times> modifier \<Rightarrow> bool" where
  "modifier_ok N e \<longleftrightarrow>
     fst e \<in> N \<and>
     (\<forall>orig c h d. snd e (fst e) orig c = Inr (Some h, d) \<longrightarrow> hName h = [] \<or> hName h \<in> N)"

abbreviation foreign :: "string set \<Rightarrow> (tarHeader \<times> 'a) list \<Rightarrow> (tarHeader \<times> 'a) list" where
  "foreign N \<equiv> filter (\<lambda>e. hName (fst e) \<notin> N)"

lemma WriteHeader_None:
  assumes "WriteHeader enc h tw = (None, tw')"
  shows "twLeft tw = 0 \<and> tw' = tw\<lparr>twEntries := twEntries tw @ [(h\<lparr>hTypeflag := written_type h\<rparr>, [])],
    twLeft := (if header_only (written_type h) then 0 else unat (hSize h))\<rparr>"
  using assms by (auto simp: WriteHeader_def split: if_splits option.splits)

lemma modify_foreign:
  assumes "modifier_ok N (n, m)" and "modify enc n orig m c tw = (None, tw')" and "twLeft tw = 0"
  shows "foreign N (twEntries tw') = foreign N (twEntries tw) \<and> twLeft tw' = 0"
proof (cases "m n orig c")
  case (Inr r)
  obtain ho d where r: "r = (ho, d)" by (cases r)
  show ?thesis
  proof (cases ho)
    case (Some h0)
    let ?h1 = "if hName h0 = [] then h0\<lparr>hName := n\<rparr> else h0"
    let ?h = "?h1\<lparr>hSize := of_nat (length d)\<rparr>"
    have name: "hName ?h \<in> N"
      using assms(1) Inr r Some by (auto simp: modifier_ok_def)
    obtain tw1 where w: "WriteHeader enc ?h tw = (None, tw1)"
      and rest: "(if length d \<noteq> 0 then tar_Write d tw1 else (None, tw1)) = (None, tw')"
      using assms(2) Inr r Some by (cases "WriteHeader enc ?h tw") (auto simp: modify_def Let_def split: option.splits)
    have sz: "unat (of_nat (length d) :: 64 word) \<le> length d" by (simp add: unat_of_nat)
    show ?thesis
      using WriteHeader_None [OF w] rest name sz
      by (auto simp: tar_Write_def Let_def split: if_splits)
  qed (use assms(2,3) Inr r in \<open>simp add: modify_def\<close>)
qed (use assms in \<open>simp add: modify_def\<close>)

lemma modify_rest_foreign:
  "(\<And>e. e \<in> set mods \<Longrightarrow> modifier_ok N e) \<Longrightarrow> twLeft tw = 0 \<Longrightarrow>
    poErr (modify_rest enc mods tw) = None \<Longrightarrow>
    foreign N (twEntries (poWriter (modify_rest enc mods tw))) = foreign N (twEntries tw)"
proof (induction enc mods tw rule: modify_rest.induct)
  case (2 enc name m mods tw)
  obtain r tw' where m: "modify enc name None m None tw = (r, tw')" by (cases "modify enc name None m None tw")
  with 2 have r: "r = None" by (auto split: option.splits)
  have "modifier_ok N (name, m)" using 2(2) by simp
  from modify_foreign [OF this m [unfolded r] 2(3)] 2 m r show ?case by simp
qed simp

lemma replace_loop_foreign:
  "(\<And>e. e \<in> set mods \<Longrightarrow> modifier_ok N e) \<Longrightarrow> (\<And>e. e \<in> set es \<Longrightarrow> entry_ok enc e) \<Longrightarrow> fst ` set mods \<subseteq> N \<Longrightarrow>
    twLeft tw = 0 \<Longrightarrow> poErr (replace_loop enc mods es eos tw) = None \<Longrightarrow>
    foreign N (twEntries (poWriter (replace_loop enc mods es eos tw))) =
      foreign N (twEntries tw) @ map (\<lambda>e. (fst e, bData (snd e))) (foreign N es)"
proof (induction es arbitrary: mods tw)
  case Nil
  then show ?case using modify_rest_foreign [of mods N tw enc] by (simp split: option.splits)
next
  case (Cons e es)
  obtain hdr b where e: "e = (hdr, b)" by (cases e)
  show ?case
  proof (cases "map_of mods (hName hdr)")
    case None
    have "entry_ok enc (hdr, b)" using Cons.prems(2) [of e] by (simp add: e)
    note w = write_entry_ok [OF this Cons.prems(4)]
    show ?thesis
      using Cons.IH [of mods "tw\<lparr>twEntries := twEntries tw @ [(hdr, bData b)]\<rparr>"] Cons.prems None
      by (simp add: e w)
  next
    case (Some m)
    then have mem: "(hName hdr, m) \<in> set mods" by (rule map_of_SomeD)
    obtain r tw' where m: "modify enc (hName hdr) (Some hdr) m (Some b) tw = (r, tw')"
      by (cases "modify enc (hName hdr) (Some hdr) m (Some b) tw")
    with Cons.prems(5) Some have r: "r = None" by (auto simp: e split: option.splits)
    note f = modify_foreign [OF Cons.prems(1) [OF mem] m [unfolded r] Cons.prems(4)]
    have "hName hdr \<in> N" using Cons.prems(3) mem by force
    moreover have "foreign N (twEntries (poWriter (replace_loop enc (filter (\<lambda>e. fst e \<noteq> hName hdr) mods) es eos tw'))) =
        foreign N (twEntries tw') @ map (\<lambda>e. (fst e, bData (snd e))) (foreign N es)"
      by (rule Cons.IH) (use Cons.prems Some m r f in \<open>auto simp: e\<close>)
    ultimately show ?thesis using f m r Some by (simp add: e)
  qed
qed


section \<open>Generating\<close>

lemma generate_loop_entries:
  "generate_loop enc fs tw = Inr tw' \<Longrightarrow>
     map (\<lambda>e. (hName (fst e), snd e)) (twEntries tw') =
       map (\<lambda>e. (hName (fst e), snd e)) (twEntries tw) @ fs \<and> twTrailer tw'"
proof (induction fs arbitrary: tw)
  case (Cons f fs)
  obtain n c where f: "f = (n, c)" by (cases f)
  let ?h = "zeroHeader\<lparr>hName := n, hSize := of_nat (length c)\<rparr>"
  obtain tw1 where w: "WriteHeader enc ?h tw = (None, tw1)"
    using Cons.prems by (cases "WriteHeader enc ?h tw") (auto simp: f Let_def split: option.splits)
  obtain tw2 where d: "tar_Write c tw1 = (None, tw2)" and rest: "generate_loop enc fs tw2 = Inr tw'"
    using Cons.prems by (cases "tar_Write c tw1") (auto simp: f Let_def w split: option.splits)
  have "twEntries tw2 = twEntries tw @ [(?h\<lparr>hTypeflag := written_type ?h\<rparr>, c)]"
    using WriteHeader_None [OF w] d by (auto simp: tar_Write_def Let_def split: if_splits)
  with Cons.IH [OF rest] show ?case by (simp add: f)
qed (auto simp: tar_Close_def split: if_splits)

section \<open>The properties\<close>

text \<open>
  C15: \<open>ReplaceFileTarWrapper\<close> leaves every entry alone that no modifier names: without an
  error, those entries come out with their headers and contents, in their order, whatever the
  modifiers do under their own names.
\<close>

theorem ReplaceFileTarWrapper_keeps:
  assumes "\<And>e. e \<in> set mods \<Longrightarrow> modifier_ok (fst ` set mods) e"
    and "\<And>e. e \<in> set (tsEntries inp) \<Longrightarrow> entry_ok enc e"
    and "poErr (ReplaceFileTarWrapper enc inp mods) = None"
  shows "filter (\<lambda>e. hName (fst e) \<notin> fst ` set mods) (twEntries (poWriter (ReplaceFileTarWrapper enc inp mods))) =
    map (\<lambda>e. (fst e, bData (snd e))) (filter (\<lambda>e. hName (fst e) \<notin> fst ` set mods) (tsEntries inp))"
  using replace_loop_foreign [of mods "fst ` set mods" "tsEntries inp" enc newTarWriter "tsEnd inp"] assms
  by (simp add: ReplaceFileTarWrapper_def newTarWriter_def)

definition sample_mods :: "(string \<times> modifier) list" where
  "sample_mods =
     [(''b'', \<lambda>name orig c. Inr (Some (sample_hdr TypeReg [] []), ''new'')),
      (''z'', \<lambda>name orig c. Inr (if orig = None then Some (sample_hdr TypeReg ''z'' []) else None, ''zz''))]"

definition sample_stream :: tarStream where
  "sample_stream =
     \<lparr>tsEntries = [entry TypeReg ''a'' [] ''1'', entry TypeReg ''b'' [] ''22'', entry TypeDir ''c/'' [] []],
      tsEnd = None\<rparr>"

theorem ReplaceFileTarWrapper_keeps_witness:
  "map (\<lambda>e. (hName (fst e), snd e))
     (filter (\<lambda>e. hName (fst e) \<notin> {''b'', ''z''})
       (twEntries (poWriter (ReplaceFileTarWrapper (\<lambda>_. None) sample_stream sample_mods)))) =
   [(''a'', ''1''), (''c/'', [])]"
proof -
  have names: "fst ` set sample_mods = {''b'', ''z''}" by (simp add: sample_mods_def)
  have "filter (\<lambda>e. hName (fst e) \<notin> fst ` set sample_mods)
      (twEntries (poWriter (ReplaceFileTarWrapper (\<lambda>_. None) sample_stream sample_mods))) =
    map (\<lambda>e. (fst e, bData (snd e))) (filter (\<lambda>e. hName (fst e) \<notin> fst ` set sample_mods) (tsEntries sample_stream))"
  proof (rule ReplaceFileTarWrapper_keeps)
    show "modifier_ok (fst ` set sample_mods) e" if "e \<in> set sample_mods" for e
      using that unfolding names by (auto simp: sample_mods_def modifier_ok_def sample_hdr_def split: if_splits)
    have "list_all (entry_ok (\<lambda>_. None)) (tsEntries sample_stream)" by code_simp
    then show "entry_ok (\<lambda>_. None) e" if "e \<in> set (tsEntries sample_stream)" for e
      using that by (simp add: list_all_iff)
    show "poErr (ReplaceFileTarWrapper (\<lambda>_. None) sample_stream sample_mods) = None" by code_simp
  qed
  then show ?thesis unfolding names by (simp add: sample_stream_def entry_def sample_hdr_def)
qed


text \<open>
  C16: \<open>RebaseArchiveEntries\<close> renames entries, and the targets of hard links with them, and
  changes nothing else: one entry for each, in order, with its content, and a complete archive.
\<close>

theorem RebaseArchiveEntries_renames:
  assumes "\<And>e. e \<in> set (tsEntries inp) \<Longrightarrow> entry_ok enc (rebase_header oldB newB (fst e), snd e)"
    and "tsEnd inp = None"
  shows "RebaseArchiveEntries enc inp oldB newB =
    \<lparr>poWriter = \<lparr>twEntries = map (\<lambda>e. ((fst e)\<lparr>hName := newNameRebaser oldB newB (hName (fst e)),
                     hLinkname := (if hTypeflag (fst e) = TypeLink
                                   then newNameRebaser oldB newB (hLinkname (fst e))
                                   else hLinkname (fst e))\<rparr>, bData (snd e))) (tsEntries inp),
                  twLeft = 0, twTrailer = True\<rparr>, poErr = None\<rparr>"
  using rebase_loop_ok [of "tsEntries inp" enc oldB newB newTarWriter] assms
  by (simp add: RebaseArchiveEntries_def newTarWriter_def rebase_header_def Let_def)

theorem RebaseArchiveEntries_renames_witness:
  "map (\<lambda>e. hName (fst e)) (twEntries (poWriter (RebaseArchiveEntries (\<lambda>_. None) sample_stream ''c'' ''d/''))) =
     [''a'', ''b'', ''d/'']"
proof -
  have "list_all (\<lambda>e. entry_ok (\<lambda>_. None) (rebase_header ''c'' ''d/'' (fst e), snd e)) (tsEntries sample_stream)"
    by code_simp
  then have "RebaseArchiveEntries (\<lambda>_. None) sample_stream ''c'' ''d/'' =
    \<lparr>poWriter = \<lparr>twEntries = map (\<lambda>e. ((fst e)\<lparr>hName := newNameRebaser ''c'' ''d/'' (hName (fst e)),
                     hLinkname := (if hTypeflag (fst e) = TypeLink
                                   then newNameRebaser ''c'' ''d/'' (hLinkname (fst e))
                                   else hLinkname (fst e))\<rparr>, bData (snd e))) (tsEntries sample_stream),
                  twLeft = 0, twTrailer = True\<rparr>, poErr = None\<rparr>"
    by (intro RebaseArchiveEntries_renames) (auto simp: list_all_iff sample_stream_def)
  moreover have "map (\<lambda>e. newNameRebaser ''c'' ''d/'' (hName (fst e))) (tsEntries sample_stream) = [''a'', ''b'', ''d/'']"
    by code_simp
  ultimately show ?thesis by (simp add: comp_def)
qed

text \<open>
  C17: the rebaser moves exactly the names that are the old base or lie below it (\<open>foobar\<close> is
  not below \<open>foo\<close>), keeps the rest of the name, and the opposite rebaser takes it back.
\<close>

theorem newNameRebaser_roundtrip:
  assumes "oldB \<noteq> []" and "newB \<noteq> []" and "\<not> HasSuffix oldB [slash]" and "\<not> HasSuffix newB [slash]"
  shows "(if under oldB name
          then under newB (newNameRebaser oldB newB name) \<and>
               drop (length newB) (newNameRebaser oldB newB name) = drop (length oldB) name \<and>
               newNameRebaser newB oldB (newNameRebaser oldB newB name) = name
          else newNameRebaser oldB newB name = name)"
proof (cases "under oldB name")
  case True
  then obtain suf where n: "name = oldB @ suf" and s: "suf = [] \<or> HasPrefix suf [slash]"
    by (auto simp: under_def HasPrefix_def)
  then have "under newB (newB @ suf)" by (auto simp: under_def HasPrefix_def prefix_def)
  then show ?thesis using True s rebaser_under [of oldB newB suf] rebaser_under [of newB oldB suf] assms
    by (simp add: n)
next
  case False
  with rebaser_other [OF assms(1,3) False] show ?thesis by simp
qed

theorem newNameRebaser_roundtrip_witness:
  "newNameRebaser ''new'' ''foo'' (newNameRebaser ''foo'' ''new'' ''foo/x'') = ''foo/x'' \<and>
   newNameRebaser ''foo'' ''new'' ''foobar'' = ''foobar''"
  using newNameRebaser_roundtrip [of "''foo''" "''new''" "''foo/x''"]
    newNameRebaser_roundtrip [of "''foo''" "''new''" "''foobar''"]
  by (simp add: under_def HasSuffix_def)

text \<open>
  \<open>Generate\<close>, when it succeeds, has written a complete archive with one entry for each
  pair of its arguments, in order, with its name and content.
\<close>

theorem Generate_pairs:
  assumes "Generate enc input = Inr tw"
  shows "map (\<lambda>e. (hName (fst e), snd e)) (twEntries tw) = parseStringPairs input \<and> twTrailer tw"
  using generate_loop_entries [OF assms [unfolded Generate_def]] by (simp add: newTarWriter_def)

theorem Generate_pairs_witness:
  "\<exists>tw :: tarWriter. map (\<lambda>e. (hName (fst e), snd e)) (twEntries tw) = [(''f'', ''data''), (''empty'', [])] \<and> twTrailer tw"
proof -
  obtain tw where g: "Generate (\<lambda>_. None) [''f'', ''data'', ''empty''] = Inr tw"
  proof (cases "Generate (\<lambda>_. None) [''f'', ''data'', ''empty'']")
    case (Inl e)
    moreover have "isl (Generate (\<lambda>_. None) [''f'', ''data'', ''empty'']) = False" by code_simp
    ultimately show ?thesis by simp
  qed
  from Generate_pairs [OF g] show ?thesis by (intro exI [of _ tw]) simp
qed

end
