(* ===== verification/CopyPaths.thy ===== *)
theory CopyPaths
  imports Streams
begin

text \<open>
  \<open>copy.go\<close>: preparing a copy between two paths. The pure path functions, the resolution of
  the source and the destination path, and \<open>PrepareArchiveCopy\<close>, for Unix (\<open>copy_unix.go\<close>).
  \<open>filepath.EvalSymlinks\<close> is modelled on components: \<open>rooted\<close> says whether the path found so far
  starts at \<open>/\<close>, \<open>dest\<close> lists its components.
\<close>

section \<open>Path functions\<close>

definition ErrNotDirectory :: goerror where "ErrNotDirectory = ErrMsg ''not a directory'' []"
definition ErrDirNotExists :: goerror where "ErrDirNotExists = ErrMsg ''no such directory'' []"
definition ErrCannotCopyDir :: goerror where "ErrCannotCopyDir = ErrMsg ''cannot copy directory'' []"

definition normalizePath :: "string \<Rightarrow> string" where
  "normalizePath path = path"

definition hasTrailingPathSeparator :: "string \<Rightarrow> bool" where
  "hasTrailingPathSeparator path \<longleftrightarrow> length path > 0 \<and> path ! (length path - 1) = slash"

definition specifiesCurrentDir :: "string \<Rightarrow> bool" where
  "specifiesCurrentDir path \<longleftrightarrow> Base path = dot"

definition assertsDirectory :: "string \<Rightarrow> bool" where
  "assertsDirectory path \<longleftrightarrow> hasTrailingPathSeparator path \<or> specifiesCurrentDir path"

definition PreserveTrailingDotOrSeparator :: "string \<Rightarrow> string \<Rightarrow> string" where
  "PreserveTrailingDotOrSeparator cleanedPath0 originalPath0 =
     (let cleanedPath1 = normalizePath cleanedPath0;
          originalPath = normalizePath originalPath0;
          cleanedPath2 =
            (if \<not> specifiesCurrentDir cleanedPath1 \<and> specifiesCurrentDir originalPath
             then (if \<not> hasTrailingPathSeparator cleanedPath1 then cleanedPath1 @ [slash]
                   else cleanedPath1) @ dot
             else cleanedPath1)
      in if \<not> hasTrailingPathSeparator cleanedPath2 \<and> hasTrailingPathSeparator originalPath
         then cleanedPath2 @ [slash] else cleanedPath2)"

definition SplitPathDirEntry :: "string \<Rightarrow> string \<times> string" where
  "SplitPathDirEntry path =
     (let cleanedPath0 = Clean (FromSlash path);
          cleanedPath = (if specifiesCurrentDir path then cleanedPath0 @ [slash] @ dot else cleanedPath0)
      in (Dir cleanedPath, Base cleanedPath))"

definition GetRebaseName :: "string \<Rightarrow> string \<Rightarrow> string \<times> string" where
  "GetRebaseName path resolvedPath0 =
     (let resolvedPath1 =
            (if specifiesCurrentDir path \<and> \<not> specifiesCurrentDir resolvedPath0
             then resolvedPath0 @ [slash] @ dot else resolvedPath0);
          resolvedPath2 =
            (if hasTrailingPathSeparator path \<and> \<not> hasTrailingPathSeparator resolvedPath1
             then resolvedPath1 @ [slash] else resolvedPath1)
      in (resolvedPath2, if Base path \<noteq> Base resolvedPath2 then Base path else []))"

section \<open>filepath.EvalSymlinks\<close>

definition dest_path :: "bool \<Rightarrow> string list \<Rightarrow> string" where
  "dest_path rooted ds = (if rooted then [slash] else []) @ join_slash ds"

text \<open>\<open>..\<close> takes the last component off unless there is none before it, or it is \<open>..\<close> itself.\<close>

function eval_loop :: "host \<Rightarrow> fsys \<Rightarrow> nat \<Rightarrow> bool \<Rightarrow> string list \<Rightarrow> string list \<Rightarrow> goerror + string" where
  "eval_loop h s n rooted dest [] = Inr (Clean (dest_path rooted dest))"
| "eval_loop h s n rooted dest (c # cs) =
     (if c = [] \<or> c = dot then eval_loop h s n rooted dest cs
      else if c = dotdot then
        (if length dest \<le> 1 \<or> last dest = dotdot then eval_loop h s n rooted (dest @ [dotdot]) cs
         else eval_loop h s n rooted (butlast dest) cs)
      else
        (case fst (os_Lstat h (dest_path rooted (dest @ [c])) s) of
           Inl err \<Rightarrow> Inl err
         | Inr fi \<Rightarrow>
             (if \<not> fi_is_symlink fi then
                (if \<not> fi_is_dir fi \<and> cs \<noteq> [] then Inl (Errno ENOTDIR)
                 else eval_loop h s n rooted (dest @ [c]) cs)
              else if 255 \<le> n then Inl (ErrMsg ''EvalSymlinks: too many links'' [])
              else
                (case fst (os_Readlink h (dest_path rooted (dest @ [c])) s) of
                   Inl err \<Rightarrow> Inl err
                 | Inr link \<Rightarrow>
                     (if IsAbs link then eval_loop h s (Suc n) True [] (split_slash link @ cs)
                      else eval_loop h s (Suc n) rooted dest (split_slash link @ cs))))))"
  by pat_completeness auto
termination
  by (relation "measures [\<lambda>(h, s, n, r, d, cs). 255 - n, \<lambda>(h, s, n, r, d, cs). length cs]") auto

declare eval_loop.simps(2) [simp del]

definition EvalSymlinks :: "host \<Rightarrow> string \<Rightarrow> fsys \<Rightarrow> goerror + string" where
  "EvalSymlinks h path s = eval_loop h s 0 (IsAbs path) [] (split_slash path)"

section \<open>The source\<close>

record CopyInfo =
  ciPath :: string
  ciExists :: bool
  ciIsDir :: bool
  ciRebaseName :: string

definition ResolveHostSourcePath :: "host \<Rightarrow> string \<Rightarrow> bool \<Rightarrow> fsys \<Rightarrow> goerror + string \<times> string" where
  "ResolveHostSourcePath h path followLink s =
     (if followLink
      then
        (case EvalSymlinks h path s of
           Inl err \<Rightarrow> Inl err
         | Inr resolvedPath \<Rightarrow> Inr (GetRebaseName path resolvedPath))
      else
        (let dirPath = SplitDir path; basePath = SplitFile path
         in case EvalSymlinks h dirPath s of
              Inl err \<Rightarrow> Inl err
            | Inr resolvedDirPath \<Rightarrow>
                (let resolvedPath = resolvedDirPath @ [slash] @ basePath
                 in Inr (resolvedPath,
                      if hasTrailingPathSeparator path \<and> Base path \<noteq> Base resolvedPath
                      then Base path else []))))"

definition CopyInfoSourcePath :: "host \<Rightarrow> string \<Rightarrow> bool \<Rightarrow> fsys \<Rightarrow> goerror + CopyInfo" where
  "CopyInfoSourcePath h path0 followLink s =
     (let path = normalizePath path0
      in case ResolveHostSourcePath h path followLink s of
           Inl err \<Rightarrow> Inl err
         | Inr (resolvedPath, rebaseName) \<Rightarrow>
             (case fst (os_Lstat h resolvedPath s) of
                Inl err \<Rightarrow> Inl err
              | Inr stat \<Rightarrow>
                  Inr \<lparr>ciPath = resolvedPath, ciExists = True, ciIsDir = fi_is_dir stat,
                       ciRebaseName = rebaseName\<rparr>))"

section \<open>The destination\<close>

definition maxSymlinkIter :: nat where
  "maxSymlinkIter = 10"

text \<open>
  The loop over symlinks: it ends with a path and what \<open>os.Lstat\<close> says of it (no symlink), or
  with an error of its own.
\<close>

function follow_loop ::
  "host \<Rightarrow> fsys \<Rightarrow> string \<Rightarrow> nat \<Rightarrow> string \<Rightarrow> goerror + string \<times> (goerror + FileInfo)" where
  "follow_loop h s originalPath n path =
     (case fst (os_Lstat h path s) of
        Inl err \<Rightarrow> Inr (path, Inl err)
      | Inr stat \<Rightarrow>
          (if \<not> fi_is_symlink stat then Inr (path, Inr stat)
           else if maxSymlinkIter < n then Inl (ErrMsg ''too many symlinks in '' [originalPath])
           else
             (case fst (os_Readlink h path s) of
                Inl err \<Rightarrow> Inl err
              | Inr linkTarget \<Rightarrow>
                  follow_loop h s originalPath (Suc n)
                    (if IsAbs linkTarget then linkTarget
                     else Join [fst (SplitPathDirEntry path), linkTarget]))))"
  by pat_completeness auto
termination
  by (relation "measure (\<lambda>(h, s, orig, n, p). Suc maxSymlinkIter - n)") auto

declare follow_loop.simps [simp del]

definition CopyInfoDestinationPath :: "host \<Rightarrow> string \<Rightarrow> fsys \<Rightarrow> goerror + CopyInfo" where
  "CopyInfoDestinationPath h path0 s =
     (let path = normalizePath path0
      in case follow_loop h s path 0 path of
           Inl err \<Rightarrow> Inl err
         | Inr (path', Inr stat) \<Rightarrow>
             Inr \<lparr>ciPath = path', ciExists = True, ciIsDir = fi_is_dir stat, ciRebaseName = []\<rparr>
         | Inr (path', Inl err) \<Rightarrow>
             (if \<not> is_not_exist err then Inl err
              else
                (case fst (os_Stat h (fst (SplitPathDirEntry path')) s) of
                   Inl err \<Rightarrow> Inl err
                 | Inr parentDirStat \<Rightarrow>
                     if \<not> fi_is_dir parentDirStat then Inl ErrNotDirectory
                     else Inr \<lparr>ciPath = path', ciExists = False, ciIsDir = False, ciRebaseName = []\<rparr>)))"

section \<open>Preparing the archive\<close>

text \<open>
  The content is handed on as it is, or rebased: \<open>rebase\<close> is \<open>RebaseArchiveEntries\<close>, on streams of
  entries (\<open>rebased\<close>) or on the bytes of an archive.
\<close>

definition rebased :: "encoder \<Rightarrow> tarStream \<Rightarrow> string \<Rightarrow> string \<Rightarrow> tarStream" where
  "rebased enc srcContent oldBase newBase = out_stream (RebaseArchiveEntries enc srcContent oldBase newBase)"

definition PrepareArchiveCopy ::
  "('c \<Rightarrow> string \<Rightarrow> string \<Rightarrow> 'c) \<Rightarrow> 'c \<Rightarrow> CopyInfo \<Rightarrow> CopyInfo \<Rightarrow> goerror + string \<times> 'c" where
  "PrepareArchiveCopy rebase srcContent srcInfo dstInfo =
     (let dstPath = normalizePath (ciPath dstInfo);
          (dstDir, dstBase) = SplitPathDirEntry dstPath;
          srcBase0 = snd (SplitPathDirEntry (normalizePath (ciPath srcInfo)));
          srcBase = (if length (ciRebaseName srcInfo) \<noteq> 0 then ciRebaseName srcInfo else srcBase0)
      in if ciExists dstInfo \<and> ciIsDir dstInfo then Inr (dstPath, srcContent)
         else if ciExists dstInfo \<and> ciIsDir srcInfo then Inl ErrCannotCopyDir
         else if ciExists dstInfo then Inr (dstDir, rebase srcContent srcBase dstBase)
         else if ciIsDir srcInfo then Inr (dstDir, rebase srcContent srcBase dstBase)
         else if assertsDirectory dstPath then Inl ErrDirNotExists
         else Inr (dstDir, rebase srcContent srcBase dstBase))"

definition copyToOptions :: "IdentityMapping \<Rightarrow> TarOptions" where
  "copyToOptions m = (zeroTarOptions m)\<lparr>oNoLchown := True, oNoOverwriteDirNonDir := True\<rparr>"

definition TarResourceRebaseOpts :: "IdentityMapping \<Rightarrow> string \<Rightarrow> string \<Rightarrow> TarOptions" where
  "TarResourceRebaseOpts m sourceBase rebaseName =
     (zeroTarOptions m)\<lparr>oIncludeFiles := [sourceBase], oIncludeSourceDir := True,
        oRebaseNames := [(sourceBase, rebaseName)]\<rparr>"


section \<open>Splitting a path\<close>

lemma clean_stack_append: "clean_stack r st (xs @ ys) = clean_stack r (clean_stack r st xs) ys"
  by (induction r st xs rule: clean_stack.induct) auto

lemma clean_stack_skip: "c = [] \<or> c = dot \<Longrightarrow> clean_stack r st (xs @ [c]) = clean_stack r st xs"
  by (auto simp: clean_stack_append)

lemma Clean_ne [simp]: "Clean s \<noteq> []"
proof -
  have "list_all is_comp (clean_comps s)" using clean_form_is_comp [OF clean_comps_form] .
  then show ?thesis by (auto simp: Clean_render render_def join_slash_eq_Nil)
qed

lemma Clean_snoc:
  assumes "slash \<notin> set c"
  shows "s \<noteq> [] \<Longrightarrow> Clean (s @ slash # c) = render (IsAbs s) (clean_stack (IsAbs s) (clean_comps s) [c])"
proof -
  assume s: "s \<noteq> []"
  have "split_slash (s @ slash # c) = split_slash s @ [c]"
    using split_slash_append_gen [of s c] assms by (simp add: split_slash_nosep)
  moreover have "IsAbs (s @ slash # c) = IsAbs s" using s by (cases s) auto
  ultimately show ?thesis by (simp add: Clean_def clean_comps_def clean_stack_append)
qed

lemma Clean_slash: "Clean (Clean s @ [slash]) = Clean s"
  using Clean_snoc [of "[]" "Clean s"] by (simp add: clean_comps_Clean flip: Clean_render)

lemma Clean_slash_dot: "Clean (Clean s @ slash # dot) = Clean s"
  using Clean_snoc [of dot "Clean s"] by (simp add: clean_comps_Clean flip: Clean_render)

lemma Base_noslash_last:
  assumes "slash \<notin> set b" and "b \<noteq> []"
  shows "Base (p @ slash # b) = b" and "Base b = b"
proof -
  have l: "last b \<noteq> slash" using assms last_in_set by metis
  have t1: "TrimRight (p @ slash # b) slash = p @ slash # b"
    by (rule TrimRight_id) (use assms l in \<open>simp_all\<close>)
  have t2: "TrimRight b slash = b" by (rule TrimRight_id) (use assms l in \<open>simp_all\<close>)
  show "Base (p @ slash # b) = b"
    by (simp add: Base_def Let_def t1 split_append_slash [OF assms(1)])
  show "Base b = b"
    using assms(2) by (simp add: Base_def Let_def t2 split_no_slash [OF assms(1)])
qed

lemma render_snoc:
  "render r (ds @ [b]) = (if ds = [] then (if r then slash # b else b) else render r ds @ slash # b)"
  by (simp add: render_def join_slash_append)

lemma Clean_ds:
  assumes "clean_form r ds" and "ds \<noteq> []"
  shows "Clean (render r ds @ [slash]) = render r ds"
  using Clean_slash [of "render r ds"] by (simp add: Clean_fixed [OF assms(1)])

lemma clean_form_init:
  assumes "clean_form r (ds @ [b])"
  shows "clean_form r ds"
proof -
  obtain n ns where e: "ds @ [b] = replicate n dotdot @ ns" "list_all is_name ns" "r \<longrightarrow> n = 0"
    using assms by (auto simp: clean_form_def)
  show ?thesis
  proof (cases ns rule: rev_cases)
    case Nil
    then have "ds @ [b] = replicate n dotdot" using e(1) by simp
    then have "ds = replicate (n - 1) dotdot"
      by (cases n) (auto simp: replicate_append_same [symmetric] simp del: replicate_append_same)
    then show ?thesis using e(3) by (auto simp: clean_form_def intro: exI [of _ "n - 1"])
  next
    case (snoc ms m)
    then show ?thesis using e by (auto simp: clean_form_def)
  qed
qed

text \<open>The directory and the base of a clean path are its parts.\<close>

lemma Dir_Base_render:
  assumes "clean_form r (ds @ [b])"
  shows "Dir (render r (ds @ [b])) = render r ds \<and> Base (render r (ds @ [b])) = b \<and>
    Join [render r ds, b] = render r (ds @ [b])"
proof -
  have b: "b \<noteq> []" "slash \<notin> set b" using clean_form_is_comp [OF assms] by (auto simp: is_comp_def)
  have ds: "clean_form r ds" by (rule clean_form_init [OF assms])
  have dir: "Dir (render r (ds @ [b])) = render r ds"
  proof (cases "ds = []")
    case True
    have "Clean [] = dot" "Clean [slash] = [slash]" by code_simp+
    then show ?thesis using True split_append_slash [OF b(2), of "[]"] split_no_slash [OF b(2)]
      by (simp add: Dir_def render_def)
  next
    case False
    then show ?thesis using split_append_slash [OF b(2), of "render r ds"] Clean_ds [OF ds False]
      by (simp add: Dir_def render_snoc)
  qed
  have base: "Base (render r (ds @ [b])) = b"
    using Base_noslash_last [OF b(2,1)] Base_noslash_last(1) [OF b(2,1), of "[]"] by (simp add: render_snoc)
  have ne: "render r ds \<noteq> []"
    using clean_form_is_comp [OF ds] by (auto simp: render_def join_slash_eq_Nil)
  have "clean_stack r ds [b] = ds @ [b]"
    using clean_stack_fixpoint [OF assms] clean_stack_fixpoint [OF ds] clean_stack_append [of r "[]" ds "[b]"]
    by simp
  then have "Join [render r ds, b] = render r (ds @ [b])"
    using Clean_snoc [OF b(2) ne] b(1) ne clean_comps_render [OF ds]
    by (simp add: Join_def IsAbs_render [OF clean_form_is_comp [OF ds]])
  with dir base show ?thesis by blast
qed

lemma Join_Dir_Base: "Join [Dir (Clean p), Base (Clean p)] = Clean p"
proof (cases "clean_comps p" rule: rev_cases)
  case Nil
  then have "Clean p = [slash] \<or> Clean p = dot" by (auto simp: Clean_render render_def)
  moreover have "Join [Dir [slash], Base [slash]] = [slash]" "Join [Dir dot, Base dot] = dot" by code_simp+
  ultimately show ?thesis by auto
next
  case (snoc ds b)
  then have "clean_form (IsAbs p) (ds @ [b])" using clean_comps_form [of p] by simp
  from Dir_Base_render [OF this] show ?thesis by (simp add: Clean_render [of p] snoc)
qed

lemma SplitPathDirEntry_dot:
  "specifiesCurrentDir path \<Longrightarrow> SplitPathDirEntry path = (Clean path, dot)"
  using split_append_slash [of dot "Clean path"] Base_noslash_last(1) [of dot "Clean path"]
    Clean_slash [of path]
  by (simp add: SplitPathDirEntry_def FromSlash_def Let_def Dir_def)

lemma SplitPathDirEntry_name:
  "\<not> specifiesCurrentDir path \<Longrightarrow> SplitPathDirEntry path = (Dir (Clean path), Base (Clean path))"
  by (simp add: SplitPathDirEntry_def FromSlash_def Let_def)

lemma Join_split: "Join [fst (SplitPathDirEntry path), snd (SplitPathDirEntry path)] = Clean path"
proof (cases "specifiesCurrentDir path")
  case True
  then show ?thesis using Clean_slash_dot [of path]
    by (simp add: SplitPathDirEntry_dot Join_def)
next
  case False
  then show ?thesis by (simp add: SplitPathDirEntry_name Join_Dir_Base)
qed

section \<open>Asserting a directory\<close>

lemma hasTrailing_snoc [simp]: "hasTrailingPathSeparator (p @ [slash])"
  by (simp add: hasTrailingPathSeparator_def)

lemma specifies_dot: "specifiesCurrentDir (p @ slash # dot)"
  by (simp add: specifiesCurrentDir_def Base_noslash_last)

lemma specifies_trailing_dot:
  assumes "hasTrailingPathSeparator p"
  shows "specifiesCurrentDir (p @ dot)"
proof -
  obtain q where "p = q @ [slash]"
    using assms by (cases p rule: rev_cases) (auto simp: hasTrailingPathSeparator_def)
  then show ?thesis using specifies_dot [of q] by simp
qed

lemma assertsDirectory_Preserve:
  "assertsDirectory (PreserveTrailingDotOrSeparator c p) \<longleftrightarrow> assertsDirectory c \<or> assertsDirectory p"
  using specifies_trailing_dot [of c] specifies_dot [of c]
  by (auto simp: PreserveTrailingDotOrSeparator_def assertsDirectory_def normalizePath_def Let_def)

section \<open>The properties\<close>

text \<open>
  \<open>SplitPathDirEntry\<close> loses nothing: joining its two results gives the cleaned path, and
  the second is \<open>.\<close> exactly when the path asks for the directory itself or cleans to it.
\<close>

theorem SplitPathDirEntry_roundtrip:
  "Join [fst (SplitPathDirEntry path), snd (SplitPathDirEntry path)] = Clean path \<and>
   (specifiesCurrentDir path \<longrightarrow> snd (SplitPathDirEntry path) = dot) \<and>
   (snd (SplitPathDirEntry path) = dot \<longrightarrow> specifiesCurrentDir path \<or> specifiesCurrentDir (Clean path))"
  using Join_split [of path]
  by (cases "specifiesCurrentDir path")
    (simp_all add: SplitPathDirEntry_dot SplitPathDirEntry_name specifiesCurrentDir_def [of "Clean path"])

theorem SplitPathDirEntry_roundtrip_witness:
  "snd (SplitPathDirEntry ''/a/b/../c/.'') = dot"
proof -
  have "specifiesCurrentDir ''/a/b/../c/.''" by code_simp
  then show ?thesis using SplitPathDirEntry_roundtrip [of "''/a/b/../c/.''"] by blast
qed

text \<open>
  Cleaning a path and putting its trailing \<open>/\<close> or \<open>/.\<close> back asserts a directory exactly
  when the original path or the clean one does.
\<close>

theorem PreserveTrailing_asserts:
  "assertsDirectory (PreserveTrailingDotOrSeparator (Clean path) path) \<longleftrightarrow>
     assertsDirectory (Clean path) \<or> assertsDirectory path"
  by (rule assertsDirectory_Preserve)

text \<open>
  C18: where a copy renames (the destination is no existing directory), the archive it hands on
  holds the entries of the source archive, the base of the source renamed to the base of the
  destination, and that base in the returned directory is the destination path itself.
\<close>

theorem PrepareArchiveCopy_place:
  assumes "PrepareArchiveCopy (rebased enc) src srcInfo dstInfo = Inr (dir, out)"
    and "\<not> (ciExists dstInfo \<and> ciIsDir dstInfo)" and "tsEnd src = None"
    and "sb = (if ciRebaseName srcInfo \<noteq> [] then ciRebaseName srcInfo else snd (SplitPathDirEntry (ciPath srcInfo)))"
    and "db = snd (SplitPathDirEntry (ciPath dstInfo))"
    and "\<And>e. e \<in> set (tsEntries src) \<Longrightarrow> entry_ok enc (rebase_header sb db (fst e), snd e)"
  shows "Join [dir, db] = Clean (ciPath dstInfo) \<and>
    map (\<lambda>e. (hName (fst e), bData (snd e))) (tsEntries out) =
      map (\<lambda>e. (newNameRebaser sb db (hName (fst e)), bData (snd e))) (tsEntries src) \<and> tsEnd out = None"
proof -
  obtain d b where db: "SplitPathDirEntry (ciPath dstInfo) = (d, b)" by (cases "SplitPathDirEntry (ciPath dstInfo)")
  have out: "dir = d" "out = rebased enc src sb db"
    using assms(1,2) by (auto simp: PrepareArchiveCopy_def normalizePath_def Let_def db assms(4,5) split: if_splits)
  have "out = out_stream \<lparr>poWriter = newTarWriter\<lparr>twEntries := map (\<lambda>e. (rebase_header sb db (fst e), bData (snd e))) (tsEntries src),
      twTrailer := True\<rparr>, poErr = None\<rparr>"
    using rebase_loop_ok [of "tsEntries src" enc sb db newTarWriter] assms(3,6) out(2)
    by (simp add: rebased_def RebaseArchiveEntries_def newTarWriter_def)
  then show ?thesis using Join_split [of "ciPath dstInfo"]
    by (simp add: out_stream_def out(1) assms(5) db comp_def rebase_header_def Let_def)
qed

theorem PrepareArchiveCopy_place_witness:
  "\<exists>dir out. map (\<lambda>e. (hName (fst e), bData (snd e))) (tsEntries out) = [(''f'', ''1''), (''b'', ''22''), (''c/'', [])] \<and>
     Join [dir, ''f''] = ''/dst/f'' \<and> tsEnd (out :: tarStream) = None"
proof -
  let ?si = "\<lparr>ciPath = ''/x/a'', ciExists = True, ciIsDir = False, ciRebaseName = []\<rparr>"
  let ?di = "\<lparr>ciPath = ''/dst//f'', ciExists = False, ciIsDir = False, ciRebaseName = []\<rparr>"
  have run: "PrepareArchiveCopy (rebased (\<lambda>_. None)) sample_stream ?si ?di = Inr (''/dst'', rebased (\<lambda>_. None) sample_stream ''a'' ''f'')"
    by code_simp
  have ok: "list_all (\<lambda>e. entry_ok (\<lambda>_. None) (rebase_header ''a'' ''f'' (fst e), snd e)) (tsEntries sample_stream)"
    by code_simp
  have names: "map (\<lambda>e. (newNameRebaser ''a'' ''f'' (hName (fst e)), bData (snd e))) (tsEntries sample_stream) =
      [(''f'', ''1''), (''b'', ''22''), (''c/'', [])]" by code_simp
  have base: "''a'' = snd (SplitPathDirEntry (ciPath ?si))" "''f'' = snd (SplitPathDirEntry (ciPath ?di))"
    "Clean (ciPath ?di) = ''/dst/f''" by code_simp+
  have "tsEnd sample_stream = None" by (simp add: sample_stream_def)
  from PrepareArchiveCopy_place [OF run _ this _ base(2), of "''a''"] ok names base show ?thesis
    by (intro exI [of _ "''/dst''"] exI [of _ "rebased (\<lambda>_. None) sample_stream ''a'' ''f''"])
      (auto simp: list_all_iff)
qed

end
