(* ===== verification/Pack.thy ===== *)
theory Pack
  imports CopyPaths Layer
begin

text \<open>
  Creating archives: headers from files (\<open>tarheader\<close>, \<open>FileInfoHeader\<close>), extended attributes
  (\<open>lgetxattr\<close>, \<open>ReadSecurityXattrToTarHeader\<close>), the overlay whiteout converter on the writing
  side, \<open>tarAppender.addTarFile\<close> and \<open>Tarballer.Do\<close>. Nothing here changes the file system:
  it is the argument \<open>s\<close>.
\<close>

section \<open>Reading an extended attribute\<close>

text \<open>
  The loop of \<open>lgetxattr\<close>: while the buffer is too small, ask for the size and try again.
  \<open>k\<close> counts the calls. It need not end (the value of \<open>None\<close>) when the attribute keeps growing.
  Slicing past the buffer panics.
\<close>

definition slice_to :: "string \<Rightarrow> nat \<Rightarrow> string \<times> nat \<Rightarrow> goerror + string option" where
  "slice_to what n r =
     (if n < snd r then Inl (GoPanic ''slice bounds out of range'') else Inr (Some (fst r)))"

definition getxattr_done :: "string \<Rightarrow> string \<Rightarrow> nat \<Rightarrow> errno + string \<times> nat \<Rightarrow> goerror + string option" where
  "getxattr_done path attr n r =
     (case r of
        Inl e \<Rightarrow> if e = ENODATA then Inr None else Inl (wrapPathError ''lgetxattr'' path attr e)
      | Inr x \<Rightarrow> slice_to attr n x)"

partial_function (option) lgetxattr_loop ::
  "(nat \<Rightarrow> nat \<Rightarrow> errno + string \<times> nat) \<Rightarrow> string \<Rightarrow> string \<Rightarrow> nat \<Rightarrow> nat \<Rightarrow> errno + string \<times> nat \<Rightarrow>
     (goerror + string option) option" where
  "lgetxattr_loop call path attr k n r =
     (if r \<noteq> Inl ERANGE then Some (getxattr_done path attr n r)
      else
        (case call k 0 of
           Inl e \<Rightarrow> Some (Inl (wrapPathError ''lgetxattr'' path attr e))
         | Inr x \<Rightarrow> lgetxattr_loop call path attr (k + 2) (snd x) (call (Suc k) (snd x))))"

declare lgetxattr_loop.simps [code]

definition lgetxattr_calls ::
  "(nat \<Rightarrow> nat \<Rightarrow> errno + string \<times> nat) \<Rightarrow> string \<Rightarrow> string \<Rightarrow> (goerror + string option) option" where
  "lgetxattr_calls call path attr = lgetxattr_loop call path attr 1 128 (call 0 128)"

text \<open>Not returning is an outcome of its own here.\<close>

definition lgetxattr :: "host \<Rightarrow> string \<Rightarrow> string \<Rightarrow> fsys \<Rightarrow> goerror + string option" where
  "lgetxattr h path attr s =
     (case lgetxattr_calls (\<lambda>k n. uLgetxattr (hUnix h) k path attr n s) path attr of
        None \<Rightarrow> Inl (GoPanic ''no return'')
      | Some r \<Rightarrow> r)"

section \<open>Headers\<close>

text \<open>\<open>st_mode\<close> has the file type in its upper four bits.\<close>

definition st_ifmt :: "FileInfo \<Rightarrow> filemode" where
  "st_ifmt fi =
     (let m = fiMode fi
      in if m AND ModeDir \<noteq> 0 then 0x4000
         else if m AND ModeSymlink \<noteq> 0 then 0xA000
         else if m AND ModeCharDevice \<noteq> 0 then 0x2000
         else if m AND ModeDevice \<noteq> 0 then 0x6000
         else if m AND ModeNamedPipe \<noteq> 0 then 0x1000
         else if m AND ModeSocket \<noteq> 0 then 0xC000
         else 0x8000)"

definition sysStat :: "host \<Rightarrow> FileInfo \<Rightarrow> tarHeader \<Rightarrow> tarHeader" where
  "sysStat h fi hdr =
     (let hdr1 = hdr\<lparr>hUid := fiUid fi, hGid := fiGid fi\<rparr>
      in if st_ifmt fi AND S_IFBLK \<noteq> 0 \<or> st_ifmt fi AND S_IFCHR \<noteq> 0
         then hdr1\<lparr>hDevmajor := uint (uMajor (hUnix h) (fiRdev fi)),
                   hDevminor := uint (uMinor (hUnix h) (fiRdev fi))\<rparr>
         else hdr1)"

text \<open>\<open>tar.FileInfoHeader\<close>, for a file info that hides its system data and names.\<close>

definition tar_FileInfoHeader :: "FileInfo \<Rightarrow> string \<Rightarrow> string \<Rightarrow> goerror + tarHeader" where
  "tar_FileInfoHeader fi name link =
     (let fm = fiMode fi;
          perm = fileModeToPerm fm;
          hdr = zeroHeader\<lparr>hName := name, hModTime := fiModTime fi, hMode := ucast perm\<rparr>
      in if fm AND ModeDir \<noteq> 0 then Inr (hdr\<lparr>hTypeflag := TypeDir, hName := name @ [slash]\<rparr>)
         else if fm AND ModeSymlink \<noteq> 0 then Inr (hdr\<lparr>hTypeflag := TypeSymlink, hLinkname := link\<rparr>)
         else if fm AND ModeDevice \<noteq> 0
         then Inr (hdr\<lparr>hTypeflag := (if fm AND ModeCharDevice \<noteq> 0 then TypeChar else TypeBlock)\<rparr>)
         else if fm AND ModeNamedPipe \<noteq> 0 then Inr (hdr\<lparr>hTypeflag := TypeFifo\<rparr>)
         else if fm AND ModeSocket \<noteq> 0 then Inl (TarError ''sockets not supported'')
         else Inr (hdr\<lparr>hTypeflag := TypeReg, hSize := word_of_int (fiSize fi)\<rparr>))"

definition FileInfoHeaderNoLookups :: "host \<Rightarrow> FileInfo \<Rightarrow> string \<Rightarrow> string \<Rightarrow> goerror + tarHeader" where
  "FileInfoHeaderNoLookups h fi name link =
     (case tar_FileInfoHeader fi name link of Inl err \<Rightarrow> Inl err | Inr hdr \<Rightarrow> Inr (sysStat h fi hdr))"

definition canonicalTarName :: "string \<Rightarrow> bool \<Rightarrow> string" where
  "canonicalTarName name0 isDir =
     (let name = ToSlash name0
      in if isDir \<and> \<not> HasSuffix name [slash] then name @ [slash] else name)"

definition chmodTarEntry :: "64 word \<Rightarrow> 64 word" where
  "chmodTarEntry mode = mode"

definition FileInfoHeader :: "host \<Rightarrow> string \<Rightarrow> FileInfo \<Rightarrow> string \<Rightarrow> goerror + tarHeader" where
  "FileInfoHeader h name fi link =
     (case FileInfoHeaderNoLookups h fi [] link of
        Inl err \<Rightarrow> Inl err
      | Inr hdr \<Rightarrow>
          Inr (hdr\<lparr>hModTime := hModTime hdr div second * second,
                   hAccessTime := zero_time, hChangeTime := zero_time,
                   hMode := chmodTarEntry (hMode hdr),
                   hName := canonicalTarName name (fi_is_dir fi)\<rparr>))"

text \<open>
  The capability attribute; one of revision 3 is cut to revision 2 (re-slicing up to the
  capacity of the buffer, which is zero there, cannot fail).
\<close>

definition ReadSecurityXattrToTarHeader :: "host \<Rightarrow> string \<Rightarrow> fsys \<Rightarrow> tarHeader \<Rightarrow> goerror + tarHeader" where
  "ReadSecurityXattrToTarHeader h filePath s hdr =
     (case lgetxattr h filePath ''security.capability'' s of
        Inl (GoPanic e) \<Rightarrow> Inl (GoPanic e)
      | Inl _ \<Rightarrow> Inr hdr
      | Inr None \<Rightarrow> Inr hdr
      | Inr (Some capability) \<Rightarrow>
          (if length capability \<le> 3 then Inl (GoPanic ''index out of range'')
           else
             (let capability' =
                    (if capability ! 3 = char_of (3::nat)
                     then take 20 (capability[3 := char_of (2::nat)] @ replicate 20 (char_of (0::nat)))
                     else capability)
              in Inr (hdr\<lparr>hPAXRecords :=
                   aput (paxSchilyXattr @ ''security.capability'') capability' (hPAXRecords hdr)\<rparr>))))"

section \<open>Whiteouts on the writing side\<close>

text \<open>The result: the header to write first, perhaps changed, and the whiteout to write after it.\<close>

definition is_overlay_whiteout :: "FileInfo \<Rightarrow> tarHeader \<Rightarrow> bool" where
  "is_overlay_whiteout fi hdr \<longleftrightarrow>
     fiMode fi AND ModeCharDevice \<noteq> 0 \<and> hDevmajor hdr = 0 \<and> hDevminor hdr = 0"

definition ConvertWrite ::
  "host \<Rightarrow> string \<Rightarrow> tarHeader \<Rightarrow> string \<Rightarrow> FileInfo \<Rightarrow> fsys \<Rightarrow> goerror + tarHeader \<times> tarHeader option" where
  "ConvertWrite h opaqueXattr hdr0 filePath fi s =
     (let hdr =
            (if is_overlay_whiteout fi hdr0
             then hdr0\<lparr>hName := Join [SplitDir (hName hdr0), WhiteoutPrefix @ SplitFile (hName hdr0)],
                       hMode := 0x180, hTypeflag := TypeReg, hSize := 0\<rparr>
             else hdr0)
      in if \<not> fi_is_dir fi then Inr (hdr, None)
         else
           (case lgetxattr h filePath opaqueXattr s of
              Inl err \<Rightarrow> Inl err
            | Inr opaque \<Rightarrow>
                if opaque \<noteq> Some ''y'' then Inr (hdr, None)
                else
                  Inr (hdr\<lparr>hPAXRecords := filter (\<lambda>e. fst e \<noteq> paxSchilyXattr @ opaqueXattr) (hPAXRecords hdr)\<rparr>,
                    Some (zeroHeader\<lparr>hTypeflag := TypeReg, hMode := hMode hdr AND 0x1FF,
                      hName := Join [hName hdr, WhiteoutOpaqueDir],
                      hUid := hUid hdr, hUname := hUname hdr, hGid := hGid hdr, hGname := hGname hdr,
                      hAccessTime := hAccessTime hdr, hChangeTime := hChangeTime hdr\<rparr>))))"

section \<open>The appender\<close>

record tarAppender =
  taWriter :: tarWriter
  taSeenFiles :: "(nat \<times> string) list"
  taIdentityMapping :: IdentityMapping
  taChownOpts :: "ChownOpts option"
  taWhiteoutConverter :: "string option"

definition newTarAppender :: "IdentityMapping \<Rightarrow> ChownOpts option \<Rightarrow> tarAppender" where
  "newTarAppender idMapping chownOpts =
     \<lparr>taWriter = newTarWriter, taSeenFiles = [], taIdentityMapping = idMapping,
      taChownOpts = chownOpts, taWhiteoutConverter = None\<rparr>"

text \<open>A statement of the writer, on the appender.\<close>

definition onWriter ::
  "(tarWriter \<Rightarrow> goerror option \<times> tarWriter) \<Rightarrow> (tarAppender, goerror, unit) io" where
  "onWriter f ta =
     (case f (taWriter ta) of
        (None, tw) \<Rightarrow> (Inr (), ta\<lparr>taWriter := tw\<rparr>)
      | (Some e, tw) \<Rightarrow> (Inl e, ta\<lparr>taWriter := tw\<rparr>))"

text \<open>Hard links: the first name of an inode is remembered, later ones refer to it.\<close>

definition linkEntry :: "FileInfo \<Rightarrow> tarHeader \<Rightarrow> (tarAppender, goerror, tarHeader) io" where
  "linkEntry fi hdr ta =
     (if \<not> fi_is_dir fi \<and> fiNlink fi > 1
      then
        (case map_of (taSeenFiles ta) (fiIno fi) of
           Some oldpath \<Rightarrow> (Inr (hdr\<lparr>hTypeflag := TypeLink, hLinkname := oldpath, hSize := 0\<rparr>), ta)
         | None \<Rightarrow> (Inr hdr, ta\<lparr>taSeenFiles := aput (fiIno fi) (hName hdr) (taSeenFiles ta)\<rparr>))
      else (Inr hdr, ta))"

definition ownEntry :: "FileInfo \<Rightarrow> tarHeader \<Rightarrow> tarAppender \<Rightarrow> goerror + tarHeader" where
  "ownEntry fi hdr ta =
     (let m = taIdentityMapping ta;
          mapped =
            (if \<not> is_overlay_whiteout fi hdr \<and> \<not> HasPrefix (Base (hName hdr)) WhiteoutPrefix \<and> \<not> imEmpty m
             then
               (case imToContainer m (fiUid fi) (fiGid fi) of
                  (_, Some err) \<Rightarrow> Inl err
                | ((uid, gid), None) \<Rightarrow> Inr (hdr\<lparr>hUid := uid, hGid := gid\<rparr>))
             else Inr hdr)
      in case mapped of
           Inl err \<Rightarrow> Inl err
         | Inr hdr' \<Rightarrow>
             Inr (case taChownOpts ta of None \<Rightarrow> hdr' | Some c \<Rightarrow> hdr'\<lparr>hUid := coUID c, hGid := coGID c\<rparr>))"

text \<open>The header, and the whiteout after it where there is one; the result is what was written last.\<close>

definition writeHeaders ::
  "host \<Rightarrow> encoder \<Rightarrow> fsys \<Rightarrow> string \<Rightarrow> FileInfo \<Rightarrow> tarHeader \<Rightarrow> (tarAppender, goerror, tarHeader) io" where
  "writeHeaders h enc s srcPath fi hdr =
     bindE (readE (\<lambda>ta. case taWhiteoutConverter ta of
                           None \<Rightarrow> Inr (hdr, None)
                         | Some x \<Rightarrow> ConvertWrite h x hdr srcPath fi s)) (\<lambda>(hdr, wo).
     bindE (case wo of
              None \<Rightarrow> ret hdr
            | Some w \<Rightarrow>
                if hTypeflag hdr = TypeReg \<and> 0 <s hSize hdr
                then fail (ErrMsg ''tar: cannot use whiteout for non-empty file'' [hName hdr])
                else bindE (onWriter (WriteHeader enc hdr)) (\<lambda>_. ret w)) (\<lambda>hdr.
     bindE (onWriter (WriteHeader enc hdr)) (\<lambda>_. ret hdr)))"

definition addTarFile ::
  "host \<Rightarrow> encoder \<Rightarrow> fsys \<Rightarrow> string \<Rightarrow> string \<Rightarrow> (tarAppender, goerror, unit) io" where
  "addTarFile h enc s srcPath archivePath =
     bindE (readE (\<lambda>_. fst (os_Lstat h srcPath s))) (\<lambda>fi.
     bindE (if fi_is_symlink fi then readE (\<lambda>_. fst (os_Readlink h srcPath s)) else ret []) (\<lambda>link.
     bindE (readE (\<lambda>_. FileInfoHeader h (ToSlash archivePath) fi link)) (\<lambda>hdr0.
     bindE (readE (\<lambda>_. ReadSecurityXattrToTarHeader h srcPath s hdr0)) (\<lambda>hdr1.
     bindE (linkEntry fi hdr1) (\<lambda>hdr2.
     bindE (readE (ownEntry fi hdr2)) (\<lambda>hdr3.
     bindE (writeHeaders h enc s srcPath fi hdr3) (\<lambda>hdr.
     if hTypeflag hdr = TypeReg \<and> 0 <s hSize hdr
     then
       bindE (readE (\<lambda>_. fst (os_OpenBody h srcPath s))) (\<lambda>b.
       onWriter (copy_body b))
     else ret ())))))))"

end
