(* ===== verification/Walker.thy ===== *)
theory Walker
  imports Changes Pack Dirent
begin

text \<open>
  \<open>changes_linux.go\<close>: reading two directory trees in parallel into two trees of file infos,
  leaving out what has the same inode in both, and \<open>ChangesDirs\<close> of \<open>changes.go\<close>. The file
  system is only read: it is the argument \<open>s\<close>, the state is the pair of trees.
\<close>

section \<open>Reading a directory\<close>

text \<open>
  The loop of \<open>readdirnames\<close>; \<open>call k\<close> is the \<open>k\<close>-th \<open>getdents\<close>, \<open>buf\<close> what is left of the
  buffer (\<open>buf[bufp:nbuf]\<close>), \<open>behind\<close> the memory after it.
\<close>

partial_function (option) readdir_loop ::
  "string \<Rightarrow> (nat \<Rightarrow> errno + string) \<Rightarrow> nat \<Rightarrow> string \<Rightarrow> nameIno list \<Rightarrow>
     (goerror + nameIno list) option" where
  "readdir_loop behind call k buf names =
     (case (if buf = [] then map_sum id (\<lambda>b. (Suc k, b)) (call k) else Inr (k, buf)) of
        Inl e \<Rightarrow> Some (Inl (PathError ''readdirent'' [] (Errno e)))
      | Inr (k', b) \<Rightarrow>
          if b = [] then Some (Inr names)
          else
            Option.bind (parseDirent behind b names) (\<lambda>r.
              case r of
                Inl e \<Rightarrow> Some (Inl e)
              | Inr (nb, names') \<Rightarrow> readdir_loop behind call k' (drop nb b) names'))"

text \<open>Not returning is an outcome of its own here.\<close>

definition readdirnames :: "host \<Rightarrow> string \<Rightarrow> string \<Rightarrow> fsys \<Rightarrow> goerror + nameIno list" where
  "readdirnames h behind dirname s =
     (case fst (path_op h OpOpen ''open'' True p_open dirname s) of
        Inl err \<Rightarrow> Inl err
      | Inr f \<Rightarrow>
          (case readdir_loop behind (\<lambda>k. uReadDirent (hUnix h) k f 4096 s) 0 [] [] of
             None \<Rightarrow> Inl (GoPanic ''no return'')
           | Some (Inl err) \<Rightarrow> Inl err
           | Some (Inr names) \<Rightarrow> Inr (sort_key niName names)))"

text \<open>
  The names in either directory, in order; a name with the same inode number in both is left
  out when the two directories are on one device.
\<close>

fun merge_names :: "bool \<Rightarrow> nameIno list \<Rightarrow> nameIno list \<Rightarrow> string list" where
  "merge_names sameDevice (a # as) (b # bs) =
     (if niName a < niName b then niName a # merge_names sameDevice as (b # bs)
      else if niName a = niName b then
        (if niIno a \<noteq> niIno b \<or> \<not> sameDevice then [niName a] else []) @ merge_names sameDevice as bs
      else niName b # merge_names sameDevice (a # as) bs)"
| "merge_names sameDevice [] bs = map niName bs"
| "merge_names sameDevice as [] = map niName as"

section \<open>The walk\<close>

record walker =
  wDir1 :: string
  wDir2 :: string
  wBehind :: string

text \<open>A child of the node at the given path, as \<open>LookUp\<close> reads the path.\<close>

fun insert_elems :: "string list \<Rightarrow> string \<Rightarrow> finfo \<Rightarrow> finfo \<Rightarrow> finfo" where
  "insert_elems [] name c (FNode nm st cap ch) = FNode nm st cap (aput name c ch)"
| "insert_elems (elem # elems) name c (FNode nm st cap ch) =
     (if elem = [] then insert_elems elems name c (FNode nm st cap ch)
      else
        (case map_of ch elem of
           None \<Rightarrow> FNode nm st cap ch
         | Some t \<Rightarrow> FNode nm st cap (aput elem (insert_elems elems name c t) ch)))"

definition walkchunk ::
  "host \<Rightarrow> fsys \<Rightarrow> string \<Rightarrow> FileInfo option \<Rightarrow> string \<Rightarrow> (finfo, goerror, unit) io" where
  "walkchunk h s path fi dir root =
     (case fi of
        None \<Rightarrow> (Inr (), root)
      | Some st \<Rightarrow>
          (case LookUp root (Dir path) of
             None \<Rightarrow> (Inl (ErrMsg ''walkchunk: Unexpectedly no parent for'' [path]), root)
           | Some parent \<Rightarrow>
               (case lgetxattr h (Join [dir, path]) ''security.capability'' s of
                  Inl (GoPanic e) \<Rightarrow> (Inl (GoPanic e), root)
                | r \<Rightarrow>
                    (let capability = (case r of Inr (Some c) \<Rightarrow> c | _ \<Rightarrow> [])
                     in (Inr (),
                         insert_elems (split_slash (Dir path)) (Base path)
                           (FNode (Base path) (Some st) capability []) root)))))"

definition onRoot1 :: "('a, 'e, 'b) io \<Rightarrow> ('a \<times> 'c, 'e, 'b) io" where
  "onRoot1 f r = (case f (fst r) of (x, r1) \<Rightarrow> (x, (r1, snd r)))"

definition onRoot2 :: "('c, 'e, 'b) io \<Rightarrow> ('a \<times> 'c, 'e, 'b) io" where
  "onRoot2 f r = (case f (snd r) of (x, r2) \<Rightarrow> (x, (fst r, r2)))"

text \<open>The stat of a child in one tree: nothing where its parent is no directory or it is missing.\<close>

definition childInfo :: "host \<Rightarrow> fsys \<Rightarrow> bool \<Rightarrow> string \<Rightarrow> goerror + FileInfo option" where
  "childInfo h s isDir path =
     (if isDir then
        (case fst (os_Lstat h path s) of
           Inr fi \<Rightarrow> Inr (Some fi)
         | Inl err \<Rightarrow> if is_not_exist err then Inr None else Inl err)
      else Inr None)"

fun walkTrees ::
  "nat \<Rightarrow> host \<Rightarrow> walker \<Rightarrow> fsys \<Rightarrow> string \<Rightarrow> FileInfo option \<Rightarrow> FileInfo option \<Rightarrow>
     (finfo \<times> finfo, goerror, unit) io" where
  "walkTrees 0 h w s path i1 i2 = fail (GoPanic ''walk fuel'')"
| "walkTrees (Suc n) h w s path i1 i2 =
     bindE (if path \<noteq> [slash]
            then
              bindE (onRoot1 (walkchunk h s path i1 (wDir1 w))) (\<lambda>_.
              onRoot2 (walkchunk h s path i2 (wDir2 w)))
            else ret ()) (\<lambda>_.
     let is1Dir = (case i1 of None \<Rightarrow> False | Some fi \<Rightarrow> fi_is_dir fi);
         is2Dir = (case i2 of None \<Rightarrow> False | Some fi \<Rightarrow> fi_is_dir fi);
         sameDevice = (case (i1, i2) of (Some a, Some b) \<Rightarrow> fiDev a = fiDev b | _ \<Rightarrow> False)
     in if \<not> is1Dir \<and> \<not> is2Dir then ret ()
        else
          bindE (if is1Dir then readE (\<lambda>_. readdirnames h (wBehind w) (Join [wDir1 w, path]) s)
                 else ret []) (\<lambda>names1.
          bindE (if is2Dir then readE (\<lambda>_. readdirnames h (wBehind w) (Join [wDir2 w, path]) s)
                 else ret []) (\<lambda>names2.
          foreachE
            (\<lambda>name.
               let fname = Join [path, name]
               in bindE (readE (\<lambda>_. childInfo h s is1Dir (Join [wDir1 w, fname]))) (\<lambda>cInfo1.
                  bindE (readE (\<lambda>_. childInfo h s is2Dir (Join [wDir2 w, fname]))) (\<lambda>cInfo2.
                  walkTrees n h w s fname cInfo1 cInfo2)))
            (merge_names sameDevice names1 names2))))"

text \<open>The fuel is enough for every path of the file system (\<open>walk_depth\<close>).\<close>

definition collectFileInfoForChanges ::
  "host \<Rightarrow> string \<Rightarrow> string \<Rightarrow> string \<Rightarrow> fsys \<Rightarrow> goerror + finfo \<times> finfo" where
  "collectFileInfoForChanges h behind dir1 dir2 s =
     (case fst (os_Lstat h dir1 s) of
        Inl err \<Rightarrow> Inl err
      | Inr i1 \<Rightarrow>
          (case fst (os_Lstat h dir2 s) of
             Inl err \<Rightarrow> Inl err
           | Inr i2 \<Rightarrow>
               (case walkTrees (walk_depth s) h \<lparr>wDir1 = dir1, wDir2 = dir2, wBehind = behind\<rparr> s
                       [slash] (Some i1) (Some i2) (newRootFileInfo, newRootFileInfo) of
                  (Inl err, _) \<Rightarrow> Inl err
                | (Inr _, roots) \<Rightarrow> Inr roots)))"

text \<open>
  \<open>ChangesDirs\<close> over either collector; \<open>tmp\<close> is \<open>os.TempDir()\<close>, where the empty directory
  stands that an empty \<open>oldDir\<close> means.
\<close>

definition ChangesDirs_by ::
  "(string \<Rightarrow> string \<Rightarrow> fsys \<Rightarrow> goerror + finfo \<times> finfo) \<Rightarrow> host \<Rightarrow> string \<Rightarrow> string \<Rightarrow> string \<Rightarrow>
     (fsys, goerror, Change list) io" where
  "ChangesDirs_by collect h tmp newDir oldDir =
     (let compare = (\<lambda>old. bindE (readE (collect old newDir)) (\<lambda>(oldRoot, newRoot).
                      ret (info_Changes newRoot (Some oldRoot))))
      in if oldDir = []
         then
           bindE (os_MkdirTemp h tmp ''empty'') (\<lambda>emptyDir s.
             case compare emptyDir s of (r, s') \<Rightarrow> (r, snd (os_Remove h emptyDir s')))
         else compare oldDir)"

definition ChangesDirs ::
  "host \<Rightarrow> string \<Rightarrow> string \<Rightarrow> string \<Rightarrow> string \<Rightarrow> (fsys, goerror, Change list) io" where
  "ChangesDirs h tmp behind = ChangesDirs_by (collectFileInfoForChanges h behind) h tmp"

end
