(* ===== verification/WalkerFacts.thy ===== *)
theory WalkerFacts
  imports Walker RootPathFacts "HOL-Library.Multiset"
begin

text \<open>
  What \<open>ChangesDirs\<close> reports, stated on the file system itself: the walk collects exactly the
  two trees less what is the same inode in both, and leaving that out changes no report.
\<close>

section \<open>Changes between two views\<close>

text \<open>A view: what can be seen at each path of a tree, its stat result and its capability.\<close>

type_synonym view = "string list \<Rightarrow> (FileInfo option \<times> string) option"

definition look :: "finfo \<Rightarrow> view" where
  "look t q = map_option (\<lambda>n. (fStat n, fCapability n)) (tree_at t q)"

definition v_isDir :: "FileInfo option \<times> string \<Rightarrow> bool" where
  "v_isDir x = (case fst x of None \<Rightarrow> True | Some st \<Rightarrow> fi_is_dir st)"

definition v_differs :: "FileInfo option \<times> string \<Rightarrow> FileInfo option \<times> string \<Rightarrow> bool" where
  "v_differs old new \<longleftrightarrow>
     (case (fst old, fst new) of (Some a, Some b) \<Rightarrow> statDifferent a b | _ \<Rightarrow> False) \<or> snd old \<noteq> snd new"

definition added_at :: "view \<Rightarrow> view \<Rightarrow> string list \<Rightarrow> bool" where
  "added_at N U q \<longleftrightarrow> N q \<noteq> None \<and> U q = None"

definition deleted_at :: "view \<Rightarrow> view \<Rightarrow> string list \<Rightarrow> bool" where
  "deleted_at N U q \<longleftrightarrow>
     q \<noteq> [] \<and> U q \<noteq> None \<and> N q = None \<and> (\<exists>d. N (butlast q) = Some d \<and> v_isDir d)"

definition changed_at :: "view \<Rightarrow> view \<Rightarrow> string list \<Rightarrow> bool" where
  "changed_at N U q \<longleftrightarrow> (\<exists>n t. N q = Some n \<and> U q = Some t \<and> v_differs t n)"

definition touched_at :: "view \<Rightarrow> view \<Rightarrow> string list \<Rightarrow> bool" where
  "touched_at N U q \<longleftrightarrow> added_at N U q \<or> deleted_at N U q \<or> changed_at N U q"

text \<open>
  Added: only in the new view. Deleted: only in the old one, below a directory of the new one.
  Modified: in both and different, or a directory of both with a change below it.
\<close>

definition change_at :: "view \<Rightarrow> view \<Rightarrow> string list \<Rightarrow> ChangeType \<Rightarrow> bool" where
  "change_at N U q k =
     (case k of
        ChangeAdd \<Rightarrow> added_at N U q
      | ChangeDelete \<Rightarrow> deleted_at N U q
      | ChangeModify \<Rightarrow>
          changed_at N U q \<or>
          (\<exists>n. N q = Some n \<and> v_isDir n \<and> U q \<noteq> None \<and> (\<exists>q'. q' \<noteq> [] \<and> touched_at N U (q @ q'))))"

lemma look_dir: "v_isDir (fStat n, c) = f_isDir n"
  by (simp add: v_isDir_def f_isDir_def)

lemma look_differs: "v_differs (fStat a, fCapability a) (fStat b, fCapability b) = differs a b"
  by (simp add: v_differs_def differs_def)

lemma look_None [simp]: "look t q = None \<longleftrightarrow> tree_at t q = None"
  by (simp add: look_def)

lemma look_Some: "look t q = Some x \<longleftrightarrow> (\<exists>n. tree_at t q = Some n \<and> x = (fStat n, fCapability n))"
  by (auto simp: look_def)

lemma change_spec_look: "change_spec new (Some old) q k = change_at (look new) (look old) q k"
proof -
  have a: "is_added new (Some old) q = added_at (look new) (look old) q" for q
    by (simp add: is_added_def added_at_def old_at_def)
  have d: "is_deleted new (Some old) q = deleted_at (look new) (look old) q" for q
    by (auto simp: is_deleted_def deleted_at_def old_at_def look_Some look_dir)
  have c: "differs_at new (Some old) q = changed_at (look new) (look old) q" for q
    by (auto simp: differs_at_def changed_at_def old_at_def look_Some look_differs)
  have t: "touched new (Some old) q = touched_at (look new) (look old) q" for q
    by (simp add: touched_def touched_at_def a d c)
  show ?thesis
    by (cases k) (auto simp: change_spec_def change_at_def is_modified_def a d c t look_Some look_dir old_at_def)
qed

section \<open>Leaving out what is the same\<close>

definition only :: "(string list \<Rightarrow> bool) \<Rightarrow> view \<Rightarrow> view" where
  "only K V q = (if K q then V q else None)"

lemma statDifferent_refl [simp]: "\<not> statDifferent a a"
  by (simp add: statDifferent_def sameFsTime_def)

lemma v_differs_refl [simp]: "\<not> v_differs x x"
  by (simp add: v_differs_def split: option.split)

lemma change_at_only:
  assumes up: "\<And>q q'. K (q @ q') \<Longrightarrow> K q"
    and same: "\<And>q. \<not> K q \<Longrightarrow> N q = U q"
  shows "change_at (only K N) (only K U) q k = change_at N U q k"
proof -
  have a: "added_at (only K N) (only K U) q = added_at N U q" for q
    using same [of q] by (auto simp: added_at_def only_def)
  have "K q \<Longrightarrow> K (butlast q)" for q
    using up [of "butlast q" "[last q]"] by (cases "q = []") simp_all
  then have d: "deleted_at (only K N) (only K U) q = deleted_at N U q" for q
    using same [of q] by (auto simp: deleted_at_def only_def)
  have c: "changed_at (only K N) (only K U) q = changed_at N U q" for q
    using same [of q] by (auto simp: changed_at_def only_def)
  have t: "touched_at (only K N) (only K U) q = touched_at N U q" for q
    by (simp add: touched_at_def a d c)
  have none: "\<not> touched_at N U (q @ q')" if "\<not> K q" for q'
  proof -
    have "\<not> K (q @ q')" using up that by blast
    from same [OF this] show ?thesis
      by (auto simp: touched_at_def added_at_def deleted_at_def changed_at_def)
  qed
  show ?thesis
  proof (cases k)
    case ChangeModify
    then show ?thesis
      by (cases "K q") (auto simp: change_at_def c t none only_def)
  qed (simp_all add: change_at_def a d)
qed

section \<open>Inserting into a tree\<close>

lemma insert_elems_filter: "insert_elems (filter (\<lambda>e. e \<noteq> []) es) n c t = insert_elems es n c t"
proof (induction es arbitrary: t)
  case (Cons e es)
  then show ?case by (cases t) (auto split: option.split)
qed simp

lemma lookup_elems_filter: "lookup_elems t (filter (\<lambda>e. e \<noteq> []) es) = lookup_elems t es"
  by (induction es arbitrary: t) (auto split: option.split)

lemma lookup_elems_names: "list_all is_name p \<Longrightarrow> lookup_elems t p = tree_at t p"
  by (induction p arbitrary: t) (auto simp: is_name_simps split: option.split)

lemma tree_at_append: "tree_at t (p @ q) = (case tree_at t p of None \<Rightarrow> None | Some d \<Rightarrow> tree_at d q)"
  by (induction p arbitrary: t) (auto split: option.split)

lemma tree_at_insert:
  "list_all is_name p \<Longrightarrow> tree_at t p \<noteq> None \<Longrightarrow> prefix (p @ [n]) q \<Longrightarrow>
     tree_at (insert_elems p n c t) q = tree_at c (drop (Suc (length p)) q)"
proof (induction p arbitrary: t q)
  case Nil
  then show ?case by (cases t) (auto simp: prefix_def)
next
  case (Cons e p)
  obtain nm st cap ch where t: "t = FNode nm st cap ch" by (cases t)
  from Cons.prems(3) obtain q' where q: "q = e # q'" and p: "prefix (p @ [n]) q'"
    by (auto simp: prefix_def)
  from Cons.prems(2) obtain d where d: "map_of ch e = Some d" "tree_at d p \<noteq> None"
    by (auto simp: t split: option.splits)
  have "e \<noteq> []" using Cons.prems(1) by (simp add: is_name_simps)
  then show ?case using Cons.IH [OF _ d(2) p] Cons.prems(1) d(1) by (simp add: t q)
qed

lemma look_insert_other:
  "list_all is_name p \<Longrightarrow> tree_at t p \<noteq> None \<Longrightarrow> \<not> prefix (p @ [n]) q \<Longrightarrow>
     look (insert_elems p n c t) q = look t q"
proof (induction p arbitrary: t q)
  case Nil
  then show ?case by (cases t; cases q) (auto simp: look_def)
next
  case (Cons e p)
  obtain nm st cap ch where t: "t = FNode nm st cap ch" by (cases t)
  from Cons.prems(2) obtain d where d: "map_of ch e = Some d" "tree_at d p \<noteq> None"
    by (auto simp: t split: option.splits)
  have e: "e \<noteq> []" using Cons.prems(1) by (simp add: is_name_simps)
  show ?case
  proof (cases q)
    case (Cons x q')
    show ?thesis
    proof (cases "x = e")
      case True
      then have "\<not> prefix (p @ [n]) q'" using Cons.prems(3) Cons by simp
      from Cons.IH [OF _ d(2) this] Cons.prems(1) have "look (insert_elems p n c d) q' = look d q'" by simp
      then show ?thesis using e d(1) by (simp add: t Cons True look_def)
    qed (use e d(1) Cons in \<open>simp add: t look_def\<close>)
  qed (use e d(1) in \<open>simp add: t look_def\<close>)
qed

lemma distinct_aput: "distinct (map fst xs) \<Longrightarrow> distinct (map fst (aput k v xs))"
  by (auto simp: aput_def distinct_map_filter)

lemma set_aput: "e \<in> set (aput k v xs) \<Longrightarrow> e = (k, v) \<or> e \<in> set xs"
  by (auto simp: aput_def)

lemma wf_insert:
  "list_all is_name p \<Longrightarrow> wf_tree t \<Longrightarrow> is_name n \<Longrightarrow> wf_tree c \<Longrightarrow>
     tree_at t p = Some d \<Longrightarrow> f_isDir d \<Longrightarrow> wf_tree (insert_elems p n c t)"
proof (induction p arbitrary: t)
  case Nil
  obtain nm st cap ch where t: "t = FNode nm st cap ch" by (cases t)
  show ?case
    using Nil by (auto simp: t distinct_aput f_isDir_def dest!: set_aput)
next
  case (Cons e p)
  obtain nm st cap ch where t: "t = FNode nm st cap ch" by (cases t)
  from Cons.prems obtain u where u: "map_of ch e = Some u" "tree_at u p = Some d"
    by (auto simp: t split: option.splits)
  then have "(e, u) \<in> set ch" by (blast dest: map_of_SomeD)
  then have "wf_tree u" "f_isDir t" using Cons.prems(2) by (auto simp: t)
  moreover have "wf_tree (insert_elems p n c u)"
    using Cons.IH Cons.prems u \<open>wf_tree u\<close> by simp
  ultimately show ?case
    using Cons.prems(1,2) u
    by (auto simp: t distinct_aput is_name_simps f_isDir_def dest!: set_aput)
qed


section \<open>Reading the system\<close>

text \<open>
  \<open>lgetxattr\<close> returns as soon as the attribute stops changing: from call \<open>K\<close> on the calls
  answer for one value.
\<close>

lemma lgetxattr_loop_stable:
  assumes "\<And>k n. K \<le> k \<Longrightarrow> call k n = getxattr_value v n"
  shows "\<exists>x. lgetxattr_loop call path attr k n r = Some x"
proof (induction "Suc K - k" arbitrary: k n r rule: less_induct)
  case less
  show ?case
  proof (cases "r = Inl ERANGE")
    case True
    show ?thesis
    proof (cases "call k 0")
      case (Inl e)
      then show ?thesis by (subst lgetxattr_loop.simps) (simp add: True)
    next
      case (Inr x)
      have step: "lgetxattr_loop call path attr k n r =
          lgetxattr_loop call path attr (k + 2) (snd x) (call (Suc k) (snd x))"
        by (subst lgetxattr_loop.simps) (simp add: True Inr)
      show ?thesis
      proof (cases "K \<le> k")
        case False
        then show ?thesis unfolding step by (intro less) simp
      next
        case stable: True
        then obtain d where d: "v = Some d" "x = ([], length d)"
          using Inr assms [of k 0] by (cases v) (auto simp: getxattr_value_def)
        then have "call (Suc k) (snd x) \<noteq> Inl ERANGE"
          using assms [of "Suc k" "length d"] stable by (simp add: getxattr_value_def)
        then show ?thesis unfolding step by (subst lgetxattr_loop.simps) simp
      qed
    qed
  qed (subst lgetxattr_loop.simps, simp)
qed

lemma lgetxattr_calls_value:
  assumes "\<And>k n. call k n = getxattr_value v n"
  shows "lgetxattr_calls call path attr = Some (Inr v)"
proof (cases v)
  case None
  then show ?thesis
    by (simp add: lgetxattr_calls_def lgetxattr_loop.simps assms getxattr_value_def getxattr_done_def)
next
  case (Some d)
  show ?thesis
  proof (cases "length d \<le> 128")
    case True
    then show ?thesis
      by (simp add: lgetxattr_calls_def lgetxattr_loop.simps assms getxattr_value_def getxattr_done_def
          slice_to_def Some)
  next
    case False
    then show ?thesis
      unfolding lgetxattr_calls_def
      by (subst lgetxattr_loop.simps, subst lgetxattr_loop.simps)
        (simp add: assms getxattr_value_def getxattr_done_def slice_to_def Some)
  qed
qed

text \<open>The loop over \<open>getdents\<close>, for a system that returns whole records.\<close>

type_synonym records = "(nat \<times> nat \<times> nameIno) list"

definition rec_bytes :: "records \<Rightarrow> string" where
  "rec_bytes rs = concat (map (\<lambda>(off, ft, e). dirent_bytes off ft e) rs)"

definition rec_entries :: "records \<Rightarrow> nameIno list" where
  "rec_entries rs = map (\<lambda>(off, ft, e). e) rs"

definition recs_ok :: "records \<Rightarrow> bool" where
  "recs_ok rs \<longleftrightarrow> rs \<noteq> [] \<and> (\<forall>(off, ft, e) \<in> set rs. dirent_ok e)"

lemma parseDirent_records:
  "recs_ok rs \<Longrightarrow> parseDirent behind (rec_bytes rs) names =
     Some (Inr (length (rec_bytes rs), names @ filter useful (rec_entries rs)))"
  using parse_loop_records [of rs behind names]
  by (simp add: parseDirent_def rec_bytes_def rec_entries_def recs_ok_def)

lemma rec_bytes_ne: "recs_ok rs \<Longrightarrow> rec_bytes rs \<noteq> []"
proof -
  assume "recs_ok rs"
  then obtain off ft e rs' where "rs = (off, ft, e) # rs'" by (cases rs) (auto simp: recs_ok_def)
  moreover have "dirent_bytes off ft e \<noteq> []"
    using dirent_size_bounds(1) [of e] length_dirent [of off ft e] by (metis add_is_0 le_zero_eq list.size(3) zero_neq_numeral)
  ultimately show ?thesis by (simp add: rec_bytes_def)
qed

lemma readdir_loop_records:
  assumes "\<And>j. call (k + j) = Inr (if j < length rss then rec_bytes (rss ! j) else [])"
    and "\<forall>rs \<in> set rss. recs_ok rs"
  shows "readdir_loop behind call k [] names =
    Some (Inr (names @ filter useful (concat (map rec_entries rss))))"
  using assms
proof (induction rss arbitrary: k names)
  case Nil
  then have "call k = Inr []" using Nil.prems(1) [of 0] by simp
  then show ?case by (subst readdir_loop.simps) simp
next
  case (Cons rs rss)
  have call: "call k = Inr (rec_bytes rs)" using Cons.prems(1) [of 0] by simp
  have rs: "recs_ok rs" using Cons.prems(2) by simp
  have rest: "readdir_loop behind call (Suc k) [] ns =
      Some (Inr (ns @ filter useful (concat (map rec_entries rss))))" for ns
    using Cons.prems Cons.prems(1) [of "Suc _"] by (intro Cons.IH) auto
  show ?case
    by (subst readdir_loop.simps) (simp add: call rec_bytes_ne [OF rs] parseDirent_records [OF rs] rest)
qed

section \<open>Well-formed file systems\<close>

text \<open>Every name has an inode and stands in a directory.\<close>

definition tree_ok :: "fsys \<Rightarrow> bool" where
  "tree_ok s \<longleftrightarrow>
     (\<forall>p i. ino_at s p = Some i \<longrightarrow>
        inodes s i \<noteq> None \<and> (p \<noteq> [] \<longrightarrow> is_name (last p) \<and> dir_at s (butlast p)))"

text \<open>
  What the walk relies on: inodes are told apart by device and number; names and numbers fit the
  records; a directory and what is in it are on one device (no mount points below); and a
  directory that can be reached by two paths (a bind mount) is the same tree by both.
\<close>

definition inodes_ok :: "fsys \<Rightarrow> bool" where
  "inodes_ok s \<longleftrightarrow>
     (\<forall>p q i j. ino_at s p = Some i \<longrightarrow> ino_at s q = Some j \<longrightarrow> inodev s i = inodev s j \<longrightarrow> i = j) \<and>
     (\<forall>p i. ino_at s p = Some i \<longrightarrow>
        0 < snd (inodev s i) \<and> snd (inodev s i) < 2 ^ 64 \<and>
        (p \<noteq> [] \<longrightarrow> nul \<notin> set (last p) \<and> length (last p) \<le> 255)) \<and>
     (\<forall>p i j. p \<noteq> [] \<longrightarrow> ino_at s p = Some i \<longrightarrow> ino_at s (butlast p) = Some j \<longrightarrow>
        fst (inodev s i) = fst (inodev s j)) \<and>
     (\<forall>p q r i. ino_at s p = Some i \<longrightarrow> ino_at s q = Some i \<longrightarrow> dir_at s p \<longrightarrow>
        ino_at s (p @ r) = ino_at s (q @ r))"

lemma tree_okD:
  assumes "tree_ok s" and "ino_at s p = Some i"
  obtains nd where "inodes s i = Some nd" and "node_at s p = Some nd"
    and "p \<noteq> [] \<Longrightarrow> is_name (last p)" and "p \<noteq> [] \<Longrightarrow> dir_at s (butlast p)"
  using assms by (auto simp: tree_ok_def node_at_def)

lemma dir_at_ino: "dir_at s p \<Longrightarrow> ino_at s p \<noteq> None"
  by (auto simp: dir_at_def node_at_def split: option.splits)

lemma tree_ok_snoc: "tree_ok s \<Longrightarrow> ino_at s (p @ [n]) \<noteq> None \<Longrightarrow> is_name n \<and> dir_at s p"
  unfolding tree_ok_def by (metis butlast_snoc last_snoc not_None_eq snoc_eq_iff_butlast)

lemma below_dirs:
  assumes "tree_ok s" and "ino_at s (b @ q @ r) \<noteq> None" and "r \<noteq> []"
  shows "dir_at s (b @ q)"
  using assms(2,3)
proof (induction r rule: rev_induct)
  case (snoc n r)
  then have "dir_at s (b @ q @ r)" using tree_ok_snoc [OF assms(1), of "b @ q @ r"] by simp
  then show ?case using snoc.IH dir_at_ino by (cases "r = []") auto
qed simp

lemma below_dirs_to:
  assumes "tree_ok s" and "ino_at s (b @ q) \<noteq> None" and "q \<noteq> []"
  shows "dirs_to s b (butlast q)"
proof -
  have "dirs_to s b p" if "p = take k (butlast q)" for k p
    using that
  proof (induction k arbitrary: p)
    case (Suc k)
    show ?case
    proof (cases "k < length (butlast q)")
      case True
      then have p: "p = take k (butlast q) @ [butlast q ! k]" by (simp add: Suc.prems take_Suc_conv_app_nth)
      have "q = p @ drop (Suc k) q"
        using True Suc.prems by (simp add: butlast_conv_take)
      moreover have "drop (Suc k) q \<noteq> []" using True by simp
      ultimately have "dir_at s (b @ p)" using below_dirs [OF assms(1), of b p "drop (Suc k) q"] assms(2) by auto
      then show ?thesis unfolding p dirs_to_snoc using Suc.IH by simp
    next
      case False
      then show ?thesis using Suc by simp
    qed
  qed simp
  from this [of _ "length (butlast q)"] show ?thesis by simp
qed

lemma below_names:
  assumes "tree_ok s" and "ino_at s (b @ q) \<noteq> None"
  shows "list_all is_name q"
  using assms(2)
proof (induction q rule: rev_induct)
  case (snoc n q)
  then have "is_name n" "dir_at s (b @ q)" using tree_ok_snoc [OF assms(1), of "b @ q"] by simp_all
  then show ?case using snoc.IH dir_at_ino by auto
qed simp

lemma set_children: "n \<in> set (children s p) \<longleftrightarrow> ino_at s (p @ [n]) \<noteq> None"
proof -
  have "ino_at s (p @ [n]) \<noteq> None \<longleftrightarrow> (\<exists>i. (p @ [n], i) \<in> set (dents s))"
    by (auto simp: ino_at_def weak_map_of_SomeI dest: map_of_SomeD)
  moreover have "n \<in> set (children s p) \<longleftrightarrow> (\<exists>i. (p @ [n], i) \<in> set (dents s))"
  proof
    assume "n \<in> set (children s p)"
    then obtain q i where "(q, i) \<in> set (dents s)" "q \<noteq> []" "butlast q = p" "last q = n"
      by (auto simp: children_def)
    then show "\<exists>i. (p @ [n], i) \<in> set (dents s)" by (metis append_butlast_last_id)
  next
    assume "\<exists>i. (p @ [n], i) \<in> set (dents s)"
    then show "n \<in> set (children s p)" by (force simp: children_def image_iff)
  qed
  ultimately show ?thesis by simp
qed

lemma children_sorted [simp]: "sorted (children s p)" "distinct (children s p)"
  by (simp_all add: children_def)


section \<open>The system calls of the walk\<close>

text \<open>
  The interface: \<open>lgetxattr\<close> answers for the inode its path leads to, and \<open>getdents\<close> returns, in
  whole records and any order, the two dot entries and the names of the directory with the
  numbers of their inodes, then nothing.
\<close>

locale host_reads =
  fixes h :: host
  assumes getxattr_at: "kresolve h False path s = Inr p \<Longrightarrow> node_at s p = Some nd \<Longrightarrow>
      uLgetxattr (hUnix h) k path a n s = getxattr_value (map_of (ixattrs nd) a) n"
    and readdirent_at: "tree_ok s \<Longrightarrow> inodes_ok s \<Longrightarrow> dir_at s d \<Longrightarrow>
      \<exists>rss. (\<forall>rs \<in> set rss. recs_ok rs) \<and>
        (\<forall>k. uReadDirent (hUnix h) k d 4096 s = Inr (if k < length rss then rec_bytes (rss ! k) else [])) \<and>
        mset (filter useful (concat (map rec_entries rss))) = mset (dir_entries s d)"

lemma nul_dot [simp]: "nul \<noteq> CHR ''.''"
  by (simp add: nul_def char_of_def)

lemma posix_records:
  assumes t: "tree_ok s" and n: "inodes_ok s" and d: "dir_at s d"
  shows "\<exists>rss. (\<forall>rs \<in> set rss. recs_ok rs) \<and>
    (\<forall>k. posix_readdirent k d s = Inr (if k < length rss then rec_bytes (rss ! k) else [])) \<and>
    mset (filter useful (concat (map rec_entries rss))) = mset (dir_entries s d)"
proof -
  let ?es = "dir_records s d"
  let ?rss = "map (\<lambda>k. [(Suc k, 0::nat, ?es ! k)]) [0..<length ?es]"
  have num: "ino_number s p < 2 ^ 64" for p
    using n by (auto simp: ino_number_def inodes_ok_def split: option.split)
  have kid: "is_name c \<and> 0 < ino_number s (d @ [c]) \<and> nul \<notin> set c \<and> length c \<le> 255"
    if c: "c \<in> set (children s d)" for c
  proof -
    obtain i where i: "ino_at s (d @ [c]) = Some i" using c by (auto simp: set_children)
    then show ?thesis
      using tree_ok_snoc [OF t, of d c] n unfolding inodes_ok_def ino_number_def
      by (metis last_snoc option.distinct(1) option.simps(5) snoc_eq_iff_butlast)
  qed
  have "dirent_ok e" if "e \<in> set ?es" for e
    using that num kid by (auto simp: dir_records_def dir_entries_def dirent_ok_def)
  then have ok: "\<forall>rs \<in> set ?rss. recs_ok rs" by (auto simp: recs_ok_def)
  have "concat (map rec_entries ?rss) = map ((!) ?es) [0..<length ?es]"
    by (induction "[0..<length ?es]") (simp_all add: rec_entries_def o_def)
  then have ents: "concat (map rec_entries ?rss) = ?es" by (simp add: map_nth)
  have "filter useful ?es = dir_entries s d"
    using kid is_name_simps
    by (auto simp: dir_records_def useful_def dir_entries_def intro!: filter_True)
  with ok ents d show ?thesis
    by (intro exI [of _ ?rss]) (simp add: posix_readdirent_def rec_bytes_def)
qed

interpretation posix_reads: host_reads posix_host
proof
  fix path s p nd k a n
  assume "kresolve posix_host False path s = Inr p" "node_at s p = Some nd"
  then show "uLgetxattr (hUnix posix_host) k path a n s = getxattr_value (map_of (ixattrs nd) a) n"
    by (simp add: posix_kresolve) (simp add: posix_host_def posix_unix_def)
next
  fix s d
  assume "tree_ok s" "inodes_ok s" "dir_at s d"
  from posix_records [OF this] show "\<exists>rss. (\<forall>rs \<in> set rss. recs_ok rs) \<and>
        (\<forall>k. uReadDirent (hUnix posix_host) k d 4096 s = Inr (if k < length rss then rec_bytes (rss ! k) else [])) \<and>
        mset (filter useful (concat (map rec_entries rss))) = mset (dir_entries s d)"
    by (simp add: posix_host_def posix_unix_def)
qed

section \<open>The views of two directories\<close>

definition capability_of :: "inode \<Rightarrow> string" where
  "capability_of nd = (case map_of (ixattrs nd) ''security.capability'' of None \<Rightarrow> [] | Some c \<Rightarrow> c)"

definition info_at :: "fsys \<Rightarrow> loc \<Rightarrow> FileInfo option" where
  "info_at s p = (case ino_at s p of None \<Rightarrow> None | Some i \<Rightarrow> map_option (fileinfo s i) (inodes s i))"

text \<open>What can be seen below a directory; the directory itself is not compared.\<close>

definition fs_view :: "fsys \<Rightarrow> loc \<Rightarrow> view" where
  "fs_view s b q =
     (if q = [] then Some (None, [])
      else
        (case ino_at s (b @ q) of
           None \<Rightarrow> None
         | Some i \<Rightarrow> map_option (\<lambda>nd. (Some (fileinfo s i nd), capability_of nd)) (inodes s i)))"

definition same_at :: "fsys \<Rightarrow> loc \<Rightarrow> loc \<Rightarrow> bool" where
  "same_at s p q \<longleftrightarrow> ino_at s p \<noteq> None \<and> ino_at s p = ino_at s q"

definition kept :: "fsys \<Rightarrow> loc \<Rightarrow> loc \<Rightarrow> string list \<Rightarrow> bool" where
  "kept s b1 b2 q \<longleftrightarrow> (\<forall>p. p \<noteq> [] \<longrightarrow> prefix p q \<longrightarrow> \<not> same_at s (b1 @ p) (b2 @ p))"

lemma kept_up: "kept s b1 b2 (q @ r) \<Longrightarrow> kept s b1 b2 q"
  by (auto simp: kept_def intro: prefix_prefix)

lemma kept_snoc: "kept s b1 b2 (q @ [n]) \<longleftrightarrow> kept s b1 b2 q \<and> \<not> same_at s (b1 @ q @ [n]) (b2 @ q @ [n])"
  by (auto simp: kept_def)

lemma info_at_dir: "(case info_at s p of None \<Rightarrow> False | Some fi \<Rightarrow> fi_is_dir fi) = dir_at s p"
  by (auto simp: info_at_def dir_at_def node_at_def split: option.split)

lemma info_at_None: "tree_ok s \<Longrightarrow> info_at s p = None \<longleftrightarrow> ino_at s p = None"
  by (auto simp: info_at_def tree_ok_def split: option.split)

lemma fs_view_info:
  "q \<noteq> [] \<Longrightarrow> fs_view s b q =
     (case info_at s (b @ q) of
        None \<Rightarrow> None
      | Some fi \<Rightarrow> Some (Some fi, case node_at s (b @ q) of None \<Rightarrow> [] | Some nd \<Rightarrow> capability_of nd))"
  by (auto simp: fs_view_def info_at_def node_at_def split: option.split)

lemma fs_view_same: "q \<noteq> [] \<Longrightarrow> ino_at s (b1 @ q) = ino_at s (b2 @ q) \<Longrightarrow> fs_view s b1 q = fs_view s b2 q"
  by (simp add: fs_view_def)

lemma same_dir: "same_at s p q \<Longrightarrow> dir_at s p = dir_at s q"
  by (auto simp: same_at_def dir_at_def node_at_def)

lemma not_kept_same:
  assumes t: "tree_ok s" and n: "inodes_ok s" and k: "\<not> kept s b1 b2 q"
  shows "fs_view s b1 q = fs_view s b2 q"
proof -
  obtain p r where p: "p \<noteq> []" "q = p @ r" and sm: "same_at s (b1 @ p) (b2 @ p)"
    using k by (auto simp: kept_def prefix_def)
  have "ino_at s (b1 @ p @ r) = ino_at s (b2 @ p @ r)"
  proof (cases "r = [] \<or> dir_at s (b1 @ p)")
    case True
    then show ?thesis
      using sm n unfolding inodes_ok_def same_at_def
      by (metis append.assoc append_Nil2 option.exhaust_sel)
  next
    case False
    then have "\<not> dir_at s (b2 @ p)" using same_dir [OF sm] by simp
    with False below_dirs [OF t, of b1 p r] below_dirs [OF t, of b2 p r] show ?thesis by metis
  qed
  with p show ?thesis by (intro fs_view_same) simp_all
qed

section \<open>Merging the names\<close>

lemma merge_names_set:
  "sorted_wrt (<) (map niName as) \<Longrightarrow> sorted_wrt (<) (map niName bs) \<Longrightarrow>
     sorted_wrt (<) (merge_names sd as bs) \<and>
     (\<forall>n. n \<in> set (merge_names sd as bs) \<longleftrightarrow>
        (n \<in> niName ` set as \<or> n \<in> niName ` set bs) \<and>
        \<not> (sd \<and> (\<exists>a \<in> set as. \<exists>b \<in> set bs. niName a = n \<and> niName b = n \<and> niIno a = niIno b)))"
proof (induction sd as bs rule: merge_names.induct)
  case (1 sd a as b bs)
  consider "niName a < niName b" | "niName a = niName b" | "niName b < niName a" by fastforce
  then show ?case
  proof cases
    case 1
    then have nb: "\<forall>y \<in> set (b # bs). niName y \<noteq> niName a" using "1.prems"(2) by fastforce
    have ih: "sorted_wrt (<) (merge_names sd as (b # bs))"
      "n \<in> set (merge_names sd as (b # bs)) \<longleftrightarrow> (n \<in> niName ` set as \<or> n \<in> niName ` set (b # bs)) \<and>
        \<not> (sd \<and> (\<exists>a \<in> set as. \<exists>b \<in> set (b # bs). niName a = n \<and> niName b = n \<and> niIno a = niIno b))" for n
      using "1.IH"(1) 1 "1.prems" by auto
    have eq: "merge_names sd (a # as) (b # bs) = niName a # merge_names sd as (b # bs)" using 1 by simp
    have "niName a < n" if "n \<in> set (merge_names sd as (b # bs))" for n
      using that 1 "1.prems" unfolding ih(2) by fastforce
    then have srt: "sorted_wrt (<) (merge_names sd (a # as) (b # bs))" unfolding eq using ih(1) by simp
    have "n \<in> set (merge_names sd (a # as) (b # bs)) \<longleftrightarrow>
        (n \<in> niName ` set (a # as) \<or> n \<in> niName ` set (b # bs)) \<and>
        \<not> (sd \<and> (\<exists>x \<in> set (a # as). \<exists>y \<in> set (b # bs). niName x = n \<and> niName y = n \<and> niIno x = niIno y))" for n
      unfolding eq using ih(2) [of n] nb by (cases "n = niName a") auto
    with srt show ?thesis by blast
  next
    case 2
    have ih: "sorted_wrt (<) (merge_names sd as bs)"
      "n \<in> set (merge_names sd as bs) \<longleftrightarrow> (n \<in> niName ` set as \<or> n \<in> niName ` set bs) \<and>
        \<not> (sd \<and> (\<exists>a \<in> set as. \<exists>b \<in> set bs. niName a = n \<and> niName b = n \<and> niIno a = niIno b))" for n
      using "1.IH"(2) 2 "1.prems" by auto
    have eq: "merge_names sd (a # as) (b # bs) =
        (if niIno a \<noteq> niIno b \<or> \<not> sd then [niName a] else []) @ merge_names sd as bs" using 2 by simp
    have lt: "niName a < n" if "n \<in> niName ` set as \<or> n \<in> niName ` set bs" for n
      using that 2 "1.prems" by auto
    have fresh: "\<forall>x \<in> set as. niName x \<noteq> niName a" using lt by (metis imageI less_irrefl)
    have fresh': "\<forall>x \<in> set bs. niName x \<noteq> niName a" using lt by (metis imageI less_irrefl)
    have srt: "sorted_wrt (<) (merge_names sd (a # as) (b # bs))"
      unfolding eq using ih lt by (simp add: sorted_wrt_append)
    have "n \<in> set (merge_names sd (a # as) (b # bs)) \<longleftrightarrow>
        (n \<in> niName ` set (a # as) \<or> n \<in> niName ` set (b # bs)) \<and>
        \<not> (sd \<and> (\<exists>x \<in> set (a # as). \<exists>y \<in> set (b # bs). niName x = n \<and> niName y = n \<and> niIno x = niIno y))" for n
    proof (cases "n = niName a")
      case True
      then show ?thesis unfolding eq using ih(2) [of n] fresh fresh' 2 by auto
    next
      case False
      then show ?thesis unfolding eq using ih(2) [of n] 2 by auto
    qed
    with srt show ?thesis by blast
  next
    case 3
    then have na: "\<forall>x \<in> set (a # as). niName x \<noteq> niName b" using "1.prems"(1) by fastforce
    have ih: "sorted_wrt (<) (merge_names sd (a # as) bs)"
      "n \<in> set (merge_names sd (a # as) bs) \<longleftrightarrow> (n \<in> niName ` set (a # as) \<or> n \<in> niName ` set bs) \<and>
        \<not> (sd \<and> (\<exists>a \<in> set (a # as). \<exists>b \<in> set bs. niName a = n \<and> niName b = n \<and> niIno a = niIno b))" for n
      using "1.IH"(3) 3 "1.prems" by auto
    have eq: "merge_names sd (a # as) (b # bs) = niName b # merge_names sd (a # as) bs" using 3 by auto
    have "niName b < n" if "n \<in> set (merge_names sd (a # as) bs)" for n
      using that 3 "1.prems" unfolding ih(2) by fastforce
    then have srt: "sorted_wrt (<) (merge_names sd (a # as) (b # bs))" unfolding eq using ih(1) by simp
    have "n \<in> set (merge_names sd (a # as) (b # bs)) \<longleftrightarrow>
        (n \<in> niName ` set (a # as) \<or> n \<in> niName ` set (b # bs)) \<and>
        \<not> (sd \<and> (\<exists>x \<in> set (a # as). \<exists>y \<in> set (b # bs). niName x = n \<and> niName y = n \<and> niIno x = niIno y))" for n
      unfolding eq using ih(2) [of n] na by (cases "n = niName b") auto
    with srt show ?thesis by blast
  qed
qed auto


section \<open>The walk collects the two views\<close>

lemma path_open: "no_faults h s \<Longrightarrow> kresolve h True path s = Inr p \<Longrightarrow> node_at s p \<noteq> None \<Longrightarrow>
    path_op h OpOpen ''open'' True p_open path s = (Inr p, s)"
  by (auto simp: path_op_def no_faults_def p_open_def)

lemma sort_entries: "mset xs = mset (dir_entries s d) \<Longrightarrow> sort_key niName xs = dir_entries s d"
proof (rule sort_key_inj_key_eq)
  assume m: "mset xs = mset (dir_entries s d)"
  then show "mset xs = mset (dir_entries s d)" .
  have "inj_on niName (set (dir_entries s d))" by (auto simp: dir_entries_def inj_on_def)
  then show "inj_on niName (set xs)" using mset_eq_setD [OF m] by simp
  show "sorted (map niName (dir_entries s d))" by (simp add: dir_entries_def o_def)
qed

text \<open>One tree at the start of the walk of path \<open>q\<close>, and after it.\<close>

definition ready :: "fsys \<Rightarrow> loc \<Rightarrow> string list \<Rightarrow> finfo \<Rightarrow> bool" where
  "ready s b q r \<longleftrightarrow>
     wf_tree r \<and>
     (q = [] \<longrightarrow> (\<exists>c. look r [] = Some (None, c))) \<and>
     (q \<noteq> [] \<longrightarrow> info_at s (b @ q) \<noteq> None \<longrightarrow> (\<exists>d. tree_at r (butlast q) = Some d \<and> f_isDir d)) \<and>
     (\<forall>q'. prefix q q' \<longrightarrow> q' \<noteq> [] \<longrightarrow> look r q' = None)"

definition filled :: "fsys \<Rightarrow> loc \<Rightarrow> (string list \<Rightarrow> bool) \<Rightarrow> string list \<Rightarrow> finfo \<Rightarrow> finfo \<Rightarrow> bool" where
  "filled s b K q r r' \<longleftrightarrow>
     wf_tree r' \<and>
     (\<forall>q'. look r' q' = (if prefix q q' \<and> q' \<noteq> [] then only K (fs_view s b) q' else look r q'))"

text \<open>After the node at \<open>q\<close> and the children in \<open>M\<close>.\<close>

definition partly :: "fsys \<Rightarrow> loc \<Rightarrow> (string list \<Rightarrow> bool) \<Rightarrow> string list \<Rightarrow> string set \<Rightarrow> finfo \<Rightarrow> finfo \<Rightarrow> bool" where
  "partly s b K q M r r' \<longleftrightarrow>
     wf_tree r' \<and>
     (\<forall>q'. look r' q' =
        (if q' = q then (if q = [] then look r [] else fs_view s b q)
         else if prefix q q' then (if q' ! length q \<in> M then only K (fs_view s b) q' else None)
         else look r q'))"

lemma prefix_strict_snoc: "prefix q q' \<Longrightarrow> q' \<noteq> q \<Longrightarrow> prefix (q @ [q' ! length q]) q'"
  by (metis append_one_prefix prefix_length_less prefix_order.less_le strict_prefixI')

lemma prefix_snoc_nth: "prefix (q @ [n]) q' \<Longrightarrow> q' ! length q = n \<and> prefix q q' \<and> q' \<noteq> q"
  by (auto simp: prefix_def nth_append)

lemma partly_dir:
  assumes p: "partly s b K q M r r'" and r: "ready s b q r" and c: "info_at s (b @ q @ [n]) \<noteq> None"
    and t: "tree_ok s"
  shows "\<exists>d. tree_at r' q = Some d \<and> f_isDir d"
proof (cases "q = []")
  case True
  then obtain c where "look r' [] = Some (None, c)" using p r by (auto simp: partly_def ready_def)
  then show ?thesis by (auto simp: look_Some True f_isDir_def)
next
  case False
  have "dir_at s (b @ q)" using tree_ok_snoc [OF t, of "b @ q" n] c info_at_None [OF t] by simp
  then have "\<exists>fi. info_at s (b @ q) = Some fi \<and> fi_is_dir fi"
    using info_at_dir [of s "b @ q"] by (auto split: option.splits)
  then obtain fi x where "look r' q = Some (Some fi, x)" "fi_is_dir fi"
    using p False by (auto simp: partly_def fs_view_info)
  then show ?thesis by (auto simp: look_Some f_isDir_def split: option.split)
qed

lemma partly_ready:
  assumes p: "partly s b K q M r r'" and r: "ready s b q r" and n: "n \<notin> M" and t: "tree_ok s"
  shows "ready s b (q @ [n]) r'"
proof -
  have "look r' q' = None" if "prefix (q @ [n]) q'" for q'
    using p n prefix_snoc_nth [OF that] by (simp add: partly_def)
  moreover have "wf_tree r'" using p by (simp add: partly_def)
  moreover have "\<exists>d. tree_at r' q = Some d \<and> f_isDir d" if "info_at s (b @ q @ [n]) \<noteq> None"
    using partly_dir [OF p r that t] .
  ultimately show ?thesis by (simp add: ready_def)
qed

lemma partly_step:
  assumes p: "partly s b K q M r r'" and f: "filled s b K (q @ [n]) r' r''" and n: "n \<notin> M"
  shows "partly s b K q (insert n M) r r''"
proof -
  have "look r'' q' =
      (if q' = q then (if q = [] then look r [] else fs_view s b q)
       else if prefix q q' then (if q' ! length q \<in> insert n M then only K (fs_view s b) q' else None)
       else look r q')" for q'
  proof (cases "prefix (q @ [n]) q'")
    case True
    with prefix_snoc_nth [OF True] f show ?thesis by (auto simp: filled_def)
  next
    case False
    then have eq: "look r'' q' = look r' q'" using f by (auto simp: filled_def)
    show ?thesis
    proof (cases "prefix q q' \<and> q' \<noteq> q")
      case True
      then have "q' ! length q \<noteq> n" using prefix_strict_snoc False by blast
      then show ?thesis unfolding eq using p by (simp add: partly_def)
    next
      case False
      then show ?thesis unfolding eq using p by (simp add: partly_def)
    qed
  qed
  then show ?thesis using f by (simp add: partly_def filled_def)
qed

lemma partly_filled:
  assumes p: "partly s b K q M r r'" and K: "q \<noteq> [] \<Longrightarrow> K q"
    and none: "\<And>n q'. n \<notin> M \<Longrightarrow> only K (fs_view s b) (q @ n # q') = None"
  shows "filled s b K q r r'"
proof -
  have "look r' q' = (if prefix q q' \<and> q' \<noteq> [] then only K (fs_view s b) q' else look r q')" for q'
  proof (cases "prefix q q' \<and> q' \<noteq> q")
    case True
    then obtain n q'' where q': "q' = q @ n # q''"
      by (metis append_Nil2 prefix_def neq_Nil_conv)
    then show ?thesis using p none [of n q''] by (auto simp: partly_def)
  next
    case False
    then show ?thesis using p K by (auto simp: partly_def only_def)
  qed
  then show ?thesis using p by (simp add: filled_def partly_def)
qed

context host_reads
begin

lemma readdirnames_dir:
  assumes "tree_ok s" and "inodes_ok s" and "no_faults h s" and "dir_at s p"
    and "kresolve h True path s = Inr p"
  shows "readdirnames h behind path s = Inr (dir_entries s p)"
proof -
  obtain rss where rss: "\<forall>rs \<in> set rss. recs_ok rs"
    "\<And>k. uReadDirent (hUnix h) k p 4096 s = Inr (if k < length rss then rec_bytes (rss ! k) else [])"
    "mset (filter useful (concat (map rec_entries rss))) = mset (dir_entries s p)"
    using readdirent_at [OF assms(1,2,4)] by blast
  have "readdir_loop behind (\<lambda>k. uReadDirent (hUnix h) k p 4096 s) 0 [] [] =
      Some (Inr ([] @ filter useful (concat (map rec_entries rss))))"
    using rss(1,2) by (intro readdir_loop_records) simp_all
  moreover have "node_at s p \<noteq> None" using assms(4) by (auto simp: dir_at_def split: option.splits)
  ultimately show ?thesis
    by (simp add: readdirnames_def path_open [OF assms(3,5)] sort_entries [OF rss(3)])
qed

lemma lgetxattr_at:
  assumes "kresolve h False path s = Inr p" and "node_at s p = Some nd"
  shows "lgetxattr h path a s = Inr (map_of (ixattrs nd) a)"
  using lgetxattr_calls_value [of "\<lambda>k n. uLgetxattr (hUnix h) k path a n s" "map_of (ixattrs nd) a" path a]
    getxattr_at [OF assms]
  by (simp add: lgetxattr_def)

lemma walkchunk_fills:
  assumes t: "tree_ok s" and r: "ready s (hRoot h @ ps) q r" and q: "q \<noteq> []"
    and names: "list_all is_name ps" "list_all is_name q" and d: "dirs_to s (hRoot h) ps"
  shows "\<exists>r'. walkchunk h s (abs_path q) (info_at s (hRoot h @ ps @ q)) (abs_path ps) r = (Inr (), r') \<and>
    partly s (hRoot h @ ps) K q {} r r'"
proof (cases "info_at s (hRoot h @ ps @ q)")
  case None
  then have "partly s (hRoot h @ ps) K q {} r r"
    using r q by (auto simp: partly_def ready_def fs_view_info)
  then show ?thesis by (intro exI [of _ r]) (simp add: walkchunk_def None)
next
  case (Some fi)
  obtain p n where pn: "q = p @ [n]" using q by (metis append_butlast_last_id)
  have nm: "list_all is_name p" "is_name n" "list_all is_name (ps @ p)" using names pn by simp_all
  obtain i nd where nd: "ino_at s (hRoot h @ ps @ q) = Some i" "inodes s i = Some nd"
    "node_at s (hRoot h @ ps @ q) = Some nd"
    using Some by (auto simp: info_at_def node_at_def split: option.splits)
  have dirs: "dirs_to s (hRoot h) (ps @ p)"
    using below_dirs_to [OF t, of "hRoot h @ ps" q] nd(1) d by (simp add: dirs_to_append pn)
  have res: "kresolve h False (Join [abs_path ps, abs_path q]) s = Inr (hRoot h @ ps @ q)"
    using kresolve_abs [OF dirs nm(3,2), of False] Join_abs2 [OF names] by (simp add: pn)
  obtain parent where parent: "tree_at r p = Some parent" "f_isDir parent"
    using r Some q by (auto simp: ready_def pn)
  let ?c = "FNode n (Some fi) (capability_of nd) []"
  let ?r = "insert_elems p n ?c r"
  have look: "LookUp r (abs_path p) = Some parent"
    using parent nm(1) lookup_elems_names [OF nm(1), of r] lookup_elems_filter [of r "split_slash (abs_path p)"]
    by (auto simp: LookUp_def split_abs abs_path_slash)
  have ins: "insert_elems (split_slash (abs_path p)) n ?c r = ?r"
    using insert_elems_filter [of "split_slash (abs_path p)" n ?c r] by (simp add: split_abs nm(1))
  have names': "list_all is_name (p @ [n])" using nm by simp
  have "walkchunk h s (abs_path q) (Some fi) (abs_path ps) r = (Inr (), ?r)"
    using look ins lgetxattr_at [OF res nd(3), of "''security.capability''"]
    by (simp add: walkchunk_def pn [symmetric] capability_of_def)
      (simp add: pn Dir_Base_abs [OF names'])
  moreover have "look ?r q' = (if q' = q then fs_view s (hRoot h @ ps) q else if prefix q q' then None else look r q')" for q'
  proof (cases "prefix q q'")
    case True
    then have "tree_at ?r q' = tree_at ?c (drop (length q) q')"
      using tree_at_insert [OF nm(1), of r n q'] parent by (simp add: pn)
    moreover have "drop (length q) q' = [] \<longleftrightarrow> q' = q" using True by (auto simp: prefix_def)
    ultimately show ?thesis
      using nd Some q by (cases "drop (length q) q'") (auto simp: look_def True fs_view_def info_at_def)
  next
    case False
    then show ?thesis using look_insert_other [OF nm(1), of r n q' ?c] parent by (auto simp: pn)
  qed
  moreover have "wf_tree ?r"
    using r parent nm by (intro wf_insert) (auto simp: ready_def)
  ultimately show ?thesis
    using q Some by (intro exI [of _ ?r]) (simp add: partly_def)
qed

end


text \<open>The loop over the children, both trees at once.\<close>

lemma foreach_partly:
  assumes t: "tree_ok s" and o: "ready s b1 q o1" "ready s b2 q o2"
    and step: "\<And>n r1 r2. n \<in> set ns \<Longrightarrow> ready s b1 (q @ [n]) r1 \<Longrightarrow> ready s b2 (q @ [n]) r2 \<Longrightarrow>
      \<exists>r1' r2'. f n (r1, r2) = (Inr (), (r1', r2')) \<and>
        filled s b1 K (q @ [n]) r1 r1' \<and> filled s b2 K (q @ [n]) r2 r2'"
  shows "distinct ns \<Longrightarrow> set ns \<inter> M = {} \<Longrightarrow> partly s b1 K q M o1 r1 \<Longrightarrow> partly s b2 K q M o2 r2 \<Longrightarrow>
    \<exists>r1' r2'. foreachE f ns (r1, r2) = (Inr (), (r1', r2')) \<and>
      partly s b1 K q (set ns \<union> M) o1 r1' \<and> partly s b2 K q (set ns \<union> M) o2 r2'"
  using step
proof (induction ns arbitrary: r1 r2 M)
  case Nil
  then show ?case by simp
next
  case (Cons n ns)
  have n: "n \<notin> M" using Cons.prems by simp
  obtain r1' r2' where f: "f n (r1, r2) = (Inr (), (r1', r2'))"
    "filled s b1 K (q @ [n]) r1 r1'" "filled s b2 K (q @ [n]) r2 r2'"
    using Cons.prems(5) [of n r1 r2] partly_ready [OF Cons.prems(3) o(1) n t]
      partly_ready [OF Cons.prems(4) o(2) n t] by auto
  have p: "partly s b1 K q (insert n M) o1 r1'" "partly s b2 K q (insert n M) o2 r2'"
    using partly_step [OF Cons.prems(3) f(2) n] partly_step [OF Cons.prems(4) f(3) n] by auto
  have ns: "distinct ns" "set ns \<inter> insert n M = {}" using Cons.prems by auto
  have "\<exists>u v. foreachE f ns (r1', r2') = (Inr (), (u, v)) \<and>
      partly s b1 K q (set ns \<union> insert n M) o1 u \<and> partly s b2 K q (set ns \<union> insert n M) o2 v"
    using Cons.prems(5) by (intro Cons.IH [OF ns p]) auto
  then show ?case using f(1) by (auto simp: bindE_Inr)
qed

lemma dirs_to_dir:
  assumes "tree_ok s" and "dirs_to s (hRoot h) ps" and "dir_at s (hRoot h @ ps @ q)"
  shows "dirs_to s (hRoot h) (ps @ q)"
proof (cases q rule: rev_cases)
  case (snoc q' n)
  then have "dirs_to s (hRoot h @ ps) q'"
    using below_dirs_to [OF assms(1), of "hRoot h @ ps" q] dir_at_ino [OF assms(3)] by simp
  then show ?thesis using assms snoc by (simp add: dirs_to_append)
qed (use assms in simp)

lemma inodes_ok_inj:
  "inodes_ok s \<Longrightarrow> ino_at s p = Some i \<Longrightarrow> ino_at s q = Some j \<Longrightarrow> inodev s i = inodev s j \<Longrightarrow> i = j"
  unfolding inodes_ok_def by blast

lemma inodes_ok_dev:
  assumes "inodes_ok s" and "ino_at s (p @ [n]) = Some i" and "ino_at s p = Some j"
  shows "fst (inodev s i) = fst (inodev s j)"
proof -
  have "p @ [n] \<noteq> []" "ino_at s (butlast (p @ [n])) = Some j" using assms(3) by simp_all
  with assms(1,2) show ?thesis unfolding inodes_ok_def by blast
qed

definition device_of :: "fsys \<Rightarrow> loc \<Rightarrow> nat" where
  "device_of s p = fst (inodev s (the (ino_at s p)))"

lemma same_number:
  assumes t: "tree_ok s" and n: "inodes_ok s"
  shows "same_at s (p1 @ [c]) (p2 @ [c]) \<longleftrightarrow>
    ino_at s (p1 @ [c]) \<noteq> None \<and> ino_at s (p2 @ [c]) \<noteq> None \<and>
    device_of s p1 = device_of s p2 \<and> ino_number s (p1 @ [c]) = ino_number s (p2 @ [c])"
proof (cases "ino_at s (p1 @ [c]) = None \<or> ino_at s (p2 @ [c]) = None")
  case True
  then show ?thesis by (auto simp: same_at_def)
next
  case False
  then obtain i j where ij: "ino_at s (p1 @ [c]) = Some i" "ino_at s (p2 @ [c]) = Some j" by auto
  obtain i' j' where up: "ino_at s p1 = Some i'" "ino_at s p2 = Some j'"
    using tree_ok_snoc [OF t, of p1 c] tree_ok_snoc [OF t, of p2 c] ij dir_at_ino by (metis option.exhaust option.simps(3))
  note dev = inodes_ok_dev [OF n ij(1) up(1)] inodes_ok_dev [OF n ij(2) up(2)]
  have "same_at s (p1 @ [c]) (p2 @ [c]) \<longleftrightarrow> i = j" by (simp add: same_at_def ij)
  also have "\<dots> \<longleftrightarrow> inodev s i = inodev s j" using inodes_ok_inj [OF n ij] by auto
  also have "\<dots> \<longleftrightarrow> device_of s p1 = device_of s p2 \<and> ino_number s (p1 @ [c]) = ino_number s (p2 @ [c])"
    by (simp add: device_of_def ino_number_def ij up dev [symmetric] prod_eq_iff)
  finally show ?thesis using ij by simp
qed

lemma merge_kept:
  assumes t: "tree_ok s" and n: "inodes_ok s"
    and sd: "dir_at s p1 \<Longrightarrow> dir_at s p2 \<Longrightarrow>
      sd \<longleftrightarrow> device_of s p1 = device_of s p2"
    and ns: "ns = merge_names sd (if dir_at s p1 then dir_entries s p1 else [])
      (if dir_at s p2 then dir_entries s p2 else [])"
  shows "distinct ns"
    and "c \<in> set ns \<longleftrightarrow>
      (ino_at s (p1 @ [c]) \<noteq> None \<or> ino_at s (p2 @ [c]) \<noteq> None) \<and> \<not> same_at s (p1 @ [c]) (p2 @ [c])"
proof -
  let ?e = "\<lambda>p. if dir_at s p then dir_entries s p else []"
  have srt: "sorted_wrt (<) (map niName (?e p))" for p
    by (simp add: dir_entries_def o_def strict_sorted_iff)
  note m = merge_names_set [OF srt srt, of sd p1 p2]
  show "distinct ns" using m unfolding ns by (simp add: strict_sorted_iff)
  have in_e: "x \<in> set (?e p) \<longleftrightarrow> ino_at s (p @ [niName x]) \<noteq> None \<and> niIno x = ino_number s (p @ [niName x])" for x p
    using tree_ok_snoc [OF t, of p "niName x"] set_children [of "niName x" s p]
    by (cases x) (auto simp: dir_entries_def)
  have names: "c \<in> niName ` set (?e p) \<longleftrightarrow> ino_at s (p @ [c]) \<noteq> None" for p
  proof
    assume "ino_at s (p @ [c]) \<noteq> None"
    then have "\<lparr>niName = c, niIno = ino_number s (p @ [c])\<rparr> \<in> set (?e p)"
      using in_e [of "\<lparr>niName = c, niIno = ino_number s (p @ [c])\<rparr>" p] by simp
    then show "c \<in> niName ` set (?e p)" by (metis image_eqI nameIno.select_convs(1))
  qed (use in_e in auto)
  have same: "(sd \<and> (\<exists>a \<in> set (?e p1). \<exists>b \<in> set (?e p2). niName a = c \<and> niName b = c \<and> niIno a = niIno b)) \<longleftrightarrow>
      same_at s (p1 @ [c]) (p2 @ [c])" (is "?l = ?r")
  proof -
    have "(\<exists>a \<in> set (?e p1). \<exists>b \<in> set (?e p2). niName a = c \<and> niName b = c \<and> niIno a = niIno b) \<longleftrightarrow>
        ino_at s (p1 @ [c]) \<noteq> None \<and> ino_at s (p2 @ [c]) \<noteq> None \<and>
        ino_number s (p1 @ [c]) = ino_number s (p2 @ [c])"
      (is "?x = ?y")
    proof
      assume ?y
      then have "\<lparr>niName = c, niIno = ino_number s (p1 @ [c])\<rparr> \<in> set (?e p1)"
        "\<lparr>niName = c, niIno = ino_number s (p2 @ [c])\<rparr> \<in> set (?e p2)"
        using in_e by simp_all
      then show ?x using \<open>?y\<close> by (intro bexI) auto
    next
      assume ?x
      then obtain a b where "a \<in> set (?e p1)" "b \<in> set (?e p2)" "niName a = c" "niName b = c" "niIno a = niIno b"
        by blast
      then show ?y using in_e [of a p1] in_e [of b p2] by metis
    qed
    moreover have "sd \<longleftrightarrow> device_of s p1 = device_of s p2"
      if "ino_at s (p1 @ [c]) \<noteq> None" "ino_at s (p2 @ [c]) \<noteq> None"
      using sd tree_ok_snoc [OF t] that by blast
    ultimately show ?thesis unfolding same_number [OF t n] by blast
  qed
  show "c \<in> set ns \<longleftrightarrow>
      (ino_at s (p1 @ [c]) \<noteq> None \<or> ino_at s (p2 @ [c]) \<noteq> None) \<and> \<not> same_at s (p1 @ [c]) (p2 @ [c])"
    using m names same unfolding ns by blast
qed


definition deep_enough :: "fsys \<Rightarrow> loc \<Rightarrow> string list \<Rightarrow> nat \<Rightarrow> bool" where
  "deep_enough s b q n \<longleftrightarrow> (\<forall>r. ino_at s (b @ q @ r) \<noteq> None \<longrightarrow> length r < n)"

lemma deep_enough_child: "deep_enough s b q (Suc n) \<Longrightarrow> deep_enough s b (q @ [c]) n"
  by (auto simp: deep_enough_def dest: spec [of _ "c # _"])

context host_reads
begin

lemma childInfo_at:
  assumes t: "tree_ok s" and nf: "no_faults h s" and d: "dirs_to s (hRoot h) ps"
    and names: "list_all is_name ps" "list_all is_name q" "is_name c"
  shows "childInfo h s (dir_at s (hRoot h @ ps @ q)) (Join [abs_path ps, Join [abs_path q, c]]) =
    Inr (info_at s (hRoot h @ ps @ q @ [c]))"
proof (cases "dir_at s (hRoot h @ ps @ q)")
  case False
  then have "ino_at s ((hRoot h @ ps @ q) @ [c]) = None" using tree_ok_snoc [OF t] by blast
  then show ?thesis using False by (simp add: childInfo_def info_at_def)
next
  case True
  have path: "Join [abs_path ps, Join [abs_path q, c]] = abs_path ((ps @ q) @ [c])"
    using Join_abs2 [OF names(1), of "q @ [c]"] Join_abs [OF names(2,3)] names by simp
  have "kresolve h False (abs_path ((ps @ q) @ [c])) s = Inr (hRoot h @ (ps @ q) @ [c])"
    using dirs_to_dir [OF t d True] names by (intro kresolve_abs) simp_all
  from os_Lstat_abs [OF nf this] show ?thesis
    unfolding path by (auto simp: childInfo_def info_at_def True split: option.split)
qed

lemma dir_names:
  assumes t: "tree_ok s" and n: "inodes_ok s" and nf: "no_faults h s" and d: "dirs_to s (hRoot h) ps"
    and names: "list_all is_name ps" "list_all is_name q"
  shows "bindE (if dir_at s (hRoot h @ ps @ q)
          then readE (\<lambda>_. readdirnames h behind (Join [abs_path ps, abs_path q]) s) else ret []) g r =
    g (if dir_at s (hRoot h @ ps @ q) then dir_entries s (hRoot h @ ps @ q) else []) r"
proof (cases "dir_at s (hRoot h @ ps @ q)")
  case True
  have "kresolve h True (abs_path (ps @ q)) s = Inr (hRoot h @ ps @ q)"
    using dirs_to_dir [OF t d True] names by (intro kresolve_dirs) simp_all
  from readdirnames_dir [OF t n nf True this, of behind] show ?thesis
    by (simp add: True Join_abs2 names bindE_readE)
qed simp

lemma walkTrees_fills:
  assumes t: "tree_ok s" and n: "inodes_ok s" and nf: "no_faults h s"
    and d: "dirs_to s (hRoot h) ps" "dirs_to s (hRoot h) qs"
    and names: "list_all is_name ps" "list_all is_name qs"
    and w: "w = \<lparr>wDir1 = abs_path ps, wDir2 = abs_path qs, wBehind = behind\<rparr>"
    and b: "b1 = hRoot h @ ps" "b2 = hRoot h @ qs" and K: "K = kept s b1 b2"
  shows "ino_at s (b1 @ q) \<noteq> None \<or> ino_at s (b2 @ q) \<noteq> None \<Longrightarrow> list_all is_name q \<Longrightarrow>
    deep_enough s b1 q m \<Longrightarrow> deep_enough s b2 q m \<Longrightarrow> K q \<Longrightarrow>
    ready s b1 q r1 \<Longrightarrow> ready s b2 q r2 \<Longrightarrow>
    \<exists>r1' r2'. walkTrees m h w s (abs_path q) (info_at s (b1 @ q)) (info_at s (b2 @ q)) (r1, r2) =
        (Inr (), (r1', r2')) \<and>
      filled s b1 K q r1 r1' \<and> filled s b2 K q r2 r2'"
proof (induction m arbitrary: q r1 r2)
  case 0
  then show ?case by (auto simp: deep_enough_def dest: spec [of _ "[]"])
next
  case (Suc m)
  note q = Suc.prems(2) and o1 = Suc.prems(6) and o2 = Suc.prems(7)
  let ?i1 = "info_at s (b1 @ q)" and ?i2 = "info_at s (b2 @ q)"
  let ?sd = "case (?i1, ?i2) of (Some a, Some b) \<Rightarrow> fiDev a = fiDev b | _ \<Rightarrow> False"
  let ?m = "(if abs_path q \<noteq> [slash]
    then bindE (onRoot1 (walkchunk h s (abs_path q) ?i1 (wDir1 w)))
      (\<lambda>_. onRoot2 (walkchunk h s (abs_path q) ?i2 (wDir2 w)))
    else ret ())"
  obtain u1 u2 where u: "partly s b1 K q {} r1 u1" "partly s b2 K q {} r2 u2"
    "?m (r1, r2) = (Inr (), (u1, u2))"
  proof (cases "q = []")
    case True
    have "partly s b1 K q {} r1 r1" "partly s b2 K q {} r2 r2"
      using o1 o2 True by (auto simp: partly_def ready_def)
    then show ?thesis using that True by simp
  next
    case False
    have o: "ready s (hRoot h @ ps) q r1" "ready s (hRoot h @ qs) q r2" using o1 o2 b by simp_all
    show ?thesis
      using walkchunk_fills [OF t o(1) False names(1) q d(1), of K] walkchunk_fills [OF t o(2) False names(2) q d(2), of K]
        that False q
      by (auto simp: abs_path_slash onRoot1_def onRoot2_def bindE_def w b)
  qed
  have m: "bindE ?m g (r1, r2) = g () (u1, u2)" for g :: "unit \<Rightarrow> (finfo \<times> finfo, goerror, unit) io"
    using bindE_Inr [of ?m "(r1, r2)" "()" "(u1, u2)" g] u(3) by blast
  have dir: "(case info_at s p of None \<Rightarrow> False | Some fi \<Rightarrow> fi_is_dir fi) = dir_at s p" for p
    by (rule info_at_dir)
  let ?ns = "merge_names ?sd (if dir_at s (b1 @ q) then dir_entries s (b1 @ q) else [])
    (if dir_at s (b2 @ q) then dir_entries s (b2 @ q) else [])"
  let ?f = "\<lambda>name. let fname = Join [abs_path q, name]
     in bindE (readE (\<lambda>_. childInfo h s (dir_at s (b1 @ q)) (Join [wDir1 w, fname]))) (\<lambda>cInfo1.
        bindE (readE (\<lambda>_. childInfo h s (dir_at s (b2 @ q)) (Join [wDir2 w, fname]))) (\<lambda>cInfo2.
        walkTrees m h w s fname cInfo1 cInfo2))"
  have sd: "?sd \<longleftrightarrow> device_of s (b1 @ q) = device_of s (b2 @ q)" if "dir_at s (b1 @ q)" "dir_at s (b2 @ q)"
    using that by (auto simp: info_at_def device_of_def dir_at_def node_at_def fileinfo_def split: option.splits)
  have mk: "distinct ?ns" "c \<in> set ?ns \<longleftrightarrow>
      (ino_at s ((b1 @ q) @ [c]) \<noteq> None \<or> ino_at s ((b2 @ q) @ [c]) \<noteq> None) \<and>
      \<not> same_at s ((b1 @ q) @ [c]) ((b2 @ q) @ [c])" for c
    using merge_kept [OF t n sd refl] by blast+
  have nm1: "bindE (if dir_at s (b1 @ q) then readE (\<lambda>_. readdirnames h (wBehind w) (Join [wDir1 w, abs_path q]) s)
        else ret []) g (u1, u2) = g (if dir_at s (b1 @ q) then dir_entries s (b1 @ q) else []) (u1, u2)"
    for g :: "nameIno list \<Rightarrow> (finfo \<times> finfo, goerror, unit) io"
    using dir_names [OF t n nf d(1) names(1) q, of behind g "(u1, u2)"] by (simp only: w b append_assoc walker.simps)
  have nm2: "bindE (if dir_at s (b2 @ q) then readE (\<lambda>_. readdirnames h (wBehind w) (Join [wDir2 w, abs_path q]) s)
        else ret []) g (u1, u2) = g (if dir_at s (b2 @ q) then dir_entries s (b2 @ q) else []) (u1, u2)"
    for g :: "nameIno list \<Rightarrow> (finfo \<times> finfo, goerror, unit) io"
    using dir_names [OF t n nf d(2) names(2) q, of behind g "(u1, u2)"] by (simp only: w b append_assoc walker.simps)
  have run: "walkTrees (Suc m) h w s (abs_path q) ?i1 ?i2 (r1, r2) =
      (if \<not> dir_at s (b1 @ q) \<and> \<not> dir_at s (b2 @ q) then (Inr (), (u1, u2)) else foreachE ?f ?ns (u1, u2))"
    by (cases "\<not> dir_at s (b1 @ q) \<and> \<not> dir_at s (b2 @ q)")
      (simp_all only: walkTrees.simps(2) m dir Let_def nm1 nm2 if_True if_False ret_run simp_thms)
  have last: "\<exists>r1' r2'. walkTrees (Suc m) h w s (abs_path q) ?i1 ?i2 (r1, r2) = (Inr (), (r1', r2')) \<and>
      partly s b1 K q (set ?ns) r1 r1' \<and> partly s b2 K q (set ?ns) r2 r2'"
  proof (cases "\<not> dir_at s (b1 @ q) \<and> \<not> dir_at s (b2 @ q)")
    case True
    then show ?thesis using run u by auto
  next
    case False
    have "\<exists>r1' r2'. foreachE ?f ?ns (u1, u2) = (Inr (), (r1', r2')) \<and>
        partly s b1 K q (set ?ns \<union> {}) r1 r1' \<and> partly s b2 K q (set ?ns \<union> {}) r2 r2'"
    proof (rule foreach_partly [OF t o1 o2 _ mk(1) _ u(1,2)])
      fix c v1 v2
      assume c: "c \<in> set ?ns" and v: "ready s b1 (q @ [c]) v1" "ready s b2 (q @ [c]) v2"
      from mk(2) [of c] c have ex: "ino_at s (b1 @ q @ [c]) \<noteq> None \<or> ino_at s (b2 @ q @ [c]) \<noteq> None"
        and ns: "\<not> same_at s (b1 @ q @ [c]) (b2 @ q @ [c])" by simp_all
      then have cn: "is_name c"
        using tree_ok_snoc [OF t, of "b1 @ q" c] tree_ok_snoc [OF t, of "b2 @ q" c] by auto
      have "K (q @ [c])" using Suc.prems(5) ns by (simp add: K kept_snoc)
      then have "\<exists>r1' r2'. walkTrees m h w s (abs_path (q @ [c])) (info_at s (b1 @ q @ [c]))
            (info_at s (b2 @ q @ [c])) (v1, v2) = (Inr (), (r1', r2')) \<and>
          filled s b1 K (q @ [c]) v1 r1' \<and> filled s b2 K (q @ [c]) v2 r2'"
        using ex q cn Suc.prems(3,4) v by (intro Suc.IH) (simp_all add: deep_enough_child)
      moreover have "?f c (v1, v2) = walkTrees m h w s (abs_path (q @ [c])) (info_at s (b1 @ q @ [c]))
            (info_at s (b2 @ q @ [c])) (v1, v2)"
        using childInfo_at [OF t nf d(1) names(1) q cn] childInfo_at [OF t nf d(2) names(2) q cn]
        by (simp add: Let_def bindE_readE w b) (simp add: Join_abs [OF q cn])
      ultimately show "\<exists>r1' r2'. ?f c (v1, v2) = (Inr (), (r1', r2')) \<and>
          filled s b1 K (q @ [c]) v1 r1' \<and> filled s b2 K (q @ [c]) v2 r2'" by simp
    qed simp
    then show ?thesis using run False by (auto split: if_splits)
  qed
  have none: "only K (fs_view s b) (q @ c # q') = None" if c: "c \<notin> set ?ns" and "b = b1 \<or> b = b2" for b c q'
  proof (cases "same_at s (b1 @ q @ [c]) (b2 @ q @ [c])")
    case True
    then have "\<not> K (q @ [c])" by (simp add: K kept_snoc)
    then have "\<not> K ((q @ [c]) @ q')" using kept_up unfolding K by blast
    then show ?thesis by (simp add: only_def)
  next
    case False
    then have "ino_at s (b @ q @ [c]) = None" using mk(2) [of c] that by auto
    then have nd: "\<not> dir_at s (b @ q @ [c])" "ino_at s (b @ q @ [c]) = None"
      using dir_at_ino [of s "b @ q @ [c]"] by auto
    have "ino_at s (b @ q @ c # q') = None"
    proof (cases "q' = []")
      case False
      then have "ino_at s (b @ q @ c # q') \<noteq> None \<longrightarrow> dir_at s (b @ q @ [c])"
        using below_dirs [OF t, of "b @ q @ [c]" "[]" q'] by simp
      with nd(1) show ?thesis by blast
    qed (use nd(2) in simp)
    then show ?thesis by (simp add: only_def fs_view_def)
  qed
  from last obtain v1 v2 where v: "partly s b1 K q (set ?ns) r1 v1" "partly s b2 K q (set ?ns) r2 v2"
    "walkTrees (Suc m) h w s (abs_path q) ?i1 ?i2 (r1, r2) = (Inr (), (v1, v2))" by blast
  have "filled s b1 K q r1 v1" "filled s b2 K q r2 v2"
    by (rule partly_filled [OF v(1)]; simp add: Suc.prems(5) none)
      (rule partly_filled [OF v(2)]; simp add: Suc.prems(5) none)
  with v(3) show ?case by blast
qed

end


section \<open>ChangesDirs\<close>

lemma walk_depth_enough: "ino_at s p \<noteq> None \<Longrightarrow> length p < walk_depth s"
proof -
  have le: "(m::nat) \<le> fold (\<lambda>e m. max (length (fst e)) m) es m" for m and es :: "(loc \<times> nat) list"
  proof (induction es arbitrary: m)
    case (Cons e es)
    have "m \<le> max (length (fst e)) m" by simp
    also have "\<dots> \<le> fold (\<lambda>e m. max (length (fst e)) m) es (max (length (fst e)) m)" by (rule Cons.IH)
    finally show ?case by simp
  qed simp
  have all: "(p, i) \<in> set es \<Longrightarrow> length p \<le> fold (\<lambda>e m. max (length (fst e)) m) es m" for i m and es :: "(loc \<times> nat) list"
  proof (induction es arbitrary: m)
    case (Cons e es)
    then show ?case using le [of "max (length (fst e)) m" es] by auto
  qed simp
  assume "ino_at s p \<noteq> None"
  then obtain i where "(p, i) \<in> set (dents s)" by (auto simp: ino_at_def dest: map_of_SomeD)
  from all [OF this, of 0] show ?thesis by (simp add: walk_depth_def)
qed

text \<open>A directory that is reached without symlinks.\<close>

definition plain_dir :: "host \<Rightarrow> fsys \<Rightarrow> string list \<Rightarrow> bool" where
  "plain_dir h s p \<longleftrightarrow> list_all is_name p \<and> dirs_to s (hRoot h) p \<and> dir_at s (hRoot h @ p)"

lemma plain_dir_Lstat:
  assumes "plain_dir h s p" and "no_faults h s" and "tree_ok s"
  shows "fst (os_Lstat h (abs_path p) s) = Inr (the (info_at s (hRoot h @ p)))"
    and "info_at s (hRoot h @ p) \<noteq> None"
proof -
  have "kresolve h False (abs_path p) s = Inr (hRoot h @ p)"
    using assms(1) by (intro kresolve_dirs) (simp_all add: plain_dir_def)
  note l = os_Lstat_abs [OF assms(2) this]
  have "ino_at s (hRoot h @ p) \<noteq> None" using assms(1) dir_at_ino by (auto simp: plain_dir_def)
  then show i: "info_at s (hRoot h @ p) \<noteq> None" using info_at_None [OF assms(3)] by simp
  show "fst (os_Lstat h (abs_path p) s) = Inr (the (info_at s (hRoot h @ p)))"
    using l i by (auto simp: info_at_def split: option.splits)
qed

lemma ready_root: "ready s b [] newRootFileInfo"
proof -
  have "look newRootFileInfo q' = None" if "q' \<noteq> []" for q'
    using that by (cases q') (simp_all add: newRootFileInfo_def)
  then show ?thesis by (simp add: ready_def newRootFileInfo_def look_def f_isDir_def)
qed

context host_reads
begin

lemma collect_views:
  assumes t: "tree_ok s" and n: "inodes_ok s" and nf: "no_faults h s"
    and d: "plain_dir h s ps" "plain_dir h s qs"
  shows "\<exists>r1 r2. collectFileInfoForChanges h behind (abs_path ps) (abs_path qs) s = Inr (r1, r2) \<and>
    wf_tree r1 \<and> wf_tree r2 \<and>
    look r1 = only (kept s (hRoot h @ ps) (hRoot h @ qs)) (fs_view s (hRoot h @ ps)) \<and>
    look r2 = only (kept s (hRoot h @ ps) (hRoot h @ qs)) (fs_view s (hRoot h @ qs))"
proof -
  let ?b1 = "hRoot h @ ps" and ?b2 = "hRoot h @ qs" and ?r = newRootFileInfo
  let ?K = "kept s ?b1 ?b2"
  have deep: "deep_enough s b [] (walk_depth s)" for b
    using walk_depth_enough [of s "b @ _"] by (fastforce simp: deep_enough_def)
  note ready = ready_root
  have K: "?K []" by (simp add: kept_def)
  note i = plain_dir_Lstat [OF d(1) nf t] plain_dir_Lstat [OF d(2) nf t]
  have ex: "ino_at s (?b1 @ []) \<noteq> None \<or> ino_at s (?b2 @ []) \<noteq> None"
    using d(1) dir_at_ino by (auto simp: plain_dir_def)
  obtain r1 r2 where run: "walkTrees (walk_depth s) h \<lparr>wDir1 = abs_path ps, wDir2 = abs_path qs, wBehind = behind\<rparr>
      s (abs_path []) (info_at s (?b1 @ [])) (info_at s (?b2 @ [])) (?r, ?r) = (Inr (), (r1, r2))"
    and f: "filled s ?b1 ?K [] ?r r1" "filled s ?b2 ?K [] ?r r2"
    using walkTrees_fills [OF t n nf _ _ _ _ refl refl refl refl ex _ deep deep K ready ready]
      d unfolding plain_dir_def by (metis list.pred_inject(1))
  have root: "look ?r [] = Some (None, [])" by (simp add: look_def newRootFileInfo_def)
  have "look r1 = only ?K (fs_view s ?b1)" "look r2 = only ?K (fs_view s ?b2)"
    using f K root by (auto simp: filled_def fun_eq_iff only_def fs_view_def)
  moreover have "collectFileInfoForChanges h behind (abs_path ps) (abs_path qs) s = Inr (r1, r2)"
    using run i by (auto simp: collectFileInfoForChanges_def)
  ultimately show ?thesis using f by (auto simp: filled_def)
qed

lemma ChangesDirs_views:
  assumes "tree_ok s" and "inodes_ok s" and "no_faults h s"
    and "plain_dir h s old" and "plain_dir h s new"
  shows "\<exists>cs. ChangesDirs h tmp behind (abs_path new) (abs_path old) s = (Inr cs, s) \<and>
    (\<forall>c. c \<in> set cs \<longleftrightarrow>
      (\<exists>q k. q \<noteq> [] \<and> c = \<lparr>cPath = abs_path q, cKind = k\<rparr> \<and>
        change_at (fs_view s (hRoot h @ new)) (fs_view s (hRoot h @ old)) q k))"
proof -
  let ?N = "fs_view s (hRoot h @ new)" and ?U = "fs_view s (hRoot h @ old)"
  let ?K = "kept s (hRoot h @ old) (hRoot h @ new)"
  obtain r1 r2 where r: "collectFileInfoForChanges h behind (abs_path old) (abs_path new) s = Inr (r1, r2)"
    "wf_tree r1" "wf_tree r2" "look r1 = only ?K ?U" "look r2 = only ?K ?N"
    using collect_views [OF assms] by blast
  have run: "ChangesDirs h tmp behind (abs_path new) (abs_path old) s = (Inr (info_Changes r2 (Some r1)), s)"
    by (simp add: ChangesDirs_def ChangesDirs_by_def bindE_readE r(1))
  have "change_at (look r2) (look r1) q k = change_at ?N ?U q k" for q k
    unfolding r(4,5)
    by (rule change_at_only) (blast intro: kept_up, simp add: not_kept_same [OF assms(1,2)])
  then show ?thesis
    unfolding run by (simp add: info_Changes_set [OF r(3,2)] change_spec_look)
qed

end


section \<open>Checking a finite file system\<close>

lemma tree_ok_list:
  assumes "\<forall>(p, i) \<in> set (dents s). inodes s i \<noteq> None \<and> (p \<noteq> [] \<longrightarrow> is_name (last p) \<and> dir_at s (butlast p))"
  shows "tree_ok s"
  using assms unfolding tree_ok_def ino_at_def by (blast dest: map_of_SomeD)

lemma inodes_ok_list:
  assumes "\<forall>(p, i) \<in> set (dents s). \<forall>(q, j) \<in> set (dents s).
      (inodev s i = inodev s j \<longrightarrow> i = j) \<and> (i = j \<longrightarrow> p = q \<or> \<not> dir_at s p) \<and>
      (p \<noteq> [] \<longrightarrow> q = butlast p \<longrightarrow> fst (inodev s i) = fst (inodev s j))"
    and "\<forall>(p, i) \<in> set (dents s). 0 < snd (inodev s i) \<and> snd (inodev s i) < 2 ^ 64 \<and>
      (p \<noteq> [] \<longrightarrow> nul \<notin> set (last p) \<and> length (last p) \<le> 255)"
  shows "inodes_ok s"
proof -
  have i: "(p, i) \<in> set (dents s)" if "ino_at s p = Some i" for p i
    using that by (simp add: ino_at_def map_of_SomeD)
  have two: "(inodev s i = inodev s j \<longrightarrow> i = j) \<and> (i = j \<longrightarrow> p = q \<or> \<not> dir_at s p) \<and>
      (p \<noteq> [] \<longrightarrow> q = butlast p \<longrightarrow> fst (inodev s i) = fst (inodev s j))"
    if "ino_at s p = Some i" "ino_at s q = Some j" for p i q j
    using bspec [OF bspec [OF assms(1) i [OF that(1)], simplified] i [OF that(2)]] by simp
  show ?thesis
    unfolding inodes_ok_def
  proof (intro conjI allI impI)
    fix p q i j assume "ino_at s p = Some i" "ino_at s q = Some j" "inodev s i = inodev s j"
    then show "i = j" using two by blast
  next
    fix p i j assume "p \<noteq> []" "ino_at s p = Some i" "ino_at s (butlast p) = Some j"
    then show "fst (inodev s i) = fst (inodev s j)" using two by blast
  next
    fix p q r i assume "ino_at s p = Some i" "ino_at s q = Some i" "dir_at s p"
    then have "p = q" using two by blast
    then show "ino_at s (p @ r) = ino_at s (q @ r)" by simp
  next
    fix p i assume "ino_at s p = Some i"
    from assms(2) i [OF this] show "0 < snd (inodev s i)" "snd (inodev s i) < 2 ^ 64"
      "p \<noteq> [] \<Longrightarrow> nul \<notin> set (last p)" "p \<noteq> [] \<Longrightarrow> length (last p) \<le> 255" by auto
  qed
qed

section \<open>The properties\<close>

text \<open>
  Two layers: \<open>/new/f\<close> has grown since \<open>/old/f\<close>, \<open>same\<close> is one file with two names, \<open>gone\<close> was
  removed with what it held.
\<close>

definition layers_fs :: fsys where
  "layers_fs =
     (let f = fs_of
        [([], mk_node KDir 0x1ED), ([''old''], mk_node KDir 0x1ED), ([''new''], mk_node KDir 0x1ED),
         ([''old'', ''f''], mk_node (KReg ''x'') 0x1A4), ([''new'', ''f''], mk_node (KReg ''xyz'') 0x1A4),
         ([''old'', ''same''], mk_node (KReg ''s'') 0x1A4),
         ([''old'', ''gone''], mk_node KDir 0x1ED), ([''old'', ''gone'', ''g''], mk_node (KReg ''g'') 0x1A4)]
      in f\<lparr>dents := ([''new'', ''same''], 5) # dents f\<rparr>)"

lemma layers_ok: "tree_ok layers_fs" "inodes_ok layers_fs" "no_faults posix_host layers_fs"
    "plain_dir posix_host layers_fs [''old'']" "plain_dir posix_host layers_fs [''new'']"
proof -
  show "tree_ok layers_fs" by (rule tree_ok_list) code_simp
  show "inodes_ok layers_fs" 
  proof (rule inodes_ok_list)
    show "\<forall>(p, i) \<in> set (dents layers_fs). 0 < snd (inodev layers_fs i) \<and> snd (inodev layers_fs i) < 2 ^ 64 \<and>
        (p \<noteq> [] \<longrightarrow> nul \<notin> set (last p) \<and> length (last p) \<le> 255)"
      by (simp add: layers_fs_def fs_of_def nul_def char_of_def)
  qed code_simp
  show "no_faults posix_host layers_fs" by (simp add: no_faults_def)
  show "plain_dir posix_host layers_fs [''old'']" "plain_dir posix_host layers_fs [''new'']" by code_simp+
qed

text \<open>
  C5: \<open>ChangesDirs\<close> of two directories returns, and reports exactly the differences between the
  two trees as they stand in the file system: added, deleted and modified paths, each directory
  with a change below it. Leaving out what has the same inode on both sides (and reading
  directories from raw \<open>getdents\<close> records) changes nothing of the report, and the file system is
  only read.
\<close>

theorem ChangesDirs_exact:
  assumes "host_reads h" and "no_faults h s" and "tree_ok s" and "inodes_ok s"
    and "plain_dir h s old" and "plain_dir h s new"
  shows "\<exists>cs. ChangesDirs h tmp behind (abs_path new) (abs_path old) s = (Inr cs, s) \<and>
    (\<forall>c. c \<in> set cs \<longleftrightarrow>
      (\<exists>q k. q \<noteq> [] \<and> c = \<lparr>cPath = abs_path q, cKind = k\<rparr> \<and>
        change_at (fs_view s (hRoot h @ new)) (fs_view s (hRoot h @ old)) q k))"
  using host_reads.ChangesDirs_views [OF assms(1,3,4,2,5,6)] by blast

theorem ChangesDirs_exact_witness:
  "\<exists>cs. ChangesDirs posix_host ''/tmp'' [] ''/new'' ''/old'' layers_fs = (Inr cs, layers_fs) \<and>
     \<lparr>cPath = ''/f'', cKind = ChangeModify\<rparr> \<in> set cs \<and>
     \<lparr>cPath = ''/gone/g'', cKind = ChangeDelete\<rparr> \<notin> set cs"
proof -
  have root: "hRoot posix_host = []" by (simp add: posix_host_def base_host_def)
  have paths: "abs_path [''new''] = ''/new''" "abs_path [''old''] = ''/old''" "abs_path [''f''] = ''/f''"
    "abs_path [''gone'', ''g''] = ''/gone/g''" by code_simp+
  have f: "changed_at (fs_view layers_fs [''new'']) (fs_view layers_fs [''old'']) [''f'']"
    unfolding changed_at_def
  proof (intro exI conjI)
    show "fs_view layers_fs [''new''] [''f''] = Some (Some (fileinfo layers_fs 4 (mk_node (KReg ''xyz'') 0x1A4)), [])"
      "fs_view layers_fs [''old''] [''f''] = Some (Some (fileinfo layers_fs 3 (mk_node (KReg ''x'') 0x1A4)), [])"
      "v_differs (Some (fileinfo layers_fs 3 (mk_node (KReg ''x'') 0x1A4)), [])
        (Some (fileinfo layers_fs 4 (mk_node (KReg ''xyz'') 0x1A4)), [])" by code_simp+
  qed
  have g: "\<not> change_at (fs_view layers_fs [''new'']) (fs_view layers_fs [''old'']) q ChangeDelete"
    if "abs_path q = ''/gone/g''" for q
  proof
    assume c: "change_at (fs_view layers_fs [''new'']) (fs_view layers_fs [''old'']) q ChangeDelete"
    then have "ino_at layers_fs ([''old''] @ q) \<noteq> None"
      by (auto simp: change_at_def deleted_at_def fs_view_def split: option.splits)
    then have "list_all is_name q" by (rule below_names [OF layers_ok(1)])
    then have "comps (abs_path q) = q" by (rule comps_abs)
    moreover have "comps ''/gone/g'' = [''gone'', ''g'']" by code_simp
    ultimately have "q = [''gone'', ''g'']" using that by simp
    moreover have "fs_view layers_fs [''new''] [''gone''] = None" by code_simp
    ultimately show False using c by (simp add: change_at_def deleted_at_def)
  qed
  from ChangesDirs_exact [OF posix_reads.host_reads_axioms layers_ok(3,1,2,4,5), of "''/tmp''" "[]"]
  obtain cs where cs: "ChangesDirs posix_host ''/tmp'' [] ''/new'' ''/old'' layers_fs = (Inr cs, layers_fs)"
    "\<And>c. c \<in> set cs \<longleftrightarrow>
      (\<exists>q k. q \<noteq> [] \<and> c = \<lparr>cPath = abs_path q, cKind = k\<rparr> \<and>
        change_at (fs_view layers_fs [''new'']) (fs_view layers_fs [''old'']) q k)"
    unfolding root append_Nil paths by blast
  have "\<lparr>cPath = ''/f'', cKind = ChangeModify\<rparr> \<in> set cs"
    unfolding cs(2) using f paths(3) by (intro exI [of _ "[''f'']"]) (simp add: change_at_def)
  moreover have "\<lparr>cPath = ''/gone/g'', cKind = ChangeDelete\<rparr> \<notin> set cs"
    unfolding cs(2) using g by auto
  ultimately show ?thesis using cs(1) by blast
qed


text \<open>
  C20: \<open>parseDirent\<close> of the records of a \<open>getdents\<close> buffer gives back their entries in order, less
  deleted ones and the two dot entries, and consumes the whole buffer, whatever memory lies
  behind it (the parser looks up to 10000 bytes past the start of a name).
\<close>

theorem parseDirent_roundtrip:
  assumes "recs_ok rs"
  shows "parseDirent behind (rec_bytes rs) names =
    Some (Inr (length (rec_bytes rs), names @ filter useful (rec_entries rs)))"
  by (rule parseDirent_records [OF assms])

theorem parseDirent_roundtrip_witness:
  "parseDirent ''xyz'' (rec_bytes [(1, 4, \<lparr>niName = dot, niIno = 2\<rparr>), (2, 8, \<lparr>niName = ''etc'', niIno = 9\<rparr>)]) [] =
    Some (Inr (48, [\<lparr>niName = ''etc'', niIno = 9\<rparr>]))"
proof -
  have ok: "recs_ok [(1, 4, \<lparr>niName = dot, niIno = 2\<rparr>), (2, 8, \<lparr>niName = ''etc'', niIno = 9\<rparr>)]"
    by (simp add: recs_ok_def dirent_ok_def nul_def char_of_def)
  show ?thesis
    using parseDirent_roundtrip [OF ok, of "''xyz''" "[]"]
    by (simp add: rec_bytes_def length_dirent dirent_size_def rec_entries_def useful_def)
qed

text \<open>
  C21: \<open>lgetxattr\<close> returns as soon as the attribute stops changing size under it, and reads the
  value of an attribute that does not change, of any length: the buffer of 128 bytes is
  replaced by one of the size the kernel asks for.
\<close>

theorem lgetxattr_returns:
  assumes "\<And>k n. K \<le> k \<Longrightarrow> call k n = getxattr_value v n"
  shows "(\<exists>r. lgetxattr_calls call path attr = Some r) \<and>
    (K = 0 \<longrightarrow> lgetxattr_calls call path attr = Some (Inr v))"
  using lgetxattr_loop_stable [of K call v path attr 1 128 "call 0 128"] lgetxattr_calls_value [of call v path attr] assms
  by (auto simp: lgetxattr_calls_def)

theorem lgetxattr_returns_witness:
  "lgetxattr_calls (\<lambda>k. getxattr_value (Some (replicate 200 CHR ''c''))) ''/f'' ''user.a'' =
     Some (Inr (Some (replicate 200 CHR ''c'')))"
  using lgetxattr_returns [of 0 "\<lambda>k. getxattr_value (Some (replicate 200 CHR ''c''))"
      "Some (replicate 200 CHR ''c'')" "''/f''" "''user.a''"]
  by simp

end
