(* ===== verification/Tarball.thy ===== *)
theory Tarball
  imports Pack Changes
begin

text \<open>
  Whole archives: \<open>Tarballer\<close>, \<open>TarWithOptions\<close> and \<open>Tar\<close> of \<open>archive.go\<close>, \<open>ExportChanges\<close> of
  \<open>changes.go\<close>. What the archive is written with, \<open>archive/tar\<close>, the codecs and
  \<open>github.com/moby/patternmatcher\<close>, is a record of parameters. The file system is only read: it
  is the argument \<open>s\<close>.
\<close>

section \<open>Parameters\<close>

text \<open>
  A compiled pattern list: \<open>MatchesUsingParentResults\<close> on a path and what its parent directory
  yielded (\<open>'m\<close> is \<open>patternmatcher.MatchInfo\<close>, \<open>pmZero\<close> its zero value), whether there are
  exclusions, and the patterns, each with whether it is one.
\<close>

record 'm patternMatcher =
  pmMatches :: "string \<Rightarrow> 'm \<Rightarrow> goerror + bool \<times> 'm"
  pmZero :: 'm
  pmExclusions :: bool
  pmPatterns :: "(bool \<times> string) list"

record 'm goEnv =
  eHost :: host
  eCodecs :: codecs
  eEnc :: encoder
  eTarBytes :: "tarWriter \<Rightarrow> string"
  eParse :: "body \<Rightarrow> tarStream"
  eNewMatcher :: "string list \<Rightarrow> goerror + 'm patternMatcher"
  eEmptyMap :: IdentityMapping

section \<open>Names\<close>

definition addLongPathPrefix :: "string \<Rightarrow> string" where
  "addLongPathPrefix srcPath = srcPath"

definition TrimSuffix :: "string \<Rightarrow> string \<Rightarrow> string" where
  "TrimSuffix s suf = (if HasSuffix s suf then take (length s - length suf) s else s)"

definition getWalkRoot :: "string \<Rightarrow> string \<Rightarrow> string" where
  "getWalkRoot srcPath incl = TrimSuffix srcPath [slash] @ [slash] @ incl"

text \<open>\<open>strings.Replace(s, old, new, 1)\<close>.\<close>

fun Replace1 :: "string \<Rightarrow> string \<Rightarrow> string \<Rightarrow> string" where
  "Replace1 s old new =
     (if HasPrefix s old then new @ drop (length old) s
      else (case s of [] \<Rightarrow> [] | c # cs \<Rightarrow> c # Replace1 cs old new))"

declare Replace1.simps [simp del]

text \<open>\<open>errors.Is(err, io.ErrClosedPipe)\<close>.\<close>

fun is_closed_pipe :: "goerror \<Rightarrow> bool" where
  "is_closed_pipe (PathError _ _ e) = is_closed_pipe e"
| "is_closed_pipe (BreakoutErr e) = is_closed_pipe e"
| "is_closed_pipe (ErrWrap _ _ e) = is_closed_pipe e"
| "is_closed_pipe e = (e = ErrClosedPipe)"

fun is_panic :: "goerror \<Rightarrow> bool" where
  "is_panic (GoPanic _) = True"
| "is_panic _ = False"

section \<open>Excluding\<close>

text \<open>
  The stack of directories the walk is in, each with its match info: \<open>parentDirs\<close> and
  \<open>parentMatchInfo\<close>, which grow and shrink together, innermost last.
\<close>

definition popParents :: "string \<Rightarrow> (string \<times> 'm) list \<Rightarrow> (string \<times> 'm) list" where
  "popParents rel ps = rev (dropWhile (\<lambda>p. \<not> HasPrefix rel (fst p @ [slash])) (rev ps))"

text \<open>Whether to skip, and the new stack. A path that is the include itself is never skipped.\<close>

definition matchEntry ::
  "'m patternMatcher \<Rightarrow> string \<Rightarrow> string \<Rightarrow> bool \<Rightarrow> (string \<times> 'm) list \<Rightarrow>
     (goerror + bool) \<times> (string \<times> 'm) list" where
  "matchEntry pm incl rel isDir parents =
     (if incl = rel then (Inr False, parents)
      else
        (let ps = popParents rel parents
         in case pmMatches pm rel (if ps \<noteq> [] then snd (last ps) else pmZero pm) of
              Inl err \<Rightarrow> (Inl err, ps)
            | Inr (skip, matchInfo) \<Rightarrow>
                (Inr skip, if isDir then ps @ [(rel, matchInfo)] else ps)))"

text \<open>A skipped directory is still entered when an exclusion names something in it.\<close>

definition skipsDir :: "'m patternMatcher \<Rightarrow> string \<Rightarrow> bool \<Rightarrow> bool" where
  "skipsDir pm rel isDir \<longleftrightarrow>
     isDir \<and>
     \<not> (pmExclusions pm \<and>
       (\<exists>pat \<in> set (pmPatterns pm). fst pat \<and> HasPrefix (snd pat @ [slash]) (rel @ [slash])))"

section \<open>The walk\<close>

record 'm packState =
  psAppender :: tarAppender
  psSeen :: "string list"
  psParents :: "(string \<times> 'm) list"

definition onAppender :: "(tarAppender, 'e, 'a) io \<Rightarrow> ('m packState, 'e, 'a) io" where
  "onAppender m st = (case m (psAppender st) of (r, ta) \<Rightarrow> (r, st\<lparr>psAppender := ta\<rparr>))"

definition onParents ::
  "((string \<times> 'm) list \<Rightarrow> (goerror + 'a) \<times> (string \<times> 'm) list) \<Rightarrow> ('m packState, wsignal, 'a) io" where
  "onParents f st =
     (case f (psParents st) of (r, ps) \<Rightarrow> (map_sum WalkErr id r, st\<lparr>psParents := ps\<rparr>))"

text \<open>The name an entry gets: the first occurrence of the include is replaced.\<close>

definition rebaseName :: "TarOptions \<Rightarrow> string \<Rightarrow> string \<Rightarrow> string" where
  "rebaseName opts incl rel =
     (let name = (case map_of (oRebaseNames opts) incl of None \<Rightarrow> [] | Some r \<Rightarrow> r)
      in if name \<noteq> [] then Replace1 rel incl (if name \<noteq> [slash] then name else []) else rel)"

text \<open>
  The callback. Errors of \<open>addTarFile\<close> are logged and dropped, except a closed pipe (and a
  panic, which ends the program).
\<close>

definition tarVisit ::
  "'m goEnv \<Rightarrow> fsys \<Rightarrow> 'm patternMatcher \<Rightarrow> TarOptions \<Rightarrow> string \<Rightarrow> string \<Rightarrow>
     string \<Rightarrow> bool \<Rightarrow> goerror option \<Rightarrow> ('m packState, wsignal, unit) io" where
  "tarVisit g s pm opts srcPath incl filePath isDir err =
     (case (err, Rel srcPath filePath) of
        (Some _, _) \<Rightarrow> ret ()
      | (None, None) \<Rightarrow> ret ()
      | (None, Some rel0) \<Rightarrow>
          if \<not> oIncludeSourceDir opts \<and> rel0 = dot \<and> isDir then ret ()
          else
            (let rel = (if oIncludeSourceDir opts \<and> incl = dot \<and> rel0 \<noteq> dot
                        then dot @ [slash] @ rel0 else rel0)
             in bindE (onParents (matchEntry pm incl rel isDir)) (\<lambda>skip.
                if skip then (if skipsDir pm rel isDir then fail SkipDir else ret ())
                else
                  (\<lambda>st.
                     if rel \<in> set (psSeen st) then (Inr (), st)
                     else
                       bindE (tryE (onAppender (addTarFile (eHost g) (eEnc g) s filePath (rebaseName opts incl rel)))) (\<lambda>r.
                         case r of
                           Inr _ \<Rightarrow> ret ()
                         | Inl e \<Rightarrow> if is_closed_pipe e \<or> is_panic e then fail (WalkErr e) else ret ())
                         (st\<lparr>psSeen := rel # psSeen st\<rparr>)))))"

definition tarWalk ::
  "'m goEnv \<Rightarrow> fsys \<Rightarrow> 'm patternMatcher \<Rightarrow> TarOptions \<Rightarrow> string \<Rightarrow> string \<Rightarrow> ('m packState, goerror, unit) io" where
  "tarWalk g s pm opts srcPath incl =
     WalkDir_in (\<lambda>_. s) (\<lambda>p. readE (\<lambda>_. fst (os_Lstat (eHost g) p s)))
       (\<lambda>p. readE (\<lambda>_. fst (os_ReadDir (eHost g) p s)))
       (getWalkRoot srcPath incl) (tarVisit g s pm opts srcPath incl)"

section \<open>Tarballer\<close>

record 'm tarballer =
  tbSrcPath :: string
  tbOptions :: TarOptions
  tbPm :: "'m patternMatcher"
  tbCompressWriter :: writeCloser
  tbWhiteoutConverter :: "string option"

definition NewTarballer :: "'m goEnv \<Rightarrow> string \<Rightarrow> TarOptions \<Rightarrow> goerror + 'm tarballer" where
  "NewTarballer g srcPath options =
     (case eNewMatcher g (oExcludePatterns options) of
        Inl err \<Rightarrow> Inl err
      | Inr pm \<Rightarrow>
          (case CompressStream (oCompression options) of
             Inl err \<Rightarrow> Inl err
           | Inr cw \<Rightarrow>
               Inr \<lparr>tbSrcPath = addLongPathPrefix srcPath, tbOptions = options, tbPm = pm,
                    tbCompressWriter = cw,
                    tbWhiteoutConverter = getWhiteoutConverter (eHost g) (oWhiteoutFormat options)\<rparr>))"

text \<open>The loop over the includes: each starts with no parents; the files seen stay.\<close>

fun includeLoop ::
  "'m goEnv \<Rightarrow> fsys \<Rightarrow> 'm patternMatcher \<Rightarrow> TarOptions \<Rightarrow> string \<Rightarrow> string list \<Rightarrow>
     ('m packState, goerror, unit) io" where
  "includeLoop g s pm opts srcPath [] = ret ()"
| "includeLoop g s pm opts srcPath (i # is) =
     (\<lambda>st. bindE (tryE (tarWalk g s pm opts srcPath i)) (\<lambda>r.
        case r of
          Inl (GoPanic e) \<Rightarrow> fail (GoPanic e)
        | _ \<Rightarrow> includeLoop g s pm opts srcPath is) (st\<lparr>psParents := []\<rparr>))"

text \<open>
  \<open>Do\<close>: what the tar writer has been given when the deferred functions have run. A panic is
  the only error; every other one is logged.
\<close>

definition tarball_Do :: "'m goEnv \<Rightarrow> 'm tarballer \<Rightarrow> fsys \<Rightarrow> goerror + tarWriter" where
  "tarball_Do g t s =
     (let opts = tbOptions t;
          ta = (newTarAppender (oIDMap opts) (oChownOpts opts))\<lparr>taWhiteoutConverter := tbWhiteoutConverter t\<rparr>
      in case fst (os_Lstat (eHost g) (tbSrcPath t) s) of
           Inl err \<Rightarrow> Inr (snd (tar_Close (taWriter ta)))
         | Inr stat \<Rightarrow>
             (let (srcPath, includes) =
                    (if \<not> fi_is_dir stat
                     then (fst (SplitPathDirEntry (tbSrcPath t)), [snd (SplitPathDirEntry (tbSrcPath t))])
                     else (tbSrcPath t, if oIncludeFiles opts = [] then [dot] else oIncludeFiles opts))
              in case includeLoop g s (tbPm t) opts srcPath includes
                        \<lparr>psAppender = ta, psSeen = [], psParents = []\<rparr> of
                   (Inl e, _) \<Rightarrow> Inl e
                 | (Inr _, st) \<Rightarrow> Inr (snd (tar_Close (taWriter (psAppender st))))))"

text \<open>The bytes the reader of the archive gets.\<close>

definition TarWithOptions :: "'m goEnv \<Rightarrow> string \<Rightarrow> TarOptions \<Rightarrow> fsys \<Rightarrow> goerror + body" where
  "TarWithOptions g srcPath options s =
     (case NewTarballer g srcPath options of
        Inl err \<Rightarrow> Inl err
      | Inr tb \<Rightarrow>
          (case tarball_Do g tb s of
             Inl err \<Rightarrow> Inl err
           | Inr tw \<Rightarrow>
               Inr \<lparr>bData = written (eCodecs g) (tbCompressWriter tb) (eTarBytes g tw), bErr = None\<rparr>))"

definition Tar :: "'m goEnv \<Rightarrow> string \<Rightarrow> Compression \<Rightarrow> fsys \<Rightarrow> goerror + body" where
  "Tar g srcPath compr s = TarWithOptions g srcPath ((zeroTarOptions (eEmptyMap g))\<lparr>oCompression := compr\<rparr>) s"

section \<open>ExportChanges\<close>

definition whiteoutHeader :: "time \<Rightarrow> string \<Rightarrow> tarHeader" where
  "whiteoutHeader now path =
     (let whiteOut = Join [Dir path, WhiteoutPrefix @ Base path];
          name = ToSlash whiteOut
      in zeroHeader\<lparr>hName := (if HasPrefix name [slash] then drop 1 name else name),
           hSize := 0, hModTime := now, hAccessTime := now, hChangeTime := now\<rparr>)"

definition exportChange ::
  "'m goEnv \<Rightarrow> fsys \<Rightarrow> string \<Rightarrow> Change \<Rightarrow> (tarAppender, goerror, unit) io" where
  "exportChange g s dir change =
     (if cKind change = ChangeDelete
      then bindE (tryE (onWriter (WriteHeader (eEnc g) (whiteoutHeader (hNow (eHost g)) (cPath change))))) (\<lambda>_. ret ())
      else
        (let srcPath = Join [dir, cPath change];
             name = ToSlash (cPath change);
             archivePath = (if HasPrefix name [slash] then drop 1 name else name)
         in bindE (tryE (addTarFile (eHost g) (eEnc g) s srcPath archivePath)) (\<lambda>r.
            case r of Inl (GoPanic e) \<Rightarrow> fail (GoPanic e) | _ \<Rightarrow> ret ())))"

definition ExportChanges ::
  "'m goEnv \<Rightarrow> string \<Rightarrow> Change list \<Rightarrow> IdentityMapping \<Rightarrow> fsys \<Rightarrow> goerror + tarWriter" where
  "ExportChanges g dir changes idMap s =
     (case foreachE (exportChange g s dir) (changesByPath changes) (newTarAppender idMap None) of
        (Inl e, _) \<Rightarrow> Inl e
      | (Inr _, ta) \<Rightarrow> Inr (snd (tar_Close (taWriter ta))))"

end
