(* ===== verification/TarballFacts.thy ===== *)
theory TarballFacts
  imports Tarball
begin

text \<open>
  What archives look like that \<open>Tarballer.Do\<close> and \<open>ExportChanges\<close> write: invariants of the
  appender, proved for \<open>addTarFile\<close> and lifted to both through one interface.
\<close>

section \<open>Invariants\<close>

text \<open>A statement keeps an invariant, whether it ends with a value or an error.\<close>

abbreviation preserves :: "('s \<Rightarrow> bool) \<Rightarrow> ('s, 'e, 'a) io \<Rightarrow> bool" where
  "preserves I m \<equiv> keeps (\<lambda>s t. I s \<longrightarrow> I t) m"

interpretation inv: guarantee "\<lambda>s t. I s \<longrightarrow> I t" for I :: "'s \<Rightarrow> bool"
  by unfold_locales auto

lemma preserves_cases:
  "preserves I m \<longleftrightarrow> (\<forall>s. I s \<longrightarrow> I (snd (m s)))"
  by (simp add: keeps_def)

lemma preserves_bind:
  assumes "\<And>s. I s \<Longrightarrow> (case m s of (Inl e, s') \<Rightarrow> I s' | (Inr x, s') \<Rightarrow> I (snd (f x s')))"
  shows "preserves I (bindE m f)"
  unfolding preserves_cases
proof (intro allI impI)
  fix s assume "I s"
  from assms [OF this] show "I (snd (bindE m f s))" by (auto simp: bindE_def split: sum.splits prod.splits)
qed

text \<open>
  A path that is not skipped: it is the include itself, or the patterns let it through.
\<close>

definition allowed :: "'m patternMatcher \<Rightarrow> string \<Rightarrow> string \<Rightarrow> bool" where
  "allowed pm incl rel \<longleftrightarrow> rel = incl \<or> (\<exists>mi mi'. pmMatches pm rel mi = Inr (False, mi'))"

lemma matchEntry_allowed: "matchEntry pm incl rel isDir ps = (Inr False, ps') \<Longrightarrow> allowed pm incl rel"
  by (auto simp: matchEntry_def allowed_def Let_def split: if_splits sum.splits)

text \<open>
  The interface between the appender and those who drive it: an invariant that \<open>addTarFile\<close>
  keeps for the names \<open>N\<close>; \<open>ExportChanges\<close> also needs that whiteout headers keep it.
\<close>

locale appender_invariant =
  fixes g :: "'m goEnv" and s :: fsys and N :: "string \<Rightarrow> bool" and I :: "tarAppender \<Rightarrow> bool"
  assumes add: "N name \<Longrightarrow> preserves I (addTarFile (eHost g) (eEnc g) s path name)"
begin

lemma preserves_add_seen:
  assumes "N (rebaseName opts incl rel)"
  shows "preserves (\<lambda>st. I (psAppender st)) (\<lambda>st.
    if rel \<in> set (psSeen st) then (Inr (), st)
    else
      bindE (tryE (onAppender (addTarFile (eHost g) (eEnc g) s p (rebaseName opts incl rel)))) (\<lambda>r.
        case r of
          Inr _ \<Rightarrow> ret ()
        | Inl e \<Rightarrow> if is_closed_pipe e \<or> is_panic e then fail (WalkErr e) else ret ())
        (st\<lparr>psSeen := rel # psSeen st\<rparr>))"
proof -
  have 1: "preserves (\<lambda>st. I (psAppender st)) (onAppender (addTarFile (eHost g) (eEnc g) s p (rebaseName opts incl rel)))"
    using add [OF assms] by (auto simp: keeps_def onAppender_def split: prod.split) (metis snd_conv)
  have "preserves (\<lambda>st. I (psAppender st))
      (bindE (tryE (onAppender (addTarFile (eHost g) (eEnc g) s p (rebaseName opts incl rel)))) (\<lambda>r.
        case r of
          Inr _ \<Rightarrow> ret ()
        | Inl e \<Rightarrow> if is_closed_pipe e \<or> is_panic e then fail (WalkErr e) else ret ()))"
    by (intro inv.keeps_rules 1)
  then show ?thesis by (auto simp: keeps_def dest: spec [of _ "_\<lparr>psSeen := _\<rparr>"])
qed

lemma preserves_visit:
  assumes "\<And>rel. allowed pm incl rel \<Longrightarrow> N (rebaseName opts incl rel)"
  shows "preserves (\<lambda>st. I (psAppender st)) (tarVisit g s pm opts srcPath incl p d err)"
proof -
  have step: "preserves (\<lambda>st. I (psAppender st)) (bindE (onParents (matchEntry pm incl rel d)) (\<lambda>skip.
      if skip then (if skipsDir pm rel d then fail SkipDir else ret ())
      else
        (\<lambda>st.
           if rel \<in> set (psSeen st) then (Inr (), st)
           else
             bindE (tryE (onAppender (addTarFile (eHost g) (eEnc g) s p (rebaseName opts incl rel)))) (\<lambda>r.
               case r of
                 Inr _ \<Rightarrow> ret ()
               | Inl e \<Rightarrow> if is_closed_pipe e \<or> is_panic e then fail (WalkErr e) else ret ())
               (st\<lparr>psSeen := rel # psSeen st\<rparr>))))" (is "preserves _ (bindE _ ?f)") for rel
  proof (rule preserves_bind)
    fix st :: "'m packState" assume st: "I (psAppender st)"
    obtain r ps where m: "matchEntry pm incl rel d (psParents st) = (r, ps)"
      by (cases "matchEntry pm incl rel d (psParents st)")
    have run: "onParents (matchEntry pm incl rel d) st = (map_sum WalkErr id r, st\<lparr>psParents := ps\<rparr>)"
      by (simp add: onParents_def m)
    have "I (psAppender (snd (?f x (st\<lparr>psParents := ps\<rparr>))))" if "r = Inr x" for x
    proof (cases x)
      case True
      then show ?thesis using st by simp
    next
      case False
      then have "matchEntry pm incl rel d (psParents st) = (Inr False, ps)" using m that by simp
      then have "N (rebaseName opts incl rel)" using assms matchEntry_allowed by blast
      note k = preserves_add_seen [OF this, of p, unfolded preserves_cases]
      from spec [OF k, of "st\<lparr>psParents := ps\<rparr>"] st False show ?thesis by simp
    qed
    then show "case onParents (matchEntry pm incl rel d) st of
        (Inl e, s') \<Rightarrow> I (psAppender s') | (Inr x, s') \<Rightarrow> I (psAppender (snd (?f x s')))"
      using st run by (cases r) auto
  qed
  show ?thesis unfolding tarVisit_def Let_def
    by (intro inv.keeps_case_prod inv.keeps_case_option inv.keeps_if inv.keeps_ret step)
qed

lemma preserves_tarWalk:
  "(\<And>rel. allowed pm incl rel \<Longrightarrow> N (rebaseName opts incl rel)) \<Longrightarrow>
     preserves (\<lambda>st. I (psAppender st)) (tarWalk g s pm opts srcPath incl)"
  unfolding tarWalk_def by (intro inv.keeps_WalkDir_in inv.keeps_readE preserves_visit)

lemma preserves_includeLoop:
  "(\<And>i rel. i \<in> set is \<Longrightarrow> allowed pm i rel \<Longrightarrow> N (rebaseName opts i rel)) \<Longrightarrow>
     preserves (\<lambda>st. I (psAppender st)) (includeLoop g s pm opts srcPath is)"
proof (induction "is")
  case (Cons i "is")
  have "preserves (\<lambda>st. I (psAppender st)) (bindE (tryE (tarWalk g s pm opts srcPath i)) (\<lambda>r.
        case r of
          Inl (GoPanic e) \<Rightarrow> fail (GoPanic e)
        | _ \<Rightarrow> includeLoop g s pm opts srcPath is))"
    by (intro inv.keeps_bindE inv.keeps_tryE preserves_tarWalk)
      (auto simp: Cons inv.keeps_fail split: sum.split goerror.split)
  then show ?case by (simp add: keeps_def)
qed (simp add: keeps_def)

end

definition startAppender :: "'m tarballer \<Rightarrow> tarAppender" where
  "startAppender t =
     (newTarAppender (oIDMap (tbOptions t)) (oChownOpts (tbOptions t)))\<lparr>taWhiteoutConverter := tbWhiteoutConverter t\<rparr>"

text \<open>The includes the walk goes through: the base name of a file that is no directory.\<close>

definition includes_of :: "host \<Rightarrow> 'm tarballer \<Rightarrow> fsys \<Rightarrow> string list" where
  "includes_of h t s =
     (case fst (os_Lstat h (tbSrcPath t) s) of
        Inl _ \<Rightarrow> []
      | Inr stat \<Rightarrow>
          if \<not> fi_is_dir stat then [snd (SplitPathDirEntry (tbSrcPath t))]
          else if oIncludeFiles (tbOptions t) = [] then [dot] else oIncludeFiles (tbOptions t))"

context appender_invariant
begin

lemma Do_invariant:
  assumes "tarball_Do g t s = Inr tw" and "I (startAppender t)"
    and "\<And>i rel. i \<in> set (includes_of (eHost g) t s) \<Longrightarrow> allowed (tbPm t) i rel \<Longrightarrow> N (rebaseName (tbOptions t) i rel)"
  shows "\<exists>ta. I ta \<and> tw = snd (tar_Close (taWriter ta))"
proof (cases "fst (os_Lstat (eHost g) (tbSrcPath t) s)")
  case (Inl e)
  then have "tw = snd (tar_Close (taWriter (startAppender t)))"
    using assms(1) by (simp add: tarball_Do_def Let_def startAppender_def)
  with assms(2) show ?thesis by blast
next
  case (Inr stat)
  obtain src st where run: "includeLoop g s (tbPm t) (tbOptions t) src (includes_of (eHost g) t s)
      \<lparr>psAppender = startAppender t, psSeen = [], psParents = []\<rparr> = (Inr (), st)"
    and tw: "tw = snd (tar_Close (taWriter (psAppender st)))"
    using assms(1) Inr
    by (auto simp: tarball_Do_def includes_of_def startAppender_def Let_def split: prod.splits sum.splits if_splits)
  have "I (psAppender st)"
    using preserves_includeLoop [where srcPath = src, OF assms(3)] assms(2) run
    unfolding preserves_cases by (metis packState.select_convs(1) snd_conv)
  with tw show ?thesis by blast
qed

end

locale export_invariant = appender_invariant +
  assumes white: "preserves I (onWriter (WriteHeader (eEnc g) (whiteoutHeader now path)))"
begin

lemma Export_invariant:
  assumes "ExportChanges g dir changes m s = Inr tw" and "I (newTarAppender m None)" and "\<And>n. N n"
  shows "\<exists>ta. I ta \<and> tw = snd (tar_Close (taWriter ta))"
proof -
  have "preserves I (exportChange g s dir c)" for c
    unfolding exportChange_def Let_def
    by (intro inv.keeps_if inv.keeps_bindE inv.keeps_tryE white add assms(3) inv.keeps_ret)
      (auto simp: inv.keeps_ret inv.keeps_fail split: sum.split goerror.split)
  then have "preserves I (foreachE (exportChange g s dir) (changesByPath changes))"
    by (intro inv.keeps_foreachE)
  then show ?thesis using assms(1,2) unfolding preserves_cases ExportChanges_def
    by (auto split: prod.splits sum.splits)
qed

end

section \<open>Complete entries\<close>

text \<open>
  While the archive is written: every entry but the last has as many bytes as its header says,
  and the last lacks what the writer still waits for.
\<close>

definition want :: "tarHeader \<Rightarrow> nat" where
  "want hdr = (if header_only (hTypeflag hdr) then 0 else unat (hSize hdr))"

definition tw_ok :: "tarWriter \<Rightarrow> bool" where
  "tw_ok tw \<longleftrightarrow>
     \<not> twTrailer tw \<and>
     (\<forall>e \<in> set (butlast (twEntries tw)). length (snd e) = want (fst e)) \<and>
     (if twEntries tw = [] then twLeft tw = 0
      else length (snd (last (twEntries tw))) + twLeft tw = want (fst (last (twEntries tw))))"

lemma tw_ok_new: "tw_ok newTarWriter"
  by (simp add: tw_ok_def newTarWriter_def)

lemma tw_ok_complete:
  assumes "tw_ok tw" and "twLeft tw = 0" and "e \<in> set (twEntries tw)"
  shows "length (snd e) = want (fst e)"
proof -
  have "e \<in> set (butlast (twEntries tw)) \<or> e = last (twEntries tw)"
    using assms(3) by (metis append_butlast_last_id empty_iff list.set(1) rotate1.simps(2) set_ConsD set_rotate1)
  then show ?thesis using assms by (auto simp: tw_ok_def split: if_splits)
qed

lemma tw_ok_WriteHeader: "tw_ok tw \<Longrightarrow> tw_ok (snd (WriteHeader enc hdr tw))"
proof -
  assume ok: "tw_ok tw"
  then have "\<not> twTrailer tw" by (simp add: tw_ok_def)
  then have "tw_ok (tw\<lparr>twEntries := twEntries tw @ [(hdr', [])], twLeft := want hdr'\<rparr>)" if "twLeft tw = 0" for hdr'
    using tw_ok_complete [OF ok that] by (simp add: tw_ok_def)
  from this [of "hdr\<lparr>hTypeflag := written_type hdr\<rparr>"] show ?thesis
    using ok by (auto simp: WriteHeader_def want_def split: option.split)
qed

lemma tw_ok_Write: "tw_ok tw \<Longrightarrow> tw_ok (snd (tar_Write d tw))"
  by (auto simp: tar_Write_def tw_ok_def append_last_def Let_def)

lemma tw_ok_copy: "tw_ok tw \<Longrightarrow> tw_ok (snd (copy_body b tw))"
  using tw_ok_Write [of tw "bData b"] by (auto simp: copy_body_def split: prod.split option.split)

lemma preserves_onWriter: "(\<And>tw. P tw \<Longrightarrow> P (snd (f tw))) \<Longrightarrow> preserves (\<lambda>ta. P (taWriter ta)) (onWriter f)"
  by (auto simp: keeps_def onWriter_def split: prod.split option.split) (metis snd_conv)+

lemma preserves_linkEntry: "preserves (\<lambda>ta. P (taWriter ta)) (linkEntry fi hdr)"
  by (auto simp: keeps_def linkEntry_def split: option.split)

text \<open>What every write keeps, \<open>addTarFile\<close> keeps.\<close>

lemma preserves_addTarFile:
  assumes "\<And>hdr tw. P tw \<Longrightarrow> P (snd (WriteHeader enc hdr tw))" and "\<And>b tw. P tw \<Longrightarrow> P (snd (copy_body b tw))"
  shows "preserves (\<lambda>ta. P (taWriter ta)) (addTarFile h enc s path name)"
proof -
  have "preserves (\<lambda>ta. P (taWriter ta)) (writeHeaders h enc s path fi hdr)" for fi hdr
    unfolding writeHeaders_def
    by (intro inv.keeps_rules preserves_onWriter assms(1))
  then show ?thesis unfolding addTarFile_def
    by (intro inv.keeps_rules preserves_linkEntry preserves_onWriter assms(2))
qed

interpretation complete: export_invariant g s "\<lambda>_. True" "\<lambda>ta. tw_ok (taWriter ta)" for g s
  by unfold_locales (intro preserves_addTarFile preserves_onWriter tw_ok_WriteHeader tw_ok_copy; assumption)+


section \<open>Headers\<close>

lemma bindE_const: "bindE (readE (\<lambda>_. c)) f = (case c of Inl e \<Rightarrow> fail e | Inr x \<Rightarrow> f x)"
  by (auto simp: fun_eq_iff bindE_readE fail_run split: sum.split)

lemma tar_FileInfoHeader_type:
  "tar_FileInfoHeader fi name link = Inr hdr \<Longrightarrow> hTypeflag hdr \<noteq> TypeLink \<and> hTypeflag hdr \<noteq> TypeOther 0"
  by (auto simp: tar_FileInfoHeader_def Let_def split: if_splits)

lemma FileInfoHeader_type:
  "FileInfoHeader h name fi link = Inr hdr \<Longrightarrow>
     hTypeflag hdr \<noteq> TypeLink \<and> hTypeflag hdr \<noteq> TypeOther 0 \<and> hName hdr = canonicalTarName name (fi_is_dir fi)"
  using tar_FileInfoHeader_type [of fi "[]" link]
  by (auto simp: FileInfoHeader_def FileInfoHeaderNoLookups_def sysStat_def Let_def split: sum.splits if_splits)

lemma ReadSecurity_frame:
  "ReadSecurityXattrToTarHeader h p s hdr = Inr hdr' \<Longrightarrow>
     hTypeflag hdr' = hTypeflag hdr \<and> hName hdr' = hName hdr \<and> hSize hdr' = hSize hdr"
  by (auto simp: ReadSecurityXattrToTarHeader_def Let_def split: sum.splits goerror.splits option.splits if_splits)

lemma ownEntry_frame:
  "ownEntry fi hdr ta = Inr hdr' \<Longrightarrow>
     hTypeflag hdr' = hTypeflag hdr \<and> hName hdr' = hName hdr \<and> hLinkname hdr' = hLinkname hdr \<and> hSize hdr' = hSize hdr"
  by (auto simp: ownEntry_def Let_def split: sum.splits prod.splits option.splits if_splits)

lemma linkEntry_cases:
  "linkEntry fi hdr ta = (r, ta') \<Longrightarrow>
     \<exists>hdr'. r = Inr hdr' \<and> hName hdr' = hName hdr \<and> taWriter ta' = taWriter ta \<and>
       taIdentityMapping ta' = taIdentityMapping ta \<and> taWhiteoutConverter ta' = taWhiteoutConverter ta \<and>
       ((hTypeflag hdr' = TypeLink \<and> (\<exists>i. (i, hLinkname hdr') \<in> set (taSeenFiles ta)) \<and> taSeenFiles ta' = taSeenFiles ta) \<or>
        (hdr' = hdr \<and> (\<forall>e \<in> set (taSeenFiles ta'). e \<in> set (taSeenFiles ta) \<or> snd e = hName hdr)))"
  by (auto simp: linkEntry_def aput_def split: if_splits option.splits dest!: map_of_SomeD)

lemma copy_body_headers: "map fst (twEntries (snd (copy_body b tw))) = map fst (twEntries tw)"
proof -
  have "map fst (append_last d es) = map fst es" for d and es :: "(tarHeader \<times> string) list"
    by (cases es rule: rev_cases) (simp_all add: append_last_def)
  then show ?thesis by (simp add: copy_body_def tar_Write_def Let_def split: prod.split)
qed

text \<open>The appender without a whiteout converter: what \<open>addTarFile\<close> does with a header.\<close>

lemma writeHeaders_plain:
  assumes "taWhiteoutConverter ta = None"
  shows "writeHeaders h enc s p fi hdr ta =
    (case WriteHeader enc hdr (taWriter ta) of
       (None, tw) \<Rightarrow> (Inr hdr, ta\<lparr>taWriter := tw\<rparr>) | (Some e, tw) \<Rightarrow> (Inl e, ta\<lparr>taWriter := tw\<rparr>))"
  using assms by (simp add: writeHeaders_def bindE_readE onWriter_def bindE_def split: prod.split option.split)

section \<open>Hard links\<close>

text \<open>Every hard link names an earlier entry that is none itself.\<close>

definition links_ok :: "tarHeader list \<Rightarrow> bool" where
  "links_ok hs \<longleftrightarrow>
     (\<forall>k < length hs. hTypeflag (hs ! k) = TypeLink \<longrightarrow>
        (\<exists>j < k. hName (hs ! j) = hLinkname (hs ! k) \<and> hTypeflag (hs ! j) \<noteq> TypeLink))"

definition named :: "tarHeader list \<Rightarrow> string \<Rightarrow> bool" where
  "named hs n \<longleftrightarrow> (\<exists>x \<in> set hs. hName x = n \<and> hTypeflag x \<noteq> TypeLink)"

lemma links_ok_snoc: "links_ok (hs @ [x]) \<longleftrightarrow> links_ok hs \<and> (hTypeflag x = TypeLink \<longrightarrow> named hs (hLinkname x))"
proof
  assume l: "links_ok (hs @ [x])"
  have "\<exists>j < k. hName (hs ! j) = hLinkname (hs ! k) \<and> hTypeflag (hs ! j) \<noteq> TypeLink"
    if "k < length hs" "hTypeflag (hs ! k) = TypeLink" for k
  proof -
    have "(hs @ [x]) ! j = hs ! j" if "j \<le> k" for j using that \<open>k < length hs\<close> by (simp add: nth_append)
    then show ?thesis using l that unfolding links_ok_def
      by (metis length_append_singleton less_SucI order.refl order_less_imp_le)
  qed
  moreover have "named hs (hLinkname x)" if "hTypeflag x = TypeLink"
  proof -
    from l that obtain j where "j < length hs" "hName (hs ! j) = hLinkname x" "hTypeflag (hs ! j) \<noteq> TypeLink"
      unfolding links_ok_def by (force simp: nth_append dest: spec [of _ "length hs"])
    then show ?thesis unfolding named_def by (meson nth_mem)
  qed
  ultimately show "links_ok hs \<and> (hTypeflag x = TypeLink \<longrightarrow> named hs (hLinkname x))"
    by (simp add: links_ok_def)
next
  assume r: "links_ok hs \<and> (hTypeflag x = TypeLink \<longrightarrow> named hs (hLinkname x))"
  show "links_ok (hs @ [x])" unfolding links_ok_def
  proof (intro allI impI)
    fix k assume k: "k < length (hs @ [x])" "hTypeflag ((hs @ [x]) ! k) = TypeLink"
    show "\<exists>j < k. hName ((hs @ [x]) ! j) = hLinkname ((hs @ [x]) ! k) \<and> hTypeflag ((hs @ [x]) ! j) \<noteq> TypeLink"
    proof (cases "k < length hs")
      case True
      then obtain j where "j < k" "hName (hs ! j) = hLinkname (hs ! k)" "hTypeflag (hs ! j) \<noteq> TypeLink"
        using r k(2) by (auto simp: links_ok_def nth_append)
      then show ?thesis using True by (intro exI [of _ j]) (simp add: nth_append)
    next
      case False
      then have kl: "k = length hs" using k(1) by simp
      then obtain y where "y \<in> set hs" "hName y = hLinkname x" "hTypeflag y \<noteq> TypeLink"
        using r k(2) by (auto simp: named_def)
      then obtain j where "j < length hs" "hName (hs ! j) = hLinkname x" "hTypeflag (hs ! j) \<noteq> TypeLink"
        by (metis in_set_conv_nth)
      then show ?thesis using kl by (intro exI [of _ j]) (simp add: nth_append)
    qed
  qed
qed

lemma named_snoc: "named (hs @ [x]) n \<longleftrightarrow> named hs n \<or> (hName x = n \<and> hTypeflag x \<noteq> TypeLink)"
  by (auto simp: named_def)

definition maps_all :: "IdentityMapping \<Rightarrow> bool" where
  "maps_all m \<longleftrightarrow> imEmpty m \<or> (\<forall>u g. snd (imToContainer m u g) = None)"

definition links_inv :: "tarAppender \<Rightarrow> bool" where
  "links_inv ta \<longleftrightarrow>
     taWhiteoutConverter ta = None \<and> maps_all (taIdentityMapping ta) \<and>
     links_ok (map fst (twEntries (taWriter ta))) \<and>
     (twLeft (taWriter ta) = 0 \<longrightarrow> (\<forall>e \<in> set (taSeenFiles ta). named (map fst (twEntries (taWriter ta))) (snd e)))"

lemma ownEntry_total: "maps_all (taIdentityMapping ta) \<Longrightarrow> \<exists>hdr'. ownEntry fi hdr ta = Inr hdr'"
proof -
  assume m: "maps_all (taIdentityMapping ta)"
  obtain ids e where "imToContainer (taIdentityMapping ta) (fiUid fi) (fiGid fi) = (ids, e)" by fastforce
  moreover from this m have "\<not> imEmpty (taIdentityMapping ta) \<Longrightarrow> e = None" unfolding maps_all_def by (metis snd_conv)
  ultimately show ?thesis by (auto simp: ownEntry_def Let_def split: prod.split)
qed

lemma links_inv_write:
  assumes inv: "links_inv ta" and enc: "\<And>hdr. enc hdr = None"
    and l: "linkEntry fi hdr ta = (Inr hdr2, ta2)" and o: "ownEntry fi hdr2 ta2 = Inr hdr3"
    and t: "hTypeflag hdr \<noteq> TypeLink" "hTypeflag hdr \<noteq> TypeOther 0"
    and w: "WriteHeader enc hdr3 (taWriter ta2) = (e, tw)"
  shows "links_inv (ta2\<lparr>taWriter := tw\<rparr>)"
    and "e = None \<Longrightarrow> map fst (twEntries tw') = map fst (twEntries tw) \<Longrightarrow> links_inv (ta2\<lparr>taWriter := tw'\<rparr>)"
proof -
  note lc = linkEntry_cases [OF l]
  note ow = ownEntry_frame [OF o]
  have "(e, tw) = WriteHeader enc hdr3 (taWriter ta)" using w lc by auto
  then consider (stuck) "twLeft (taWriter ta) \<noteq> 0" "e \<noteq> None" "tw = taWriter ta"
    | (new) "twLeft (taWriter ta) = 0" "e = None"
        "map fst (twEntries tw) = map fst (twEntries (taWriter ta)) @ [hdr3\<lparr>hTypeflag := written_type hdr3\<rparr>]"
    by (auto simp: WriteHeader_def enc split: if_splits)
  note c = this
  have new: "links_ok (map fst (twEntries tw)) \<and> (\<forall>x \<in> set (taSeenFiles ta2). named (map fst (twEntries tw)) (snd x))"
    if "e = None"
    using c
  proof cases
    case new
    have ty: "written_type hdr3 = hTypeflag hdr2"
      using lc ow t by (auto simp: written_type_def)
    have old: "links_ok (map fst (twEntries (taWriter ta)))"
      "\<And>x. x \<in> set (taSeenFiles ta) \<Longrightarrow> named (map fst (twEntries (taWriter ta))) (snd x)"
      using inv new(1) by (auto simp: links_inv_def)
    show ?thesis unfolding new(3) links_ok_snoc named_snoc
      using lc ow t old ty by (auto dest: old(2))
  qed (use that in simp)
  show "links_inv (ta2\<lparr>taWriter := tw\<rparr>)"
    using c
  proof cases
    case stuck
    then show ?thesis using inv lc by (auto simp: links_inv_def)
  next
    case new
    then show ?thesis using \<open>e = None \<Longrightarrow> _\<close> inv lc by (auto simp: links_inv_def)
  qed
  show "links_inv (ta2\<lparr>taWriter := tw'\<rparr>)"
    if "e = None" "map fst (twEntries tw') = map fst (twEntries tw)"
    using new [OF that(1)] that(2) inv lc by (auto simp: links_inv_def)
qed

lemma links_inv_addTarFile:
  assumes enc: "\<And>hdr. enc hdr = None"
  shows "preserves links_inv (addTarFile h enc s path name)"
proof -
  have "preserves links_inv (bindE (linkEntry fi hdr) (\<lambda>hdr2.
     bindE (readE (ownEntry fi hdr2)) (\<lambda>hdr3.
     bindE (writeHeaders h enc s path fi hdr3) (\<lambda>hdr.
     if hTypeflag hdr = TypeReg \<and> 0 <s hSize hdr
     then
       bindE (readE (\<lambda>_. fst (os_OpenBody h path s))) (\<lambda>b.
       onWriter (copy_body b))
     else ret ()))))" (is "preserves _ (bindE _ ?f)")
    if t: "hTypeflag hdr \<noteq> TypeLink" "hTypeflag hdr \<noteq> TypeOther 0" for fi hdr
  proof (rule preserves_bind)
    fix ta assume inv: "links_inv ta"
    obtain hdr2 ta2 where l: "linkEntry fi hdr ta = (Inr hdr2, ta2)"
      using linkEntry_cases [of fi hdr ta] by (cases "linkEntry fi hdr ta") blast
    then have same: "taIdentityMapping ta2 = taIdentityMapping ta" "taWhiteoutConverter ta2 = None"
      using linkEntry_cases [OF l] inv by (auto simp: links_inv_def)
    then obtain hdr3 where o: "ownEntry fi hdr2 ta2 = Inr hdr3"
      using ownEntry_total [of ta2 fi hdr2] inv by (auto simp: links_inv_def)
    obtain e tw where w: "WriteHeader enc hdr3 (taWriter ta2) = (e, tw)" by fastforce
    note k = links_inv_write [OF inv enc l o t w]
    note run0 = bindE_def [of "writeHeaders h enc s path fi hdr3" _ ta2]
    have "links_inv (snd (?f hdr2 ta2))"
    proof (cases e)
      case (Some x)
      then have run: "?f hdr2 ta2 = (Inl x, ta2\<lparr>taWriter := tw\<rparr>)"
        unfolding bindE_readE o sum.case run0 by (simp add: writeHeaders_plain same w)
      then show ?thesis unfolding run using k(1) by simp
    next
      case None
      have run: "?f hdr2 ta2 =
          (if hTypeflag hdr3 = TypeReg \<and> 0 <s hSize hdr3
           then bindE (readE (\<lambda>_. fst (os_OpenBody h path s))) (\<lambda>b. onWriter (copy_body b))
           else ret ()) (ta2\<lparr>taWriter := tw\<rparr>)"
        unfolding bindE_readE o sum.case run0 by (simp add: writeHeaders_plain same w None)
      have "links_inv (snd (onWriter (copy_body b) (ta2\<lparr>taWriter := tw\<rparr>)))" for b
        using k(2) [OF None copy_body_headers [of b tw]]
        by (auto simp: onWriter_def split: prod.split option.split)
      then show ?thesis unfolding run using k(1) by (auto simp: bindE_readE split: sum.split)
    qed
    then show "case linkEntry fi hdr ta of (Inl e, s') \<Rightarrow> links_inv s' | (Inr x, s') \<Rightarrow> links_inv (snd (?f x s'))"
      unfolding l prod.case sum.case by assumption
  qed
  note step = this [unfolded bindE_const]
  have plain: "preserves links_inv (if c then readE f else ret x)" for c f and x :: string
    by (simp add: keeps_def)
  show ?thesis unfolding addTarFile_def bindE_const
    by (intro inv.keeps_case_sum inv.keeps_fail inv.keeps_bindE [OF plain] step)
      (use FileInfoHeader_type ReadSecurity_frame in \<open>fastforce+\<close>)
qed


section \<open>What an entry is made of\<close>

text \<open>
  The header \<open>addTarFile\<close> arrives at: the name it was given, and either a regular file with
  the size of the file or a type without a body.
\<close>

definition plain_mode :: "filemode \<Rightarrow> bool" where
  "plain_mode m \<longleftrightarrow>
     m AND ModeDir = 0 \<and> m AND ModeSymlink = 0 \<and> m AND ModeDevice = 0 \<and> m AND ModeNamedPipe = 0"

definition header_of :: "string \<Rightarrow> FileInfo \<Rightarrow> tarHeader \<Rightarrow> bool" where
  "header_of name fi hdr \<longleftrightarrow>
     hName hdr = canonicalTarName name (fi_is_dir fi) \<and>
     (header_only (hTypeflag hdr) \<and> hSize hdr = 0 \<or>
      hTypeflag hdr = TypeReg \<and> hSize hdr = word_of_int (fiSize fi) \<and> plain_mode (fiMode fi))"

lemma FileInfoHeader_of: "FileInfoHeader h name fi link = Inr hdr \<Longrightarrow> header_of name fi hdr"
  by (auto simp: FileInfoHeader_def FileInfoHeaderNoLookups_def tar_FileInfoHeader_def sysStat_def Let_def
      header_of_def plain_mode_def zeroHeader_def split: sum.splits if_splits)

lemma header_of_frame:
  "header_of name fi hdr \<Longrightarrow> hName hdr' = hName hdr \<Longrightarrow> hSize hdr' = hSize hdr \<Longrightarrow>
     hTypeflag hdr' = hTypeflag hdr \<Longrightarrow> header_of name fi hdr'"
  by (simp add: header_of_def)

lemma linkEntry_header:
  "linkEntry fi hdr ta = (r, ta') \<Longrightarrow> header_of name fi hdr \<Longrightarrow>
     \<exists>hdr'. r = Inr hdr' \<and> header_of name fi hdr'"
  by (auto simp: linkEntry_def header_of_def split: if_splits option.splits)

definition writeEntry ::
  "host \<Rightarrow> encoder \<Rightarrow> fsys \<Rightarrow> string \<Rightarrow> FileInfo \<Rightarrow> tarHeader \<Rightarrow> (tarAppender, goerror, unit) io" where
  "writeEntry h enc s path fi hdr =
     bindE (writeHeaders h enc s path fi hdr) (\<lambda>hdr.
     if hTypeflag hdr = TypeReg \<and> 0 <s hSize hdr
     then
       bindE (readE (\<lambda>_. fst (os_OpenBody h path s))) (\<lambda>b.
       onWriter (copy_body b))
     else ret ())"

lemma addTarFile_cases:
  fixes ta
  obtains (early) e ta' where "addTarFile h enc s path name ta = (Inl e, ta')" "taWriter ta' = taWriter ta"
      "taWhiteoutConverter ta' = taWhiteoutConverter ta"
  | (entry) fi hdr ta2 where "fst (os_Lstat h path s) = Inr fi" "header_of (ToSlash name) fi hdr"
      "taWriter ta2 = taWriter ta" "taWhiteoutConverter ta2 = taWhiteoutConverter ta"
      "addTarFile h enc s path name ta = writeEntry h enc s path fi hdr ta2"
proof (cases "fst (os_Lstat h path s)")
  case (Inl e)
  then show ?thesis by (intro early [of e ta]) (simp_all add: addTarFile_def bindE_readE)
next
  case (Inr fi)
  note l = this
  let ?link = "if fi_is_symlink fi then readE (\<lambda>_. fst (os_Readlink h path s)) else ret []"
  obtain r where r: "?link ta = (r, ta)" by (cases "fi_is_symlink fi") auto
  show ?thesis
  proof (cases r)
    case (Inl e)
    then show ?thesis using r
      by (intro early [of e ta]) (simp_all add: addTarFile_def bindE_readE l bindE_Inl)
  next
    case (Inr link)
    have run: "addTarFile h enc s path name ta =
      bindE (readE (\<lambda>_. FileInfoHeader h (ToSlash name) fi link)) (\<lambda>hdr0.
      bindE (readE (\<lambda>_. ReadSecurityXattrToTarHeader h path s hdr0)) (\<lambda>hdr1.
      bindE (linkEntry fi hdr1) (\<lambda>hdr2.
      bindE (readE (ownEntry fi hdr2)) (\<lambda>hdr3. writeEntry h enc s path fi hdr3)))) ta"
      unfolding addTarFile_def writeEntry_def bindE_readE l sum.case
      by (rule bindE_Inr) (use r Inr in simp)
    show ?thesis
    proof (cases "FileInfoHeader h (ToSlash name) fi link")
      case (Inl e)
      then show ?thesis by (intro early [of e ta]) (simp_all add: run bindE_readE)
    next
      case (Inr hdr0)
      note h0 = this
      show ?thesis
      proof (cases "ReadSecurityXattrToTarHeader h path s hdr0")
        case (Inl e)
        then show ?thesis by (intro early [of e ta]) (simp_all add: run bindE_readE h0)
      next
        case (Inr hdr1)
        have o1: "header_of (ToSlash name) fi hdr1"
          using FileInfoHeader_of [OF h0] ReadSecurity_frame [OF Inr] header_of_frame by blast
        obtain r2 ta2 where k: "linkEntry fi hdr1 ta = (r2, ta2)" by (cases "linkEntry fi hdr1 ta")
        then obtain hdr2 where r2: "r2 = Inr hdr2" "header_of (ToSlash name) fi hdr2"
          using linkEntry_header [OF _ o1] by blast
        have same: "taWriter ta2 = taWriter ta" "taWhiteoutConverter ta2 = taWhiteoutConverter ta"
          using linkEntry_cases [OF k] by auto
        have run2: "addTarFile h enc s path name ta =
            bindE (readE (ownEntry fi hdr2)) (\<lambda>hdr3. writeEntry h enc s path fi hdr3) ta2"
          unfolding run bindE_readE h0 Inr sum.case by (rule bindE_Inr) (use k r2 in simp)
        show ?thesis
        proof (cases "ownEntry fi hdr2 ta2")
          case (Inl e)
          then show ?thesis
            by (intro early [of e ta2]) (simp_all add: same, simp only: run2 bindE_readE sum.case)
        next
          case (Inr hdr3)
          have "header_of (ToSlash name) fi hdr3"
            using r2(2) ownEntry_frame [OF Inr] header_of_frame by blast
          then show ?thesis
            by (intro entry [OF l _ same]) (simp_all only: run2 bindE_readE Inr sum.case)
        qed
      qed
    qed
  qed
qed

section \<open>Names\<close>

text \<open>Without a whiteout converter every entry has a name that was asked for.\<close>

definition good_name :: "(string \<Rightarrow> bool) \<Rightarrow> tarHeader \<Rightarrow> bool" where
  "good_name N hdr \<longleftrightarrow> (\<exists>name d. N name \<and> hName hdr = canonicalTarName name d)"

definition names_in :: "(string \<Rightarrow> bool) \<Rightarrow> tarAppender \<Rightarrow> bool" where
  "names_in N ta \<longleftrightarrow>
     taWhiteoutConverter ta = None \<and> list_all (good_name N) (map fst (twEntries (taWriter ta)))"

lemma names_in_copy:
  "names_in N (ta\<lparr>taWriter := tw\<rparr>) \<Longrightarrow> names_in N (ta\<lparr>taWriter := snd (copy_body b tw)\<rparr>)"
  by (simp add: names_in_def copy_body_headers del: list.map_comp)

lemma onWriter_snd: "snd (onWriter f ta) = ta\<lparr>taWriter := snd (f (taWriter ta))\<rparr>"
  by (simp add: onWriter_def split: prod.split option.split)

lemma names_in_writeEntry:
  assumes "names_in N ta" and "N name" and "header_of name fi hdr"
  shows "names_in N (snd (writeEntry h enc s path fi hdr ta))"
proof -
  have conv: "taWhiteoutConverter ta = None" using assms(1) by (simp add: names_in_def)
  obtain e tw where w: "WriteHeader enc hdr (taWriter ta) = (e, tw)" by fastforce
  then have n: "names_in N (ta\<lparr>taWriter := tw\<rparr>)"
    using assms by (auto simp: names_in_def WriteHeader_def header_of_def good_name_def split: if_splits option.splits intro!: exI [of _ name])
  have run: "writeEntry h enc s path fi hdr ta =
    (case e of
       Some x \<Rightarrow> (Inl x, ta\<lparr>taWriter := tw\<rparr>)
     | None \<Rightarrow>
         (if hTypeflag hdr = TypeReg \<and> 0 <s hSize hdr
          then bindE (readE (\<lambda>_. fst (os_OpenBody h path s))) (\<lambda>b. onWriter (copy_body b))
          else ret ()) (ta\<lparr>taWriter := tw\<rparr>))"
    unfolding writeEntry_def bindE_def [of "writeHeaders h enc s path fi hdr" _ ta] writeHeaders_plain [OF conv] w
    by (simp split: option.split)
  show ?thesis unfolding run
    using n by (auto simp: bindE_readE onWriter_snd names_in_copy split: option.split sum.split)
qed

interpretation named: appender_invariant g s N "names_in N" for g s N
proof
  fix name path assume "N name"
  then show "preserves (names_in N) (addTarFile (eHost g) (eEnc g) s path name)"
    unfolding preserves_cases
  proof (intro allI impI)
    fix ta assume n: "names_in N ta"
    show "names_in N (snd (addTarFile (eHost g) (eEnc g) s path name ta))"
    proof (cases rule: addTarFile_cases [of "eHost g" "eEnc g" s path name ta])
      case (early e ta')
      then show ?thesis using n by (simp add: names_in_def)
    next
      case (entry fi hdr ta2)
      then have "names_in N ta2" using n by (simp add: names_in_def)
      then show ?thesis using names_in_writeEntry [of N ta2 "ToSlash name"] entry \<open>N name\<close>
        by (simp add: ToSlash_def)
    qed
  qed
qed

end
