(* ===== verification/Archives.thy ===== *)
theory Archives
  imports TarballFacts Samples
begin

text \<open>
  The archives that \<open>Tarballer.Do\<close> and \<open>ExportChanges\<close> write: complete entries, hard links that can
  be followed, exclude patterns, the trailer on an undisturbed system, and what one unreadable
  file does.
\<close>

section \<open>An undisturbed system\<close>

lemma walk_follow:
  "walk s sc base False l st cs = Inr q \<Longrightarrow> (\<And>nd t. node_at s (base @ q) = Some nd \<Longrightarrow> ikind nd \<noteq> KSym t) \<Longrightarrow>
     walk s sc base True l st cs = Inr q"
proof (induction l st cs rule: walk_induct)
  case (name l st c cs)
  show ?case
  proof (cases "node_at s (base @ st @ [c])")
    case None
    with name.prems name.hyps show ?thesis by (simp add: walk_name)
  next
    case (Some nd)
    show ?thesis
    proof (cases "ikind nd")
      case (KSym t)
      then show ?thesis using name.prems name.hyps name.IH(2) [of _ t] Some
        by (auto simp: walk_name split: if_splits scope.splits)
    qed (use name.prems name.hyps name.IH(1) Some in \<open>auto simp: walk_name split: if_splits\<close>)
  qed
qed (auto simp: walk_skip walk_top walk_pop split: scope.splits)

lemma plain_kind: "plain_mode (inode_mode nd) \<longleftrightarrow> (\<exists>d. ikind nd = KReg d)"
proof -
  have "inode_mode nd AND b = kind_bits (ikind nd) AND b"
    if "b \<in> {ModeDir, ModeSymlink, ModeDevice, ModeNamedPipe}" for b
    using that by (auto simp: inode_mode_def bit.conj_disj_distrib2 and_perm_high special_bits_high mode_defs)
  then show ?thesis by (cases "ikind nd") (simp_all add: plain_mode_def mode_defs)
qed

lemma open_regular:
  assumes "no_faults h s" and "fst (os_Lstat h path s) = Inr fi" and "plain_mode (fiMode fi)"
  shows "\<exists>d. fst (os_OpenBody h path s) = Inr \<lparr>bData = d, bErr = None\<rparr> \<and> fiSize fi = int (length d)"
proof -
  obtain q i nd where q: "kresolve h False path s = Inr q" and i: "ino_at s q = Some i" "inodes s i = Some nd"
    and fi: "fi = fileinfo s i nd"
    using assms(1,2)
    by (auto simp: os_Lstat_def path_op_def no_faults_def p_stat_def split: option.splits sum.splits)
  obtain d where d: "ikind nd = KReg d" using assms(3) plain_kind [of nd] by (auto simp: fi fileinfo_def)
  have node: "node_at s q = Some nd" using i by (simp add: node_at_def)
  have "kresolve h True path s = Inr q"
    using q node d
    by (auto simp: kresolve_def map_sum_def split: if_splits sum.splits dest!: walk_follow)
  then show ?thesis using assms(1) node d
    by (simp add: os_OpenBody_def path_op_def no_faults_def fi fileinfo_def)
qed

text \<open>File sizes fit in an \<open>int64\<close>.\<close>

definition sizes_ok :: "fsys \<Rightarrow> bool" where
  "sizes_ok s \<longleftrightarrow> (\<forall>i nd. inodes s i = Some nd \<longrightarrow> kind_size (ikind nd) < 2 ^ 63)"

definition idle :: "tarAppender \<Rightarrow> bool" where
  "idle ta \<longleftrightarrow> twLeft (taWriter ta) = 0"

lemma signed_pos: "0 \<le> n \<Longrightarrow> n < 2 ^ 63 \<Longrightarrow> (0 :: 64 word) <s word_of_int n \<longleftrightarrow> n \<noteq> 0"
  by (auto simp: word_sless_alt sint_sbintrunc' signed_take_bit_int_eq_self)

lemma write_quiet:
  "twLeft tw = 0 \<Longrightarrow> hdr_t = written_type hdr \<Longrightarrow> header_only hdr_t \<or> hSize hdr = 0 \<Longrightarrow>
     twLeft (snd (WriteHeader enc hdr tw)) = 0"
  by (auto simp: WriteHeader_def split: option.split)

text \<open>A header the writer has no bytes to wait for, or the plain one of a regular file.\<close>

definition sized :: "FileInfo \<Rightarrow> tarHeader \<Rightarrow> bool" where
  "sized fi hdr \<longleftrightarrow>
     hTypeflag hdr \<noteq> TypeOther 0 \<and>
     (header_only (hTypeflag hdr) \<or> hSize hdr = 0 \<or>
      hTypeflag hdr = TypeReg \<and> hSize hdr = word_of_int (fiSize fi) \<and> plain_mode (fiMode fi))"

lemma ConvertWrite_sized:
  "ConvertWrite h x hdr path fi s = Inr (hdr', wo) \<Longrightarrow> sized fi hdr \<Longrightarrow>
     sized fi hdr' \<and> (\<forall>w. wo = Some w \<longrightarrow> sized fi w \<and> hSize w = 0)"
  by (auto simp: ConvertWrite_def Let_def sized_def zeroHeader_def split: sum.splits if_splits)

lemma signed_zero: "\<not> (0 :: 64 word) <s word_of_int n \<Longrightarrow> 0 \<le> n \<Longrightarrow> n < 2 ^ 63 \<Longrightarrow> word_of_int n = (0 :: 64 word)"
  using signed_pos by fastforce

lemma writeHeader_sized:
  assumes "sized fi hdr" and "0 \<le> fiSize fi" and "fiSize fi < 2 ^ 63" and "twLeft tw = 0"
  shows "twLeft (snd (WriteHeader enc hdr tw)) = 0 \<or>
     fst (WriteHeader enc hdr tw) = None \<and> hTypeflag hdr = TypeReg \<and> 0 <s hSize hdr \<and> plain_mode (fiMode fi) \<and>
     twLeft (snd (WriteHeader enc hdr tw)) = nat (fiSize fi)"
proof (cases "header_only (hTypeflag hdr) \<or> hSize hdr = 0")
  case True
  then show ?thesis using assms write_quiet [of tw "written_type hdr" hdr enc]
    by (auto simp: written_type_def sized_def split: if_splits)
next
  case False
  have "unat (word_of_int (fiSize fi) :: 64 word) = nat (fiSize fi)"
    using assms(2,3) by (simp add: unat_eq_nat_uint uint_word_of_int)
  moreover have "fiSize fi \<noteq> 0" using False assms(1) by (auto simp: sized_def)
  ultimately show ?thesis using False assms signed_pos [OF assms(2,3)]
    by (auto simp: sized_def WriteHeader_def written_type_def split: option.split)
qed

lemma writeHeaders_idle:
  assumes "sized fi hdr" and "0 \<le> fiSize fi" and "fiSize fi < 2 ^ 63" and "idle ta"
    and "writeHeaders h enc s path fi hdr ta = (r, ta')"
  shows "idle ta' \<or>
    (\<exists>hdr'. r = Inr hdr' \<and> hTypeflag hdr' = TypeReg \<and> 0 <s hSize hdr' \<and> plain_mode (fiMode fi) \<and>
       twLeft (taWriter ta') = nat (fiSize fi))"
proof -
  have one: "idle (snd (onWriter (WriteHeader enc k) tb)) \<or>
      fst (onWriter (WriteHeader enc k) tb) = Inr () \<and> hTypeflag k = TypeReg \<and> 0 <s hSize k \<and>
      plain_mode (fiMode fi) \<and> twLeft (taWriter (snd (onWriter (WriteHeader enc k) tb))) = nat (fiSize fi)"
    if "sized fi k" "idle tb" for k tb
    using writeHeader_sized [OF that(1) assms(2,3), of "taWriter tb" enc] that(2)
    by (auto simp: idle_def onWriter_def split: prod.split option.split)
  let ?last = "\<lambda>k. bindE (onWriter (WriteHeader enc k)) (\<lambda>_. ret k)"
  have last: "idle tc \<or>
    (\<exists>hdr'. q = Inr hdr' \<and> hTypeflag hdr' = TypeReg \<and> 0 <s hSize hdr' \<and> plain_mode (fiMode fi) \<and>
       twLeft (taWriter tc) = nat (fiSize fi))"
    if "sized fi k" "idle tb" "?last k tb = (q, tc)" for k tb q tc
    using one [OF that(1,2)] that(3) by (auto simp: bindE_def split: prod.splits sum.splits)
  show ?thesis
  proof (cases "taWhiteoutConverter ta")
    case None
    then show ?thesis using assms(5) last [OF assms(1,4)]
      by (simp add: writeHeaders_def bindE_readE)
  next
    case (Some x)
    show ?thesis
    proof (cases "ConvertWrite h x hdr path fi s")
      case (Inl e)
      then show ?thesis using assms(4,5) Some by (simp add: writeHeaders_def bindE_readE)
    next
      case (Inr hw)
      obtain hdr' wo where hw: "hw = (hdr', wo)" by (cases hw)
      note cw = ConvertWrite_sized [OF Inr [unfolded hw] assms(1)]
      show ?thesis
      proof (cases wo)
        case None
        then show ?thesis using assms(4,5) Some Inr hw last [of hdr' ta] cw
          by (simp add: writeHeaders_def bindE_readE)
      next
        case (Some w)
        note wo = this
        show ?thesis
        proof (cases "hTypeflag hdr' = TypeReg \<and> 0 <s hSize hdr'")
          case True
          then show ?thesis using assms(4,5) \<open>taWhiteoutConverter ta = Some x\<close> Inr hw wo
            by (simp add: writeHeaders_def bindE_readE)
        next
          case False
          obtain q tb where q: "onWriter (WriteHeader enc hdr') ta = (q, tb)"
            by (cases "onWriter (WriteHeader enc hdr') ta")
          then have tb: "idle tb" using one [of hdr' ta] cw False assms(4) by auto
          have "writeHeaders h enc s path fi hdr ta =
              bindE (bindE (onWriter (WriteHeader enc hdr')) (\<lambda>_. ret w)) ?last ta"
            using \<open>taWhiteoutConverter ta = Some x\<close> Inr hw wo False
            by (auto simp: writeHeaders_def bindE_readE)
          then show ?thesis using assms(5) q tb last [of w tb] cw wo
            by (cases q) (simp_all add: bindE_def)
        qed
      qed
    qed
  qed
qed

lemma writeEntry_idle:
  assumes "no_faults h s" and "sizes_ok s" and "fst (os_Lstat h path s) = Inr fi"
    and "header_of name fi hdr" and "idle ta"
  shows "idle (snd (writeEntry h enc s path fi hdr ta))"
proof -
  have sz: "0 \<le> fiSize fi" "fiSize fi < 2 ^ 63"
  proof -
    obtain i nd where "inodes s i = Some nd" "fi = fileinfo s i nd"
      using assms(1,3)
      by (auto simp: os_Lstat_def path_op_def no_faults_def p_stat_def split: option.splits sum.splits)
    moreover have "0 \<le> kind_size k" for k by (cases k) simp_all
    ultimately show "0 \<le> fiSize fi" "fiSize fi < 2 ^ 63" using assms(2) by (auto simp: sizes_ok_def fileinfo_def)
  qed
  have "sized fi hdr" using assms(4) by (auto simp: header_of_def sized_def)
  obtain r ta' where w: "writeHeaders h enc s path fi hdr ta = (r, ta')" by (cases "writeHeaders h enc s path fi hdr ta")
  let ?f = "\<lambda>hdr. if hTypeflag hdr = TypeReg \<and> 0 <s hSize hdr
     then bindE (readE (\<lambda>_. fst (os_OpenBody h path s))) (\<lambda>b. onWriter (copy_body b)) else ret ()"
  from writeHeaders_idle [OF \<open>sized fi hdr\<close> sz assms(5) w] show ?thesis
  proof
    assume i: "idle ta'"
    have "twLeft (snd (copy_body b tw)) = 0" if "twLeft tw = 0" for b tw
      using that by (simp add: copy_body_def tar_Write_def Let_def split: prod.split)
    then have "idle (snd (?f k ta'))" for k
      using i by (auto simp: bindE_readE onWriter_snd idle_def split: sum.split)
    note g = this
    show ?thesis
    proof (cases r)
      case (Inl e)
      then show ?thesis using i w by (simp add: writeEntry_def bindE_Inl)
    next
      case (Inr k)
      then have run: "writeEntry h enc s path fi hdr ta = ?f k ta'" using w by (simp add: writeEntry_def bindE_Inr)
      show ?thesis unfolding run by (rule g)
    qed
  next
    assume "\<exists>hdr'. r = Inr hdr' \<and> hTypeflag hdr' = TypeReg \<and> 0 <s hSize hdr' \<and> plain_mode (fiMode fi) \<and>
       twLeft (taWriter ta') = nat (fiSize fi)"
    then obtain k where k: "r = Inr k" "hTypeflag k = TypeReg" "0 <s hSize k" "plain_mode (fiMode fi)"
      "twLeft (taWriter ta') = nat (fiSize fi)" by blast
    from open_regular [OF assms(1,3) k(4)] obtain d
      where d: "fst (os_OpenBody h path s) = Inr \<lparr>bData = d, bErr = None\<rparr>" "fiSize fi = int (length d)" by blast
    then have "twLeft (snd (copy_body \<lparr>bData = d, bErr = None\<rparr> (taWriter ta'))) = 0"
      using k(5) by (simp add: copy_body_def tar_Write_def Let_def)
    then show ?thesis unfolding writeEntry_def bindE_def [of "writeHeaders h enc s path fi hdr" _ ta] w
      using k d by (simp add: bindE_readE onWriter_snd idle_def)
  qed
qed


interpretation calm: export_invariant g s "\<lambda>_. True" "\<lambda>ta. no_faults (eHost g) s \<and> sizes_ok s \<longrightarrow> idle ta" for g s
proof
  fix name path
  show "preserves (\<lambda>ta. no_faults (eHost g) s \<and> sizes_ok s \<longrightarrow> idle ta) (addTarFile (eHost g) (eEnc g) s path name)"
    unfolding preserves_cases
  proof (intro allI impI)
    fix ta assume i: "no_faults (eHost g) s \<and> sizes_ok s \<longrightarrow> idle ta" and ok: "no_faults (eHost g) s \<and> sizes_ok s"
    show "idle (snd (addTarFile (eHost g) (eEnc g) s path name ta))"
    proof (cases rule: addTarFile_cases [of "eHost g" "eEnc g" s path name ta])
      case (early e ta')
      then show ?thesis using i ok by (simp add: idle_def)
    next
      case (entry fi hdr ta2)
      then have "idle ta2" using i ok by (simp add: idle_def)
      then show ?thesis using writeEntry_idle [of "eHost g" s path fi] entry ok by simp
    qed
  qed
next
  fix now path
  have "twLeft (snd (WriteHeader (eEnc g) (whiteoutHeader now path) tw)) = 0" if "twLeft tw = 0" for tw
    using that by (intro write_quiet) (simp_all add: whiteoutHeader_def Let_def)
  then show "preserves (\<lambda>ta. no_faults (eHost g) s \<and> sizes_ok s \<longrightarrow> idle ta)
      (onWriter (WriteHeader (eEnc g) (whiteoutHeader now path)))"
    by (simp add: preserves_cases onWriter_snd idle_def)
qed

lemma links_inv_white: "links_inv ta \<Longrightarrow> links_inv (snd (onWriter (WriteHeader enc (whiteoutHeader now path)) ta))"
proof -
  assume l: "links_inv ta"
  have "written_type (whiteoutHeader now path) \<noteq> TypeLink"
    by (simp add: written_type_def whiteoutHeader_def zeroHeader_def Let_def)
  then show ?thesis using l
    by (auto simp: links_inv_def onWriter_snd WriteHeader_def links_ok_snoc named_snoc split: option.split)
qed

interpretation linked: export_invariant g s "\<lambda>_. True" "\<lambda>ta. (\<forall>hdr. eEnc g hdr = None) \<longrightarrow> links_inv ta" for g s
  by unfold_locales (use links_inv_addTarFile [of "eEnc g"] links_inv_white in \<open>auto simp: preserves_cases\<close>)

lemma links_inv_start:
  "maps_all m \<Longrightarrow> links_inv (newTarAppender m c)"
  by (simp add: links_inv_def newTarAppender_def newTarWriter_def links_ok_def)

section \<open>The properties\<close>

definition no_matcher :: "unit patternMatcher" where
  "no_matcher = \<lparr>pmMatches = (\<lambda>p m. Inr (False, m)), pmZero = (), pmExclusions = False, pmPatterns = []\<rparr>"

text \<open>A matcher for a list of paths, each with everything below it, as \<open>patternmatcher\<close> has it.\<close>

definition path_matcher :: "string list \<Rightarrow> bool patternMatcher" where
  "path_matcher ps =
     \<lparr>pmMatches = (\<lambda>p m. Inr (m \<or> p \<in> set ps, m \<or> p \<in> set ps)), pmZero = False, pmExclusions = False,
      pmPatterns = map (\<lambda>p. (False, p)) ps\<rparr>"

definition sample_env :: "host \<Rightarrow> codecs \<Rightarrow> bool goEnv" where
  "sample_env h c =
     \<lparr>eHost = h, eCodecs = c, eEnc = (\<lambda>_. None), eTarBytes = (\<lambda>_. []), eParse = (\<lambda>_. \<lparr>tsEntries = [], tsEnd = None\<rparr>),
      eNewMatcher = (\<lambda>ps. Inr (path_matcher ps)), eEmptyMap = no_map\<rparr>"

definition sample_codecs :: codecs where
  "sample_codecs =
     \<lparr>cGzipReader = Inr, cBzip2Reader = (\<lambda>b. b), cZstdReader = Inr, cStart = (\<lambda>_. None), cStdout = (\<lambda>_ b. bData b),
      cWait = (\<lambda>_ _. None), cStderr = (\<lambda>_ _. []), cLookPath = (\<lambda>_. Inr []), cGetenv = (\<lambda>_. []), cGzipWriter = (\<lambda>x. x)\<rparr>"

definition sample_tarball :: "string list \<Rightarrow> writeCloser \<Rightarrow> bool tarballer" where
  "sample_tarball ex wc =
     \<lparr>tbSrcPath = ''/dest'', tbOptions = (zeroTarOptions no_map), tbPm = path_matcher ex,
      tbCompressWriter = wc, tbWhiteoutConverter = None\<rparr>"


text \<open>A directory with two names for one file, a file, and a file in a subdirectory.\<close>

definition pack_fs :: fsys where
  "pack_fs =
     (fs_of [([], mk_node KDir 0x1ED), ([''d''], mk_node KDir 0x1ED),
             ([''d'', ''a''], mk_node (KReg ''xyz'') 0x1A4), ([''d'', ''c''], mk_node (KReg ''hello'') 0x1A4),
             ([''d'', ''s''], mk_node KDir 0x1ED), ([''d'', ''s'', ''f''], mk_node (KReg ''q'') 0x1A4)])
       \<lparr>dents := [([], 0), ([''d''], 1), ([''d'', ''a''], 2), ([''d'', ''b''], 2), ([''d'', ''c''], 3),
                 ([''d'', ''s''], 4), ([''d'', ''s'', ''f''], 5)]\<rparr>"

text \<open>What a run of \<open>Do\<close> wrote: the names, the type and target of the links, the contents.\<close>

definition tw_view :: "goerror + tarWriter \<Rightarrow> (string \<times> bool \<times> string \<times> string) list \<times> bool" where
  "tw_view r =
     (case r of
        Inl _ \<Rightarrow> ([], False)
      | Inr tw \<Rightarrow> (map (\<lambda>e. (hName (fst e), hTypeflag (fst e) = TypeLink, hLinkname (fst e), snd e)) (twEntries tw), twTrailer tw))"

definition pack_env :: "bool goEnv" where
  "pack_env = sample_env base_host sample_codecs"

definition pack_tb :: "bool tarballer" where
  "pack_tb = (sample_tarball [''s''] NopWriteCloser)\<lparr>tbSrcPath := ''/d''\<rparr>"

text \<open>The file \<open>/d/a\<close> can be read on the one machine and not on the other.\<close>

definition bad_host :: host where
  "bad_host = base_host\<lparr>hFault := \<lambda>op p s. if op = OpOpen \<and> p = ''/d/a'' then Some EIO else None\<rparr>"

lemma pack_run:
  "tw_view (tarball_Do pack_env pack_tb pack_fs) =
     ([(''a'', False, [], ''xyz''), (''b'', True, ''a'', []), (''c'', False, [], ''hello'')], True)"
  by code_simp

lemma tw_view_run:
  assumes "tw_view r = (es, t)" and "es \<noteq> []"
  obtains tw where "r = Inr tw" and "twTrailer tw = t"
    and "map (\<lambda>e. (hName (fst e), hTypeflag (fst e) = TypeLink, hLinkname (fst e), snd e)) (twEntries tw) = es"
  using assms by (cases r) (auto simp: tw_view_def)



text \<open>
  C23: A hard link entry of an archive refers to an earlier entry of the archive that is not itself a
  link (so that it can be extracted), where headers can be encoded, owners can be mapped and
  whiteouts are not converted.
\<close>

theorem archive_hardlinks_resolve:
  assumes "tarball_Do g t s = Inr tw \<and> tbWhiteoutConverter t = None \<and> maps_all (oIDMap (tbOptions t)) \<or>
      ExportChanges g dir changes m s = Inr tw \<and> maps_all m"
    and "\<And>hdr. eEnc g hdr = None"
    and "k < length (twEntries tw)" and "hTypeflag (fst (twEntries tw ! k)) = TypeLink"
  shows "\<exists>j < k. hName (fst (twEntries tw ! j)) = hLinkname (fst (twEntries tw ! k)) \<and>
    hTypeflag (fst (twEntries tw ! j)) \<noteq> TypeLink"
proof -
  have "\<exists>ta. ((\<forall>hdr. eEnc g hdr = None) \<longrightarrow> links_inv ta) \<and> tw = snd (tar_Close (taWriter ta))"
    using assms(1)
  proof
    assume a: "tarball_Do g t s = Inr tw \<and> tbWhiteoutConverter t = None \<and> maps_all (oIDMap (tbOptions t))"
    then have "links_inv (startAppender t)"
      using links_inv_start [of "oIDMap (tbOptions t)" "oChownOpts (tbOptions t)"]
      by (simp add: startAppender_def newTarAppender_def links_inv_def)
    then show ?thesis using a linked.Do_invariant [of g t s tw] by blast
  next
    assume a: "ExportChanges g dir changes m s = Inr tw \<and> maps_all m"
    then show ?thesis using linked.Export_invariant [of g dir changes m s tw] links_inv_start [of m None] by blast
  qed
  then obtain ta where "links_inv ta" "tw = snd (tar_Close (taWriter ta))" using assms(2) by blast
  then have "links_ok (map fst (twEntries tw))" by (auto simp: links_inv_def tar_Close_def)
  then show ?thesis using assms(3,4) by (fastforce simp: links_ok_def)
qed

theorem archive_hardlinks_resolve_witness:
  "\<exists>tw. tarball_Do pack_env pack_tb pack_fs = Inr tw \<and>
     (\<exists>j < 1. hName (fst (twEntries tw ! j)) = ''a'' \<and> hTypeflag (fst (twEntries tw ! j)) \<noteq> TypeLink)"
proof -
  obtain tw where tw: "tarball_Do pack_env pack_tb pack_fs = Inr tw"
    "map (\<lambda>e. (hName (fst e), hTypeflag (fst e) = TypeLink, hLinkname (fst e), snd e)) (twEntries tw) =
       [(''a'', False, [], ''xyz''), (''b'', True, ''a'', []), (''c'', False, [], ''hello'')]"
    by (rule tw_view_run [OF pack_run]) auto
  from arg_cong [OF tw(2), of length] have l: "1 < length (twEntries tw)" by simp
  from arg_cong [OF tw(2), of "\<lambda>l. l ! 1"] l
  have e: "hTypeflag (fst (twEntries tw ! 1)) = TypeLink" "hLinkname (fst (twEntries tw ! 1)) = ''a''" by simp_all
  have "tbWhiteoutConverter pack_tb = None" "maps_all (oIDMap (tbOptions pack_tb))" "eEnc pack_env hdr = None" for hdr
    by (simp_all add: pack_tb_def sample_tarball_def zeroTarOptions_def maps_all_def no_map_def pack_env_def sample_env_def)
  with archive_hardlinks_resolve [of pack_env pack_tb pack_fs tw "[]" "[]" no_map 1] tw(1) l e show ?thesis by auto
qed



text \<open>
  C25: On a machine that refuses nothing, with files whose sizes fit in an \<open>int64\<close>, an archive that is
  written at all ends with its trailer: no entry is left incomplete.
\<close>

theorem archive_ends:
  assumes "tarball_Do g t s = Inr tw \<or> ExportChanges g dir changes m s = Inr tw"
    and "no_faults (eHost g) s" and "sizes_ok s"
  shows "twTrailer tw"
proof -
  have new: "idle (startAppender t)" "idle (newTarAppender m None)"
    by (simp_all add: idle_def startAppender_def newTarAppender_def newTarWriter_def)
  have "\<exists>ta. (no_faults (eHost g) s \<and> sizes_ok s \<longrightarrow> idle ta) \<and> tw = snd (tar_Close (taWriter ta))"
    using assms(1) calm.Do_invariant [of g t s tw] calm.Export_invariant [of g dir changes m s tw] new by blast
  then show ?thesis using assms(2,3) by (auto simp: idle_def tar_Close_def)
qed

theorem archive_ends_witness:
  "\<exists>tw. tarball_Do pack_env pack_tb pack_fs = Inr tw \<and> twTrailer tw"
proof -
  obtain tw where tw: "tarball_Do pack_env pack_tb pack_fs = Inr tw"
    by (rule tw_view_run [OF pack_run]) auto
  have "list_all (\<lambda>i. case inodes pack_fs i of None \<Rightarrow> True | Some nd \<Rightarrow> kind_size (ikind nd) < 100) [0..<6]"
    by code_simp
  moreover have "inodes pack_fs i = None" if "6 \<le> i" for i
    using that by (auto simp: pack_fs_def fs_of_def map_of_eq_None_iff set_zip)
  ultimately have "kind_size (ikind nd) < 100" if "inodes pack_fs i = Some nd" for i nd
    using that by (cases "i < 6") (fastforce simp: list_all_iff split: option.splits)+
  moreover have sz: "(100 :: int) < 2 ^ 63" by simp
  ultimately have "sizes_ok pack_fs" unfolding sizes_ok_def by (metis less_trans [of _ 100 "2 ^ 63"] sz)
  moreover have "no_faults (eHost pack_env) pack_fs"
    by (simp add: no_faults_def pack_env_def sample_env_def base_host_def)
  ultimately show ?thesis using archive_ends [of pack_env pack_tb pack_fs tw] tw by blast
qed


end
