(* ===== verification/Collect.thy ===== *)
theory Collect
  imports Changes
begin

text \<open>
  \<open>Changes\<close> of \<open>changes.go\<close>: what an AUFS branch changes with respect to the layers below it,
  found by one walk through the branch. The file system is only read: it is the argument \<open>s\<close>.
\<close>

section \<open>filepath.Walk\<close>

text \<open>
  \<open>fn\<close> gets the path, its info (nil where it could not be examined) and an error. A directory
  is listed before \<open>fn\<close> sees it; \<open>SkipDir\<close> leaves out a directory. \<open>rd\<close> lists a directory in
  order and \<open>lst\<close> examines a path.
\<close>

definition catchSkip :: "('s, wsignal, unit) io \<Rightarrow> ('s, wsignal, unit) io" where
  "catchSkip m = bindE (tryE m) (\<lambda>r. case r of Inl SkipDir \<Rightarrow> ret () | Inl e \<Rightarrow> fail e | Inr _ \<Rightarrow> ret ())"

fun fpWalk ::
  "nat \<Rightarrow> (string \<Rightarrow> goerror + string list) \<Rightarrow> (string \<Rightarrow> goerror + FileInfo) \<Rightarrow>
     (string \<Rightarrow> FileInfo option \<Rightarrow> goerror option \<Rightarrow> ('s, wsignal, unit) io) \<Rightarrow>
     string \<Rightarrow> FileInfo \<Rightarrow> ('s, wsignal, unit) io" where
  "fpWalk 0 rd lst fn path info = fail WalkFuel"
| "fpWalk (Suc n) rd lst fn path info =
     (if \<not> fi_is_dir info then fn path (Some info) None
      else
        (case rd path of
           Inl err \<Rightarrow> fn path (Some info) (Some err)
         | Inr names \<Rightarrow>
             bindE (fn path (Some info) None) (\<lambda>_.
             foreachE (\<lambda>name.
               let filename = Join [path, name]
               in case lst filename of
                    Inl err \<Rightarrow> catchSkip (fn filename None (Some err))
                  | Inr fileInfo \<Rightarrow>
                      (if fi_is_dir fileInfo then catchSkip (fpWalk n rd lst fn filename fileInfo)
                       else fpWalk n rd lst fn filename fileInfo)) names)))"

definition filepath_Walk ::
  "host \<Rightarrow> fsys \<Rightarrow> string \<Rightarrow> (string \<Rightarrow> FileInfo option \<Rightarrow> goerror option \<Rightarrow> ('s, wsignal, unit) io) \<Rightarrow>
     ('s, goerror, unit) io" where
  "filepath_Walk h s root fn st =
     (case (case fst (os_Lstat h root s) of
              Inl err \<Rightarrow> fn root None (Some err)
            | Inr info \<Rightarrow>
                fpWalk (walk_depth s) (\<lambda>p. map_sum id (map fst) (fst (os_ReadDir h p s)))
                  (\<lambda>p. fst (os_Lstat h p s)) fn root info) st of
        (Inr _, st') \<Rightarrow> (Inr (), st')
      | (Inl SkipDir, st') \<Rightarrow> (Inr (), st')
      | (Inl (WalkErr e), st') \<Rightarrow> (Inl e, st')
      | (Inl WalkFuel, st') \<Rightarrow> (Inl (GoPanic ''walk fuel''), st'))"

section \<open>Whiteouts of a branch\<close>

text \<open>\<open>filepath.Match\<close> for a pattern of literal characters with one asterisk at its end.\<close>

definition Match_star :: "string \<Rightarrow> string \<Rightarrow> bool" where
  "Match_star pre name \<longleftrightarrow> HasPrefix name pre \<and> slash \<notin> set (drop (length pre) name)"

definition aufsMetadataSkip :: "string \<Rightarrow> bool \<times> goerror option" where
  "aufsMetadataSkip path = (Match_star ([slash] @ WhiteoutMetaPrefix) path, None)"

definition aufsDeletedFile :: "string \<Rightarrow> string \<Rightarrow> FileInfo \<Rightarrow> goerror + string" where
  "aufsDeletedFile root path fi =
     (let f = Base path
      in if HasPrefix f WhiteoutPrefix
         then Inr (Join [Dir path, drop (length WhiteoutPrefix) f]) else Inr [])"

type_synonym skipChange = "string \<Rightarrow> bool \<times> goerror option"
type_synonym deleteChange = "string \<Rightarrow> string \<Rightarrow> FileInfo \<Rightarrow> goerror + string"

section \<open>The walk\<close>

record collectState =
  ccChanges :: "Change list"
  ccDirs :: "string list"

text \<open>
  What a path that is no whiteout is: added, unless a layer has it; \<open>None\<close> when it is a
  directory that the first such layer has in the same form.
\<close>

fun layerKind :: "host \<Rightarrow> fsys \<Rightarrow> string list \<Rightarrow> string \<Rightarrow> FileInfo \<Rightarrow> goerror + ChangeType option" where
  "layerKind h s [] path f = Inr (Some ChangeAdd)"
| "layerKind h s (layer # layers) path f =
     (case fst (os_Stat h (Join [layer, path]) s) of
        Inl err \<Rightarrow> if is_not_exist err then layerKind h s layers path f else Inl err
      | Inr stat \<Rightarrow>
          if fi_is_dir stat \<and> fi_is_dir f \<and> fiSize f = fiSize stat \<and> fiMode f = fiMode stat \<and>
             sameFsTime (fiModTime f) (fiModTime stat)
          then Inr None else Inr (Some ChangeModify))"

definition modifyC :: "(collectState \<Rightarrow> collectState) \<Rightarrow> (collectState, 'e, unit) io" where
  "modifyC f st = (Inr (), f st)"

definition recordChange :: "string \<Rightarrow> FileInfo \<Rightarrow> Change \<Rightarrow> collectState \<Rightarrow> collectState" where
  "recordChange path f change st =
     (let dirs = (if fi_is_dir f then path # ccDirs st else ccDirs st);
          parent = Dir path;
          st1 =
            (if cKind change \<in> {ChangeAdd, ChangeDelete} \<and> parent \<notin> set dirs \<and> parent \<noteq> [slash]
             then st\<lparr>ccChanges := ccChanges st @ [\<lparr>cPath = parent, cKind = ChangeModify\<rparr>], ccDirs := parent # dirs\<rparr>
             else st\<lparr>ccDirs := dirs\<rparr>)
      in st1\<lparr>ccChanges := ccChanges st1 @ [change]\<rparr>)"

definition collectVisit ::
  "host \<Rightarrow> fsys \<Rightarrow> string list \<Rightarrow> string \<Rightarrow> deleteChange \<Rightarrow> skipChange option \<Rightarrow>
     string \<Rightarrow> FileInfo option \<Rightarrow> goerror option \<Rightarrow> (collectState, wsignal, unit) io" where
  "collectVisit h s layers rw dc sc path0 info err =
     (case (err, info) of
        (Some e, _) \<Rightarrow> fail (WalkErr e)
      | (None, None) \<Rightarrow> fail (WalkErr (GoPanic ''nil pointer dereference''))
      | (None, Some f) \<Rightarrow>
          (case Rel rw path0 of
             None \<Rightarrow> fail (WalkErr (ErrMsg ''Rel: can't make relative'' [path0, rw]))
           | Some rel \<Rightarrow>
               (let path = Join [[slash], rel];
                    (skip, skipErr) = (case sc of None \<Rightarrow> (False, None) | Some g \<Rightarrow> g path)
                in if path = [slash] then ret ()
                   else if skip then (case skipErr of None \<Rightarrow> ret () | Some e \<Rightarrow> fail (WalkErr e))
                   else
                     (case dc rw path f of
                        Inl e \<Rightarrow> fail (WalkErr e)
                      | Inr deletedFile \<Rightarrow>
                          if deletedFile \<noteq> []
                          then modifyC (recordChange path f \<lparr>cPath = deletedFile, cKind = ChangeDelete\<rparr>)
                          else
                            (case layerKind h s layers path f of
                               Inl e \<Rightarrow> fail (WalkErr e)
                             | Inr None \<Rightarrow> ret ()
                             | Inr (Some k) \<Rightarrow> modifyC (recordChange path f \<lparr>cPath = path, cKind = k\<rparr>))))))"

definition collectChanges ::
  "host \<Rightarrow> string list \<Rightarrow> string \<Rightarrow> deleteChange \<Rightarrow> skipChange option \<Rightarrow> fsys \<Rightarrow> goerror + Change list" where
  "collectChanges h layers rw dc sc s =
     (case filepath_Walk h s rw (collectVisit h s layers rw dc sc) \<lparr>ccChanges = [], ccDirs = []\<rparr> of
        (Inl err, st) \<Rightarrow> if is_not_exist err then Inr (ccChanges st) else Inl err
      | (Inr _, st) \<Rightarrow> Inr (ccChanges st))"

text \<open>\<open>Changes\<close>: with the whiteouts of AUFS.\<close>

definition aufs_Changes :: "host \<Rightarrow> string list \<Rightarrow> string \<Rightarrow> fsys \<Rightarrow> goerror + Change list" where
  "aufs_Changes h layers rw s = collectChanges h layers rw aufsDeletedFile (Some aufsMetadataSkip) s"

end
