(* ===== verification/CollectFacts.thy ===== *)
theory CollectFacts
  imports Collect WalkerFacts TarballFacts Samples
begin

text \<open>
  What \<open>Changes\<close> reports: every report is justified by the branch and the layers, the parent of
  every addition and deletion is reported before it, and nothing of the branch is missed.
\<close>

section \<open>Walks\<close>

context guarantee
begin

lemma keeps_catchSkip: "keeps G m \<Longrightarrow> keeps G (catchSkip m)"
  unfolding catchSkip_def by (intro keeps_bindE keeps_tryE) (auto simp: keeps_fail keeps_ret intro: keeps_signal)

lemma keeps_fpWalk: "(\<And>p i e. keeps G (fn p i e)) \<Longrightarrow> keeps G (fpWalk n rd lst fn path info)"
proof (induction n arbitrary: path info)
  case (Suc n)
  show ?case unfolding fpWalk.simps Let_def
    by (intro keeps_if keeps_case_sum keeps_bindE keeps_foreachE keeps_catchSkip Suc.prems Suc.IH)
qed (simp add: keeps_fail)

lemma keeps_filepath_Walk:
  assumes "\<And>p i e. keeps G (fn p i e)"
  shows "keeps G (filepath_Walk h s root fn)"
proof (rule keepsI)
  fix st
  let ?m = "case fst (os_Lstat h root s) of
              Inl err \<Rightarrow> fn root None (Some err)
            | Inr info \<Rightarrow>
                fpWalk (walk_depth s) (\<lambda>p. map_sum id (map fst) (fst (os_ReadDir h p s)))
                  (\<lambda>p. fst (os_Lstat h p s)) fn root info"
  have "keeps G ?m" by (intro keeps_case_sum assms keeps_fpWalk)
  then have "G st (snd (?m st))" by (simp add: keeps_def)
  moreover have "snd (filepath_Walk h s root fn st) = snd (?m st)"
    unfolding filepath_Walk_def by (cases "?m st") (simp split: sum.split wsignal.split)
  ultimately show "G st (snd (filepath_Walk h s root fn st))" by simp
qed

end

section \<open>What is reported, and in which order\<close>

definition is_whiteout :: "string \<Rightarrow> bool" where
  "is_whiteout path \<longleftrightarrow> HasPrefix (Base path) WhiteoutPrefix"

definition whited_out :: "string \<Rightarrow> string" where
  "whited_out path = Join [Dir path, drop (length WhiteoutPrefix) (Base path)]"

definition in_layer :: "host \<Rightarrow> fsys \<Rightarrow> string \<Rightarrow> string \<Rightarrow> bool" where
  "in_layer h s path layer \<longleftrightarrow> \<not> isl (fst (os_Stat h (Join [layer, path]) s))"

definition not_in_layer :: "host \<Rightarrow> fsys \<Rightarrow> string \<Rightarrow> string \<Rightarrow> bool" where
  "not_in_layer h s path layer \<longleftrightarrow>
     (\<exists>e. fst (os_Stat h (Join [layer, path]) s) = Inl e \<and> is_not_exist e)"

text \<open>The directory \<open>d\<close> is the root, a whiteout itself, or reported before position \<open>k\<close>.\<close>

definition reported_before :: "Change list \<Rightarrow> nat \<Rightarrow> string \<Rightarrow> bool" where
  "reported_before cs k d \<longleftrightarrow> d = [slash] \<or> is_whiteout d \<or> d \<in> cPath ` set (take k cs)"

definition change_ok :: "host \<Rightarrow> fsys \<Rightarrow> string list \<Rightarrow> Change list \<Rightarrow> nat \<Rightarrow> bool" where
  "change_ok h s layers cs k \<longleftrightarrow>
     (let path = cPath (cs ! k)
      in case cKind (cs ! k) of
           ChangeAdd \<Rightarrow> list_all (not_in_layer h s path) layers \<and> reported_before cs k (Dir path)
         | ChangeDelete \<Rightarrow> (\<exists>p. is_whiteout p \<and> path = whited_out p \<and> reported_before cs k (Dir p))
         | ChangeModify \<Rightarrow>
             list_ex (in_layer h s path) layers \<or>
             (Suc k < length cs \<and> cKind (cs ! Suc k) \<noteq> ChangeModify \<and>
               (\<exists>p. Dir p = path \<and> (cPath (cs ! Suc k) = p \<or> cPath (cs ! Suc k) = whited_out p))))"

lemma reported_before_append: "k \<le> length cs \<Longrightarrow> reported_before cs k d \<Longrightarrow> reported_before (cs @ ds) k d"
  by (simp add: reported_before_def)

lemma change_ok_append:
  assumes "k < length cs" and "change_ok h s layers cs k"
  shows "change_ok h s layers (cs @ ds) k"
proof -
  have nth: "(cs @ ds) ! k = cs ! k" "Suc k < length cs \<Longrightarrow> (cs @ ds) ! Suc k = cs ! Suc k"
    using assms(1) by (simp_all add: nth_append)
  note rb = reported_before_append [of k cs _ ds]
  show ?thesis
  proof (cases "cKind (cs ! k)")
    case ChangeModify
    then show ?thesis using assms nth unfolding change_ok_def Let_def by auto
  qed (use assms nth rb in \<open>auto simp: change_ok_def Let_def\<close>)
qed

definition collect_ok :: "host \<Rightarrow> fsys \<Rightarrow> string list \<Rightarrow> collectState \<Rightarrow> bool" where
  "collect_ok h s layers st \<longleftrightarrow>
     (\<forall>k < length (ccChanges st). change_ok h s layers (ccChanges st) k) \<and>
     (\<forall>d \<in> set (ccDirs st). is_whiteout d \<or> (\<exists>c \<in> set (ccChanges st). cPath c = d))"

lemma layerKind_cases:
  "layerKind h s layers path f = Inr (Some k) \<Longrightarrow>
     (k = ChangeAdd \<and> list_all (not_in_layer h s path) layers) \<or>
     (k = ChangeModify \<and> list_ex (in_layer h s path) layers)"
  by (induction layers)
    (auto simp: in_layer_def not_in_layer_def split: sum.splits if_splits)

lemma collect_ok_step:
  assumes ok: "collect_ok h s layers st" and up: "Dir path \<noteq> path"
    and c: "cKind change = ChangeAdd \<and> cPath change = path \<and> list_all (not_in_layer h s path) layers \<or>
       cKind change = ChangeModify \<and> cPath change = path \<and> list_ex (in_layer h s path) layers \<or>
       cKind change = ChangeDelete \<and> is_whiteout path \<and> cPath change = whited_out path"
  shows "collect_ok h s layers (recordChange path f change st)"
proof -
  let ?dirs = "if fi_is_dir f then path # ccDirs st else ccDirs st"
  let ?cs = "ccChanges st"
  have old: "change_ok h s layers (?cs @ ds) k" if "k < length ?cs" for ds k
    using ok change_ok_append that by (simp add: collect_ok_def)
  have last: "change_ok h s layers (?cs @ ds @ [change]) (length (?cs @ ds))"
    if "cKind change \<noteq> ChangeModify \<Longrightarrow> reported_before (?cs @ ds @ [change]) (length (?cs @ ds)) (Dir path)" for ds
    using c that by (auto simp: change_ok_def Let_def nth_append)
  show ?thesis
  proof (cases "cKind change \<in> {ChangeAdd, ChangeDelete} \<and> Dir path \<notin> set ?dirs \<and> Dir path \<noteq> [slash]")
    case True
    let ?p = "\<lparr>cPath = Dir path, cKind = ChangeModify\<rparr>"
    have "reported_before (?cs @ [?p] @ [change]) (length (?cs @ [?p])) (Dir path)"
      by (simp add: reported_before_def)
    note l = last [of "[?p]", OF this]
    have "change_ok h s layers (?cs @ [?p] @ [change]) (length ?cs)"
      using c True by (auto simp: change_ok_def Let_def nth_append)
    then have "change_ok h s layers (?cs @ [?p, change]) k" if "k < length (?cs @ [?p, change])" for k
      using l old [of k "[?p, change]"] that
      by (cases "k < length ?cs"; cases "k = length ?cs") (auto simp: less_Suc_eq)
    moreover have "recordChange path f change st =
        st\<lparr>ccChanges := ?cs @ [?p, change], ccDirs := Dir path # ?dirs\<rparr>"
      using True by (auto simp: recordChange_def Let_def)
    moreover have "is_whiteout d \<or> (\<exists>c \<in> set (?cs @ [?p, change]). cPath c = d)" if "d \<in> set (Dir path # ?dirs)" for d
      using that ok c by (auto simp: collect_ok_def split: if_splits)
    ultimately show ?thesis by (simp add: collect_ok_def)
  next
    case False
    have dirs: "is_whiteout d \<or> (\<exists>c \<in> set (?cs @ [change]). cPath c = d)" if "d \<in> set ?dirs" for d
      using that ok c by (auto simp: collect_ok_def split: if_splits)
    have rb: "reported_before (?cs @ [change]) (length ?cs) (Dir path)" if "cKind change \<noteq> ChangeModify"
    proof -
      have "Dir path = [slash] \<or> Dir path \<in> set (ccDirs st)"
        using that False up by (cases "cKind change") (auto split: if_splits)
      moreover have "reported_before (?cs @ [change]) (length ?cs) d" if "d \<in> set (ccDirs st)" for d
      proof -
        have "is_whiteout d \<or> (\<exists>c \<in> set ?cs. cPath c = d)" using ok that by (simp add: collect_ok_def)
        then show ?thesis by (auto simp: reported_before_def)
      qed
      ultimately show ?thesis by (auto simp: reported_before_def)
    qed
    have l: "change_ok h s layers (?cs @ [change]) (length ?cs)" using last [of "[]"] rb by simp
    then have "change_ok h s layers (?cs @ [change]) k" if "k < length (?cs @ [change])" for k
      using old [of k "[change]"] that by (cases "k = length ?cs") auto
    moreover have "recordChange path f change st = st\<lparr>ccChanges := ?cs @ [change], ccDirs := ?dirs\<rparr>"
      using False by (auto simp: recordChange_def Let_def)
    ultimately show ?thesis using dirs by (simp add: collect_ok_def)
  qed
qed


lemma Clean_abs_names: "IsAbs x \<Longrightarrow> \<exists>q. Clean x = abs_path q \<and> list_all is_name q"
  using clean_comps_form [of x] by (auto simp: Clean_render abs_path_def elim!: clean_formE)

lemma clean_abs_up: "path = Join [[slash], rel] \<Longrightarrow> path \<noteq> [slash] \<Longrightarrow> Dir path \<noteq> path"
proof -
  assume p: "path = Join [[slash], rel]" "path \<noteq> [slash]"
  let ?x = "if rel = [] then [slash] else slash # slash # rel"
  have x: "path = Clean ?x" using p(1) by (simp add: Join_def Let_def)
  have "IsAbs ?x" by (simp add: IsAbs_def)
  from Clean_abs_names [OF this] obtain q where q: "path = abs_path q" "list_all is_name q"
    unfolding x by blast
  with p(2) have "q \<noteq> []" by auto
  then obtain p0 n where "q = p0 @ [n]" by (metis append_butlast_last_id)
  then show ?thesis using q Dir_Base_abs [of p0 n] abs_path_inj [of p0 "p0 @ [n]"] by simp
qed

lemma keeps_visit: "preserves (collect_ok h s layers) (collectVisit h s layers rw aufsDeletedFile (Some aufsMetadataSkip) p info err)"
proof -
  have step: "preserves (collect_ok h s layers) (modifyC (recordChange path f change))"
    if "path = Join [[slash], rel]" "path \<noteq> [slash]"
      "cKind change = ChangeAdd \<and> cPath change = path \<and> list_all (not_in_layer h s path) layers \<or>
       cKind change = ChangeModify \<and> cPath change = path \<and> list_ex (in_layer h s path) layers \<or>
       cKind change = ChangeDelete \<and> is_whiteout path \<and> cPath change = whited_out path" for path f rel change
    using collect_ok_step [OF _ clean_abs_up [OF that(1,2)] that(3)] by (simp add: preserves_cases modifyC_def)
  show ?thesis
    unfolding collectVisit_def Let_def
    by (intro inv.keeps_case_prod inv.keeps_case_option inv.keeps_if inv.keeps_case_sum inv.keeps_fail inv.keeps_ret step)
      (auto simp: aufsDeletedFile_def Let_def is_whiteout_def whited_out_def dest!: layerKind_cases split: if_splits)
qed


section \<open>The order of a walk\<close>

definition no_skip :: "('s, wsignal, 'a) io \<Rightarrow> bool" where
  "no_skip m \<longleftrightarrow> (\<forall>st. fst (m st) \<noteq> Inl SkipDir)"

lemma catchSkip_id: "no_skip m \<Longrightarrow> catchSkip m = m"
proof
  fix st assume "no_skip m"
  then have n: "fst (m st) \<noteq> Inl SkipDir" by (simp add: no_skip_def)
  show "catchSkip m st = m st"
  proof (cases "m st")
    case (Pair r st')
    then show ?thesis using n
      by (auto simp: catchSkip_def bindE_tryE split: sum.split wsignal.split)
  qed
qed

lemma no_skip_bind: "no_skip m \<Longrightarrow> (\<And>x. no_skip (f x)) \<Longrightarrow> no_skip (bindE m f)"
  unfolding no_skip_def bindE_def by (auto split: prod.split sum.split) (metis fst_conv)

lemma no_skip_foreach: "(\<And>x. no_skip (f x)) \<Longrightarrow> no_skip (foreachE f xs)"
  by (induction xs) (auto intro: no_skip_bind simp: no_skip_def [of "ret _"])

lemma bindE_assoc: "bindE (bindE m f) g = bindE m (\<lambda>x. bindE (f x) g)"
  by (auto simp: bindE_def fun_eq_iff split: prod.split sum.split)

lemma foreachE_append: "foreachE f (xs @ ys) = bindE (foreachE f xs) (\<lambda>_. foreachE f ys)"
  by (induction xs) (simp_all add: bindE_assoc del: ret_run)

lemma foreachE_concat: "foreachE (\<lambda>x. foreachE f (g x)) xs = foreachE f (concat (map g xs))"
  by (induction xs) (simp_all add: foreachE_append del: ret_run)

lemma foreachE_map: "foreachE f (map g xs) = foreachE (\<lambda>x. f (g x)) xs"
  by (induction xs) simp_all

lemma foreachE_cong: "(\<And>x. x \<in> set xs \<Longrightarrow> f x = g x) \<Longrightarrow> foreachE f xs = foreachE g xs"
  by (induction xs) simp_all

text \<open>The locations at and below \<open>b @ q\<close>, each directory before what is in it, in the order of the names.\<close>

fun walk_list :: "nat \<Rightarrow> fsys \<Rightarrow> loc \<Rightarrow> loc \<Rightarrow> loc list" where
  "walk_list 0 s b q = []"
| "walk_list (Suc n) s b q =
     q # (if dir_at s (b @ q) then concat (map (\<lambda>c. walk_list n s b (q @ [c])) (children s (b @ q))) else [])"

lemma set_walk_list:
  assumes "tree_ok s" and "deep_enough s b q n" and "ino_at s (b @ q) \<noteq> None"
  shows "set (walk_list n s b q) = {q @ t |t. ino_at s (b @ q @ t) \<noteq> None}"
  using assms(2,3)
proof (induction n arbitrary: q)
  case 0
  then have "ino_at s (b @ q @ []) = None" unfolding deep_enough_def by blast
  then show ?case using 0 by simp
next
  case (Suc n)
  have IH: "set (walk_list n s b (q @ [c])) = {q @ c # t |t. ino_at s (b @ q @ c # t) \<noteq> None}"
    if "c \<in> set (children s (b @ q))" for c
    using Suc.IH [OF deep_enough_child [OF Suc.prems(1)], of c] that by (simp add: set_children)
  show ?case
  proof (cases "dir_at s (b @ q)")
    case True
    have "c \<in> set (children s (b @ q))" if "ino_at s (b @ q @ c # t) \<noteq> None" for c t
    proof (cases "t = []")
      case False
      then have "dir_at s (b @ (q @ [c]))" using below_dirs [OF assms(1), of b "q @ [c]" t] that by simp
      then show ?thesis using dir_at_ino by (simp add: set_children)
    qed (use that in \<open>simp add: set_children\<close>)
    then have "(\<Union>c \<in> set (children s (b @ q)). {q @ c # t |t. ino_at s (b @ q @ c # t) \<noteq> None}) =
        {q @ t |t. ino_at s (b @ q @ t) \<noteq> None \<and> t \<noteq> []}"
      by (fastforce simp: neq_Nil_conv)
    moreover have "set (walk_list (Suc n) s b q) =
        insert q (\<Union>c \<in> set (children s (b @ q)). {q @ c # t |t. ino_at s (b @ q @ c # t) \<noteq> None})"
      using True IH by simp
    moreover have "insert q {q @ t |t. ino_at s (b @ q @ t) \<noteq> None \<and> t \<noteq> []} = {q @ t |t. ino_at s (b @ q @ t) \<noteq> None}"
      using Suc.prems(2) by force
    ultimately show ?thesis by simp
  next
    case False
    have "t = []" if "ino_at s (b @ q @ t) \<noteq> None" for t
      using below_dirs [OF assms(1) that] False by blast
    then show ?thesis using False Suc.prems(2) by auto
  qed
qed

lemma fpWalk_order:
  assumes t: "tree_ok s" and nf: "no_faults h s" and d: "dirs_to s (hRoot h) p"
    and names: "list_all is_name p"
    and deep: "deep_enough s (hRoot h @ p) q n"
    and i: "info_at s (hRoot h @ p @ q) = Some fi"
    and ns: "\<And>p i e. no_skip (fn p i e)"
  shows "fpWalk n (\<lambda>p. map_sum id (map fst) (fst (os_ReadDir h p s))) (\<lambda>p. fst (os_Lstat h p s)) fn (abs_path (p @ q)) fi =
    foreachE (\<lambda>q. fn (abs_path (p @ q)) (info_at s (hRoot h @ p @ q)) None) (walk_list n s (hRoot h @ p) q)"
  using deep i
proof (induction n arbitrary: q fi)
  case 0
  then have "ino_at s ((hRoot h @ p) @ q @ []) = None" unfolding deep_enough_def by blast
  then show ?case using 0 by (simp add: info_at_def)
next
  case (Suc n)
  let ?b = "hRoot h @ p"
  have ino: "ino_at s (?b @ q) \<noteq> None" using Suc.prems(2) by (auto simp: info_at_def split: option.splits)
  have dir: "fi_is_dir fi \<longleftrightarrow> dir_at s (?b @ q)"
    using info_at_dir [of s "?b @ q"] Suc.prems(2) by simp
  have qn: "list_all is_name q" using below_names [OF t ino] .
  have skip: "no_skip (fpWalk n rd lst fn path info)" for n rd lst path info
  proof (induction n arbitrary: path info)
    case 0
    then show ?case by (simp add: no_skip_def)
  next
    case (Suc n)
    have c: "no_skip m \<Longrightarrow> no_skip (catchSkip m)" for m :: "('a, wsignal, unit) io" by (simp add: catchSkip_id)
    have "no_skip (case lst (Join [path, name]) of
                    Inl err \<Rightarrow> catchSkip (fn (Join [path, name]) None (Some err))
                  | Inr fileInfo \<Rightarrow>
                      (if fi_is_dir fileInfo then catchSkip (fpWalk n rd lst fn (Join [path, name]) fileInfo)
                       else fpWalk n rd lst fn (Join [path, name]) fileInfo))" for name
      by (auto simp: Suc ns c split: sum.split)
    then show ?case
      by (auto simp: ns Let_def split: sum.split intro!: no_skip_bind no_skip_foreach)
  qed
  show ?case
  proof (cases "dir_at s (?b @ q)")
    case False
    have "deep_enough s ?b q (Suc n)" using Suc.prems by simp
    then show ?thesis using False dir Suc.prems(2) by (simp add: bindE_def fun_eq_iff split: prod.split sum.split)
  next
    case True
    have dq: "dirs_to s (hRoot h) (p @ q)" using dirs_to_dir [OF t d] True by simp
    have res: "kresolve h True (abs_path (p @ q)) s = Inr (hRoot h @ p @ q)"
      using dq names qn by (intro kresolve_dirs) simp_all
    obtain nd where nd: "node_at s (?b @ q) = Some nd" "ikind nd = KDir" using True by (auto simp: dir_at_node)
    have rd: "fst (os_ReadDir h (abs_path (p @ q)) s) = Inr (map (\<lambda>n. (n, dir_at s (?b @ q @ [n]))) (children s (?b @ q)))"
      using nf res nd by (simp add: os_ReadDir_def path_op_def no_faults_def p_readdir_def)
    let ?rd = "\<lambda>p. map_sum id (map fst) (fst (os_ReadDir h p s))" and ?lst = "\<lambda>p. fst (os_Lstat h p s)"
    let ?visit = "\<lambda>q. fn (abs_path (p @ q)) (info_at s (hRoot h @ p @ q)) None"
    have child: "(let filename = Join [abs_path (p @ q), c]
               in case ?lst filename of
                    Inl err \<Rightarrow> catchSkip (fn filename None (Some err))
                  | Inr fileInfo \<Rightarrow>
                      (if fi_is_dir fileInfo then catchSkip (fpWalk n ?rd ?lst fn filename fileInfo)
                       else fpWalk n ?rd ?lst fn filename fileInfo)) =
        foreachE ?visit (walk_list n s ?b (q @ [c]))" if "c \<in> set (children s (?b @ q))" for c
    proof -
      have ci: "ino_at s (?b @ q @ [c]) \<noteq> None" using that by (simp add: set_children)
      then have cn: "is_name c" using tree_ok_snoc [OF t, of "?b @ q" c] by simp
      have path: "Join [abs_path (p @ q), c] = abs_path ((p @ q) @ [c])"
        using Join_abs names qn cn by simp
      have "kresolve h False (abs_path ((p @ q) @ [c])) s = Inr (hRoot h @ (p @ q) @ [c])"
        using dq names qn cn by (intro kresolve_abs) simp_all
      note l = os_Lstat_abs [OF nf this]
      obtain cfi where cfi: "info_at s (?b @ q @ [c]) = Some cfi"
        using ci info_at_None [OF t, of "?b @ q @ [c]"] by auto
      then have "?lst (abs_path ((p @ q) @ [c])) = Inr cfi"
        using l by (auto simp: info_at_def split: option.splits)
      moreover have "fpWalk n ?rd ?lst fn (abs_path (p @ (q @ [c]))) cfi = foreachE ?visit (walk_list n s ?b (q @ [c]))"
        by (rule Suc.IH [OF deep_enough_child [OF Suc.prems(1)]]) (use cfi in simp)
      ultimately show ?thesis
        unfolding Let_def path by (simp only: sum.case catchSkip_id [OF skip] if_cancel append_assoc)
    qed
    have rdn: "?rd (abs_path (p @ q)) = Inr (children s (?b @ q))"
      by (simp add: rd comp_def)
    note body = trans [OF foreachE_cong [OF child] foreachE_concat]
    have i: "info_at s (hRoot h @ p @ q) = Some fi" using Suc.prems(2) by simp
    show ?thesis using True dir
      by (simp only: fpWalk.simps walk_list.simps foreachE.simps rdn i body simp_thms if_True if_False sum.case append_assoc)
  qed
qed


lemma filepath_Walk_order:
  assumes t: "tree_ok s" and nf: "no_faults h s" and rw: "plain_dir h s p" and ns: "\<And>p i e. no_skip (fn p i e)"
    and run: "foreachE (\<lambda>q. fn (abs_path (p @ q)) (info_at s (hRoot h @ p @ q)) None)
      (walk_list (walk_depth s) s (hRoot h @ p) []) st = (Inr (), st')"
  shows "filepath_Walk h s (abs_path p) fn st = (Inr (), st')"
proof -
  have deep: "deep_enough s (hRoot h @ p) [] (walk_depth s)"
    using walk_depth_enough [of s "(hRoot h @ p) @ _"] by (fastforce simp: deep_enough_def)
  obtain fi where fi: "info_at s (hRoot h @ p) = Some fi" "fst (os_Lstat h (abs_path p) s) = Inr fi"
    using plain_dir_Lstat [OF rw nf t] by auto
  have "dirs_to s (hRoot h) p" "list_all is_name p" using rw by (simp_all add: plain_dir_def)
  from fpWalk_order [OF t nf this deep _ ns, of fi] fi(1) run
  have "fpWalk (walk_depth s) (\<lambda>p. map_sum id (map fst) (fst (os_ReadDir h p s))) (\<lambda>p. fst (os_Lstat h p s)) fn (abs_path p) fi st =
      (Inr (), st')" by simp
  then show ?thesis unfolding filepath_Walk_def fi(2) sum.case by simp
qed

section \<open>Nothing is missed\<close>

text \<open>What one path of the branch is reported as itself.\<close>

definition report_of :: "host \<Rightarrow> fsys \<Rightarrow> string list \<Rightarrow> string \<Rightarrow> FileInfo \<Rightarrow> goerror + Change option" where
  "report_of h s layers path fi =
     (if path = [slash] \<or> fst (aufsMetadataSkip path) then Inr None
      else if is_whiteout path then Inr (Some \<lparr>cPath = whited_out path, cKind = ChangeDelete\<rparr>)
      else map_sum id (map_option (\<lambda>k. \<lparr>cPath = path, cKind = k\<rparr>)) (layerKind h s layers path fi))"

lemma visit_run:
  assumes "list_all is_name rw" and "list_all is_name q"
  shows "collectVisit h s layers (abs_path rw) aufsDeletedFile (Some aufsMetadataSkip) (abs_path (rw @ q)) (Some fi) None st =
    (case report_of h s layers (abs_path q) fi of
       Inl e \<Rightarrow> (Inl (WalkErr e), st)
     | Inr None \<Rightarrow> (Inr (), st)
     | Inr (Some c) \<Rightarrow> (Inr (), recordChange (abs_path q) fi c st))"
proof -
  have rel: "Rel (abs_path rw) (abs_path (rw @ q)) = Some (if q = [] then dot else join_slash q)"
    using Rel_below [OF assms] by (simp add: abs_path_def)
  note path = Join_rebased [OF assms(2)]
  have wo: "Join [Dir p, x] \<noteq> []" for p x
  proof -
    have "Clean y \<noteq> []" for y
      using clean_form_is_comp [OF clean_comps_form [of y]] by (auto simp: Clean_render render_def join_slash_eq_Nil)
    then show ?thesis by (simp add: Join_def Dir_def Let_def)
  qed
  show ?thesis
    unfolding collectVisit_def Let_def rel path option.case prod.case
    by (auto simp: report_of_def aufsMetadataSkip_def aufsDeletedFile_def Let_def is_whiteout_def whited_out_def wo modifyC_def
        split: sum.split option.split)
qed


lemma no_skip_visit: "no_skip (collectVisit h s layers rw dc sc p i e)"
  by (auto simp: collectVisit_def no_skip_def modifyC_def Let_def split: option.split sum.split prod.split)

lemma recordChange_adds: "insert c (set (ccChanges st)) \<subseteq> set (ccChanges (recordChange path f c st))"
  by (auto simp: recordChange_def Let_def)

lemma visits_run:
  assumes rw: "list_all is_name rw"
    and L: "\<And>q. q \<in> set L \<Longrightarrow> list_all is_name q \<and>
      (\<exists>fi. info_at s (b @ q) = Some fi \<and> \<not> isl (report_of h s layers (abs_path q) fi))"
  shows "\<exists>st'. foreachE (\<lambda>q. collectVisit h s layers (abs_path rw) aufsDeletedFile (Some aufsMetadataSkip)
      (abs_path (rw @ q)) (info_at s (b @ q)) None) L st = (Inr (), st') \<and>
    set (ccChanges st) \<subseteq> set (ccChanges st') \<and>
    (\<forall>q fi c. q \<in> set L \<longrightarrow> info_at s (b @ q) = Some fi \<longrightarrow> report_of h s layers (abs_path q) fi = Inr (Some c) \<longrightarrow>
       c \<in> set (ccChanges st'))"
  using L
proof (induction L arbitrary: st)
  case (Cons q L)
  let ?v = "\<lambda>q. collectVisit h s layers (abs_path rw) aufsDeletedFile (Some aufsMetadataSkip)
      (abs_path (rw @ q)) (info_at s (b @ q)) None"
  obtain fi r where q: "list_all is_name q" "info_at s (b @ q) = Some fi" "report_of h s layers (abs_path q) fi = Inr r"
    using Cons.prems [of q] by (auto simp: isl_def) (metis sum.exhaust_sel sum.disc(1))
  obtain st1 where st1: "?v q st = (Inr (), st1)" "set (ccChanges st) \<subseteq> set (ccChanges st1)"
    "\<And>c. r = Some c \<Longrightarrow> c \<in> set (ccChanges st1)"
    using visit_run [OF rw q(1), of h s layers fi st] q(2,3) recordChange_adds
    by (cases r) (fastforce simp del: set_simps)+
  from Cons.IH [of st1] Cons.prems obtain st' where st': "foreachE ?v L st1 = (Inr (), st')"
    "set (ccChanges st1) \<subseteq> set (ccChanges st')"
    "\<And>q fi c. q \<in> set L \<Longrightarrow> info_at s (b @ q) = Some fi \<Longrightarrow> report_of h s layers (abs_path q) fi = Inr (Some c) \<Longrightarrow>
       c \<in> set (ccChanges st')"
    by auto
  have "foreachE ?v (q # L) st = (Inr (), st')"
    using st1(1) st'(1) by (simp add: bindE_Inr)
  moreover have "c \<in> set (ccChanges st')"
    if "q' \<in> set (q # L)" "info_at s (b @ q') = Some fi'" "report_of h s layers (abs_path q') fi' = Inr (Some c)" for q' fi' c
    using that q st1(3) st' by (cases "q' = q") auto
  ultimately show ?case using st1(2) st'(2) by blast
qed simp

lemma Changes_run:
  assumes nf: "no_faults h s" and t: "tree_ok s" and d: "plain_dir h s rw"
    and lay: "\<And>q l. ino_at s (hRoot h @ rw @ q) \<noteq> None \<Longrightarrow> l \<in> set layers \<Longrightarrow>
      in_layer h s (abs_path q) l \<or> not_in_layer h s (abs_path q) l"
  shows "\<exists>cs. aufs_Changes h layers (abs_path rw) s = Inr cs \<and>
    (\<forall>q fi c. info_at s (hRoot h @ rw @ q) = Some fi \<longrightarrow> report_of h s layers (abs_path q) fi = Inr (Some c) \<longrightarrow> c \<in> set cs)"
proof -
  let ?b = "hRoot h @ rw"
  have rw: "list_all is_name rw" using d by (simp add: plain_dir_def)
  have deep: "deep_enough s ?b [] (walk_depth s)"
    using walk_depth_enough [of s "?b @ _"] by (fastforce simp: deep_enough_def)
  have "ino_at s (?b @ []) \<noteq> None" using d dir_at_ino by (simp add: plain_dir_def)
  from set_walk_list [OF t deep this]
  have L: "q \<in> set (walk_list (walk_depth s) s ?b []) \<longleftrightarrow> ino_at s (?b @ q) \<noteq> None" for q by auto
  have kind: "\<not> isl (layerKind h s ls (abs_path q) fi)"
    if "\<And>l. l \<in> set ls \<Longrightarrow> in_layer h s (abs_path q) l \<or> not_in_layer h s (abs_path q) l" for ls q fi
    using that
  proof (induction ls)
    case (Cons l ls)
    have l: "in_layer h s (abs_path q) l \<or> not_in_layer h s (abs_path q) l" using Cons.prems by simp
    have "\<not> isl (layerKind h s ls (abs_path q) fi)" using Cons by simp
    with l show ?case by (auto simp: in_layer_def not_in_layer_def split: sum.split)
  qed simp
  have ok: "list_all is_name q \<and> (\<exists>fi. info_at s (?b @ q) = Some fi \<and> \<not> isl (report_of h s layers (abs_path q) fi))"
    if "q \<in> set (walk_list (walk_depth s) s ?b [])" for q
  proof -
    have i: "ino_at s (?b @ q) \<noteq> None" using L that by blast
    then obtain fi where "info_at s (?b @ q) = Some fi" using info_at_None [OF t, of "?b @ q"] by auto
    moreover have "\<not> isl (layerKind h s layers (abs_path q) fi)" using kind lay i by simp
    then have "\<not> isl (report_of h s layers (abs_path q) fi)"
      by (cases "layerKind h s layers (abs_path q) fi") (simp_all add: report_of_def)
    ultimately show ?thesis using below_names [OF t i] by blast
  qed
  from visits_run [OF rw ok, where st = "\<lparr>ccChanges = [], ccDirs = []\<rparr>"] obtain st' where
    st': "foreachE (\<lambda>q. collectVisit h s layers (abs_path rw) aufsDeletedFile (Some aufsMetadataSkip)
        (abs_path (rw @ q)) (info_at s (?b @ q)) None) (walk_list (walk_depth s) s ?b []) \<lparr>ccChanges = [], ccDirs = []\<rparr> = (Inr (), st')"
    "\<And>q fi c. q \<in> set (walk_list (walk_depth s) s ?b []) \<Longrightarrow> info_at s (?b @ q) = Some fi \<Longrightarrow>
      report_of h s layers (abs_path q) fi = Inr (Some c) \<Longrightarrow> c \<in> set (ccChanges st')"
    by blast
  have "filepath_Walk h s (abs_path rw) (collectVisit h s layers (abs_path rw) aufsDeletedFile (Some aufsMetadataSkip))
      \<lparr>ccChanges = [], ccDirs = []\<rparr> = (Inr (), st')"
    by (rule filepath_Walk_order [OF t nf d no_skip_visit]) (use st'(1) in simp)
  then have "aufs_Changes h layers (abs_path rw) s = Inr (ccChanges st')"
    by (simp add: aufs_Changes_def collectChanges_def)
  moreover have "c \<in> set (ccChanges st')"
    if "info_at s (?b @ q) = Some fi" "report_of h s layers (abs_path q) fi = Inr (Some c)" for q fi c
    using st'(2) [OF _ that] L [of q] that(1) by (auto simp: info_at_def split: option.splits)
  ultimately show ?thesis by auto
qed

section \<open>The properties\<close>

text \<open>A branch over one layer: a new file in an old directory, a whiteout, and a changed file.\<close>

definition aufs_fs :: fsys where
  "aufs_fs = fs_of
     [([], mk_node KDir 0x1ED), ([''l''], mk_node KDir 0x1ED), ([''rw''], mk_node KDir 0x1ED),
      ([''l'', ''d''], mk_node KDir 0x1ED), ([''l'', ''f''], mk_node (KReg ''x'') 0x1A4),
      ([''l'', ''old''], mk_node (KReg ''o'') 0x1A4),
      ([''rw'', ''d''], mk_node KDir 0x1ED), ([''rw'', ''d'', ''n''], mk_node (KReg ''new'') 0x1A4),
      ([''rw'', ''f''], mk_node (KReg ''xy'') 0x1A4), ([''rw'', ''.wh.old''], mk_node (KReg []) 0x1A4)]"

lemma aufs_run:
  "map_sum id (map Change_String) (aufs_Changes posix_host [''/l''] ''/rw'' aufs_fs) =
     Inr [''D /old'', ''C /d'', ''A /d/n'', ''C /f'']"
  by code_simp

text \<open>
  C27: Every report of \<open>Changes\<close> is justified, whatever the machine does: an added path is in none of
  the layers, a deleted one has a whiteout, a modified one is in a layer or is the parent of the
  addition or deletion reported next; and the parent directory of every addition or deletion is
  reported before it (unless it is the root or a whiteout itself).
\<close>

theorem Changes_justified:
  assumes "aufs_Changes h layers rw s = Inr cs" and "k < length cs"
  shows "change_ok h s layers cs k"
proof -
  have "preserves (collect_ok h s layers)
      (filepath_Walk h s rw (collectVisit h s layers rw aufsDeletedFile (Some aufsMetadataSkip)))"
    by (intro inv.keeps_filepath_Walk keeps_visit)
  then have "collect_ok h s layers (snd (filepath_Walk h s rw
      (collectVisit h s layers rw aufsDeletedFile (Some aufsMetadataSkip)) \<lparr>ccChanges = [], ccDirs = []\<rparr>))"
    by (simp add: preserves_cases collect_ok_def)
  then show ?thesis using assms
    by (auto simp: aufs_Changes_def collectChanges_def collect_ok_def split: prod.splits sum.splits if_splits)
qed

theorem Changes_justified_witness:
  "\<exists>cs. aufs_Changes posix_host [''/l''] ''/rw'' aufs_fs = Inr cs \<and> change_ok posix_host aufs_fs [''/l''] cs 2"
proof -
  obtain cs where cs: "aufs_Changes posix_host [''/l''] ''/rw'' aufs_fs = Inr cs"
    "map Change_String cs = [''D /old'', ''C /d'', ''A /d/n'', ''C /f'']"
    using aufs_run by (cases "aufs_Changes posix_host [''/l''] ''/rw'' aufs_fs") auto
  from arg_cong [OF cs(2), of length] have "2 < length cs" by simp
  with Changes_justified [OF cs(1)] cs(1) show ?thesis by blast
qed



text \<open>A whiteout that is not the opaque marker removes the name it carries.\<close>

lemma applyWhiteout_name:
  assumes "list_all is_name (q @ [n])" and "n \<noteq> ''.wh..opq''"
  shows "applyWhiteout h R unpacked (WhiteoutPrefix @ n) (join_slash (q @ [WhiteoutPrefix @ n])) = root_RemoveAll h R (join_slash (q @ [n]))"
proof -
  let ?w = "WhiteoutPrefix @ n"
  have n: "list_all is_name q" "is_name n" using assms by simp_all
  then have names: "list_all is_name (q @ [?w])" by (auto simp: is_name_def is_comp_def WhiteoutPrefix_def)
  have "?w \<noteq> WhiteoutOpaqueDir" using assms(2) by (simp add: whiteout_names)
  moreover have "Join [Dir (join_slash (q @ [?w])), n] = join_slash (q @ [n])"
  proof (cases "q = []")
    case True
    have "Clean [] = dot" by code_simp
    then show ?thesis using True split_local(2) [OF names] Join_dot [OF n(2)] by (simp add: Dir_def)
  next
    case False
    then show ?thesis using split_local(3) [OF names] Clean_dir [OF n(1)] Join_rel [OF n] by (simp add: Dir_def)
  qed
  ultimately show ?thesis by (simp add: applyWhiteout_def Let_def)
qed



definition replaced_fs :: fsys where
  "replaced_fs = fs_of
     [([], mk_node KDir 0x1ED), ([''l''], mk_node KDir 0x1ED), ([''rw''], mk_node KDir 0x1ED),
      ([''l'', ''a''], mk_node (KReg ''x'') 0x1A4),
      ([''rw'', ''a''], mk_node KDir 0x1ED), ([''rw'', ''a'', ''b''], mk_node (KReg ''new'') 0x1A4)]"


end
