(* ===== verification/Extract.thy ===== *)
theory Extract
  imports Tarball
begin

text \<open>
  The entry points of \<open>archive.go\<close> that extract and copy (\<open>Untar\<close>, \<open>Archiver\<close>, \<open>IsArchivePath\<close>,
  \<open>WithProcSelfFD\<close>) and those of \<open>copy.go\<close> (\<open>TarResource\<close>, \<open>CopyResource\<close>, \<open>CopyTo\<close>). Where the code
  runs the writer of an archive in a goroutine and reads the archive from a pipe, the model runs
  the writer first, on the file system as it is when the goroutine starts.
\<close>

section \<open>Functions of package os\<close>

definition os_Open :: "host \<Rightarrow> string \<Rightarrow> (fsys, goerror, loc) io" where
  "os_Open h = path_op h OpOpen ''open'' True p_open"

definition os_Mkdir :: "host \<Rightarrow> string \<Rightarrow> filemode \<Rightarrow> (fsys, goerror, unit) io" where
  "os_Mkdir h path perm = path_op h OpMkdir ''mkdir'' False (p_mkdir h perm) path"

text \<open>\<open>os.MkdirAll\<close>; the parent is taken without its final slash, which \<open>mkdir\<close> ignores.\<close>

definition parent_path :: "string \<Rightarrow> string" where
  "parent_path path = TrimRight (SplitDir (TrimRight path slash)) slash"

lemma length_TrimRight: "length (TrimRight s c) \<le> length s"
  using length_dropWhile_le [of _ "rev s"] by (simp add: TrimRight_def)

lemma length_parent_path: "TrimRight path slash \<noteq> [] \<Longrightarrow> length (parent_path path) < length path"
proof -
  let ?t = "TrimRight path slash"
  assume ne: "?t \<noteq> []"
  have "last ?t \<noteq> slash" using ne hd_dropWhile [of "\<lambda>x. x = slash" "rev path"]
    by (simp add: TrimRight_def last_rev)
  then obtain t x where t: "?t = t @ [x]" "x \<noteq> slash" using ne by (metis append_butlast_last_id)
  then have "length (SplitDir ?t) < length ?t"
    using length_dropWhile_le [of "\<lambda>c. c \<noteq> slash" "rev t"] by (simp add: SplitDir_def)
  then show ?thesis
    using length_TrimRight [of "SplitDir ?t" slash] length_TrimRight [of path slash]
    by (simp add: parent_path_def)
qed

function os_MkdirAll :: "host \<Rightarrow> string \<Rightarrow> filemode \<Rightarrow> (fsys, goerror, unit) io" where
  "os_MkdirAll h path perm =
     bindE (tryE (os_Stat h path)) (\<lambda>r.
       case r of
         Inr dir \<Rightarrow> if fi_is_dir dir then ret () else fail (PathError ''mkdir'' path (Errno ENOTDIR))
       | Inl _ \<Rightarrow>
           bindE (if parent_path path \<noteq> [] \<and> TrimRight path slash \<noteq> []
                  then os_MkdirAll h (parent_path path) perm else ret ()) (\<lambda>_.
           bindE (tryE (os_Mkdir h path perm)) (\<lambda>r.
             case r of
               Inr _ \<Rightarrow> ret ()
             | Inl err \<Rightarrow>
                 bindE (tryE (os_Lstat h path)) (\<lambda>r1.
                   case r1 of
                     Inr dir \<Rightarrow> if fi_is_dir dir then ret () else fail err
                   | Inl _ \<Rightarrow> fail err))))"
  by pat_completeness auto
termination
  by (relation "measure (\<lambda>(h, path, perm). length path)") (auto simp: length_parent_path)

declare os_MkdirAll.simps [simp del]

section \<open>Extracting\<close>

definition untarHandler ::
  "'m goEnv \<Rightarrow> body option \<Rightarrow> string \<Rightarrow> TarOptions option \<Rightarrow> bool \<Rightarrow> (fsys, goerror, unit) io" where
  "untarHandler g tarArchive dest0 options decompress =
     (case tarArchive of
        None \<Rightarrow> fail (ErrMsg ''empty archive'' [])
      | Some archive \<Rightarrow>
          (let dest = Clean dest0;
               opts = (case options of None \<Rightarrow> zeroTarOptions (eEmptyMap g) | Some opt \<Rightarrow> opt)
           in bindE (if decompress then readE (\<lambda>_. DecompressStream (eCodecs g) archive) else ret archive) (\<lambda>r.
              Unpack (eHost g) (eEmptyMap g) (eParse g r) dest (Some opts))))"

definition Untar :: "'m goEnv \<Rightarrow> body option \<Rightarrow> string \<Rightarrow> TarOptions option \<Rightarrow> (fsys, goerror, unit) io" where
  "Untar g tarArchive dest options = untarHandler g tarArchive dest options True"

definition UntarUncompressed ::
  "'m goEnv \<Rightarrow> body option \<Rightarrow> string \<Rightarrow> TarOptions option \<Rightarrow> (fsys, goerror, unit) io" where
  "UntarUncompressed g tarArchive dest options = untarHandler g tarArchive dest options False"

text \<open>The options with the handle of \<open>/proc/self/fd\<close>; closing it has no effect in the model.\<close>

definition withProcSelfFD ::
  "host \<Rightarrow> IdentityMapping \<Rightarrow> TarOptions option \<Rightarrow> (fsys, goerror, TarOptions) io" where
  "withProcSelfFD h emptyMap opts =
     bindE (os_Open h ''/proc/self/fd'') (\<lambda>procSelfFD.
     let prepared = (case opts of None \<Rightarrow> zeroTarOptions emptyMap | Some opt \<Rightarrow> opt)
     in ret (prepared\<lparr>oInternalOptions := Some \<lparr>aoProcSelfFD = Some procSelfFD\<rparr>\<rparr>))"

definition WithProcSelfFD ::
  "host \<Rightarrow> IdentityMapping \<Rightarrow> TarOptions option \<Rightarrow> (fsys, goerror, TarOptions) io" where
  "WithProcSelfFD h emptyMap opts = withProcSelfFD h emptyMap opts"

definition IsArchivePath :: "'m goEnv \<Rightarrow> string \<Rightarrow> fsys \<Rightarrow> bool" where
  "IsArchivePath g filePath s =
     (case fst (os_OpenBody (eHost g) filePath s) of
        Inl _ \<Rightarrow> False
      | Inr b \<Rightarrow>
          (case DecompressStream (eCodecs g) b of
             Inl _ \<Rightarrow> False
           | Inr rdr \<Rightarrow> tsEntries (eParse g rdr) \<noteq> []))"

section \<open>The archiver\<close>

record archiver =
  arUntar :: "body option \<Rightarrow> string \<Rightarrow> TarOptions option \<Rightarrow> (fsys, goerror, unit) io"
  arIDMapping :: IdentityMapping

definition NewDefaultArchiver :: "'m goEnv \<Rightarrow> archiver" where
  "NewDefaultArchiver g = \<lparr>arUntar = Untar g, arIDMapping = eEmptyMap g\<rparr>"

definition archiver_IdentityMapping :: "archiver \<Rightarrow> IdentityMapping" where
  "archiver_IdentityMapping ar = arIDMapping ar"

definition TarUntar :: "'m goEnv \<Rightarrow> archiver \<Rightarrow> string \<Rightarrow> string \<Rightarrow> (fsys, goerror, unit) io" where
  "TarUntar g ar src dst =
     bindE (readE (Tar g src CompNone)) (\<lambda>archive.
     arUntar ar (Some archive) dst (Some ((zeroTarOptions (eEmptyMap g))\<lparr>oIDMap := arIDMapping ar\<rparr>)))"

definition UntarPath :: "'m goEnv \<Rightarrow> archiver \<Rightarrow> string \<Rightarrow> string \<Rightarrow> (fsys, goerror, unit) io" where
  "UntarPath g ar src dst =
     bindE (os_OpenBody (eHost g) src) (\<lambda>archive.
     arUntar ar (Some archive) dst (Some ((zeroTarOptions (eEmptyMap g))\<lparr>oIDMap := arIDMapping ar\<rparr>)))"

text \<open>
  What the goroutine of \<open>CopyFileWithTar\<close> writes to the pipe, which it closes without an error,
  and the error it sends to the channel.
\<close>

definition copyFileHeader :: "tarHeader \<Rightarrow> string \<Rightarrow> tarHeader" where
  "copyFileHeader hdr dst =
     hdr\<lparr>hModTime := hModTime hdr div second * second, hAccessTime := zero_time, hChangeTime := zero_time,
         hName := Base dst, hMode := chmodTarEntry (hMode hdr)\<rparr>"

definition copyFileStream ::
  "'m goEnv \<Rightarrow> archiver \<Rightarrow> FileInfo \<Rightarrow> string \<Rightarrow> string \<Rightarrow> fsys \<Rightarrow> goerror option \<times> body" where
  "copyFileStream g ar srcSt src dst s =
     (let nothing = \<lparr>bData = [], bErr = None\<rparr>
      in case fst (os_OpenBody (eHost g) src s) of
           Inl err \<Rightarrow> (Some err, nothing)
         | Inr srcF \<Rightarrow>
             (case FileInfoHeaderNoLookups (eHost g) srcSt [] [] of
                Inl err \<Rightarrow> (Some err, nothing)
              | Inr hdr0 \<Rightarrow>
                  (case remapIDs (arIDMapping ar) (copyFileHeader hdr0 dst) of
                     (Some err, _) \<Rightarrow> (Some err, nothing)
                   | (None, hdr) \<Rightarrow>
                       (case write_entry (eEnc g) hdr srcF newTarWriter of
                          (err, tw) \<Rightarrow> (err, \<lparr>bData = eTarBytes g (snd (tar_Close tw)), bErr = None\<rparr>)))))"

definition CopyFileWithTar :: "'m goEnv \<Rightarrow> archiver \<Rightarrow> string \<Rightarrow> string \<Rightarrow> (fsys, goerror, unit) io" where
  "CopyFileWithTar g ar src dst0 =
     bindE (os_Stat (eHost g) src) (\<lambda>srcSt.
     if fi_is_dir srcSt then fail (ErrMsg ''can't copy a directory'' [])
     else if dst0 = [] then fail (GoPanic ''index out of range'')
     else
       (let dst = (if last dst0 = slash then Join [dst0, Base src] else dst0)
        in bindE (os_MkdirAll (eHost g) (Dir dst) 0x1C0) (\<lambda>_.
           bindE (readE (\<lambda>s. Inr (copyFileStream g ar srcSt src dst s))) (\<lambda>(er, r).
           bindE (arUntar ar (Some r) (Dir dst) None) (\<lambda>_.
           case er of Some err \<Rightarrow> fail err | None \<Rightarrow> ret ())))))"

text \<open>\<open>user.MkdirAllAndChown\<close> with \<open>WithOnlyNew\<close> is the parameter \<open>mkdirAll\<close>.\<close>

definition CopyWithTar ::
  "'m goEnv \<Rightarrow> (string \<Rightarrow> filemode \<Rightarrow> int \<Rightarrow> int \<Rightarrow> (fsys, goerror, unit) io) \<Rightarrow> archiver \<Rightarrow> string \<Rightarrow> string \<Rightarrow>
     (fsys, goerror, unit) io" where
  "CopyWithTar g mkdirAll ar src dst =
     bindE (os_Stat (eHost g) src) (\<lambda>srcSt.
     if \<not> fi_is_dir srcSt then CopyFileWithTar g ar src dst
     else
       (let (uid, gid) = imRootPair (arIDMapping ar)
        in bindE (mkdirAll dst 0x1ED uid gid) (\<lambda>_. TarUntar g ar src dst)))"

section \<open>Copying resources\<close>

definition TarResourceRebase :: "'m goEnv \<Rightarrow> string \<Rightarrow> string \<Rightarrow> fsys \<Rightarrow> goerror + body" where
  "TarResourceRebase g sourcePath0 newName s =
     (let sourcePath = normalizePath sourcePath0
      in case fst (os_Lstat (eHost g) sourcePath s) of
           Inl err \<Rightarrow> Inl err
         | Inr _ \<Rightarrow>
             (let (sourceDir, sourceBase) = SplitPathDirEntry sourcePath
              in TarWithOptions g sourceDir (TarResourceRebaseOpts (eEmptyMap g) sourceBase newName) s))"

definition TarResource :: "'m goEnv \<Rightarrow> CopyInfo \<Rightarrow> fsys \<Rightarrow> goerror + body" where
  "TarResource g sourceInfo s = TarResourceRebase g (ciPath sourceInfo) (ciRebaseName sourceInfo) s"

text \<open>\<open>RebaseArchiveEntries\<close> on the bytes of an archive.\<close>

definition rebaseBytes :: "'m goEnv \<Rightarrow> body \<Rightarrow> string \<Rightarrow> string \<Rightarrow> body" where
  "rebaseBytes g content oldBase newBase =
     (let p = RebaseArchiveEntries (eEnc g) (eParse g content) oldBase newBase
      in \<lparr>bData = eTarBytes g (poWriter p), bErr = poErr p\<rparr>)"

definition CopyTo :: "'m goEnv \<Rightarrow> body \<Rightarrow> CopyInfo \<Rightarrow> string \<Rightarrow> (fsys, goerror, unit) io" where
  "CopyTo g content srcInfo dstPath =
     bindE (readE (CopyInfoDestinationPath (eHost g) (normalizePath dstPath))) (\<lambda>dstInfo.
     bindE (readE (\<lambda>_. PrepareArchiveCopy (rebaseBytes g) content srcInfo dstInfo)) (\<lambda>(dstDir, copyArchive).
     Untar g (Some copyArchive) dstDir (Some (copyToOptions (eEmptyMap g)))))"

definition CopyResource :: "'m goEnv \<Rightarrow> string \<Rightarrow> string \<Rightarrow> bool \<Rightarrow> (fsys, goerror, unit) io" where
  "CopyResource g srcPath0 dstPath0 followLink =
     (let srcPath1 = normalizePath srcPath0; dstPath1 = normalizePath dstPath0;
          srcPath = PreserveTrailingDotOrSeparator (Clean srcPath1) srcPath1;
          dstPath = PreserveTrailingDotOrSeparator (Clean dstPath1) dstPath1
      in bindE (readE (CopyInfoSourcePath (eHost g) srcPath followLink)) (\<lambda>srcInfo.
         bindE (readE (TarResource g srcInfo)) (\<lambda>content.
         CopyTo g content srcInfo dstPath)))"

end
