(* ===== verification/Chroot.thy ===== *)
theory Chroot
  imports Extract
begin

text \<open>
  Extraction and archiving in a chroot: package \<open>chrootarchive\<close> (\<open>archive.go\<close>, \<open>archive_unix.go\<close>,
  \<open>archive_linux.go\<close>, \<open>chroot_linux.go\<close>, \<open>diff.go\<close>, \<open>diff_unix.go\<close>) and \<open>SwitchRoot\<close> of
  \<open>internal/mounttree\<close>. The mount calls (\<open>github.com/moby/sys/mount\<close>, \<open>mountinfo\<close>,
  \<open>golang.org/x/sys/unix\<close>) are parameters.
\<close>

section \<open>The process\<close>

text \<open>
  A thread: the file system, which all threads share, and its own root and working directory (the
  latter below the root). \<open>mcHost\<close> is the host as a thread with a given root and working directory
  sees it.
\<close>

record procState =
  psFs :: fsys
  psRoot :: loc
  psCwd :: loc

type_synonym mount_result = "goerror option \<times> procState"

record mountcalls =
  mcHost :: "loc \<Rightarrow> loc \<Rightarrow> host"
  mcUnshare :: "procState \<Rightarrow> errno option"
  mcMakeRSlave :: "string \<Rightarrow> procState \<Rightarrow> mount_result"
  mcMounted :: "string \<Rightarrow> procState \<Rightarrow> bool"
  mcMount :: "string \<Rightarrow> string \<Rightarrow> string \<Rightarrow> string \<Rightarrow> procState \<Rightarrow> mount_result"
  mcPivotRoot :: "string \<Rightarrow> string \<Rightarrow> procState \<Rightarrow> mount_result"
  mcMakePrivate :: "string \<Rightarrow> procState \<Rightarrow> mount_result"
  mcUnmount :: "string \<Rightarrow> procState \<Rightarrow> mount_result"
  mcChdir :: "string \<Rightarrow> procState \<Rightarrow> mount_result"
  mcChroot :: "string \<Rightarrow> procState \<Rightarrow> mount_result"

definition proc_host :: "mountcalls \<Rightarrow> procState \<Rightarrow> host" where
  "proc_host mc p = mcHost mc (psRoot p) (psCwd p)"

text \<open>A statement on the file system, by a thread.\<close>

definition onPs :: "mountcalls \<Rightarrow> (host \<Rightarrow> (fsys, 'e, 'a) io) \<Rightarrow> (procState, 'e, 'a) io" where
  "onPs mc m p = (case m (proc_host mc p) (psFs p) of (r, s) \<Rightarrow> (r, p\<lparr>psFs := s\<rparr>))"

text \<open>A call that returns an error or nil, with what the code wraps the error in.\<close>

definition callE :: "(goerror \<Rightarrow> goerror) \<Rightarrow> ('s \<Rightarrow> goerror option \<times> 's) \<Rightarrow> ('s, goerror, unit) io" where
  "callE w f s = (case f s of (None, s') \<Rightarrow> (Inr (), s') | (Some e, s') \<Rightarrow> (Inl (w e), s'))"

section \<open>SwitchRoot\<close>

definition realChroot :: "mountcalls \<Rightarrow> string \<Rightarrow> (procState, goerror, unit) io" where
  "realChroot mc path =
     bindE (callE (ErrWrap ''error after fallback to chroot'' []) (mcChroot mc path)) (\<lambda>_.
     callE (ErrWrap ''error changing to new root after chroot'' []) (mcChdir mc [slash]))"

text \<open>The local variables \<open>pivotDir\<close> and \<open>mounted\<close>, which the deferred clean-up reads.\<close>

record switchState =
  swProc :: procState
  swPivotDir :: string
  swMounted :: bool

definition onProc :: "(procState, 'e, 'a) io \<Rightarrow> (switchState, 'e, 'a) io" where
  "onProc m st = (case m (swProc st) of (r, p) \<Rightarrow> (r, st\<lparr>swProc := p\<rparr>))"

definition setSw :: "(switchState \<Rightarrow> switchState) \<Rightarrow> (switchState, 'e, unit) io" where
  "setSw f st = (Inr (), f st)"

definition os_Remove_ps :: "mountcalls \<Rightarrow> string \<Rightarrow> (procState, goerror, unit) io" where
  "os_Remove_ps mc path = onPs mc (\<lambda>h. os_Remove h path)"

text \<open>
  The deferred clean-up. The errors it stores go to a local variable: the result of the function
  is not named, so they are lost.
\<close>

definition switchCleanup :: "mountcalls \<Rightarrow> (switchState, goerror, unit) io" where
  "switchCleanup mc st =
     (if swMounted st
      then
        (case onProc (callE id (mcUnmount mc (swPivotDir st))) st of
           (Inl errCleanup, st') \<Rightarrow> (Inr (), st')
         | (Inr _, st') \<Rightarrow> (Inr (), snd (onProc (os_Remove_ps mc (swPivotDir st')) st')))
      else (Inr (), snd (onProc (os_Remove_ps mc (swPivotDir st)) st)))"

definition switchBody :: "mountcalls \<Rightarrow> string \<Rightarrow> (switchState, goerror, unit) io" where
  "switchBody mc path =
     (\<lambda>st0. bindE (tryE (onProc (callE id (mcPivotRoot mc path (swPivotDir st0))))) (\<lambda>r.
        case r of
          Inl _ \<Rightarrow>
            bindE (tryE (onProc (os_Remove_ps mc (swPivotDir st0)))) (\<lambda>r.
              case r of
                Inl err \<Rightarrow> fail (ErrWrap ''error cleaning up after failed pivot'' [] err)
              | Inr _ \<Rightarrow> onProc (realChroot mc path))
        | Inr _ \<Rightarrow>
            (let pivotDir = Join [[slash], Base (swPivotDir st0)]
             in bindE (setSw (\<lambda>st. st\<lparr>swMounted := True, swPivotDir := pivotDir\<rparr>)) (\<lambda>_.
                bindE (onProc (callE (ErrWrap ''error changing to new root'' []) (mcChdir mc [slash]))) (\<lambda>_.
                bindE (onProc (callE (ErrWrap ''error making old root private after pivot'' []) (mcMakePrivate mc pivotDir))) (\<lambda>_.
                bindE (onProc (callE (ErrWrap ''error while unmounting old root after pivot'' []) (mcUnmount mc pivotDir))) (\<lambda>_.
                setSw (\<lambda>st. st\<lparr>swMounted := False\<rparr>))))))) st0)"

definition SwitchRoot :: "mountcalls \<Rightarrow> string \<Rightarrow> (procState, goerror, unit) io" where
  "SwitchRoot mc path =
     bindE (readE (\<lambda>p. Inr (mcMounted mc path p))) (\<lambda>mounted.
     bindE (tryE (if mounted then ret () else callE id (mcMount mc path path ''bind'' ''rbind,rw''))) (\<lambda>r.
       case r of
         Inl _ \<Rightarrow> realChroot mc path
       | Inr _ \<Rightarrow>
           bindE (tryE (onPs mc (\<lambda>h. os_MkdirTemp h path ''.pivot_root''))) (\<lambda>r.
             case r of
               Inl err \<Rightarrow> fail (ErrWrap ''error setting up pivot dir'' [] err)
             | Inr pivotDir \<Rightarrow>
                 (\<lambda>p. case deferE (switchCleanup mc) (switchBody mc path)
                         \<lparr>swProc = p, swPivotDir = pivotDir, swMounted = False\<rparr> of
                    (r, st) \<Rightarrow> (r, swProc st)))))"

section \<open>Running in a chroot\<close>

text \<open>
  \<open>goInChroot\<close> and the wait for what \<open>fn\<close> sends: the goroutine's thread has its own root, working
  directory and umask, and shares the file system. \<open>unshare.Go\<close> is modelled in detail in theory
  \<open>Unshare\<close>.
\<close>

definition goInChroot ::
  "mountcalls \<Rightarrow> string \<Rightarrow> (host \<Rightarrow> (fsys, goerror, 'a) io) \<Rightarrow> (procState, goerror, 'a) io" where
  "goInChroot mc path fn p =
     (case mcUnshare mc p of
        Some e \<Rightarrow> (Inl (PathError ''unshare'' [] (Errno e)), p)
      | None \<Rightarrow>
          (case bindE (callE id (mcMakeRSlave mc [slash])) (\<lambda>_.
                bindE (SwitchRoot mc path) (\<lambda>_. onPs mc fn)) p of
             (r, p') \<Rightarrow> (r, p\<lparr>psFs := (psFs p')\<lparr>umask := umask (psFs p)\<rparr>\<rparr>)))"

definition doUnpack ::
  "mountcalls \<Rightarrow> 'm goEnv \<Rightarrow> body \<Rightarrow> string \<Rightarrow> string \<Rightarrow> TarOptions \<Rightarrow> (procState, goerror, unit) io" where
  "doUnpack mc g decompressedArchive relDest root opts =
     bindE (onPs mc (\<lambda>h. WithProcSelfFD h (eEmptyMap g) (Some opts))) (\<lambda>options.
     goInChroot mc root (\<lambda>h. Unpack h (eEmptyMap g) (eParse g decompressedArchive) relDest (Some options)))"

definition doPack ::
  "mountcalls \<Rightarrow> 'm goEnv \<Rightarrow> string \<Rightarrow> string \<Rightarrow> TarOptions \<Rightarrow> (procState, goerror, body) io" where
  "doPack mc g relSrc root options =
     bindE (readE (\<lambda>p. case NewTarballer (g\<lparr>eHost := proc_host mc p\<rparr>) relSrc options of
                          Inl err \<Rightarrow> Inl (ErrWrap ''error processing tar file'' [] err)
                        | Inr tb \<Rightarrow> Inr tb)) (\<lambda>tb.
     bindE (tryE (goInChroot mc root (\<lambda>h. readE (\<lambda>s. Inr (tarball_Do (g\<lparr>eHost := h\<rparr>) tb s))))) (\<lambda>r.
       case r of
         Inl err \<Rightarrow> fail (ErrWrap ''could not chroot'' [] err)
       | Inr (Inl err) \<Rightarrow> fail err
       | Inr (Inr tw) \<Rightarrow>
           ret \<lparr>bData = written (eCodecs g) (tbCompressWriter tb) (eTarBytes g tw), bErr = None\<rparr>))"

definition doUnpackLayer ::
  "mountcalls \<Rightarrow> 'm goEnv \<Rightarrow> string \<Rightarrow> body \<Rightarrow> TarOptions \<Rightarrow> (procState, goerror, 64 word) io" where
  "doUnpackLayer mc g root layer opts =
     bindE (onPs mc (\<lambda>h. WithProcSelfFD h (eEmptyMap g) (Some opts))) (\<lambda>options.
     goInChroot mc root (\<lambda>h.
       bindE (set_umask 0) (\<lambda>_. UnpackLayer h (eEmptyMap g) [slash] (eParse g layer) (Some options))))"

section \<open>The entry points\<close>

definition resolvePathInChroot :: "string \<Rightarrow> string \<Rightarrow> goerror + string" where
  "resolvePathInChroot root path =
     (if root = [] then Inl (ErrMsg ''root path must not be empty'' [])
      else
        (case Rel root path of
           None \<Rightarrow> Inl (ErrMsg ''Rel: can't make relative'' [path, root])
         | Some rel0 \<Rightarrow>
             (let rel = (if rel0 = dot then [slash] else rel0)
              in Inr (if hd rel \<noteq> slash then slash # rel else rel))))"

definition invokeUnpack ::
  "mountcalls \<Rightarrow> 'm goEnv \<Rightarrow> body \<Rightarrow> string \<Rightarrow> TarOptions \<Rightarrow> string \<Rightarrow> (procState, goerror, unit) io" where
  "invokeUnpack mc g decompressedArchive dest options root =
     bindE (readE (\<lambda>_. resolvePathInChroot root dest)) (\<lambda>relDest.
     doUnpack mc g decompressedArchive relDest root options)"

definition invokePack ::
  "mountcalls \<Rightarrow> 'm goEnv \<Rightarrow> string \<Rightarrow> TarOptions \<Rightarrow> string \<Rightarrow> (procState, goerror, body) io" where
  "invokePack mc g srcPath options root =
     bindE (readE (\<lambda>_. resolvePathInChroot root srcPath)) (\<lambda>relSrc0.
     let relSrc = (if HasSuffix srcPath [slash] \<and> \<not> HasSuffix relSrc0 [slash] then relSrc0 @ [slash] else relSrc0)
     in doPack mc g relSrc root options)"

definition chroot_untarHandler ::
  "mountcalls \<Rightarrow> 'm goEnv \<Rightarrow> (host \<Rightarrow> string \<Rightarrow> filemode \<Rightarrow> int \<Rightarrow> int \<Rightarrow> (fsys, goerror, unit) io) \<Rightarrow>
     body option \<Rightarrow> string \<Rightarrow> TarOptions option \<Rightarrow> bool \<Rightarrow> string \<Rightarrow> (procState, goerror, unit) io" where
  "chroot_untarHandler mc g mkdirAll tarArchive dest0 options decompress root =
     (case tarArchive of
        None \<Rightarrow> fail (ErrMsg ''empty archive'' [])
      | Some archive \<Rightarrow>
          (let opts = (case options of None \<Rightarrow> zeroTarOptions (eEmptyMap g) | Some opt \<Rightarrow> opt);
               dest = (if dest0 = root then Clean dest0 else dest0)
           in bindE (if dest0 = root
                  then
                    (let (uid, gid) = imRootPair (oIDMap opts)
                     in bindE (tryE (onPs mc (\<lambda>h. os_Stat h dest))) (\<lambda>r.
                        case r of
                          Inl err \<Rightarrow> if is_not_exist err then onPs mc (\<lambda>h. mkdirAll h dest 0x1ED uid gid) else ret ()
                        | Inr _ \<Rightarrow> ret ()))
                  else ret ()) (\<lambda>_.
              bindE (if decompress then readE (\<lambda>_. DecompressStream (eCodecs g) archive) else ret archive) (\<lambda>r.
              invokeUnpack mc g r dest opts root))))"

definition chroot_Untar ::
  "mountcalls \<Rightarrow> 'm goEnv \<Rightarrow> (host \<Rightarrow> string \<Rightarrow> filemode \<Rightarrow> int \<Rightarrow> int \<Rightarrow> (fsys, goerror, unit) io) \<Rightarrow>
     body option \<Rightarrow> string \<Rightarrow> TarOptions option \<Rightarrow> (procState, goerror, unit) io" where
  "chroot_Untar mc g mkdirAll tarArchive dest options =
     chroot_untarHandler mc g mkdirAll tarArchive dest options True dest"

definition UntarWithRoot ::
  "mountcalls \<Rightarrow> 'm goEnv \<Rightarrow> (host \<Rightarrow> string \<Rightarrow> filemode \<Rightarrow> int \<Rightarrow> int \<Rightarrow> (fsys, goerror, unit) io) \<Rightarrow>
     body option \<Rightarrow> string \<Rightarrow> TarOptions option \<Rightarrow> string \<Rightarrow> (procState, goerror, unit) io" where
  "UntarWithRoot mc g mkdirAll tarArchive dest options root =
     chroot_untarHandler mc g mkdirAll tarArchive dest options True root"

definition chroot_UntarUncompressed ::
  "mountcalls \<Rightarrow> 'm goEnv \<Rightarrow> (host \<Rightarrow> string \<Rightarrow> filemode \<Rightarrow> int \<Rightarrow> int \<Rightarrow> (fsys, goerror, unit) io) \<Rightarrow>
     body option \<Rightarrow> string \<Rightarrow> TarOptions option \<Rightarrow> (procState, goerror, unit) io" where
  "chroot_UntarUncompressed mc g mkdirAll tarArchive dest options =
     chroot_untarHandler mc g mkdirAll tarArchive dest options False dest"

definition chroot_Tar ::
  "mountcalls \<Rightarrow> 'm goEnv \<Rightarrow> string \<Rightarrow> TarOptions option \<Rightarrow> string \<Rightarrow> (procState, goerror, body) io" where
  "chroot_Tar mc g srcPath options root =
     (let opts = (case options of None \<Rightarrow> zeroTarOptions (eEmptyMap g) | Some opt \<Rightarrow> opt)
      in invokePack mc g srcPath opts root)"

definition chroot_applyLayerHandler ::
  "mountcalls \<Rightarrow> 'm goEnv \<Rightarrow> string \<Rightarrow> body \<Rightarrow> TarOptions option \<Rightarrow> bool \<Rightarrow> (procState, goerror, 64 word) io" where
  "chroot_applyLayerHandler mc g dest layer0 options decompress =
     bindE (if decompress then readE (\<lambda>_. DecompressStream (eCodecs g) layer0) else ret layer0) (\<lambda>layer.
     let opts0 = (case options of None \<Rightarrow> zeroTarOptions (eEmptyMap g) | Some opt \<Rightarrow> opt)
     in bindE (readE (\<lambda>p. Inr (if hUserNS (proc_host mc p) then opts0\<lparr>oInUserNS := True\<rparr> else opts0))) (\<lambda>opts.
        doUnpackLayer mc g (Clean dest) layer opts))"

definition chroot_ApplyLayer ::
  "mountcalls \<Rightarrow> 'm goEnv \<Rightarrow> string \<Rightarrow> body \<Rightarrow> (procState, goerror, 64 word) io" where
  "chroot_ApplyLayer mc g dest layer =
     chroot_applyLayerHandler mc g dest layer (Some (zeroTarOptions (eEmptyMap g))) True"

definition chroot_ApplyUncompressedLayer ::
  "mountcalls \<Rightarrow> 'm goEnv \<Rightarrow> string \<Rightarrow> body \<Rightarrow> TarOptions option \<Rightarrow> (procState, goerror, 64 word) io" where
  "chroot_ApplyUncompressedLayer mc g dest layer options =
     chroot_applyLayerHandler mc g dest layer options False"

text \<open>The archiver of the package extracts in a chroot.\<close>

record chrootArchiver =
  carUntar :: "body option \<Rightarrow> string \<Rightarrow> TarOptions option \<Rightarrow> (procState, goerror, unit) io"
  carIDMapping :: IdentityMapping

definition NewArchiver ::
  "mountcalls \<Rightarrow> 'm goEnv \<Rightarrow> (host \<Rightarrow> string \<Rightarrow> filemode \<Rightarrow> int \<Rightarrow> int \<Rightarrow> (fsys, goerror, unit) io) \<Rightarrow>
     IdentityMapping \<Rightarrow> chrootArchiver" where
  "NewArchiver mc g mkdirAll idMapping =
     \<lparr>carUntar = chroot_Untar mc g mkdirAll, carIDMapping = idMapping\<rparr>"

end
