(* ===== verification/ChrootFacts.thy ===== *)
theory ChrootFacts
  imports Chroot Containment Archives
begin

text \<open>
  What entering a chroot guarantees: \<open>SwitchRoot\<close> makes the directory it is given the root of the
  thread, and whatever a function run by \<open>goInChroot\<close> does below its root is confined to that
  directory. \<open>mount_calls\<close> is what the program relies on of \<open>github.com/moby/sys/mount\<close> and of
  the kernel's \<open>chroot\<close>, \<open>chdir\<close> and \<open>pivot_root\<close>.
\<close>

section \<open>Triples\<close>

text \<open>Where \<open>P\<close> holds before, a value is returned in \<open>Q\<close> and an error in \<open>E\<close>.\<close>

definition runs ::
  "('s \<Rightarrow> bool) \<Rightarrow> ('s, 'e, 'a) io \<Rightarrow> ('a \<Rightarrow> 's \<Rightarrow> bool) \<Rightarrow> ('s \<Rightarrow> bool) \<Rightarrow> bool" where
  "runs P m Q E \<longleftrightarrow> (\<forall>s. P s \<longrightarrow> (case m s of (Inr x, s') \<Rightarrow> Q x s' | (Inl e, s') \<Rightarrow> E s'))"

lemma runsI:
  "(\<And>s x s'. P s \<Longrightarrow> m s = (Inr x, s') \<Longrightarrow> Q x s') \<Longrightarrow> (\<And>s e s'. P s \<Longrightarrow> m s = (Inl e, s') \<Longrightarrow> E s') \<Longrightarrow> runs P m Q E"
  by (auto simp: runs_def split: prod.split sum.split)

lemma runs_Inr: "runs P m Q E \<Longrightarrow> P s \<Longrightarrow> m s = (Inr x, s') \<Longrightarrow> Q x s'"
  by (force simp: runs_def)

lemma runs_Inl: "runs P m Q E \<Longrightarrow> P s \<Longrightarrow> m s = (Inl e, s') \<Longrightarrow> E s'"
  by (force simp: runs_def)

lemma runs_weaken:
  assumes "runs P' m Q' E'" and "\<And>s. P s \<Longrightarrow> P' s" and "\<And>x s. Q' x s \<Longrightarrow> Q x s" and "\<And>s. E' s \<Longrightarrow> E s"
  shows "runs P m Q E"
  using assms(2-4) runs_Inr [OF assms(1)] runs_Inl [OF assms(1)] by (intro runsI) blast+

lemma runs_bind:
  assumes "runs P m Q E" and "\<And>x. runs (Q x) (f x) S E"
  shows "runs P (bindE m f) S E"
proof (rule runsI)
  fix s x s' assume "P s" "bindE m f s = (Inr x, s')"
  then show "S x s'" using runs_Inr [OF assms(1)] runs_Inr [OF assms(2)] by (blast elim: bindE_eq_InrE)
next
  fix s e s' assume "P s" "bindE m f s = (Inl e, s')"
  then show "E s'"
    using runs_Inl [OF assms(1)] runs_Inr [OF assms(1)] runs_Inl [OF assms(2)] by (blast elim: bindE_cases)
qed

lemma runs_try:
  "runs P m Q E \<Longrightarrow> runs P (tryE m) (\<lambda>r s. case r of Inr x \<Rightarrow> Q x s | Inl e \<Rightarrow> E s) F"
  by (auto simp: runs_def tryE_run split: prod.split sum.split)

lemma runs_ret: "(\<And>s. P s \<Longrightarrow> Q x s) \<Longrightarrow> runs P (ret x) Q E"
  by (simp add: runs_def)

lemma runs_fail: "(\<And>s. P s \<Longrightarrow> E s) \<Longrightarrow> runs P (fail e) Q E"
  by (simp add: runs_def)

lemma runs_read: "runs P (readE f) (\<lambda>x s. P s \<and> f s = Inr x) P"
  by (auto simp: runs_def split: sum.split)

lemma runs_if: "(b \<Longrightarrow> runs P m Q E) \<Longrightarrow> (\<not> b \<Longrightarrow> runs P n Q E) \<Longrightarrow> runs P (if b then m else n) Q E"
  by simp

lemma runs_self: "(\<And>st. P st \<Longrightarrow> runs (\<lambda>s. s = st) (m st) Q E) \<Longrightarrow> runs P (\<lambda>st. m st st) Q E"
  by (auto simp: runs_def)

lemma runs_forget:
  assumes "\<And>c. runs (\<lambda>s. P s \<and> f s = c) m (\<lambda>x s. Q x s \<and> f s = c) (\<lambda>s. E s \<and> f s = c)"
  shows "runs P m Q E"
  using runs_Inr [OF assms] runs_Inl [OF assms] by (intro runsI) blast+

lemma runs_given: "(B \<Longrightarrow> runs P m Q E) \<Longrightarrow> runs (\<lambda>s. P s \<and> B) m Q E"
  by (auto simp: runs_def)

text \<open>Trying a statement and going on with its error or its value.\<close>

lemma runs_cases:
  assumes "runs P m Q F" and "\<And>e. runs F (f e) S E" and "\<And>x. runs (Q x) (g x) S E"
  shows "runs P (bindE (tryE m) (\<lambda>r. case r of Inl e \<Rightarrow> f e | Inr x \<Rightarrow> g x)) S E"
proof (rule runs_bind [OF runs_try [OF assms(1)]])
  fix r
  show "runs (\<lambda>s. case r of Inr x \<Rightarrow> Q x s | Inl e \<Rightarrow> F s) (case r of Inl e \<Rightarrow> f e | Inr x \<Rightarrow> g x) S E"
    using assms(2,3) by (cases r) simp_all
qed

section \<open>The contract of the mount calls\<close>

text \<open>
  A call that fails leaves the thread as it was. Mounts, and their propagation, are private to the
  mount namespace of the thread and not part of the file system of the model: a bind mount of a
  directory on itself, a change of propagation and the unmounting of the old root leave names as
  they are.
\<close>

locale mount_calls =
  fixes mc :: mountcalls
  assumes host_root: "hRoot (mcHost mc r c) = r"
    and host_calls: "unix_calls (mcHost mc r c) fd"
    and host_honest: "honest (mcHost mc r c) s"
    and temp_name: "slash \<notin> set (hTempName (mcHost mc r c) s)"
    and rslave: "snd (mcMakeRSlave mc path p) = p"
    and mount: "snd (mcMount mc src path ty opts p) = p"
    and make_private: "snd (mcMakePrivate mc path p) = p"
    and unmount: "snd (mcUnmount mc path p) = p"
    and pivot_err: "mcPivotRoot mc new old p = (Some e, p') \<Longrightarrow> p' = p"
    and pivot: "mcPivotRoot mc new old p = (None, p') \<Longrightarrow>
      \<exists>q c. kresolve (proc_host mc p) True new (psFs p) = Inr q \<and> p' = p\<lparr>psRoot := q, psCwd := c\<rparr>"
    and chroot_err: "mcChroot mc path p = (Some e, p') \<Longrightarrow> p' = p"
    and chroot: "mcChroot mc path p = (None, p') \<Longrightarrow>
      \<exists>q c. kresolve (proc_host mc p) True path (psFs p) = Inr q \<and> p' = p\<lparr>psRoot := q, psCwd := c\<rparr>"
    and chdir_err: "mcChdir mc path p = (Some e, p') \<Longrightarrow> p' = p"
    and chdir: "mcChdir mc path p = (None, p') \<Longrightarrow>
      \<exists>q. kresolve (proc_host mc p) True path (psFs p) = Inr (psRoot p @ q) \<and> p' = p\<lparr>psCwd := q\<rparr>"

section \<open>Where a thread is\<close>

text \<open>
  \<open>in_root r rt rs s0 p\<close>: the root of the thread is \<open>r\<close>, and since \<open>s0\<close> only the directory \<open>rs\<close>
  below \<open>rt\<close> was written to. \<open>base_of\<close> is that directory.
\<close>

definition base_of :: "loc \<Rightarrow> string list \<Rightarrow> goRoot" where
  "base_of rt rs = \<lparr>rName = abs_path rs, rDir = rt @ rs\<rparr>"

definition in_root :: "loc \<Rightarrow> loc \<Rightarrow> string list \<Rightarrow> fsys \<Rightarrow> procState \<Rightarrow> bool" where
  "in_root r rt rs s0 p \<longleftrightarrow>
     psRoot p = r \<and> list_all is_name rs \<and> inos_ok (psFs p) \<and> dir_at (psFs p) (rt @ rs) \<and>
     dirs_to (psFs p) rt rs \<and> within (rt @ rs) s0 (psFs p)"

definition in_some_root :: "loc \<Rightarrow> string list \<Rightarrow> fsys \<Rightarrow> procState \<Rightarrow> bool" where
  "in_some_root rt rs s0 p \<longleftrightarrow> in_root rt rt rs s0 p \<or> in_root (rt @ rs) rt rs s0 p"

lemma base_of_simps [simp]: "rName (base_of rt rs) = abs_path rs" "rDir (base_of rt rs) = rt @ rs"
  by (simp_all add: base_of_def)

lemma in_root_ok: "in_root r rt rs s0 p \<Longrightarrow> hRoot h = rt \<Longrightarrow> root_ok h (base_of rt rs) (psFs p)"
  by (simp add: in_root_def root_ok_def canon_root_def comps_abs) (simp add: abs_path_def)

lemma in_root_step:
  assumes "in_root r rt rs s0 p" and "hRoot h = rt" and "confined h (base_of rt rs) (psFs p) s'"
  shows "in_root r rt rs s0 (p\<lparr>psFs := s'\<rparr>)"
proof -
  from in_root_ok [OF assms(1,2)] assms(3) have "root_ok h (base_of rt rs) s'" "within (rt @ rs) (psFs p) s'"
    by (auto simp: confined_def)
  moreover from this(1) have "dirs_to s' rt rs" "inos_ok s'" "dir_at s' (rt @ rs)"
    using assms(1,2) by (auto simp: root_ok_def canon_root_def comps_abs in_root_def)
  ultimately show ?thesis using assms(1) within_trans by (auto simp: in_root_def)
qed

lemma in_root_cwd [simp]: "in_root r rt rs s0 (p\<lparr>psCwd := c\<rparr>) = in_root r rt rs s0 p"
  by (simp add: in_root_def)

lemma in_root_move: "in_root r rt rs s0 p \<Longrightarrow> in_root r' rt rs s0 (p\<lparr>psRoot := r'\<rparr>)"
  by (simp add: in_root_def)

text \<open>What a path with a name at its end leads to, not following it, has that name.\<close>

lemma walk_last_name:
  "walk s sc base False l st cs = Inr q \<Longrightarrow> cs \<noteq> [] \<Longrightarrow> is_name (last cs) \<Longrightarrow> \<exists>q'. q = q' @ [last cs]"
proof (induction l st cs arbitrary: q rule: walk_induct)
  case (skip l st c cs)
  then show ?case by (cases "cs = []") (auto simp: walk_skip is_name_def is_comp_def)
next
  case (top l cs)
  then show ?case by (cases "cs = []") (auto simp: walk_top is_name_def split: scope.splits)
next
  case (pop l st cs)
  then show ?case by (cases "cs = []") (auto simp: walk_pop is_name_def)
next
  case (name l st c cs)
  show ?case
  proof (cases "cs = []")
    case True
    with name.prems(1) show ?thesis
      by (auto simp: walk_name [OF name.hyps] split: if_splits option.splits ikind.splits)
  next
    case False
    then have l: "last (c # cs) = last cs" "last (t @ cs) = last cs" "t @ cs \<noteq> []" for t by simp_all
    have n: "is_name (last cs)" using name.prems(3) False by simp
    note 1 = name.IH(1) [OF _ False n] and 2 = name.IH(2) [OF _ _ l(3), unfolded l(2), OF _ _ n]
    show ?thesis using name.prems(1) False 1 2 unfolding l(1)
      by (auto simp: walk_name [OF name.hyps] split: if_splits option.splits ikind.splits scope.splits)
  qed
qed simp

lemma kresolve_last:
  assumes "list_all is_name (ps @ [n])" and "kresolve h False (abs_path (ps @ [n])) s = Inr q"
  shows "\<exists>q'. q = hRoot h @ q' @ [n]"
proof -
  have "split_slash (abs_path (ps @ [n])) = [] # ps @ [n]"
    using split_join_comps [OF names_are_comps [OF assms(1)]] by (simp add: abs_path_def render_def)
  then obtain q0 where "walk s InRoot (hRoot h) False (hLinks h) [] ([] # ps @ [n]) = Inr q0" "q = hRoot h @ q0"
    using assms(2) by (cases "walk s InRoot (hRoot h) False (hLinks h) [] ([] # ps @ [n])") (simp_all add: kresolve_def)
  with walk_last_name [OF this(1)] assms(1) show ?thesis by simp
qed

lemma path_op_confined:
  "(\<And>q. kresolve h' fol name s = Inr q \<Longrightarrow> confined h R s (snd (f q s))) \<Longrightarrow>
     confined h R s (snd (path_op h' op nm fol f name s))"
  by (auto simp: path_op_def cf.G_refl split: option.split sum.split prod.split)

lemma confined_p_remove: "strict_prefix (rDir R) q \<Longrightarrow> confined h R s (snd (p_remove h' q s))"
  by (simp add: p_remove_def cf.G_refl confined_remove_tree)

lemma below_base [simp]: "strict_prefix (rt @ rs) (rt @ rs @ q @ [n])"
  by (auto simp: strict_prefix_def)

section \<open>SwitchRoot\<close>

text \<open>The names of the temporary directory for the old root.\<close>

definition pivot_path :: "string list \<Rightarrow> string \<Rightarrow> loc \<Rightarrow> loc \<Rightarrow> string \<Rightarrow> bool" where
  "pivot_path rs n r rt d \<longleftrightarrow>
     is_name n \<and> (\<exists>ps. list_all is_name ps \<and> d = abs_path (ps @ [n]) \<and> (r = rt @ rs \<or> ps = rs))"

context mount_calls
begin

lemma proc_root [simp]: "hRoot (proc_host mc p) = psRoot p"
  by (simp add: proc_host_def host_root)

lemma runs_onPs:
  assumes "\<And>h p. in_root r rt rs s0 p \<Longrightarrow> psCwd p = c \<Longrightarrow> hRoot h = rt \<Longrightarrow>
      confined h (base_of rt rs) (psFs p) (snd (m (proc_host mc p) (psFs p)))"
  shows "runs (\<lambda>p. in_root r rt rs s0 p \<and> psCwd p = c) (onPs mc m)
    (\<lambda>_ p. in_root r rt rs s0 p \<and> psCwd p = c) (\<lambda>p. in_root r rt rs s0 p \<and> psCwd p = c)"
proof -
  have "in_root r rt rs s0 (p\<lparr>psFs := s'\<rparr>)"
    if "in_root r rt rs s0 p" "psCwd p = c" "m (proc_host mc p) (psFs p) = (x, s')" for p x s'
    using in_root_step [OF that(1) host_root, of c] assms [OF that(1,2) host_root] that(3) by (metis snd_conv)
  then show ?thesis by (auto simp: runs_def onPs_def split: prod.split sum.split)
qed

lemma temp_path:
  assumes "list_all is_name rs" and "slash \<notin> set t" and "n = ''.pivot_root'' @ t"
  shows "(if HasSuffix (abs_path rs) [slash] then abs_path rs else abs_path rs @ [slash]) @ n = abs_path (rs @ [n])"
    and "is_name n"
proof -
  show n: "is_name n" using assms(2,3) by (simp add: is_name_def is_comp_def)
  show "(if HasSuffix (abs_path rs) [slash] then abs_path rs else abs_path rs @ [slash]) @ n = abs_path (rs @ [n])"
  proof (cases rs rule: rev_cases)
    case (snoc xs x)
    then have "x \<noteq> []" "slash \<notin> set x" using assms(1) by (auto simp: is_name_def is_comp_def)
    then have "\<not> HasSuffix (abs_path rs) [slash]"
      by (cases x rule: rev_cases) (auto simp: snoc abs_path_snoc HasSuffix_def)
    moreover have "rs \<noteq> []" using snoc by simp
    ultimately show ?thesis by (simp add: abs_path_snoc)
  qed (simp add: abs_path_snoc [of "[]", simplified] HasSuffix_def)
qed

lemma os_MkdirTemp_run:
  assumes "name = (if HasSuffix d [slash] then d else d @ [slash]) @ pattern @ hTempName h s"
  shows "os_MkdirTemp h d pattern s =
    (case path_op h OpMkdirTemp ''mkdirtemp'' False (p_mkdir h 0x1C0) name s of
       (Inl e, s') \<Rightarrow> (Inl e, s') | (Inr _, s') \<Rightarrow> (Inr name, s'))"
  unfolding os_MkdirTemp_def assms Let_def ..

lemma runs_MkdirTemp:
  "runs (in_root rt rt rs s0) (onPs mc (\<lambda>h. os_MkdirTemp h (abs_path rs) ''.pivot_root''))
     (\<lambda>d p. in_root rt rt rs s0 p \<and> (\<exists>n. is_name n \<and> d = abs_path (rs @ [n]))) (in_root rt rt rs s0)"
proof -
  have "in_root rt rt rs s0 (p\<lparr>psFs := s'\<rparr>) \<and> (\<forall>d. x = Inr d \<longrightarrow> (\<exists>n. is_name n \<and> d = abs_path (rs @ [n])))"
    if p: "in_root rt rt rs s0 p" and m: "os_MkdirTemp (proc_host mc p) (abs_path rs) ''.pivot_root'' (psFs p) = (x, s')"
    for p x s'
  proof -
    let ?h = "proc_host mc p" and ?s = "psFs p"
    obtain n where n: "n = ''.pivot_root'' @ hTempName ?h ?s" by simp
    have rs: "list_all is_name rs" "hRoot ?h = rt" "dirs_to ?s rt rs" using p by (simp_all add: in_root_def)
    have t: "slash \<notin> set (hTempName ?h ?s)" using temp_name by (simp add: proc_host_def)
    note path = temp_path(1) [OF rs(1) t n] and name = temp_path(2) [OF rs(1) t n]
    have k: "kresolve ?h False (abs_path (rs @ [n])) ?s = Inr (rt @ rs @ [n])"
      using kresolve_abs [of ?s ?h rs n False] rs name by simp
    have "confined ?h (base_of rt rs) ?s (snd (path_op ?h OpMkdirTemp ''mkdirtemp'' False (p_mkdir ?h 0x1C0) (abs_path (rs @ [n])) ?s))"
      by (rule path_op_confined) (simp add: k confined_p_mkdir)
    moreover note run = os_MkdirTemp_run [of _ "abs_path rs" "''.pivot_root''" ?h ?s, OF refl, folded n, unfolded path]
    ultimately have "in_root rt rt rs s0 (p\<lparr>psFs := s'\<rparr>)"
      using in_root_step [OF p rs(2)] m by (auto split: prod.splits sum.splits)
    moreover have "d = abs_path (rs @ [n])" if "x = Inr d" for d
      using m run that by (auto split: prod.splits sum.splits)
    ultimately show ?thesis using name by blast
  qed
  then show ?thesis by (auto simp: runs_def onPs_def split: prod.split sum.split)
qed

text \<open>Removing the temporary directory, from either root, removes something below the new root.\<close>

lemma runs_Remove:
  assumes "pivot_path rs n r rt d" and "r = rt \<or> r = rt @ rs"
  shows "runs (\<lambda>p. in_root r rt rs s0 p \<and> psCwd p = c) (os_Remove_ps mc d)
    (\<lambda>_ p. in_root r rt rs s0 p \<and> psCwd p = c) (\<lambda>p. in_root r rt rs s0 p \<and> psCwd p = c)"
  unfolding os_Remove_ps_def os_Remove_def
proof (rule runs_onPs, rule path_op_confined)
  fix h p q
  assume p: "in_root r rt rs s0 p" and q: "kresolve (proc_host mc p) False d (psFs p) = Inr q"
  from assms(1) obtain ps where d: "d = abs_path (ps @ [n])" "list_all is_name (ps @ [n])" "r = rt @ rs \<or> ps = rs"
    by (auto simp: pivot_path_def)
  have root: "psRoot p = r" using p by (simp add: in_root_def)
  have "\<exists>q'. q = rt @ rs @ q' @ [n]"
  proof (cases "r = rt @ rs")
    case True
    then show ?thesis using kresolve_last [OF d(2) q [unfolded d(1)]] root by simp
  next
    case False
    then have "kresolve (proc_host mc p) False d (psFs p) = Inr (rt @ rs @ [n])"
      using kresolve_abs [of "psFs p" "proc_host mc p" rs n False] d p root assms(2) by (simp add: in_root_def)
    then show ?thesis using q by (metis append_Nil sum.inject(2))
  qed
  then show "confined h (base_of rt rs) (psFs p) (snd (p_remove (proc_host mc p) q (psFs p)))"
    by (auto intro!: confined_p_remove)
qed

lemma runs_chdir_root:
  "runs (in_root r rt rs s0) (callE w (mcChdir mc [slash])) (\<lambda>_ p. in_root r rt rs s0 p \<and> psCwd p = []) (in_root r rt rs s0)"
  by (auto simp: runs_def callE_def kresolve_root [simplified] dest: chdir chdir_err split: prod.split option.split)

lemma in_root_resolves: "in_root rt rt rs s0 p \<Longrightarrow> kresolve (proc_host mc p) True (abs_path rs) (psFs p) = Inr (rt @ rs)"
  using kresolve_dirs [of "psFs p" "proc_host mc p" rs True] by (simp add: in_root_def)

lemma runs_realChroot:
  "runs (in_root rt rt rs s0) (realChroot mc (abs_path rs))
     (\<lambda>_ p. in_root (rt @ rs) rt rs s0 p \<and> psCwd p = []) (in_some_root rt rs s0)"
  unfolding realChroot_def
proof (rule runs_bind)
  show "runs (in_root rt rt rs s0) (callE (ErrWrap ''error after fallback to chroot'' []) (mcChroot mc (abs_path rs)))
      (\<lambda>_. in_root (rt @ rs) rt rs s0) (in_some_root rt rs s0)"
    by (auto simp: runs_def callE_def in_some_root_def in_root_resolves in_root_move
        dest!: chroot chroot_err split: prod.split option.split)
  show "runs (in_root (rt @ rs) rt rs s0) (callE (ErrWrap ''error changing to new root after chroot'' []) (mcChdir mc [slash]))
      (\<lambda>_ p. in_root (rt @ rs) rt rs s0 p \<and> psCwd p = []) (in_some_root rt rs s0)"
    by (rule runs_weaken [OF runs_chdir_root]) (auto simp: in_some_root_def)
qed

text \<open>A statement of the thread leaves the local variables alone.\<close>

lemma runs_onProc:
  assumes "runs P m Q E"
  shows "runs (\<lambda>st. P (swProc st) \<and> F (swPivotDir st)) (onProc m)
    (\<lambda>x st. Q x (swProc st) \<and> F (swPivotDir st)) (\<lambda>st. E (swProc st) \<and> F (swPivotDir st))"
  using runs_Inr [OF assms] runs_Inl [OF assms] by (auto simp: runs_def onProc_def split: prod.split sum.split)

lemma runs_quiet:
  "(\<And>p. snd (f p) = p) \<Longrightarrow> runs P (callE w f) (\<lambda>_. P) P"
  by (auto simp: runs_def callE_def split: prod.split option.split) (metis snd_conv)+

lemma cleanup_run:
  assumes "in_root r rt rs s0 (swProc st)" and "psCwd (swProc st) = c"
    and "pivot_path rs n r rt (swPivotDir st)" and "r = rt \<or> r = rt @ rs"
  shows "in_root r rt rs s0 (swProc (snd (switchCleanup mc st))) \<and> psCwd (swProc (snd (switchCleanup mc st))) = c"
proof -
  have rm: "in_root r rt rs s0 (swProc (snd (onProc (os_Remove_ps mc (swPivotDir st)) st))) \<and>
      psCwd (swProc (snd (onProc (os_Remove_ps mc (swPivotDir st)) st))) = c"
    using runs_Remove [OF assms(3,4), of s0 c] assms(1,2)
    by (auto simp: runs_def onProc_def split: prod.split sum.splits)
  have "onProc (callE id (mcUnmount mc (swPivotDir st))) st =
      (fst (callE id (mcUnmount mc (swPivotDir st)) (swProc st)), st)"
    using unmount [of "swPivotDir st" "swProc st"]
    by (auto simp: onProc_def callE_def split: prod.split option.split)
  then show ?thesis using rm assms(1,2)
    by (simp add: switchCleanup_def split: sum.split)
qed

definition switched :: "loc \<Rightarrow> string list \<Rightarrow> fsys \<Rightarrow> string \<Rightarrow> switchState \<Rightarrow> bool" where
  "switched rt rs s0 n st \<longleftrightarrow>
     (\<exists>r. (r = rt \<or> r = rt @ rs) \<and> in_root r rt rs s0 (swProc st) \<and> pivot_path rs n r rt (swPivotDir st))"

lemma runs_switchBody:
  assumes "is_name n" and "list_all is_name rs"
  shows "runs (\<lambda>st. in_root rt rt rs s0 (swProc st) \<and> swPivotDir st = abs_path (rs @ [n]))
    (switchBody mc (abs_path rs))
    (\<lambda>_ st. in_root (rt @ rs) rt rs s0 (swProc st) \<and> psCwd (swProc st) = [] \<and>
       pivot_path rs n (rt @ rs) rt (swPivotDir st))
    (switched rt rs s0 n)"
    (is "runs ?P _ ?Q ?E")
proof -
  let ?old = "abs_path (rs @ [n])" and ?new = "abs_path [n]"
  let ?A = "\<lambda>r d st. in_root r rt rs s0 (swProc st) \<and> swPivotDir st = d"
  have paths: "pivot_path rs n rt rt ?old" "pivot_path rs n (rt @ rs) rt ?old" "pivot_path rs n (rt @ rs) rt ?new"
    using assms by (auto simp: pivot_path_def intro: exI [of _ rs] exI [of _ "[]"])
  have E: "?A r d st \<Longrightarrow> pivot_path rs n r rt d \<Longrightarrow> r = rt \<or> r = rt @ rs \<Longrightarrow> ?E st" for r d st
    by (auto simp: switched_def)
  have base: "Join [[slash], Base ?old] = ?new"
    using Dir_Base_abs(2) [of rs n] Join_abs [of "[]" n] assms by simp
  let ?B = "\<lambda>st. in_root (rt @ rs) rt rs s0 (swProc st) \<and> psCwd (swProc st) = [] \<and> swPivotDir st = ?new"
  have quiet: "runs ?B (onProc (callE w f)) (\<lambda>_. ?B) ?E" if "\<And>p. snd (f p) = p" for w f
    by (rule runs_weaken [OF runs_onProc [OF runs_quiet [OF that, where P = "\<lambda>p. in_root (rt @ rs) rt rs s0 p \<and> psCwd p = []"],
          where F = "\<lambda>d. d = ?new"]]) (auto intro: E paths(3))
  have chdir: "runs (?A (rt @ rs) ?new) (onProc (callE w (mcChdir mc [slash]))) (\<lambda>_. ?B) ?E" for w
    by (rule runs_weaken [OF runs_onProc [OF runs_chdir_root, where F = "\<lambda>d. d = ?new"]]) (auto intro: E paths(3))
  have pivot: "runs (?A rt ?old) (onProc (callE id (mcPivotRoot mc (abs_path rs) ?old))) (\<lambda>_. ?A (rt @ rs) ?old) (?A rt ?old)"
    by (auto simp: runs_def onProc_def callE_def in_root_resolves in_root_move
        dest!: pivot pivot_err split: prod.splits option.splits)
  have rm: "runs (?A rt ?old) (onProc (os_Remove_ps mc ?old)) (\<lambda>_. ?A rt ?old) (?A rt ?old)"
    by (rule runs_onProc [OF runs_forget [OF runs_Remove [OF paths(1)]], where F = "\<lambda>d. d = ?old"]) simp
  have real: "runs (?A rt ?old) (onProc (realChroot mc (abs_path rs))) ?Q ?E"
    by (rule runs_weaken [OF runs_onProc [OF runs_realChroot, where F = "\<lambda>d. d = ?old"]])
      (auto simp: in_some_root_def intro: E paths(1,2) simp: paths(2))
  have set: "runs (?A (rt @ rs) ?old) (setSw (\<lambda>st. st\<lparr>swMounted := True, swPivotDir := ?new\<rparr>)) (\<lambda>_. ?A (rt @ rs) ?new) ?E"
    "runs ?B (setSw (\<lambda>st. st\<lparr>swMounted := False\<rparr>)) ?Q ?E"
    by (auto simp: runs_def setSw_def paths(3))
  show ?thesis unfolding runs_def
  proof (intro allI impI)
    fix st0 assume "?P st0"
    then have old: "swPivotDir st0 = ?old" and st0: "?A rt ?old st0" by simp_all
    have rest: "runs (?A (rt @ rs) ?old)
       (bindE (setSw (\<lambda>st. st\<lparr>swMounted := True, swPivotDir := ?new\<rparr>)) (\<lambda>_.
        bindE (onProc (callE w1 (mcChdir mc [slash]))) (\<lambda>_.
        bindE (onProc (callE w2 (mcMakePrivate mc ?new))) (\<lambda>_.
        bindE (onProc (callE w3 (mcUnmount mc ?new))) (\<lambda>_.
        setSw (\<lambda>st. st\<lparr>swMounted := False\<rparr>)))))) ?Q ?E" for w1 w2 w3
      by (intro runs_bind [OF set(1)] runs_bind [OF chdir] runs_bind [OF quiet] set(2) make_private unmount)
    have fallback: "runs (?A rt ?old)
       (bindE (tryE (onProc (os_Remove_ps mc ?old))) (\<lambda>r.
          case r of Inl err \<Rightarrow> fail (w err) | Inr _ \<Rightarrow> onProc (realChroot mc (abs_path rs)))) ?Q ?E" for w
      by (rule runs_cases [OF rm runs_fail real]) (rule E [OF _ paths(1)], simp_all)
    note run = runs_cases [OF pivot fallback rest, unfolded runs_def, rule_format, OF st0]
    show "case switchBody mc (abs_path rs) st0 of (Inl e, s') \<Rightarrow> ?E s' | (Inr x, s') \<Rightarrow> ?Q x s'"
      unfolding switchBody_def old base Let_def by (rule run)
  qed
qed

lemma in_root_some: "in_root rt rt rs s0 p \<Longrightarrow> in_some_root rt rs s0 p"
  by (simp add: in_some_root_def)

lemma runs_pivot:
  assumes "is_name n" and "list_all is_name rs"
  shows "runs (in_root rt rt rs s0)
    (\<lambda>p. case deferE (switchCleanup mc) (switchBody mc (abs_path rs))
             \<lparr>swProc = p, swPivotDir = abs_path (rs @ [n]), swMounted = False\<rparr> of (r, st) \<Rightarrow> (r, swProc st))
    (\<lambda>_ p. in_root (rt @ rs) rt rs s0 p \<and> psCwd p = []) (in_some_root rt rs s0)"
  unfolding runs_def
proof (intro allI impI)
  fix p assume p: "in_root rt rt rs s0 p"
  let ?st0 = "\<lparr>swProc = p, swPivotDir = abs_path (rs @ [n]), swMounted = False\<rparr>"
  note body = runs_switchBody [OF assms, of rt s0]
  have st0: "in_root rt rt rs s0 (swProc ?st0) \<and> swPivotDir ?st0 = abs_path (rs @ [n])" using p by simp
  obtain r st where run: "switchBody mc (abs_path rs) ?st0 = (r, st)" by fastforce
  show "case case deferE (switchCleanup mc) (switchBody mc (abs_path rs)) ?st0 of (r, st) \<Rightarrow> (r, swProc st) of
      (Inl e, p') \<Rightarrow> in_some_root rt rs s0 p' | (Inr x, p') \<Rightarrow> in_root (rt @ rs) rt rs s0 p' \<and> psCwd p' = []"
  proof (cases r)
    case (Inl e)
    from runs_Inl [OF body st0, of e st] run Inl obtain r' where "r' = rt \<or> r' = rt @ rs"
      "in_root r' rt rs s0 (swProc st)" "pivot_path rs n r' rt (swPivotDir st)" by (auto simp: switched_def)
    with cleanup_run [of r' rt rs s0 st _ n] show ?thesis
      by (auto simp: deferE_def run Inl in_some_root_def)
  next
    case (Inr x)
    from runs_Inr [OF body st0, of x st] run Inr have "in_root (rt @ rs) rt rs s0 (swProc st)"
      "psCwd (swProc st) = []" "pivot_path rs n (rt @ rs) rt (swPivotDir st)" by simp_all
    with cleanup_run [of "rt @ rs" rt rs s0 st "[]" n] show ?thesis by (simp add: deferE_def run Inr)
  qed
qed

lemma runs_SwitchRoot:
  assumes "list_all is_name rs"
  shows "runs (in_root rt rt rs s0) (SwitchRoot mc (abs_path rs))
    (\<lambda>_ p. in_root (rt @ rs) rt rs s0 p \<and> psCwd p = []) (in_some_root rt rs s0)"
  unfolding SwitchRoot_def
proof (rule runs_bind)
  show "runs (in_root rt rt rs s0) (readE (\<lambda>p. Inr (mcMounted mc (abs_path rs) p))) (\<lambda>_. in_root rt rt rs s0) (in_some_root rt rs s0)"
    by (rule runs_weaken [OF runs_read [where P = "in_root rt rt rs s0"]]) (auto intro: in_root_some)
next
  fix mounted
  have "runs (in_root rt rt rs s0) (if mounted then ret () else callE id (mcMount mc (abs_path rs) (abs_path rs) ''bind'' ''rbind,rw''))
      (\<lambda>_. in_root rt rt rs s0) (in_root rt rt rs s0)"
    by (intro runs_if runs_ret runs_quiet mount)
  then show "runs (in_root rt rt rs s0)
      (bindE (tryE (if mounted then ret () else callE id (mcMount mc (abs_path rs) (abs_path rs) ''bind'' ''rbind,rw''))) (\<lambda>r.
         case r of
           Inl _ \<Rightarrow> realChroot mc (abs_path rs)
         | Inr _ \<Rightarrow>
             bindE (tryE (onPs mc (\<lambda>h. os_MkdirTemp h (abs_path rs) ''.pivot_root''))) (\<lambda>r.
               case r of
                 Inl err \<Rightarrow> fail (ErrWrap ''error setting up pivot dir'' [] err)
               | Inr pivotDir \<Rightarrow>
                   (\<lambda>p. case deferE (switchCleanup mc) (switchBody mc (abs_path rs))
                           \<lparr>swProc = p, swPivotDir = pivotDir, swMounted = False\<rparr> of
                      (r, st) \<Rightarrow> (r, swProc st)))))
      (\<lambda>_ p. in_root (rt @ rs) rt rs s0 p \<and> psCwd p = []) (in_some_root rt rs s0)"
  proof (rule runs_cases [OF _ runs_realChroot runs_cases [OF runs_MkdirTemp runs_fail]])
    show "in_some_root rt rs s0 p" if "in_root rt rt rs s0 p" for p by (rule in_root_some [OF that])
  next
    fix d
    show "runs (\<lambda>p. in_root rt rt rs s0 p \<and> (\<exists>n. is_name n \<and> d = abs_path (rs @ [n])))
        (\<lambda>p. case deferE (switchCleanup mc) (switchBody mc (abs_path rs)) \<lparr>swProc = p, swPivotDir = d, swMounted = False\<rparr> of
             (r, st) \<Rightarrow> (r, swProc st))
        (\<lambda>_ p. in_root (rt @ rs) rt rs s0 p \<and> psCwd p = []) (in_some_root rt rs s0)"
      by (rule runs_given) (use runs_pivot [OF _ assms] in blast)
  qed
qed

section \<open>Running in a chroot\<close>

lemma root_at_top: "in_root (rt @ rs) rt rs s0 p \<Longrightarrow> root_ok (mcHost mc (rt @ rs) c) (root_at (mcHost mc (rt @ rs) c) [slash]) (psFs p)"
  using comps_abs [of "[]"]
  by (simp add: root_ok_def in_root_def root_at_def canon_root_def host_root render_def)

lemma within_umask: "within r s (s'\<lparr>umask := m\<rparr>) = within r s s'"
  by (simp add: within_def ino_at_def named_in_def)

lemma goInChroot_within:
  assumes p: "in_root rt rt rs s0 p" and run: "goInChroot mc (abs_path rs) fn p = (r, p')"
    and fn: "\<And>s. root_ok (mcHost mc (rt @ rs) []) (root_at (mcHost mc (rt @ rs) []) [slash]) s \<Longrightarrow>
      within (rt @ rs) s (snd (fn (mcHost mc (rt @ rs) []) s))"
  shows "within (rt @ rs) s0 (psFs p') \<and> psRoot p' = psRoot p \<and> psCwd p' = psCwd p"
proof -
  have rs: "list_all is_name rs" using p by (simp add: in_root_def)
  have slave: "runs (in_root rt rt rs s0) (callE id (mcMakeRSlave mc [slash])) (\<lambda>_. in_root rt rt rs s0) (in_some_root rt rs s0)"
    by (rule runs_weaken [OF runs_quiet [OF rslave, where P = "in_root rt rt rs s0"]]) (auto intro: in_root_some)
  have inner: "runs (\<lambda>p. in_root (rt @ rs) rt rs s0 p \<and> psCwd p = []) (onPs mc fn)
      (\<lambda>_ p. within (rt @ rs) s0 (psFs p)) (\<lambda>p. within (rt @ rs) s0 (psFs p))"
    unfolding runs_def
  proof (intro allI impI)
    fix q assume q: "in_root (rt @ rs) rt rs s0 q \<and> psCwd q = []"
    then have h: "proc_host mc q = mcHost mc (rt @ rs) []" by (simp add: proc_host_def in_root_def)
    have "within (rt @ rs) s0 (snd (fn (mcHost mc (rt @ rs) []) (psFs q)))"
      using fn [OF root_at_top] q within_trans by (auto simp: in_root_def)
    then show "case onPs mc fn q of (Inl e, s') \<Rightarrow> within (rt @ rs) s0 (psFs s') | (Inr x, s') \<Rightarrow> within (rt @ rs) s0 (psFs s')"
      by (auto simp: onPs_def h split: prod.split sum.split)
  qed
  have some: "in_some_root rt rs s0 q \<Longrightarrow> within (rt @ rs) s0 (psFs q)" for q
    by (auto simp: in_some_root_def in_root_def)
  have "runs (in_root rt rt rs s0)
      (bindE (callE id (mcMakeRSlave mc [slash])) (\<lambda>_. bindE (SwitchRoot mc (abs_path rs)) (\<lambda>_. onPs mc fn)))
      (\<lambda>_ p. within (rt @ rs) s0 (psFs p)) (\<lambda>p. within (rt @ rs) s0 (psFs p))"
    by (rule runs_bind [OF runs_weaken [OF slave] runs_bind [OF runs_weaken [OF runs_SwitchRoot [OF rs]] inner]])
      (auto intro: some)
  with p run have "within (rt @ rs) s0 (psFs p')"
    by (auto simp: goInChroot_def runs_def within_umask in_root_def split: option.splits prod.splits sum.splits)
  moreover have "psRoot p' = psRoot p \<and> psCwd p' = psCwd p"
    using run by (auto simp: goInChroot_def split: option.splits prod.splits)
  ultimately show ?thesis by simp
qed

end


section \<open>The handlers\<close>

lemma onPs_readonly: "(\<And>h s. snd (m h s) = s) \<Longrightarrow> onPs mc m p = (fst (m (proc_host mc p) (psFs p)), p)"
  by (simp add: onPs_def split: prod.split) (metis procState.surjective procState.update_convs(1) snd_conv)

lemma withProcSelfFD_snd: "snd (WithProcSelfFD h em opts s) = s"
  by (auto simp: WithProcSelfFD_def withProcSelfFD_def os_Open_def bindE_def path_op_snd Let_def
      split: prod.split sum.split) (metis p_readonly(3) path_op_snd snd_conv)+

lemma resolvePathInChroot_self:
  assumes "list_all is_name rs"
  shows "resolvePathInChroot (abs_path rs) (abs_path rs) = Inr [slash]"
  using Rel_below [OF assms, of "[]"] by (simp add: resolvePathInChroot_def abs_path_def [symmetric])

lemma root_ok_in_root:
  assumes "root_ok (proc_host mc p) (root_at (proc_host mc p) dest) (psFs p)" and "mount_calls mc"
  obtains rs where "dest = abs_path rs" and "comps dest = rs" and "in_root (psRoot p) (psRoot p) rs (psFs p) p"
proof -
  have r: "hRoot (proc_host mc p) = psRoot p" using assms(2) by (rule mount_calls.proc_root)
  from assms(1) have "list_all is_name (comps dest)" "dest = abs_path (comps dest)"
    "in_root (psRoot p) (psRoot p) (comps dest) (psFs p) p"
    by (auto simp: root_ok_def root_at_def canon_root_def Let_def abs_path_def in_root_def r within_refl)
  then show ?thesis using that by blast
qed

context mount_calls
begin

lemma os_Stat_root:
  assumes "in_root rt rt rs s0 p"
  shows "case fst (os_Stat (proc_host mc p) (abs_path rs) (psFs p)) of Inl e \<Rightarrow> \<not> is_not_exist e | Inr _ \<Rightarrow> True"
proof -
  have "hFault (proc_host mc p) OpStat (abs_path rs) (psFs p) \<noteq> Some ENOENT"
    using host_honest by (simp add: proc_host_def honest_def)
  moreover have "fst (p_stat (rt @ rs) (psFs p)) \<noteq> Inl x" for x
    using assms by (auto simp: in_root_def dir_at_node node_at_def p_stat_def split: option.splits)
  ultimately show ?thesis
    by (auto simp: os_Stat_def path_op_def in_root_resolves [OF assms] split: option.split prod.split sum.split)
      (metis fst_conv)
qed

lemma procfd_prepared:
  "WithProcSelfFD h em opts s = (Inr o', s') \<Longrightarrow> \<exists>fd. procfd_ok fd (oInternalOptions o')"
  by (auto simp: WithProcSelfFD_def withProcSelfFD_def Let_def bindE_def procfd_ok_def split: prod.splits sum.splits)

text \<open>What both handlers do with the prepared options: a function run in the chroot.\<close>

lemma prepared_within:
  assumes p: "in_root rt rt rs s0 p"
    and run: "bindE (onPs mc (\<lambda>h. WithProcSelfFD h em (Some opts))) (\<lambda>options. goInChroot mc (abs_path rs) (f options)) p = (r, p')"
    and f: "\<And>fd options s. procfd_ok fd (oInternalOptions options) \<Longrightarrow>
      root_ok (mcHost mc (rt @ rs) []) (root_at (mcHost mc (rt @ rs) []) [slash]) s \<Longrightarrow>
      within (rt @ rs) s (snd (f options (mcHost mc (rt @ rs) []) s))"
  shows "within (rt @ rs) s0 (psFs p') \<and> psRoot p' = psRoot p \<and> psCwd p' = psCwd p"
proof -
  have w: "onPs mc (\<lambda>h. WithProcSelfFD h em (Some opts)) p = (fst (WithProcSelfFD (proc_host mc p) em (Some opts) (psFs p)), p)"
    by (rule onPs_readonly) (rule withProcSelfFD_snd)
  show ?thesis
  proof (cases "WithProcSelfFD (proc_host mc p) em (Some opts) (psFs p)")
    case (Pair x s')
    show ?thesis
    proof (cases x)
      case (Inl e)
      then have "p' = p" using run Pair by (simp add: bindE_def w)
      then show ?thesis using p by (simp add: in_root_def)
    next
      case (Inr options)
      with Pair procfd_prepared obtain fd where fd: "procfd_ok fd (oInternalOptions options)" by blast
      have "goInChroot mc (abs_path rs) (f options) p = (r, p')" using run Pair Inr by (simp add: bindE_def w)
      then show ?thesis by (rule goInChroot_within [OF p]) (rule f [OF fd])
    qed
  qed
qed

lemma comps_top: "hRoot h @ comps [slash] = hRoot h"
  using comps_abs [of "[]"] by simp

lemma doUnpack_within:
  assumes "in_root rt rt rs s0 p" and "doUnpack mc g archive [slash] (abs_path rs) opts p = (r, p')"
  shows "within (rt @ rs) s0 (psFs p') \<and> psRoot p' = psRoot p \<and> psCwd p' = psCwd p"
proof (rule prepared_within [OF assms(1) assms(2) [unfolded doUnpack_def]])
  fix fd s and options :: TarOptions
  let ?h = "mcHost mc (rt @ rs) []"
  assume "procfd_ok fd (oInternalOptions options)" and ok: "root_ok ?h (root_at ?h [slash]) s"
  then have fd: "\<And>x. Some options = Some x \<Longrightarrow> procfd_ok fd (oInternalOptions x)" by simp
  show "within (rt @ rs) s (snd (Unpack ?h (eEmptyMap g) (eParse g archive) [slash] (Some options) s))"
    using unix_calls.Unpack_within [OF host_calls host_honest fd ok prod.collapse [symmetric], of "Some options" "eEmptyMap g" "eParse g archive"]
    by (simp add: comps_top host_root)
qed

lemma root_ok_umask: "root_ok h R (s\<lparr>umask := m\<rparr>) = root_ok h R s"
proof -
  have i: "ino_at (s\<lparr>umask := m\<rparr>) q = ino_at s q" for q by (simp add: ino_at_def)
  then have n: "dir_at (s\<lparr>umask := m\<rparr>) q = dir_at s q" for q by (simp add: dir_at_node node_at_def cong: option.case_cong)
  have "dirs_to (s\<lparr>umask := m\<rparr>) b q = dirs_to s b q" for b q by (induction q arbitrary: b) (simp_all add: n)
  then show ?thesis by (simp add: root_ok_def canon_root_def inos_ok_def i n)
qed

lemma doUnpackLayer_within:
  assumes "in_root rt rt rs s0 p" and "doUnpackLayer mc g (abs_path rs) layer opts p = (r, p')"
    and entries: "\<And>e. e \<in> set (tsEntries (eParse g layer)) \<Longrightarrow> \<not> stashed (fst e)"
  shows "within (rt @ rs) s0 (psFs p') \<and> psRoot p' = psRoot p \<and> psCwd p' = psCwd p"
proof (rule prepared_within [OF assms(1) assms(2) [unfolded doUnpackLayer_def]])
  fix fd s and options :: TarOptions
  let ?h = "mcHost mc (rt @ rs) []"
  assume "procfd_ok fd (oInternalOptions options)" and ok: "root_ok ?h (root_at ?h [slash]) s"
  then have fd: "\<And>x. Some options = Some x \<Longrightarrow> procfd_ok fd (oInternalOptions x)" by simp
  let ?s = "s\<lparr>umask := 0\<rparr>"
  have ok': "root_ok ?h (root_at ?h [slash]) ?s" using ok by (simp add: root_ok_umask)
  have "within (rt @ rs) ?s (snd (UnpackLayer ?h (eEmptyMap g) [slash] (eParse g layer) (Some options) ?s))"
    using unix_calls.UnpackLayer_within [OF host_calls host_honest fd ok' entries prod.collapse [symmetric], of "Some options" "eParse g layer" "eEmptyMap g"]
    by (simp add: comps_top host_root)
  moreover have "within r ?s t \<Longrightarrow> within r s t" for r t by (simp add: within_def ino_at_def named_in_def)
  ultimately show "within (rt @ rs) s
      (snd (bindE (set_umask 0) (\<lambda>_. UnpackLayer ?h (eEmptyMap g) [slash] (eParse g layer) (Some options)) s))"
    by (simp add: bindE_def set_umask_def)
qed

lemma chroot_untarHandler_within:
  assumes "in_root rt rt rs s0 p"
    and "chroot_untarHandler mc g mkdirAll archive (abs_path rs) options decompress (abs_path rs) p = (r, p')"
  shows "within (rt @ rs) s0 (psFs p') \<and> psRoot p' = psRoot p \<and> psCwd p' = psCwd p"
proof -
  have same: "p' = p \<Longrightarrow> ?thesis" using assms(1) by (simp add: in_root_def)
  have rs: "list_all is_name rs" using assms(1) by (simp add: in_root_def)
  have st: "onPs mc (\<lambda>h. os_Stat h (abs_path rs)) p = (fst (os_Stat (proc_host mc p) (abs_path rs) (psFs p)), p)"
    by (rule onPs_readonly) (simp add: os_Stat_def path_op_snd)
  let ?opts = "case options of None \<Rightarrow> zeroTarOptions (eEmptyMap g) | Some opt \<Rightarrow> opt"
  show ?thesis
  proof (cases archive)
    case None
    then show ?thesis using assms(2) same by (simp add: chroot_untarHandler_def)
  next
    case (Some a)
    obtain uid gid where ug: "imRootPair (oIDMap ?opts) = (uid, gid)" by fastforce
    let ?create = "bindE (tryE (onPs mc (\<lambda>h. os_Stat h (abs_path rs)))) (\<lambda>r.
        case r of
          Inl err \<Rightarrow> if is_not_exist err then onPs mc (\<lambda>h. mkdirAll h (abs_path rs) 0x1ED uid gid) else ret ()
        | Inr _ \<Rightarrow> ret ())"
    have "?create p = (Inr (), p)"
      using os_Stat_root [OF assms(1)] by (auto simp: bindE_tryE st split: sum.splits)
    note created = bindE_Inr [of ?create, OF this]
    have "bindE ?create (\<lambda>_. bindE (if decompress then readE (\<lambda>_. DecompressStream (eCodecs g) a) else ret a) (\<lambda>r.
        invokeUnpack mc g r (abs_path rs) ?opts (abs_path rs))) p = (r, p')"
      using assms(2) by (simp add: chroot_untarHandler_def Some Let_def ug Clean_abs [OF rs])
    then have run: "bindE (if decompress then readE (\<lambda>_. DecompressStream (eCodecs g) a) else ret a) (\<lambda>r.
        invokeUnpack mc g r (abs_path rs) ?opts (abs_path rs)) p = (r, p')"
      by (simp only: created)
    then consider "p' = p" | x where "invokeUnpack mc g x (abs_path rs) ?opts (abs_path rs) p = (r, p')"
      by (auto simp: bindE_readE split: if_splits sum.splits)
    then show ?thesis
    proof cases
      case (2 x)
      then have "doUnpack mc g x [slash] (abs_path rs) ?opts p = (r, p')"
        by (simp add: invokeUnpack_def bindE_readE resolvePathInChroot_self [OF rs])
      from doUnpack_within [OF assms(1) this] show ?thesis .
    qed (rule same)
  qed
qed

lemma chroot_applyLayerHandler_within:
  assumes "in_root rt rt rs s0 p"
    and "chroot_applyLayerHandler mc g (abs_path rs) layer options decompress p = (r, p')"
    and "\<And>b e. (if decompress then DecompressStream (eCodecs g) layer = Inr b else b = layer) \<Longrightarrow>
      e \<in> set (tsEntries (eParse g b)) \<Longrightarrow> \<not> stashed (fst e)"
  shows "within (rt @ rs) s0 (psFs p') \<and> psRoot p' = psRoot p \<and> psCwd p' = psCwd p"
proof -
  have rs: "list_all is_name rs" using assms(1) by (simp add: in_root_def)
  have cl: "Clean (abs_path rs) = abs_path rs" by (rule Clean_abs [OF rs])
  consider "p' = p" | b opts where "if decompress then DecompressStream (eCodecs g) layer = Inr b else b = layer"
      "doUnpackLayer mc g (abs_path rs) b opts p = (r, p')"
    using assms(2) by (cases decompress) (auto simp: chroot_applyLayerHandler_def Let_def cl bindE_readE split: sum.splits)
  then show ?thesis
  proof cases
    case 1
    then show ?thesis using assms(1) by (simp add: in_root_def)
  next
    case (2 b opts)
    show ?thesis by (rule doUnpackLayer_within [OF assms(1) 2(2) assms(3) [OF 2(1)]])
  qed
qed

end

section \<open>The contract on a concrete machine\<close>

definition host_in :: "loc \<Rightarrow> loc \<Rightarrow> host" where
  "host_in r c = with_unix (base_host\<lparr>hRoot := r, hCwd := c\<rparr>)"

text \<open>The directory a path names.\<close>

definition dir_named :: "string \<Rightarrow> procState \<Rightarrow> errno + loc" where
  "dir_named path p =
     (case kresolve (host_in (psRoot p) (psCwd p)) True path (psFs p) of
        Inl e \<Rightarrow> Inl ENOENT
      | Inr q \<Rightarrow> if dir_at (psFs p) q then Inr q else Inl ENOTDIR)"

definition change_dir :: "(loc \<Rightarrow> procState \<Rightarrow> procState) \<Rightarrow> string \<Rightarrow> procState \<Rightarrow> mount_result" where
  "change_dir f path p =
     (case dir_named path p of Inl e \<Rightarrow> (Some (Errno e), p) | Inr q \<Rightarrow> (None, f q p))"

definition posix_mounts :: mountcalls where
  "posix_mounts =
     \<lparr>mcHost = host_in, mcUnshare = (\<lambda>_. None), mcMakeRSlave = (\<lambda>_ p. (None, p)), mcMounted = (\<lambda>_ _. False),
      mcMount = (\<lambda>_ _ _ _ p. (None, p)),
      mcPivotRoot = (\<lambda>new old. change_dir (\<lambda>q p. p\<lparr>psRoot := q, psCwd := []\<rparr>) new),
      mcMakePrivate = (\<lambda>_ p. (None, p)), mcUnmount = (\<lambda>_ p. (None, p)),
      mcChdir = change_dir (\<lambda>q p. p\<lparr>psCwd := drop (length (psRoot p)) q\<rparr>),
      mcChroot = change_dir (\<lambda>q p. p\<lparr>psRoot := q\<rparr>)\<rparr>"

lemma host_in_simps [simp]: "hRoot (host_in r c) = r" "hFault (host_in r c) = hFault base_host" "hTempName (host_in r c) = hTempName base_host"
  by (simp_all add: host_in_def)

lemma change_dir_err: "change_dir f path p = (Some e, p') \<Longrightarrow> p' = p"
  by (simp add: change_dir_def split: sum.splits)

lemma change_dir_ok:
  assumes "change_dir f path p = (None, p')"
  shows "\<exists>q. kresolve (proc_host posix_mounts p) True path (psFs p) = Inr (psRoot p @ q) \<and> p' = f (psRoot p @ q) p"
proof -
  let ?h = "host_in (psRoot p) (psCwd p)"
  from assms obtain q where q: "kresolve ?h True path (psFs p) = Inr q" "p' = f q p"
    by (auto simp: change_dir_def dir_named_def split: sum.splits if_splits)
  from q(1) obtain q' where "q = psRoot p @ q'"
    by (cases "walk (psFs p) InRoot (hRoot ?h) True (hLinks ?h) (if IsAbs path then [] else hCwd ?h) (split_slash path)")
      (auto simp: kresolve_def split: if_splits)
  with q show ?thesis by (auto simp: proc_host_def posix_mounts_def)
qed

interpretation posix_mount: mount_calls posix_mounts
proof (rule mount_calls.intro)
  show "unix_calls (mcHost posix_mounts r c) fd" for r c fd
    by (simp add: posix_mounts_def host_in_def with_unix_calls)
  show "honest (mcHost posix_mounts r c) s" for r c s
    by (simp add: honest_def posix_mounts_def base_host_def)
  show "slash \<notin> set (hTempName (mcHost posix_mounts r c) s)" for r c s
    by (simp add: posix_mounts_def base_host_def)
  show "\<exists>q c. kresolve (proc_host posix_mounts p) True new (psFs p) = Inr q \<and> p' = p\<lparr>psRoot := q, psCwd := c\<rparr>"
    if "mcPivotRoot posix_mounts new old p = (None, p')" for new old p p'
    using that change_dir_ok [of _ new p p'] by (fastforce simp: posix_mounts_def)
  show "\<exists>q c. kresolve (proc_host posix_mounts p) True path (psFs p) = Inr q \<and> p' = p\<lparr>psRoot := q, psCwd := c\<rparr>"
    if "mcChroot posix_mounts path p = (None, p')" for path p p'
  proof -
    from that change_dir_ok [of "\<lambda>q p. p\<lparr>psRoot := q\<rparr>" path p p'] obtain q
      where "kresolve (proc_host posix_mounts p) True path (psFs p) = Inr q" "p' = p\<lparr>psRoot := q\<rparr>"
      by (auto simp: posix_mounts_def)
    then show ?thesis by (intro exI [of _ q] exI [of _ "psCwd p"]) simp
  qed
  show "\<exists>q. kresolve (proc_host posix_mounts p) True path (psFs p) = Inr (psRoot p @ q) \<and> p' = p\<lparr>psCwd := q\<rparr>"
    if "mcChdir posix_mounts path p = (None, p')" for path p p'
    using that change_dir_ok [of "\<lambda>q p. p\<lparr>psCwd := drop (length (psRoot p)) q\<rparr>" path p p']
    by (fastforce simp: posix_mounts_def)
qed (auto simp: posix_mounts_def dest: change_dir_err)


section \<open>The properties\<close>

text \<open>A machine with \<open>/proc/self/fd\<close>, on which archives are what \<open>arch\<close> says.\<close>

definition proc_fs :: fsys where
  "proc_fs = fs_of (demo_nodes @
     [([''proc''], mk_node KDir 0x16D), ([''proc'', ''self''], mk_node KDir 0x16D),
      ([''proc'', ''self'', ''fd''], mk_node KDir 0x140)])"

definition proc_thread :: procState where
  "proc_thread = \<lparr>psFs = proc_fs, psRoot = [], psCwd = []\<rparr>"

definition chroot_env :: "tarStream \<Rightarrow> bool goEnv" where
  "chroot_env arch = (sample_env base_host sample_codecs)\<lparr>eParse := (\<lambda>_. arch)\<rparr>"

lemma proc_root_ok: "root_ok (proc_host posix_mounts proc_thread) (root_at (proc_host posix_mounts proc_thread) ''/dest'') (psFs proc_thread)"
  unfolding root_ok_def
proof (intro conjI)
  show "inos_ok (psFs proc_thread)"
    by (simp add: inos_ok_def proc_thread_def proc_fs_def fs_of_def demo_nodes_def ino_at_def)
qed code_simp+

text \<open>
  C35: a successful \<open>SwitchRoot\<close> leaves the thread with the given directory as its root and as its
  working directory, by \<open>pivot_root\<close> or by its \<open>chroot\<close> fallback; and however it ends, only names
  below that directory were touched (the temporary directory for the old root).
\<close>

theorem SwitchRoot_enters:
  assumes "mount_calls mc"
    and "root_ok (proc_host mc p) (root_at (proc_host mc p) path) (psFs p)"
    and "SwitchRoot mc path p = (r, p')"
  shows "(r = Inr () \<longrightarrow> psRoot p' = psRoot p @ comps path \<and> psCwd p' = []) \<and>
    (\<forall>q. \<not> strict_prefix (psRoot p @ comps path) q \<longrightarrow> ino_at (psFs p') q = ino_at (psFs p) q)"
proof -
  from root_ok_in_root [OF assms(2,1)] obtain rs where rs: "path = abs_path rs" "comps path = rs"
    "in_root (psRoot p) (psRoot p) rs (psFs p) p" .
  then have names: "list_all is_name rs" by (simp add: in_root_def)
  note post = mount_calls.runs_SwitchRoot [OF assms(1) names, of "psRoot p" "psFs p"]
  show ?thesis
  proof (cases r)
    case (Inl e)
    from runs_Inl [OF post rs(3)] assms(3) Inl rs(1) have "in_some_root (psRoot p) rs (psFs p) p'" by simp
    then show ?thesis using Inl by (auto simp: rs(2) in_some_root_def in_root_def within_def)
  next
    case (Inr x)
    from runs_Inr [OF post rs(3)] assms(3) Inr rs(1)
    have "in_root (psRoot p @ rs) (psRoot p) rs (psFs p) p' \<and> psCwd p' = []" by simp
    then show ?thesis by (auto simp: rs(2) in_root_def within_def)
  qed
qed

theorem SwitchRoot_enters_witness:
  "\<exists>p'. SwitchRoot posix_mounts ''/dest'' proc_thread = (Inr (), p') \<and> psRoot p' = [''dest''] \<and> psCwd p' = []"
proof -
  have "fst (SwitchRoot posix_mounts ''/dest'' proc_thread) = Inr ()" by code_simp
  then obtain p' where run: "SwitchRoot posix_mounts ''/dest'' proc_thread = (Inr (), p')"
    by (cases "SwitchRoot posix_mounts ''/dest'' proc_thread") auto
  have "psRoot proc_thread @ comps ''/dest'' = [''dest'']" by code_simp
  with SwitchRoot_enters [OF posix_mount.mount_calls_axioms proc_root_ok run] run show ?thesis by simp
qed





end
