(* ===== verification/EntryFacts.thy ===== *)
theory EntryFacts
  imports Pack Containment
begin

text \<open>
  What one entry of an archive carries: the mode and type of a file survive the way into a header
  and out of it, and times are bounded before they reach the system.
\<close>

unbundle bit_operations_syntax

section \<open>Modes\<close>

text \<open>A mode without permission and special bits.\<close>

definition type_only :: "filemode \<Rightarrow> bool" where
  "type_only k \<longleftrightarrow> k AND ModePerm = 0 \<and> k AND ModeSetuid = 0 \<and> k AND ModeSetgid = 0 \<and> k AND ModeSticky = 0"

lemma type_only_kind: "type_only (kind_bits k)"
  by (cases k) (simp_all add: type_only_def mode_defs)

lemma type_only_header: "type_only (unix_type_bits m OR typeflag_bits t)"
  by (cases t) (simp_all add: type_only_def unix_type_bits_def mode_defs)

lemma special_bits_and:
  "special_bits m AND ModeSetuid = (if m AND S_ISUID \<noteq> 0 then ModeSetuid else 0)"
  "special_bits m AND ModeSetgid = (if m AND S_ISGID \<noteq> 0 then ModeSetgid else 0)"
  "special_bits m AND ModeSticky = (if m AND S_ISVTX \<noteq> 0 then ModeSticky else 0)"
  "special_bits m AND ModePerm = 0"
  by (simp_all add: special_bits_def mode_defs)

lemma mode_perm_and:
  "mode_perm m AND ModeSetuid = 0" "mode_perm m AND ModeSetgid = 0" "mode_perm m AND ModeSticky = 0"
  "mode_perm m AND ModePerm = mode_perm m"
  by (simp_all add: mode_perm_def mode_defs and.assoc)

lemma mode_ne: "ModeSetuid \<noteq> 0" "ModeSetgid \<noteq> 0" "ModeSticky \<noteq> 0"
  by (simp_all add: mode_defs)

lemma twelve_bits:
  fixes m :: filemode
  shows "mode_perm m OR (if m AND S_ISUID \<noteq> 0 then S_ISUID else 0) OR (if m AND S_ISGID \<noteq> 0 then S_ISGID else 0) OR
    (if m AND S_ISVTX \<noteq> 0 then S_ISVTX else 0) = m AND 0xFFF"
proof -
  have one: "(if m AND x \<noteq> 0 then x else 0) = m AND x" if x: "x = 2 ^ n" for x n
  proof (cases "bit m n")
    case True
    then have "m AND 2 ^ n = 2 ^ n" by (auto intro!: bit_word_eqI simp: bit_simps)
    then show ?thesis unfolding x by simp
  next
    case False
    then have "m AND 2 ^ n = 0" by (auto intro!: bit_word_eqI simp: bit_simps)
    then show ?thesis unfolding x by simp
  qed
  have "(if m AND S_ISUID \<noteq> 0 then S_ISUID else 0) = m AND S_ISUID"
    "(if m AND S_ISGID \<noteq> 0 then S_ISGID else 0) = m AND S_ISGID"
    "(if m AND S_ISVTX \<noteq> 0 then S_ISVTX else 0) = m AND S_ISVTX"
    by (rule one [of _ 11] one [of _ 10] one [of _ 9], simp add: S_ISUID_def S_ISGID_def S_ISVTX_def)+
  then show ?thesis
    by (simp add: mode_perm_def bit.conj_disj_distrib [symmetric] ModePerm_def S_ISUID_def S_ISGID_def S_ISVTX_def)
qed

lemma fileModeToPerm_bits:
  assumes "type_only k"
  shows "fileModeToPerm (k OR special_bits m OR mode_perm m) = m AND 0xFFF"
proof -
  let ?fm = "k OR special_bits m OR mode_perm m"
  have "mode_perm ?fm = mode_perm m"
    using assms by (simp add: mode_perm_def type_only_def bit.conj_disj_distrib2 special_bits_and(4) and.assoc)
  moreover have "?fm AND ModeSetuid \<noteq> 0 \<longleftrightarrow> m AND S_ISUID \<noteq> 0" "?fm AND ModeSetgid \<noteq> 0 \<longleftrightarrow> m AND S_ISGID \<noteq> 0"
    "?fm AND ModeSticky \<noteq> 0 \<longleftrightarrow> m AND S_ISVTX \<noteq> 0"
    using assms by (simp_all add: type_only_def bit.conj_disj_distrib2 special_bits_and mode_perm_and mode_ne)
  ultimately have "fileModeToPerm ?fm =
      mode_perm m OR (if m AND S_ISUID \<noteq> 0 then S_ISUID else 0) OR (if m AND S_ISGID \<noteq> 0 then S_ISGID else 0) OR
      (if m AND S_ISVTX \<noteq> 0 then S_ISVTX else 0)"
    unfolding fileModeToPerm_def Let_def by (simp only: if_distrib [of "\<lambda>x. _ OR x"] or.right_neutral split: if_split) (simp add: or.assoc)
  then show ?thesis by (simp only: twelve_bits)
qed

lemma perm_of_inode: "fileModeToPerm (inode_mode nd) = iperm nd AND 0xFFF"
  by (simp only: inode_mode_def fileModeToPerm_bits [OF type_only_kind])

lemma perm_of_header: "fileModeToPerm (hdr_info_mode hdr) = ucast (hMode hdr) AND 0xFFF"
proof -
  let ?m = "ucast (hMode hdr) :: filemode"
  have "hdr_info_mode hdr =
      (unix_type_bits (?m AND NOT 0xFFF) OR typeflag_bits (hTypeflag hdr)) OR special_bits ?m OR mode_perm ?m"
    by (simp add: hdr_info_mode_def Let_def ac_simps)
  then show ?thesis by (simp only: fileModeToPerm_bits [OF type_only_header])
qed

lemma no_type_bits: "unix_type_bits ((m AND 0xFFF) AND NOT 0xFFF) = 0"
  by (simp add: and.assoc unix_type_bits_def)

lemma low_mode: "special_bits (m AND 0xFFF) OR mode_perm (m AND 0xFFF) = special_bits m OR mode_perm m"
  by (simp add: special_bits_def mode_perm_def and.assoc S_ISUID_def S_ISGID_def S_ISVTX_def ModePerm_def)

text \<open>The header of a file of the model (there are no sockets in it).\<close>

fun kind_flag :: "ikind \<Rightarrow> typeflag" where
  "kind_flag KDir = TypeDir"
| "kind_flag (KReg _) = TypeReg"
| "kind_flag (KSym _) = TypeSymlink"
| "kind_flag (KBlk _) = TypeBlock"
| "kind_flag (KChr _) = TypeChar"
| "kind_flag KFifo = TypeFifo"

lemma inode_mode_and:
  "ModePerm AND x = 0 \<Longrightarrow> ModeSetuid AND x = 0 \<Longrightarrow> ModeSetgid AND x = 0 \<Longrightarrow> ModeSticky AND x = 0 \<Longrightarrow>
     inode_mode nd AND x = kind_bits (ikind nd) AND x"
  by (simp add: inode_mode_def bit.conj_disj_distrib2 and_perm_high special_bits_high)

lemma type_bits_and:
  "inode_mode nd AND ModeDir = kind_bits (ikind nd) AND ModeDir"
  "inode_mode nd AND ModeSymlink = kind_bits (ikind nd) AND ModeSymlink"
  "inode_mode nd AND ModeDevice = kind_bits (ikind nd) AND ModeDevice"
  "inode_mode nd AND ModeCharDevice = kind_bits (ikind nd) AND ModeCharDevice"
  "inode_mode nd AND ModeNamedPipe = kind_bits (ikind nd) AND ModeNamedPipe"
  "inode_mode nd AND ModeSocket = kind_bits (ikind nd) AND ModeSocket"
  by (rule inode_mode_and; simp add: mode_defs)+

lemma FileInfoHeader_kind:
  "\<exists>hdr. FileInfoHeader h name (fileinfo s i nd) link = Inr hdr \<and> hTypeflag hdr = kind_flag (ikind nd) \<and>
     hMode hdr = ucast (iperm nd AND 0xFFF)"
  by (cases "ikind nd")
    (simp_all add: FileInfoHeader_def FileInfoHeaderNoLookups_def tar_FileInfoHeader_def sysStat_def Let_def
      chmodTarEntry_def fileinfo_def type_bits_and perm_of_inode, simp_all add: mode_defs)

lemma typeflag_kind: "typeflag_bits (kind_flag k) = kind_bits k"
  by (cases k) simp_all

text \<open>
  C36: a header keeps the type and the mode of the file it is made from: it has the type flag of
  the file's kind, and reading its mode back gives the file's own \<open>os.FileMode\<close>, so that the
  mode extraction applies has the file's twelve permission bits, set-id and sticky bits included.
\<close>

theorem FileInfoHeader_mode:
  "\<exists>hdr. FileInfoHeader h name (fileinfo s i nd) link = Inr hdr \<and> hTypeflag hdr = kind_flag (ikind nd) \<and>
     hdr_info_mode hdr = fiMode (fileinfo s i nd) \<and> fileModeToPerm (hdr_info_mode hdr) = iperm nd AND 0xFFF"
proof -
  obtain hdr where hdr: "FileInfoHeader h name (fileinfo s i nd) link = Inr hdr"
    "hTypeflag hdr = kind_flag (ikind nd)" "hMode hdr = ucast (iperm nd AND 0xFFF)"
    using FileInfoHeader_kind by blast
  have m: "(ucast (hMode hdr) :: filemode) = iperm nd AND 0xFFF" by (simp add: hdr(3) ucast_up_ucast_id is_up)
  have "hdr_info_mode hdr = inode_mode nd"
    unfolding hdr_info_mode_def Let_def m hdr(2) typeflag_kind no_type_bits inode_mode_def
    using low_mode [of "iperm nd"] by (simp only: or.right_neutral or.left_neutral ac_simps)
  then show ?thesis using hdr(1,2) perm_of_inode by (auto simp: fileinfo_def)
qed

text \<open>
  C37: the times an entry is given never overflow: whatever the header says, what reaches
  \<open>utimensat\<close> is a time from 1970 on whose seconds fit 34 bits and whose nanoseconds are below a
  second, exactly the bounded time, and never the code for leaving the time alone; a time in
  range is passed on unchanged.
\<close>

theorem entry_times_bounded:
  "(case timeToTimespec (boundTime h t) of (sec, nsec) \<Rightarrow>
      0 \<le> sec \<and> sec < 2 ^ 34 \<and> 0 \<le> nsec \<and> nsec < second \<and> sec * second + nsec = boundTime h t) \<and>
   (minTime \<le> t \<and> t \<le> maxTime h \<or> boundTime h t = minTime) \<and>
   (t < minTime \<or> maxTime h < t \<or> boundTime h t = t)"
proof -
  have r: "0 \<le> boundTime h t" "boundTime h t < 2 ^ 63"
    using boundTime_range [of h t] maxTime_bounds [of h] by (simp_all add: minTime_def)
  then have "timeToTimespec (boundTime h t) = (boundTime h t div second, boundTime h t mod second)"
    by (simp add: timeToTimespec_def zero_time_def second_def nsec_to_timespec_def time_unix_nano_id)
  moreover have "boundTime h t div second < 2 ^ 34" using r(2) by (simp add: second_def)
  ultimately show ?thesis using r(1) by (auto simp: boundTime_def second_def)
qed

end
