(* ===== verification/EntryMake.thy ===== *)
theory EntryMake
  imports EntryFacts Unpack Samples
begin

text \<open>
  What extraction makes of one entry: on a machine that refuses nothing, \<open>createTarFile\<close> makes
  exactly one new name, and the node of a directory, a regular file or a symlink is the one its
  header describes. Each stage of the function is an update of that node.
\<close>

unbundle bit_operations_syntax

section \<open>The calls where they succeed\<close>

text \<open>\<open>fchmodat2\<close> on a name that is no symlink, and \<open>utimensat\<close> on one that is there.\<close>

locale unix_effects = unix_calls +
  assumes fchmodat_ok: "node_at s (p @ [b]) = Some nd \<Longrightarrow> \<forall>t. ikind nd \<noteq> KSym t \<Longrightarrow>
    uFchmodat (hUnix h) p b m s = (None, upd_at (p @ [b]) (\<lambda>nd. nd\<lparr>iperm := m AND 0xFFF\<rparr>) s)"
  and utimes_ok: "node_at s (p @ [b]) = Some nd \<Longrightarrow>
    uUtimesNanoAt (hUnix h) p b at mt s =
      (None, upd_at (p @ [b]) (\<lambda>nd. nd\<lparr>iatime := posix_time at (iatime nd), imtime := posix_time mt (imtime nd)\<rparr>) s)"

interpretation posix_effects: unix_effects posix_host procfd for procfd
proof (intro unix_effects.intro unix_effects_axioms.intro posix_calls)
  fix s p b nd m at mt
  assume nd: "node_at s (p @ [b]) = Some nd"
  show "uFchmodat (hUnix posix_host) p b m s = (None, upd_at (p @ [b]) (\<lambda>nd. nd\<lparr>iperm := m AND 0xFFF\<rparr>) s)"
    if "\<forall>t. ikind nd \<noteq> KSym t"
    using that nd by (cases "ikind nd") (simp_all add: posix_host_def posix_unix_def posix_fchmodat_def)
  show "uUtimesNanoAt (hUnix posix_host) p b at mt s =
      (None, upd_at (p @ [b]) (\<lambda>nd. nd\<lparr>iatime := posix_time at (iatime nd), imtime := posix_time mt (imtime nd)\<rparr>) s)"
    using nd by (simp add: posix_host_def posix_unix_def posix_utimes_def)
qed

section \<open>Making one entry\<close>

text \<open>
  While the file \<open>R/q/n\<close> is being made: its node is \<open>nd\<close>, and the directories that lead to it are
  there.
\<close>

definition placed :: "goRoot \<Rightarrow> string list \<Rightarrow> string \<Rightarrow> inode \<Rightarrow> fsys \<Rightarrow> bool" where
  "placed R q n nd s \<longleftrightarrow>
     node_at s (rDir R @ q @ [n]) = Some nd \<and> dir_at s (rDir R) \<and> dirs_to s (rDir R) q"

definition no_sym :: "inode \<Rightarrow> bool" where
  "no_sym nd \<longleftrightarrow> (\<forall>t. ikind nd \<noteq> KSym t)"

lemma upd_at_id [simp]: "upd_at p id s = s"
proof (cases "ino_at s p")
  case (Some i)
  have "(inodes s)(i := map_option id (inodes s i)) = inodes s" by (simp add: option.map_id)
  then show ?thesis using Some by (simp add: upd_at_def upd_inode_def)
qed (simp add: upd_at_def)

lemma upd_at_upd_at: "upd_at p f (upd_at p g s) = upd_at p (\<lambda>nd. f (g nd)) s"
  by (simp add: upd_at_def upd_inode_def ino_at_def option.map_comp comp_def split: option.split)

lemma dir_at_upd_inode:
  "(\<And>nd. inodes s i = Some nd \<Longrightarrow> ikind (f nd) = KDir \<longleftrightarrow> ikind nd = KDir) \<Longrightarrow> dir_at (upd_inode i f s) p = dir_at s p"
  by (auto simp: dir_at_node node_at_def inodes_upd_inode split: option.splits)

lemma node_at_upd_inode:
  "node_at (upd_inode i f s) p =
     (if ino_at s p = Some i then map_option f (inodes s i) else node_at s p)"
  by (simp add: node_at_def inodes_upd_inode split: option.split)

lemma dirs_to_cong: "(\<And>p. dir_at s' p = dir_at s p) \<Longrightarrow> dirs_to s' b q = dirs_to s b q"
  by (induction q arbitrary: b) simp_all

lemma placed_upd:
  assumes "placed R q n nd s" and "\<And>x. ikind (f x) = KDir \<longleftrightarrow> ikind x = KDir"
  shows "placed R q n (f nd) (upd_at (rDir R @ q @ [n]) f s)"
proof -
  obtain i where i: "ino_at s (rDir R @ q @ [n]) = Some i" "inodes s i = Some nd"
    using assms(1) by (auto simp: placed_def node_at_def split: option.splits)
  have d: "dir_at (upd_inode i f s) p = dir_at s p" for p
    by (rule dir_at_upd_inode) (use assms(2) in blast)
  then have "dirs_to (upd_inode i f s) b q = dirs_to s b q" for b by (rule dirs_to_cong)
  then show ?thesis using assms(1) i d by (auto simp: placed_def upd_at_def node_at_upd_inode)
qed

lemma placed_resolve:
  assumes "placed R q n nd s" and "list_all is_name (q @ [n])" and "\<not> f \<or> no_sym nd"
  shows "rresolve h R f (join_slash (q @ [n])) s = Inr (rDir R @ q @ [n])"
proof -
  have "walk s Beneath (rDir R) f (hRootLinks h) [] (q @ [n]) = walk s Beneath (rDir R) f (hRootLinks h) q [n]"
    using walk_dirs [of s "rDir R" "[]" q] assms by (simp add: placed_def)
  also have "\<dots> = Inr (q @ [n])"
    using assms is_name_simps [of n] by (auto simp: placed_def no_sym_def walk_name split: option.split ikind.split)
  finally show ?thesis using assms(2) by (simp add: rresolve_names)
qed

lemma fresh_resolve:
  assumes "node_at s (rDir R @ q @ [n]) = None" and "dirs_to s (rDir R) q" and "list_all is_name (q @ [n])"
  shows "rresolve h R f (join_slash (q @ [n])) s = Inr (rDir R @ q @ [n])"
proof -
  have "walk s Beneath (rDir R) f (hRootLinks h) [] (q @ [n]) = walk s Beneath (rDir R) f (hRootLinks h) q [n]"
    using walk_dirs [of s "rDir R" "[]" q] assms by simp
  also have "\<dots> = Inr (q @ [n])" using assms is_name_simps [of n] by (simp add: walk_name)
  finally show ?thesis using assms(3) by (simp add: rresolve_names)
qed

lemma fresh_resolve':
  assumes "ino_at s (rDir R @ q @ [n]) = None" and "dirs_to s (rDir R) q" and "list_all is_name (q @ [n])"
  shows "rresolve h R f (join_slash (q @ [n])) s = Inr (rDir R @ q @ [n])"
  using fresh_resolve [OF _ assms(2,3)] assms(1) by (simp add: node_at_def)

lemma dir_resolve:
  assumes "dirs_to s (rDir R) q" and "list_all is_name q"
  shows "rresolve h R True (if q = [] then dot else join_slash q) s = Inr (rDir R @ q)"
proof (cases "q = []")
  case True
  then show ?thesis by (simp add: rresolve_def walk_skip IsAbs_def)
next
  case False
  have "walk s Beneath (rDir R) True (hRootLinks h) [] (q @ []) = Inr q"
    using walk_dirs [of s "rDir R" "[]" q Beneath True "hRootLinks h" "[]"] assms by simp
  then show ?thesis using False assms(2) by (simp add: rresolve_names)
qed

lemma dir_parent:
  assumes "list_all is_name (q @ [n])"
  shows "Dir (join_slash (q @ [n])) = (if q = [] then dot else join_slash q)"
proof (cases "q = []")
  case True
  then have "SplitDir (join_slash [n]) = []" using split_local(2) [of "[]" n] assms by simp
  moreover have "Clean [] = dot" by code_simp
  ultimately show ?thesis using True by (simp add: Dir_def)
next
  case False
  then show ?thesis using split_local(3) [OF assms False] Clean_dir [of q] assms by (simp add: Dir_def)
qed

lemma placed_dir: "placed R q n nd s \<Longrightarrow> dir_at s (rDir R @ q)"
  by (cases q rule: rev_cases) (auto simp: placed_def dirs_to_snoc)

lemma open_parent:
  assumes "placed R q n nd s" and "list_all is_name (q @ [n])" and "no_faults h s"
  shows "root_Open h R (if q = [] then dot else join_slash q) s = (Inr (rDir R @ q), s)"
proof -
  have "dirs_to s (rDir R) q" "list_all is_name q" using assms by (simp_all add: placed_def)
  note r = dir_resolve [OF this]
  have "node_at s (rDir R @ q) \<noteq> None" using placed_dir [OF assms(1)] by (auto simp: dir_at_node)
  then show ?thesis using assms(3) by (simp add: root_Open_def root_op_def no_faults_def r p_open_def)
qed

text \<open>
  \<open>made_new p now nd s s'\<close>: \<open>s'\<close> has one more name than \<open>s\<close>, \<open>p\<close>, which stands for the new inode
  \<open>nd\<close>; nothing else has changed but the time of the directory.
\<close>

definition made_new :: "loc \<Rightarrow> inode \<Rightarrow> fsys \<Rightarrow> fsys \<Rightarrow> bool" where
  "made_new p nd s s' \<longleftrightarrow>
     nextino s' = Suc (nextino s) \<and> umask s' = umask s \<and>
     (\<forall>q. ino_at s' q = (if q = p then Some (nextino s) else ino_at s q)) \<and>
     inodes s' (nextino s) = Some nd \<and>
     (\<forall>i. i \<noteq> nextino s \<longrightarrow> ino_at s (butlast p) \<noteq> Some i \<longrightarrow> inodes s' i = inodes s i) \<and>
     (\<forall>i. i \<noteq> nextino s \<longrightarrow> (\<exists>t. inodes s' i = map_option (\<lambda>nd. nd\<lparr>imtime := t\<rparr>) (inodes s i)))"

lemma upd_at_some: "ino_at s p = Some i \<Longrightarrow> upd_at p f s = upd_inode i f s"
  by (simp add: upd_at_def)

lemma made_new_insert:
  assumes "inos_ok s" and "p \<noteq> []"
  shows "made_new p nd s (insert_node now p nd s)"
proof -
  let ?i = "nextino s"
  let ?s = "s\<lparr>dents := aput p ?i (dents s), inodes := (inodes s)(?i := Some nd), nextino := Suc ?i\<rparr>"
  have ino: "ino_at ?s q = (if q = p then Some ?i else ino_at s q)" for q by (simp add: ino_at_def)
  have old: "ino_at s q = Some j \<Longrightarrow> j \<noteq> ?i" for q j using assms(1) by (auto simp: inos_ok_def)
  have s': "insert_node now p nd s = touch_parent now p ?s" by (simp add: insert_node_def)
  have "butlast p \<noteq> p" using assms(2) by (metis append_butlast_last_id append_self_conv not_Cons_self2)
  then have par: "ino_at ?s (butlast p) = ino_at s (butlast p)" by (simp add: ino)
  have t: "\<exists>t. x = map_option (\<lambda>nd::inode. nd\<lparr>imtime := t\<rparr>) x" for x
    by (rule exI [of _ "imtime (the x)"]) (cases x, simp_all)
  show ?thesis
  proof (cases "ino_at s (butlast p)")
    case None
    then have "insert_node now p nd s = ?s" unfolding s' touch_parent_def upd_at_def by (simp add: par)
    then show ?thesis unfolding made_new_def by (simp add: ino t)
  next
    case (Some j)
    then have e: "insert_node now p nd s = upd_inode j (\<lambda>nd. nd\<lparr>imtime := now\<rparr>) ?s"
      unfolding s' touch_parent_def upd_at_def by (simp add: par)
    have "umask (upd_inode j f x) = umask x" for f x by (simp add: upd_inode_def)
    then show ?thesis unfolding made_new_def e using old [OF Some] t Some by (auto simp: ino inodes_upd_inode)
  qed
qed

lemma made_new_upd: "made_new p nd s s' \<Longrightarrow> made_new p (f nd) s (upd_at p f s')"
  by (auto simp: made_new_def upd_at_def inodes_upd_inode) (simp_all add: upd_inode_def)

lemma made_new_inos: "made_new p nd s s' \<Longrightarrow> inos_ok s \<Longrightarrow> inos_ok s'"
  unfolding made_new_def inos_ok_def by (metis less_Suc_eq option.inject)

lemma made_new_dir:
  assumes "made_new p nd s s'" and "inos_ok s" and "ino_at s p = None" and "q \<noteq> p"
  shows "dir_at s' q = dir_at s q"
proof (cases "ino_at s q")
  case None
  then show ?thesis using assms by (simp add: made_new_def dir_at_def node_at_def)
next
  case (Some i)
  then have "i \<noteq> nextino s" using assms(2) by (auto simp: inos_ok_def)
  then obtain t where "inodes s' i = map_option (\<lambda>nd. nd\<lparr>imtime := t\<rparr>) (inodes s i)"
    using assms(1) by (auto simp: made_new_def)
  then show ?thesis using assms(1,4) Some by (auto simp: made_new_def dir_at_def node_at_def split: option.split)
qed

lemma made_new_dirs:
  assumes "made_new p nd s s'" and "inos_ok s" and "ino_at s p = None"
  shows "dirs_to s b q \<Longrightarrow> dirs_to s' b q"
proof (induction q arbitrary: b)
  case (Cons c q)
  then have "ino_at s (b @ [c]) \<noteq> None" by (auto simp: dir_at_def node_at_def split: option.splits)
  then have "b @ [c] \<noteq> p" using assms(3) by auto
  then show ?case using Cons made_new_dir [OF assms] by simp
qed simp

lemma made_new_root_ok:
  assumes "made_new p nd s s'" and "root_ok h R s" and "ino_at s p = None"
  shows "root_ok h R s'"
proof -
  have i: "inos_ok s" using assms(2) by (simp add: root_ok_def)
  have "ino_at s (rDir R) \<noteq> None" using assms(2) by (auto simp: root_ok_def dir_at_def node_at_def split: option.splits)
  then have "rDir R \<noteq> p" using assms(3) by auto
  then show ?thesis
    using assms(2) made_new_inos [OF assms(1) i] made_new_dir [OF assms(1) i assms(3), of "rDir R"] made_new_dirs [OF assms(1) i assms(3)]
    by (auto simp: root_ok_def canon_root_def Let_def)
qed

lemma made_new_placed:
  assumes "made_new (rDir R @ q @ [n]) nd s s'" and "inos_ok s" and "dir_at s (rDir R)" and "dirs_to s (rDir R) q"
    and "ino_at s (rDir R @ q @ [n]) = None"
  shows "placed R q n nd s'"
proof -
  have "rDir R \<noteq> rDir R @ q @ [n]" by simp
  then show ?thesis
    using assms made_new_dir [OF assms(1,2,5)] made_new_dirs [OF assms(1,2,5,4)]
    by (simp add: placed_def node_at_def made_new_def)
qed


section \<open>The stages\<close>

text \<open>Each stage on a machine that refuses nothing, as an update of the node.\<close>

lemma placed_root_op:
  assumes "placed R q n nd s" and "list_all is_name (q @ [n])" and "no_faults h s" and "\<not> fol \<or> no_sym nd"
  shows "root_op h R op nm fol f (join_slash (q @ [n])) s =
    (case f (rDir R @ q @ [n]) s of
       (Inl e, s') \<Rightarrow> (Inl (PathError nm (join_slash (q @ [n])) (Errno e)), s')
     | (Inr x, s') \<Rightarrow> (Inr x, s'))"
  using assms(3) by (simp add: root_op_def no_faults_def placed_resolve [OF assms(1,2,4)])

definition owner_of :: "tarHeader \<Rightarrow> ChownOpts option \<Rightarrow> ChownOpts" where
  "owner_of hdr co = (case co of None \<Rightarrow> \<lparr>coUID = hUid hdr, coGID = hGid hdr\<rparr> | Some c \<Rightarrow> c)"

definition set_owner :: "ChownOpts \<Rightarrow> inode \<Rightarrow> inode" where
  "set_owner co nd = nd\<lparr>iuid := coUID co, igid := coGID co, iperm := kill_setid (ikind nd) (iperm nd)\<rparr>"

definition set_perm :: "tarHeader \<Rightarrow> inode \<Rightarrow> inode" where
  "set_perm hdr nd = nd\<lparr>iperm := ucast (hMode hdr) AND 0xFFF\<rparr>"

definition set_times :: "host \<Rightarrow> tarHeader \<Rightarrow> inode \<Rightarrow> inode" where
  "set_times h hdr nd =
     nd\<lparr>iatime := boundTime h (latestTime (hAccessTime hdr) (hModTime hdr)), imtime := boundTime h (hModTime hdr)\<rparr>"

lemma set_kind [simp]:
  "ikind (set_owner co nd) = ikind nd" "ikind (set_perm hdr nd) = ikind nd" "ikind (set_times h hdr nd) = ikind nd"
  by (simp_all add: set_owner_def set_perm_def set_times_def)

lemma run_owner:
  assumes "placed R q n nd s" and "list_all is_name (q @ [n])" and "no_faults h s"
  shows "applyOwner h R (join_slash (q @ [n])) hdr u co s = (Inr (), upd_at (rDir R @ q @ [n]) (set_owner (owner_of hdr co)) s)"
  using assms(1) unfolding applyOwner_def root_Lchown_def Let_def
  by (simp add: bindE_tryE placed_root_op [OF assms] p_lchown_def placed_def owner_of_def set_owner_def [abs_def])

lemma run_chtimes:
  assumes "placed R q n nd s" and "list_all is_name (q @ [n])" and "no_faults h s" and "no_sym nd"
  shows "chtimes h R (join_slash (q @ [n])) at mt s = (Inr (), upd_at (rDir R @ q @ [n]) (\<lambda>nd. nd\<lparr>iatime := at, imtime := mt\<rparr>) s)"
  using assms(1)
  by (simp add: chtimes_def root_Chtimes_def placed_root_op [OF assms(1-3) disjI2 [OF assms(4)]] p_chtimes_def placed_def)

lemma run_times:
  assumes "placed R q n nd s" and "list_all is_name (q @ [n])" and "no_faults h s" and "no_sym nd"
    and "hTypeflag hdr \<noteq> TypeSymlink" and "hTypeflag hdr \<noteq> TypeLink"
  shows "applyTimes h R (join_slash (q @ [n])) hdr t s = (Inr (), upd_at (rDir R @ q @ [n]) (set_times h hdr) s)"
  using assms(5,6) run_chtimes [OF assms(1-4)]
  by (auto simp: applyTimes_def Let_def set_times_def [abs_def] split: typeflag.split)

lemma latest_bounded: "posix_time (timeToTimespec (boundTime h t)) old = boundTime h t"
proof -
  obtain sec nsec where ts: "timeToTimespec (boundTime h t) = (sec, nsec)" by fastforce
  have "nsec < second" "sec * second + nsec = boundTime h t" using entry_times_bounded [of h t] ts by auto
  then show ?thesis by (simp add: posix_time_def ts second_def)
qed

context unix_effects
begin

lemma run_chmod:
  assumes "placed R q n nd s" and "list_all is_name (q @ [n])" and "no_faults h s" and "no_sym nd"
    and "hTypeflag hdr \<noteq> TypeSymlink" and "hTypeflag hdr \<noteq> TypeLink"
  shows "handleLChmod h R (join_slash (q @ [n])) t hdr (hdr_info_mode hdr) io s = (Inr (), upd_at (rDir R @ q @ [n]) (set_perm hdr) s)"
proof -
  have base: "Base (join_slash (q @ [n])) = n" by (rule Base_names [OF assms(2)])
  have "uFchmodat (hUnix h) (rDir R @ q) n (fileModeToPerm (hdr_info_mode hdr)) s = (None, upd_at ((rDir R @ q) @ [n]) (set_perm hdr) s)"
    using fchmodat_ok [of s "rDir R @ q" n nd] assms(1,4) by (simp add: placed_def no_sym_def perm_of_header and.assoc set_perm_def [abs_def])
  then have "chmodNoSymlink h R (join_slash (q @ [n])) (hdr_info_mode hdr) io s = (Inr (), upd_at (rDir R @ q @ [n]) (set_perm hdr) s)"
    by (simp add: chmodNoSymlink_def dir_parent [OF assms(2)] base bindE_def [of "root_Open h R _"] open_parent [OF assms(1-3)] Let_def bindE_tryE wrap_unix_def)
  then show ?thesis using assms(5,6) by (simp add: handleLChmod_def split: typeflag.split)
qed

lemma run_lchtimes:
  assumes "placed R q n nd s" and "list_all is_name (q @ [n])" and "no_faults h s"
    and "hTypeflag hdr = TypeSymlink"
  shows "applyTimes h R (join_slash (q @ [n])) hdr t s = (Inr (), upd_at (rDir R @ q @ [n]) (set_times h hdr) s)"
proof -
  let ?dst = "join_slash (q @ [n])"
  have n: "n \<noteq> []" using assms(2) by (simp add: is_name_simps)
  have base: "SplitFile ?dst = n" by (rule split_local(1) [OF assms(2)])
  have dir: "(let d = TrimSuffix (SplitDir ?dst) [slash] in if d = [] then dot else d) = (if q = [] then dot else join_slash q)"
  proof (cases "q = []")
    case True
    then show ?thesis using split_local(2) [OF assms(2)] by (simp add: TrimSuffix_def HasSuffix_def)
  next
    case False
    then have "join_slash q \<noteq> []" using assms(2) join_slash_eq_Nil [OF names_are_comps [of q]] by simp
    then show ?thesis using False split_local(3) [OF assms(2) False] by (simp add: TrimSuffix_def HasSuffix_def Let_def)
  qed
  have "uUtimesNanoAt (hUnix h) (rDir R @ q) n (timeToTimespec (boundTime h (latestTime (hAccessTime hdr) (hModTime hdr))))
      (timeToTimespec (boundTime h (hModTime hdr))) s = (None, upd_at (rDir R @ q @ [n]) (set_times h hdr) s)"
    using utimes_ok [of s "rDir R @ q" n nd] assms(1) by (simp add: placed_def latest_bounded set_times_def [abs_def])
  then show ?thesis using assms(4) n
    by (simp add: applyTimes_def Let_def lchtimes_def ToSlash_def base dir [unfolded Let_def] bindE_def [of "root_Open h R _"]
        open_parent [OF assms(1-3)] bindE_tryE wrap_unix_def)
qed

end


section \<open>One entry\<close>

definition written :: "time \<Rightarrow> string \<Rightarrow> inode \<Rightarrow> inode" where
  "written now data nd = (case ikind nd of KReg d \<Rightarrow> nd\<lparr>ikind := KReg (d @ data), imtime := now\<rparr> | _ \<Rightarrow> nd)"


text \<open>What an entry describes: a directory, a symlink, or a regular file with its data.\<close>

definition plain_entry :: "tarHeader \<Rightarrow> body \<Rightarrow> bool" where
  "plain_entry hdr b \<longleftrightarrow>
     hTypeflag hdr \<in> {TypeDir, TypeReg, TypeSymlink} \<and> hPAXRecords hdr = [] \<and> bErr b = None \<and>
     (hTypeflag hdr = TypeSymlink \<longrightarrow> hLinkname hdr \<noteq> [])"

definition entry_kind :: "tarHeader \<Rightarrow> body \<Rightarrow> ikind" where
  "entry_kind hdr b =
     (case hTypeflag hdr of TypeDir \<Rightarrow> KDir | TypeSymlink \<Rightarrow> KSym (hLinkname hdr) | _ \<Rightarrow> KReg (bData b))"

definition entry_owner :: "host \<Rightarrow> TarOptions \<Rightarrow> tarHeader \<Rightarrow> int \<times> int" where
  "entry_owner h opts hdr =
     (if oNoLchown opts then (hEuid h, hEgid h)
      else case oChownOpts opts of None \<Rightarrow> (hUid hdr, hGid hdr) | Some c \<Rightarrow> (coUID c, coGID c))"

text \<open>The node of an entry, but for its times; and with them.\<close>

definition made_like :: "host \<Rightarrow> TarOptions \<Rightarrow> tarHeader \<Rightarrow> body \<Rightarrow> inode \<Rightarrow> bool" where
  "made_like h opts hdr b nd \<longleftrightarrow>
     ikind nd = entry_kind hdr b \<and>
     iperm nd = (if hTypeflag hdr = TypeSymlink then 0x1FF else ucast (hMode hdr) AND 0xFFF) \<and>
     (iuid nd, igid nd) = entry_owner h opts hdr \<and> ixattrs nd = []"

definition timed_like :: "host \<Rightarrow> tarHeader \<Rightarrow> inode \<Rightarrow> bool" where
  "timed_like h hdr nd \<longleftrightarrow>
     imtime nd = boundTime h (hModTime hdr) \<and> iatime nd = boundTime h (latestTime (hAccessTime hdr) (hModTime hdr))"

lemma run_create:
  assumes nf: "\<And>s. no_faults h s" and ok: "inos_ok s" "dir_at s (rDir R)" "dirs_to s (rDir R) q"
    and free: "ino_at s (rDir R @ q @ [n]) = None" and names: "list_all is_name (q @ [n])"
    and e: "plain_entry hdr b"
  shows "\<exists>s' nd. createNode h R (join_slash (q @ [n])) hdr b u t s = (Inr True, s') \<and>
    made_new (rDir R @ q @ [n]) nd s s' \<and> ikind nd = entry_kind hdr b \<and>
    iuid nd = hEuid h \<and> igid nd = hEgid h \<and> ixattrs nd = [] \<and> (hTypeflag hdr = TypeSymlink \<longrightarrow> iperm nd = 0x1FF)"
proof -
  let ?loc = "rDir R @ q @ [n]" and ?dst = "join_slash (q @ [n])" and ?perm = "hdr_info_mode hdr AND 0x1FF"
  let ?in = "\<lambda>k m. insert_node (hNow h) ?loc (new_inode h k m) s"
  have none: "node_at s ?loc = None" using free by (simp add: node_at_def)
  note res = fresh_resolve' [OF free ok(3) names]
  have new: "made_new ?loc nd s (insert_node (hNow h) ?loc nd s)" for nd
    by (rule made_new_insert [OF ok(1)]) simp
  consider "hTypeflag hdr = TypeDir" | "hTypeflag hdr = TypeReg" | "hTypeflag hdr = TypeSymlink"
    using e by (auto simp: plain_entry_def)
  then show ?thesis
  proof cases
    case 1
    have "root_Lstat h R ?dst s = (Inl (PathError ''lstatat'' ?dst (Errno ENOENT)), s)"
      using nf free by (simp add: root_Lstat_def root_op_def no_faults_def res p_stat_def)
    moreover have "root_Mkdir h R ?dst ?perm s = (Inr (), ?in KDir (mode_perm ?perm AND NOT (umask s)))"
      using nf none by (simp add: root_Mkdir_def root_op_def no_faults_def res p_mkdir_def)
    ultimately have "createNode h R ?dst hdr b u t s = (Inr True, ?in KDir (mode_perm ?perm AND NOT (umask s)))"
      using 1 by (simp add: createNode_def Let_def bindE_tryE bindE_def [of "root_Mkdir h R _ _"])
    then show ?thesis using new 1 by (intro exI conjI) (assumption, rule new, simp_all add: new_inode_def entry_kind_def)
  next
    case 2
    let ?m = "mode_perm ?perm AND NOT (umask s)" and ?w = "EntryMake.written (hNow h) (bData b)"
    have create: "root_Create h R ?dst ?perm s = (Inr (nextino s), ?in (KReg []) ?m)"
      using nf free by (simp add: root_Create_def root_op_def no_faults_def res p_create_def)
    have i1: "ino_at (?in (KReg []) ?m) ?loc = Some (nextino s)" by (simp add: ino_at_insert_node)
    have "file_copy h (nextino s) b (?in (KReg []) ?m) = (Inr (), upd_at ?loc ?w (?in (KReg []) ?m))"
      using nf e i1 by (simp add: file_copy_def no_faults_def write_ino_def upd_at_def EntryMake.written_def [abs_def] plain_entry_def)
    then have "createNode h R ?dst hdr b u t s = (Inr True, upd_at ?loc ?w (?in (KReg []) ?m))"
      using 2 by (simp add: createNode_def Let_def bindE_def create)
    then show ?thesis using made_new_upd [OF new] 2
      by (intro exI conjI) (assumption, rule made_new_upd [OF new], simp_all add: new_inode_def EntryMake.written_def entry_kind_def)
  next
    case 3
    have "root_Symlink h R (hLinkname hdr) ?dst s = (Inr (), ?in (KSym (hLinkname hdr)) 0x1FF)"
      using nf none e 3 by (simp add: root_Symlink_def root_op_def no_faults_def res p_symlink_def plain_entry_def)
    then have "createNode h R ?dst hdr b u t s = (Inr True, ?in (KSym (hLinkname hdr)) 0x1FF)"
      using 3 by (simp add: createNode_def Let_def bindE_def)
    then show ?thesis using new 3 by (intro exI conjI) (assumption, rule new, simp_all add: new_inode_def entry_kind_def)
  qed
qed

lemma createNode_keeps_dir:
  assumes "placed R q n nd s" and "ikind nd = KDir" and "list_all is_name (q @ [n])" and "\<And>s. no_faults h s"
    and "hTypeflag hdr = TypeDir"
  shows "createNode h R (join_slash (q @ [n])) hdr b u t s = (Inr True, s)"
proof -
  obtain i where "ino_at s (rDir R @ q @ [n]) = Some i" "inodes s i = Some nd"
    using assms(1) by (auto simp: placed_def node_at_def split: option.splits)
  then have "root_Lstat h R (join_slash (q @ [n])) s = (Inr (fileinfo s i nd), s)"
    by (simp add: root_Lstat_def placed_root_op [OF assms(1,3,4)] p_stat_def)
  then show ?thesis using assms(2,5) by (simp add: createNode_def Let_def bindE_tryE)
qed

text \<open>What the stages after the making of the node do to it, together.\<close>

definition entry_update :: "host \<Rightarrow> TarOptions \<Rightarrow> tarHeader \<Rightarrow> inode \<Rightarrow> inode" where
  "entry_update h opts hdr nd =
     set_times h hdr ((if hTypeflag hdr = TypeSymlink then id else set_perm hdr)
       ((if oNoLchown opts then id else set_owner (owner_of hdr (oChownOpts opts))) nd))"

lemma entry_update_kind [simp]: "ikind (entry_update h opts hdr nd) = ikind nd"
  by (simp add: entry_update_def)

context unix_effects
begin

lemma createTarFile_updates:
  assumes nf: "\<And>s. no_faults h s" and names: "list_all is_name (q @ [n])" and e: "plain_entry hdr b"
    and made: "createNode h R (join_slash (q @ [n])) hdr b (oInUserNS opts) [] s = (Inr True, s1)"
    and at: "placed R q n nd s1" and k: "hTypeflag hdr \<noteq> TypeSymlink \<Longrightarrow> no_sym nd"
  shows "createTarFile h R (join_slash (q @ [n])) hdr b (Some opts) s =
    (Inr (), upd_at (rDir R @ q @ [n]) (entry_update h opts hdr) s1)"
proof -
  let ?loc = "rDir R @ q @ [n]" and ?dst = "join_slash (q @ [n])"
  have type: "hTypeflag hdr \<noteq> TypeLink" "hPAXRecords hdr = []" using e by (auto simp: plain_entry_def)
  let ?f2 = "if oNoLchown opts then id else set_owner (owner_of hdr (oChownOpts opts))"
  let ?f3 = "if hTypeflag hdr = TypeSymlink then id else set_perm hdr"
  define nd2 s2 where "nd2 = ?f2 nd" and "s2 = upd_at ?loc ?f2 s1"
  have at2: "placed R q n nd2 s2" unfolding nd2_def s2_def by (rule placed_upd [OF at]) simp
  define nd3 s3 where "nd3 = ?f3 nd2" and "s3 = upd_at ?loc ?f3 s2"
  have at3: "placed R q n nd3 s3" unfolding nd3_def s3_def by (rule placed_upd [OF at2]) simp
  have k2: "no_sym nd2" and k3: "no_sym nd3" if "hTypeflag hdr \<noteq> TypeSymlink"
    using k [OF that] by (simp_all add: nd3_def nd2_def no_sym_def)
  let ?own = "if \<not> oNoLchown opts then applyOwner h R ?dst hdr (oInUserNS opts) (oChownOpts opts) else ret ()"
  have own: "?own s1 = (Inr (), s2)" using run_owner [OF at names nf] by (simp add: s2_def)
  let ?chmod = "handleLChmod h R ?dst [] hdr (hdr_info_mode hdr) (oInternalOptions opts)"
  have chmod: "?chmod s2 = (Inr (), s3)"
  proof (cases "hTypeflag hdr = TypeSymlink")
    case True
    then show ?thesis by (simp add: handleLChmod_def s3_def)
  next
    case False
    then show ?thesis using run_chmod [OF at2 names nf k2 [OF False] False type(1)] by (simp add: s3_def)
  qed
  have "applyTimes h R ?dst hdr [] s3 = (Inr (), upd_at ?loc (set_times h hdr) s3)"
  proof (cases "hTypeflag hdr = TypeSymlink")
    case True
    from run_lchtimes [OF at3 names nf True] show ?thesis .
  next
    case False
    from run_times [OF at3 names nf k3 [OF False] False type(1)] show ?thesis .
  qed
  then have "createTarFile h R ?dst hdr b (Some opts) s = (Inr (), upd_at ?loc (set_times h hdr) s3)"
    using type
    by (simp add: createTarFile_def Let_def bindE_Inr [where m = "createNode h R ?dst hdr b (oInUserNS opts) []", OF made]
        bindE_Inr [where m = ?own, OF own, simplified] bindE_Inr [where m = ?chmod, OF chmod] cong: if_cong)
  also have "upd_at ?loc (set_times h hdr) s3 = upd_at ?loc (entry_update h opts hdr) s1"
    by (simp add: s3_def s2_def upd_at_upd_at entry_update_def [abs_def] del: upd_at_id)
  finally show ?thesis .
qed

lemma createTarFile_makes:
  assumes nf: "\<And>s. no_faults h s" and ok: "inos_ok s" "dir_at s (rDir R)" "dirs_to s (rDir R) q"
    and free: "ino_at s (rDir R @ q @ [n]) = None" and names: "list_all is_name (q @ [n])"
    and e: "plain_entry hdr b"
  shows "\<exists>s' nd. createTarFile h R (join_slash (q @ [n])) hdr b (Some opts) s = (Inr (), s') \<and>
    made_new (rDir R @ q @ [n]) nd s s' \<and> made_like h opts hdr b nd \<and> timed_like h hdr nd"
proof -
  let ?loc = "rDir R @ q @ [n]" and ?dst = "join_slash (q @ [n])"
  from run_create [OF nf ok free names e] obtain s1 nd where
    1: "createNode h R ?dst hdr b (oInUserNS opts) [] s = (Inr True, s1)" "made_new ?loc nd s s1" "ikind nd = entry_kind hdr b"
      "iuid nd = hEuid h" "igid nd = hEgid h" "ixattrs nd = []" "hTypeflag hdr = TypeSymlink \<longrightarrow> iperm nd = 0x1FF" by blast
  have "no_sym nd" if "hTypeflag hdr \<noteq> TypeSymlink"
    using that 1(3) by (simp add: no_sym_def entry_kind_def split: typeflag.split)
  from createTarFile_updates [OF nf names e 1(1) made_new_placed [OF 1(2) ok free] this]
  have "createTarFile h R ?dst hdr b (Some opts) s = (Inr (), upd_at ?loc (entry_update h opts hdr) s1)" .
  moreover have "made_new ?loc (entry_update h opts hdr nd) s (upd_at ?loc (entry_update h opts hdr) s1)"
    by (rule made_new_upd [OF 1(2)])
  moreover have "timed_like h hdr (entry_update h opts hdr nd)" by (simp add: timed_like_def entry_update_def set_times_def)
  moreover have "made_like h opts hdr b (entry_update h opts hdr nd)"
    using 1(4-7)
    by (auto simp: made_like_def entry_update_def set_times_def set_perm_def set_owner_def owner_of_def entry_owner_def
        kill_setid_def 1(3) entry_kind_def split: option.split)
  ultimately show ?thesis by blast
qed

end

section \<open>A regular file\<close>

text \<open>
  On a machine that refuses nothing, an entry for a regular file, where nothing is yet, makes the
  file its header describes: the data of the archive, the twelve mode bits of the header whatever
  the umask (set-id bits are back after the change of owner has cleared them), the bounded times,
  and the owner the options ask for.
\<close>

theorem createTarFile_regular:
  assumes "unix_effects h procfd" and "\<And>s. no_faults h s" and "root_ok h R s" and "dirs_to s (rDir R) q"
    and "ino_at s (rDir R @ q @ [n]) = None" and "list_all is_name (q @ [n])"
    and "hTypeflag hdr = TypeReg" and "hPAXRecords hdr = []" and "bErr b = None"
  shows "\<exists>s' nd. createTarFile h R (join_slash (q @ [n])) hdr b (Some opts) s = (Inr (), s') \<and>
    node_at s' (rDir R @ q @ [n]) = Some nd \<and> ikind nd = KReg (bData b) \<and> iperm nd = ucast (hMode hdr) AND 0xFFF \<and>
    imtime nd = boundTime h (hModTime hdr) \<and> iatime nd = boundTime h (latestTime (hAccessTime hdr) (hModTime hdr)) \<and>
    (iuid nd, igid nd) =
      (if oNoLchown opts then (hEuid h, hEgid h)
       else case oChownOpts opts of None \<Rightarrow> (hUid hdr, hGid hdr) | Some c \<Rightarrow> (coUID c, coGID c))"
proof -
  have ok: "inos_ok s" "dir_at s (rDir R)" and e: "plain_entry hdr b"
    using assms(3,7-9) by (simp_all add: root_ok_def plain_entry_def)
  from unix_effects.createTarFile_makes [OF assms(1,2) ok assms(4-6) e, of opts] obtain s' nd where
    m: "createTarFile h R (join_slash (q @ [n])) hdr b (Some opts) s = (Inr (), s')"
      "made_new (rDir R @ q @ [n]) nd s s'" "made_like h opts hdr b nd" "timed_like h hdr nd" by blast
  moreover from m(2) have "node_at s' (rDir R @ q @ [n]) = Some nd" by (simp add: made_new_def node_at_def)
  ultimately show ?thesis using assms(7) by (auto simp: made_like_def timed_like_def entry_kind_def entry_owner_def)
qed

definition suid_header :: tarHeader where
  "suid_header = zeroHeader\<lparr>hTypeflag := TypeReg, hName := ''etc/su'', hMode := 0x9ED, hUid := 7, hGid := 8,
     hModTime := 5 * second\<rparr>"

theorem createTarFile_regular_witness:
  "\<exists>s' nd. createTarFile posix_host demo_root ''etc/su'' suid_header \<lparr>bData = ''x'', bErr = None\<rparr> (Some (zeroTarOptions no_map)) demo_fs =
       (Inr (), s') \<and>
     node_at s' [''dest'', ''etc'', ''su''] = Some nd \<and> ikind nd = KReg ''x'' \<and> iperm nd = 0x9ED \<and> iuid nd = 7"
proof -
  have root: "demo_root = root_at posix_host ''/dest''" by code_simp
  have d: "dirs_to demo_fs (rDir demo_root) [''etc'']" "ino_at demo_fs (rDir demo_root @ [''etc''] @ [''su'']) = None"
    "list_all is_name ([''etc''] @ [''su''])" by code_simp+
  have h: "hTypeflag suid_header = TypeReg" "hPAXRecords suid_header = []" "hMode suid_header = 0x9ED" "hUid suid_header = 7"
    by (simp_all add: suid_header_def zeroHeader_def)
  have o: "oNoLchown (zeroTarOptions no_map) = False" "oChownOpts (zeroTarOptions no_map) = None"
    by (simp_all add: zeroTarOptions_def)
  have nf: "no_faults posix_host s" for s by (simp add: no_faults_def)
  have j: "join_slash ([''etc''] @ [''su'']) = ''etc/su''" "rDir demo_root @ [''etc''] @ [''su''] = [''dest'', ''etc'', ''su'']" by code_simp+
  from createTarFile_regular [OF posix_effects.unix_effects_axioms nf demo_root_ok [folded root] d h(1,2),
      of "\<lparr>bData = ''x'', bErr = None\<rparr>" "zeroTarOptions no_map", unfolded j]
  show ?thesis by (auto simp: h(3,4) o)
qed

end
