(* ===== verification/UnpackTree.thy ===== *)
theory UnpackTree
  imports EntryMake
begin

text \<open>
  Functional correctness of extraction: unpacking an archive of directories, regular files and
  symlinks in which parents come first makes the tree the archive describes, with the owners,
  modes and times of the headers, and touches nothing else.
\<close>

section \<open>The tree of an archive\<close>

text \<open>The path of an entry, and its header with the host's IDs.\<close>

definition epath :: "tarHeader \<times> body \<Rightarrow> string list" where
  "epath e = comps (Clean (TrimLeft (hName (fst e)) slash))"

definition ehdr :: "TarOptions \<Rightarrow> tarHeader \<times> body \<Rightarrow> tarHeader" where
  "ehdr opts e = snd (remapIDs (oIDMap opts) (fst e))"

definition tree_entry :: "TarOptions \<Rightarrow> tarHeader \<times> body \<Rightarrow> bool" where
  "tree_entry opts e \<longleftrightarrow>
     plain_entry (fst e) (snd e) \<and> epath e \<noteq> [] \<and> list_all is_name (epath e) \<and>
     list_all (\<lambda>ex. \<not> HasPrefix (join_slash (epath e)) ex) (oExcludePatterns opts) \<and>
     fst (remapIDs (oIDMap opts) (fst e)) = None"

text \<open>Parents come first; \<open>D\<close> holds of the paths that are directories by then.\<close>

fun parents_first :: "(string list \<Rightarrow> bool) \<Rightarrow> (tarHeader \<times> body) list \<Rightarrow> bool" where
  "parents_first D [] = True"
| "parents_first D (e # es) =
     (D (butlast (epath e)) \<and>
      parents_first (if hTypeflag (fst e) = TypeDir then D(epath e := True) else D) es)"

definition tree_archive :: "TarOptions \<Rightarrow> goRoot \<Rightarrow> fsys \<Rightarrow> (tarHeader \<times> body) list \<Rightarrow> bool" where
  "tree_archive opts R s es \<longleftrightarrow>
     list_all (tree_entry opts) es \<and> list_all (\<lambda>e. ino_at s (rDir R @ epath e) = None) es \<and>
     distinct (map epath es) \<and> parents_first (dirs_to s (rDir R)) es"

text \<open>The entry is there, in its directory, as its header describes it; and with its times.\<close>

definition stands :: "goRoot \<Rightarrow> (tarHeader \<times> body) \<Rightarrow> inode \<Rightarrow> fsys \<Rightarrow> bool" where
  "stands R e nd s \<longleftrightarrow> placed R (butlast (epath e)) (last (epath e)) nd s"

definition built :: "host \<Rightarrow> TarOptions \<Rightarrow> goRoot \<Rightarrow> fsys \<Rightarrow> tarHeader \<times> body \<Rightarrow> bool" where
  "built h opts R s e \<longleftrightarrow> (\<exists>nd. stands R e nd s \<and> made_like h opts (ehdr opts e) (snd e) nd)"

definition timed :: "host \<Rightarrow> goRoot \<Rightarrow> fsys \<Rightarrow> tarHeader \<times> body \<Rightarrow> bool" where
  "timed h R s e \<longleftrightarrow> (\<exists>nd. stands R e nd s \<and> timed_like h (fst e) nd)"

text \<open>
  \<open>grown s0 s ps\<close>: \<open>s\<close> has the names \<open>ps\<close> more than \<open>s0\<close>, each the only name of a new inode, and
  of the old inodes at most the modification times differ.
\<close>

definition grown :: "fsys \<Rightarrow> fsys \<Rightarrow> loc set \<Rightarrow> bool" where
  "grown s0 s ps \<longleftrightarrow>
     nextino s0 \<le> nextino s \<and>
     (\<forall>p. p \<notin> ps \<longrightarrow> ino_at s p = ino_at s0 p) \<and>
     (\<forall>p \<in> ps. \<exists>i \<ge> nextino s0. ino_at s p = Some i \<and> (\<forall>q. ino_at s q = Some i \<longrightarrow> q = p)) \<and>
     (\<forall>i < nextino s0. \<exists>t. inodes s i = map_option (\<lambda>nd. nd\<lparr>imtime := t\<rparr>) (inodes s0 i))"


section \<open>What one more name leaves\<close>

lemma grown_new:
  assumes "grown s0 s ps" and "p \<in> ps"
  obtains i where "nextino s0 \<le> i" and "ino_at s p = Some i" and "\<And>q. ino_at s q = Some i \<Longrightarrow> q = p"
  using assms unfolding grown_def by blast

lemma grown_refl: "grown s s {}"
  unfolding grown_def
proof (intro conjI allI impI)
  show "\<exists>t. inodes s i = map_option (\<lambda>nd. nd\<lparr>imtime := t\<rparr>) (inodes s i)" for i
    by (rule exI [of _ "imtime (the (inodes s i))"]) (cases "inodes s i"; simp)
qed simp_all

lemma grown_made:
  assumes "grown s0 s ps" and "made_new p nd s s'" and "inos_ok s" and "ino_at s p = None"
  shows "grown s0 s' (insert p ps)"
proof -
  have old: "ino_at s q = Some i \<Longrightarrow> i \<noteq> nextino s" for q i using assms(3) by (auto simp: inos_ok_def)
  have le: "nextino s0 \<le> nextino s" using assms(1) by (simp add: grown_def)
  have names: "ino_at s' q = (if q = p then Some (nextino s) else ino_at s q)" for q using assms(2) by (simp add: made_new_def)
  have "\<exists>i \<ge> nextino s0. ino_at s' q = Some i \<and> (\<forall>r. ino_at s' r = Some i \<longrightarrow> r = q)" if "q \<in> insert p ps" for q
  proof (cases "q = p")
    case True
    then show ?thesis using le old by (auto simp: names)
  next
    case False
    with that obtain i where "nextino s0 \<le> i" "ino_at s q = Some i" "\<And>r. ino_at s r = Some i \<Longrightarrow> r = q"
      using grown_new [OF assms(1), of q] by blast
    note i = this
    have "i \<noteq> nextino s" using old [OF i(2)] .
    then have "ino_at s' r = Some i \<Longrightarrow> ino_at s r = Some i" for r unfolding names by (simp split: if_splits)
    with i(3) have "r = q" if "ino_at s' r = Some i" for r using that by blast
    moreover have "ino_at s' q = Some i" unfolding names using False i(2) by simp
    ultimately show ?thesis using i(1) by blast
  qed
  moreover have "\<exists>t. inodes s' i = map_option (\<lambda>nd. nd\<lparr>imtime := t\<rparr>) (inodes s0 i)" if i: "i < nextino s0" for i
  proof -
    obtain t1 where "inodes s i = map_option (\<lambda>nd. nd\<lparr>imtime := t1\<rparr>) (inodes s0 i)" using assms(1) i by (auto simp: grown_def)
    moreover have "i \<noteq> nextino s" using i le by simp
    then obtain t2 where "inodes s' i = map_option (\<lambda>nd. nd\<lparr>imtime := t2\<rparr>) (inodes s i)"
      using assms(2) unfolding made_new_def by blast
    ultimately show ?thesis by (auto simp: option.map_comp comp_def)
  qed
  moreover have "nextino s0 \<le> nextino s'" using assms(2) le by (simp add: made_new_def)
  moreover have "ino_at s' q = ino_at s0 q" if "q \<notin> insert p ps" for q
    using that assms(1) by (simp add: names grown_def)
  ultimately show ?thesis unfolding grown_def by blast
qed

lemma grown_upd:
  assumes "grown s0 s ps" and "p \<in> ps"
  shows "grown s0 (upd_at p f s) ps"
proof -
  obtain i where "nextino s0 \<le> i" "ino_at s p = Some i" using assms by (rule grown_new)
  then have "nextino (upd_at p f s) = nextino s" and "j < nextino s0 \<Longrightarrow> inodes (upd_at p f s) j = inodes s j" for j
    by (auto simp: upd_at_def inodes_upd_inode upd_inode_def)
  then show ?thesis using assms(1) by (simp add: grown_def)
qed

lemma stands_made:
  assumes "stands R e x s" and m: "made_new p nd s s'" and ok: "inos_ok s" and free: "ino_at s p = None"
  shows "\<exists>t. stands R e (x\<lparr>imtime := t\<rparr>) s' \<and> (ikind x \<noteq> KDir \<longrightarrow> dir_at s (butlast p) \<longrightarrow> t = imtime x)"
proof -
  let ?q = "rDir R @ butlast (epath e) @ [last (epath e)]"
  from assms(1) have at: "node_at s ?q = Some x" "dir_at s (rDir R)" "dirs_to s (rDir R) (butlast (epath e))"
    by (simp_all add: stands_def placed_def)
  then obtain i where i: "ino_at s ?q = Some i" "inodes s i = Some x" by (auto simp: node_at_def split: option.splits)
  have "i \<noteq> nextino s" using ok i(1) by (auto simp: inos_ok_def)
  with m obtain t where "inodes s' i = map_option (\<lambda>nd. nd\<lparr>imtime := t\<rparr>) (inodes s i)" unfolding made_new_def by blast
  then have t: "inodes s' i = Some (x\<lparr>imtime := t\<rparr>)" using i(2) by simp
  have "?q \<noteq> p" using i(1) free by auto
  then have "node_at s' ?q = Some (x\<lparr>imtime := t\<rparr>)" using m i(1) t by (simp add: made_new_def node_at_def)
  moreover have "rDir R \<noteq> p" using at(2) free by (auto simp: dir_at_def node_at_def)
  ultimately have "stands R e (x\<lparr>imtime := t\<rparr>) s'"
    using at made_new_dir [OF m ok free] made_new_dirs [OF m ok free] by (simp add: stands_def placed_def)
  moreover have "t = imtime x" if "ikind x \<noteq> KDir" "dir_at s (butlast p)"
  proof -
    have "ino_at s (butlast p) \<noteq> Some i" using that i(2) by (auto simp: dir_at_def node_at_def)
    then have "inodes s' i = inodes s i" using m \<open>i \<noteq> nextino s\<close> unfolding made_new_def by blast
    then have "x\<lparr>imtime := t\<rparr> = x" using t i(2) by simp
    from arg_cong [OF this, of imtime] show ?thesis by simp
  qed
  ultimately show ?thesis by blast
qed

lemma built_made:
  assumes "built h opts R s e" and "made_new p nd s s'" and "inos_ok s" and "ino_at s p = None"
  shows "built h opts R s' e"
proof -
  from assms(1) obtain x where x: "stands R e x s" "made_like h opts (ehdr opts e) (snd e) x" by (auto simp: built_def)
  from stands_made [OF x(1) assms(2-4)] obtain t where "stands R e (x\<lparr>imtime := t\<rparr>) s'" by blast
  moreover have "made_like h opts (ehdr opts e) (snd e) (x\<lparr>imtime := t\<rparr>)" using x(2) by (simp add: made_like_def)
  ultimately show ?thesis by (auto simp: built_def)
qed


lemma timed_made:
  assumes "timed h R s e" and "made_new p nd s s'" and "inos_ok s" and "ino_at s p = None"
    and "built h opts R s e" and "hTypeflag (fst e) \<noteq> TypeDir" and "dir_at s (butlast p)"
  shows "timed h R s' e"
proof -
  from assms(1) obtain x where x: "stands R e x s" "timed_like h (fst e) x" by (auto simp: timed_def)
  from assms(5) obtain y where y: "stands R e y s" "made_like h opts (ehdr opts e) (snd e) y" by (auto simp: built_def)
  have "y = x" using x(1) y(1) by (simp add: stands_def placed_def)
  then have "ikind x \<noteq> KDir" using y(2) assms(6)
    by (simp add: made_like_def entry_kind_def ehdr_def remapIDs_def Let_def split: typeflag.splits)
  with stands_made [OF x(1) assms(2-4)] assms(7) obtain t where "stands R e (x\<lparr>imtime := t\<rparr>) s'" "t = imtime x" by blast
  moreover from this(2) have "timed_like h (fst e) (x\<lparr>imtime := t\<rparr>)" using x(2) by (simp add: timed_like_def)
  ultimately show ?thesis by (auto simp: timed_def)
qed

section \<open>Restoring the times\<close>

lemma stands_upd:
  assumes "stands R e x s" and "ino_at s p \<noteq> ino_at s (rDir R @ epath e)" and "epath e \<noteq> []"
    and "\<And>x. ikind (f x) = KDir \<longleftrightarrow> ikind x = KDir"
  shows "stands R e x (upd_at p f s)"
proof -
  let ?q = "rDir R @ butlast (epath e) @ [last (epath e)]"
  have q: "?q = rDir R @ epath e" using assms(3) by simp
  have at: "node_at s ?q = Some x" "dir_at s (rDir R)" "dirs_to s (rDir R) (butlast (epath e))"
    using assms(1) by (simp_all add: stands_def placed_def)
  have d: "dir_at (upd_at p f s) r = dir_at s r" for r
    by (auto simp: upd_at_def dir_at_upd_inode assms(4) split: option.split)
  moreover have "dirs_to (upd_at p f s) b r = dirs_to s b r" for b r by (rule dirs_to_cong [OF d])
  moreover have "node_at (upd_at p f s) ?q = node_at s ?q"
    using assms(2) by (auto simp: upd_at_def node_at_upd_inode q split: option.split)
  ultimately show ?thesis using at by (simp add: stands_def placed_def)
qed

text \<open>What the loop knows: the entries \<open>done\<close> are there.\<close>

definition tree_so_far :: "host \<Rightarrow> TarOptions \<Rightarrow> goRoot \<Rightarrow> fsys \<Rightarrow> (tarHeader \<times> body) list \<Rightarrow> fsys \<Rightarrow> bool" where
  "tree_so_far h opts R s0 es s \<longleftrightarrow>
     grown s0 s ((\<lambda>e. rDir R @ epath e) ` set es) \<and> distinct (map epath es) \<and>
     (\<forall>e \<in> set es. tree_entry opts e \<and> built h opts R s e)"

definition dir_entry :: "host \<Rightarrow> tarHeader \<times> body \<Rightarrow> unpackedDir" where
  "dir_entry h e =
     \<lparr>udName = join_slash (epath e), udAtime = boundTime h (latestTime (hAccessTime (fst e)) (hModTime (fst e))),
      udMtime = boundTime h (hModTime (fst e))\<rparr>"

lemma restore_one:
  assumes t: "tree_so_far h opts R s0 es s" and e: "e \<in> set es" "hTypeflag (fst e) = TypeDir" and nf: "no_faults h s"
  shows "\<exists>s'. chtimes h R (udName (dir_entry h e)) (udAtime (dir_entry h e)) (udMtime (dir_entry h e)) s = (Inr (), s') \<and>
    tree_so_far h opts R s0 es s' \<and> timed h R s' e \<and> (\<forall>e' \<in> set es. timed h R s e' \<longrightarrow> timed h R s' e')"
proof -
  let ?p = "\<lambda>e. rDir R @ epath e" and ?f = "set_times h (fst e)"
  let ?s' = "upd_at (?p e) ?f s"
  have ok: "tree_entry opts e'" "built h opts R s e'" "epath e' \<noteq> []" if "e' \<in> set es" for e'
    using t that by (auto simp: tree_so_far_def tree_entry_def)
  have path: "butlast (epath e) @ [last (epath e)] = epath e" and names: "list_all is_name (epath e)"
    using ok [OF e(1)] by (simp_all add: tree_entry_def)
  from ok(2) [OF e(1)] obtain x where x: "stands R e x s" "made_like h opts (ehdr opts e) (snd e) x" by (auto simp: built_def)
  have "no_sym x" using x(2) e(2) by (simp add: made_like_def entry_kind_def ehdr_def remapIDs_def Let_def no_sym_def)
  with x(1) have run: "chtimes h R (join_slash (epath e)) at mt s = (Inr (), upd_at (?p e) (\<lambda>nd. nd\<lparr>iatime := at, imtime := mt\<rparr>) s)" for at mt
    using run_chtimes [of R "butlast (epath e)" "last (epath e)" x s h] names nf path by (simp add: stands_def)
  have upd: "stands R e (?f x) ?s'"
    using placed_upd [OF x(1) [unfolded stands_def], of ?f] path by (simp add: stands_def)
  have other: "stands R e' y ?s'" if "e' \<in> set es" "e' \<noteq> e" "stands R e' y s" for e' y
  proof (rule stands_upd [OF that(3) _ ok(3) [OF that(1)]])
    have "epath e' \<noteq> epath e" using t that(1,2) e(1) by (auto simp: tree_so_far_def distinct_map inj_on_def)
    then have ne: "?p e' \<noteq> ?p e" by simp
    have "grown s0 s (?p ` set es)" "?p e \<in> ?p ` set es" using t e(1) by (simp_all add: tree_so_far_def)
    then obtain i where "nextino s0 \<le> i" and i: "ino_at s (?p e) = Some i" "\<And>q. ino_at s q = Some i \<Longrightarrow> q = ?p e"
      by (rule grown_new) (rule that)
    show "ino_at s (?p e) \<noteq> ino_at s (?p e')"
    proof
      assume "ino_at s (?p e) = ino_at s (?p e')"
      with i(1) have "ino_at s (?p e') = Some i" by simp
      with i(2) ne show False by blast
    qed
  qed simp
  have "built h opts R ?s' e'" if "e' \<in> set es" for e'
  proof (cases "e' = e")
    case True
    then show ?thesis using upd x(2) by (auto simp: built_def made_like_def set_times_def)
  next
    case False
    then show ?thesis using other [OF that] ok(2) [OF that] by (auto simp: built_def)
  qed
  moreover have "timed h R ?s' e" using upd by (auto simp: timed_def timed_like_def set_times_def)
  moreover have "timed h R ?s' e'" if "e' \<in> set es" "timed h R s e'" for e'
    using that other [OF that(1)] \<open>timed h R ?s' e\<close> by (cases "e' = e") (auto simp: timed_def)
  moreover have "grown s0 ?s' (?p ` set es)" using grown_upd t e(1) by (simp add: tree_so_far_def)
  ultimately have "tree_so_far h opts R s0 es ?s'" "timed h R ?s' e" "\<forall>e' \<in> set es. timed h R s e' \<longrightarrow> timed h R ?s' e'"
    using t unfolding tree_so_far_def by blast+
  then show ?thesis using run unfolding dir_entry_def by (simp add: set_times_def [abs_def])
qed

lemma restore_all:
  assumes "tree_so_far h opts R s0 es s" and "\<And>s. no_faults h s"
    and "\<forall>e \<in> set ds. e \<in> set es \<and> hTypeflag (fst e) = TypeDir"
  shows "\<exists>s'. restoreDirTimes h R (map (dir_entry h) ds) s = (Inr (), s') \<and> tree_so_far h opts R s0 es s' \<and>
    (\<forall>e \<in> set es. timed h R s e \<or> e \<in> set ds \<longrightarrow> timed h R s' e)"
  using assms(1,3)
proof (induction ds arbitrary: s)
  case (Cons e ds)
  then have e: "e \<in> set es" "hTypeflag (fst e) = TypeDir" by simp_all
  from restore_one [OF Cons.prems(1) e assms(2)] obtain s1 where
    1: "chtimes h R (udName (dir_entry h e)) (udAtime (dir_entry h e)) (udMtime (dir_entry h e)) s = (Inr (), s1)"
      "tree_so_far h opts R s0 es s1" "timed h R s1 e" "\<forall>e' \<in> set es. timed h R s e' \<longrightarrow> timed h R s1 e'" by blast
  from Cons.IH [OF 1(2)] Cons.prems(2) obtain s2 where
    2: "restoreDirTimes h R (map (dir_entry h) ds) s1 = (Inr (), s2)" "tree_so_far h opts R s0 es s2"
      "\<forall>e \<in> set es. timed h R s1 e \<or> e \<in> set ds \<longrightarrow> timed h R s2 e" by auto
  then show ?case using 1 by (intro exI [of _ s2]) (auto simp: restoreDirTimes_def bindE_def)
qed (simp add: restoreDirTimes_def)

section \<open>One round of the loop\<close>

lemma TrimLeft_rel: "\<not> IsAbs (TrimLeft s slash)"
  by (induction s) (simp_all add: TrimLeft_def)

lemma Clean_names_of:
  assumes "\<not> IsAbs s" and "list_all is_name (comps (Clean s))"
  shows "Clean s = join_slash (comps (Clean s))"
proof -
  have c: "Clean s = render False (clean_comps s)" using assms(1) by (simp add: Clean_render)
  have "clean_comps s \<noteq> []"
  proof
    assume "clean_comps s = []"
    then have "comps (Clean s) = [dot]" using c by (simp add: render_def comps_single is_comp_def)
    then show False using assms(2) by (simp add: is_name_def)
  qed
  then have "comps (Clean s) = clean_comps s" "Clean s = join_slash (clean_comps s)"
    using c comps_join [OF clean_form_is_comp [OF clean_comps_form], of s] by (simp_all add: render_def)
  then show ?thesis by simp
qed

lemma resolve_present:
  assumes "dirs_to s (rDir R) q" and "dir_at s (rDir R)" and "list_all is_name (q @ [n])" and "no_faults h s"
  shows "resolveArchivePath h R (join_slash (q @ [n])) s = Inr \<lparr>raPath = join_slash (q @ [n]), parentWasPresent = True\<rparr>"
proof (cases "q = []")
  case True
  then show ?thesis using split_local(2) [OF assms(3)] by (simp add: resolveArchivePath_def)
next
  case False
  have names: "list_all is_name q" using assms(3) by simp
  have "dir_at s (rDir R @ q)" using assms(1) False by (cases q rule: rev_cases) (auto simp: dirs_to_snoc)
  then obtain i nd where "ino_at s (rDir R @ q) = Some i" "inodes s i = Some nd"
    by (auto simp: dir_at_node node_at_def split: option.splits)
  moreover have "rresolve h R True (join_slash q) s = Inr (rDir R @ q)"
    using dir_resolve [OF assms(1) names, of h] False by simp
  ultimately have "\<exists>fi. fst (root_Stat h R (join_slash q) s) = Inr fi"
    using assms(4) by (simp add: root_Stat_def root_op_def no_faults_def p_stat_def)
  then show ?thesis using False split_local(3) [OF assms(3) False] Clean_dir [OF names False]
    by (auto simp: resolveArchivePath_def)
qed

lemma renamed_fields:
  "entry_kind (hdr\<lparr>hName := n\<rparr>) b = entry_kind hdr b" "entry_owner h opts (hdr\<lparr>hName := n\<rparr>) = entry_owner h opts hdr"
  by (simp add: entry_kind_def cong: typeflag.case_cong, simp add: entry_owner_def cong: option.case_cong)

lemma renamed [simp]:
  "remapIDs m (hdr\<lparr>hName := n\<rparr>) = (fst (remapIDs m hdr), snd (remapIDs m hdr)\<lparr>hName := n\<rparr>)"
  "plain_entry (hdr\<lparr>hName := n\<rparr>) b = plain_entry hdr b"
  "made_like h opts (hdr\<lparr>hName := n\<rparr>) b nd = made_like h opts hdr b nd"
  "timed_like h (hdr\<lparr>hName := n\<rparr>) nd = timed_like h hdr nd"
  by (simp_all add: remapIDs_def Let_def plain_entry_def made_like_def timed_like_def renamed_fields)

lemma remapped [simp]:
  "plain_entry (snd (remapIDs m hdr)) b = plain_entry hdr b" "timed_like h (snd (remapIDs m hdr)) nd = timed_like h hdr nd"
  "hTypeflag (snd (remapIDs m hdr)) = hTypeflag hdr" "hModTime (snd (remapIDs m hdr)) = hModTime hdr"
  "hAccessTime (snd (remapIDs m hdr)) = hAccessTime hdr"
  by (simp_all add: remapIDs_def Let_def plain_entry_def timed_like_def)

context unix_effects
begin

lemma unpackEntry_makes:
  assumes nf: "\<And>s. no_faults h s" and ok: "inos_ok s" "dir_at s (rDir R)" "dirs_to s (rDir R) (butlast (epath e))"
    and free: "ino_at s (rDir R @ epath e) = None" and e: "tree_entry opts e"
  shows "\<exists>s' nd. unpackEntry h R dest opts None e s =
      (Inr (if hTypeflag (fst e) = TypeDir then Some (dir_entry h e) else None), s') \<and>
    made_new (rDir R @ epath e) nd s s' \<and> made_like h opts (ehdr opts e) (snd e) nd \<and> timed_like h (fst e) nd"
proof -
  let ?q = "butlast (epath e)" and ?n = "last (epath e)" and ?dst = "join_slash (epath e)"
  let ?hdr = "snd (remapIDs (oIDMap opts) (fst e))\<lparr>hName := ?dst\<rparr>"
  have path: "?q @ [?n] = epath e" and names: "list_all is_name (epath e)" "epath e \<noteq> []" and plain: "plain_entry ?hdr (snd e)"
    using e by (simp_all add: tree_entry_def)
  have clean: "Clean (TrimLeft (hName (fst e)) slash) = ?dst" using Clean_names_of [OF TrimLeft_rel] names(1) unfolding epath_def by metis
  have loc: "?dst \<noteq> dot" "IsLocal ?dst"
    using local_path_not_dot [of ?dst] local_path_IsLocal [of ?dst] names by (auto simp: local_path_def)
  have "resolveArchivePath h R ?dst s = Inr \<lparr>raPath = ?dst, parentWasPresent = True\<rparr>"
    using resolve_present [OF ok(3,2) _ nf, of ?n] path names by simp
  moreover have "clearTarget h R dest opts (fst e\<lparr>hName := ?dst\<rparr>) ?dst s = (Inr True, s)"
  proof -
    have "rresolve h R False ?dst s = Inr (rDir R @ epath e)"
      using fresh_resolve' [of s R ?q ?n h False] ok(3) free path names by simp
    then have "\<exists>err. root_Lstat h R ?dst s = (Inl err, s)"
      using nf free by (simp add: root_Lstat_def root_op_def no_faults_def p_stat_def)
    then show ?thesis by (auto simp: clearTarget_def bindE_tryE)
  qed
  moreover from createTarFile_makes [OF nf ok(1,2,3) _ _ plain, of ?n opts] obtain s' nd where
    "createTarFile h R ?dst ?hdr (snd e) (Some opts) s = (Inr (), s')" "made_new (rDir R @ epath e) nd s s'"
    "made_like h opts ?hdr (snd e) nd" "timed_like h ?hdr nd"
    using path names free by auto
  moreover have "hTypeflag (fst e) \<noteq> TypeXGlobalHeader" "\<not> (\<exists>ex \<in> set (oExcludePatterns opts). HasPrefix ?dst ex)"
    "fst (remapIDs (oIDMap opts) (fst e)) = None"
    using e by (auto simp: tree_entry_def plain_entry_def list_all_iff)
  ultimately show ?thesis
    by (simp add: unpackEntry_def clean loc unrepresentableOnWindows_def FromSlash_def bindE_readE bindE_def
        createImpliedDirectories_def ehdr_def dir_entry_def Let_def) blast
qed

end

section \<open>The whole archive\<close>

lemma tree_so_far_made:
  assumes "tree_so_far h opts R s0 es s" and "made_new (rDir R @ epath e) nd s s'" and "inos_ok s"
    and "ino_at s (rDir R @ epath e) = None" and "epath e \<notin> epath ` set es" and "tree_entry opts e"
    and "made_like h opts (ehdr opts e) (snd e) nd" and "stands R e nd s'"
  shows "tree_so_far h opts R s0 (es @ [e]) s'"
proof -
  let ?p = "\<lambda>e. rDir R @ epath e"
  have "grown s0 s (?p ` set es)" using assms(1) by (simp add: tree_so_far_def)
  from grown_made [OF this assms(2-4)] have "grown s0 s' (?p ` set (es @ [e]))" by simp
  moreover have "built h opts R s' e'" if "e' \<in> set es" for e'
    using built_made [OF _ assms(2-4)] assms(1) that unfolding tree_so_far_def by blast
  moreover have "built h opts R s' e" using assms(7,8) by (auto simp: built_def)
  moreover have "distinct (map epath (es @ [e]))" using assms(1,5) by (auto simp: tree_so_far_def)
  moreover have "\<forall>e \<in> set (es @ [e]). tree_entry opts e" using assms(1,6) by (simp add: tree_so_far_def)
  ultimately show ?thesis unfolding tree_so_far_def by auto
qed

lemma dirs_of_path:
  "p \<noteq> [] \<Longrightarrow> dirs_to s b (butlast p) \<Longrightarrow> dir_at s (b @ p) \<Longrightarrow> dirs_to s b p"
  by (cases p rule: rev_cases) (simp_all add: dirs_to_snoc)

definition dir_entries :: "(tarHeader \<times> body) list \<Rightarrow> (tarHeader \<times> body) list" where
  "dir_entries es = filter (\<lambda>e. hTypeflag (fst e) = TypeDir) es"

lemma os_OpenRoot_opens:
  assumes "root_ok h (root_at h dest) s" and "no_faults h s"
  shows "os_OpenRoot h dest s = (Inr (root_at h dest), s)"
proof -
  let ?R = "root_at h dest"
  have ok: "dir_at s (rDir ?R)" and "canon_root h ?R s" using assms(1) by (simp_all add: root_ok_def)
  then have "dirs_to s (hRoot h) (comps dest)" "list_all is_name (comps dest)" "dest = abs_path (comps dest)"
    by (auto simp: canon_root_def root_at_def Let_def abs_path_def)
  then have "kresolve h True dest s = Inr (hRoot h @ comps dest)" using kresolve_dirs [of s h "comps dest" True] by simp
  moreover have "node_at s (hRoot h @ comps dest) \<noteq> None" using ok by (auto simp: dir_at_node root_at_def)
  ultimately show ?thesis
    using assms(2) ok by (simp add: os_OpenRoot_def path_op_def no_faults_def root_at_def)
qed

context unix_effects
begin

lemma unpackLoop_builds:
  assumes nf: "\<And>s. no_faults h s"
    and "tree_so_far h opts R s0 es0 s" and "inos_ok s" and "dir_at s (rDir R)"
    and "\<forall>e \<in> set es0. hTypeflag (fst e) \<noteq> TypeDir \<longrightarrow> timed h R s e"
    and "list_all (tree_entry opts) es" and "list_all (\<lambda>e. ino_at s0 (rDir R @ epath e) = None) es"
    and "distinct (map epath (es0 @ es))" and "parents_first D es" and "\<And>q. D q \<Longrightarrow> dirs_to s (rDir R) q"
  shows "\<exists>s'. unpackLoop h R dest opts None (map (dir_entry h) (dir_entries es0)) es None s = (Inr (), s') \<and>
    tree_so_far h opts R s0 (es0 @ es) s' \<and> (\<forall>e \<in> set (es0 @ es). timed h R s' e)"
  using assms(2-)
proof (induction es arbitrary: es0 s D)
  case Nil
  from restore_all [OF Nil(1) nf, of "dir_entries es0"] obtain s' where
    "restoreDirTimes h R (map (dir_entry h) (dir_entries es0)) s = (Inr (), s')" "tree_so_far h opts R s0 es0 s'"
    "\<forall>e \<in> set es0. timed h R s e \<or> e \<in> set (dir_entries es0) \<longrightarrow> timed h R s' e"
    by (auto simp: dir_entries_def)
  then show ?case using Nil(4) by (auto simp: dir_entries_def)
next
  case (Cons e es)
  let ?p = "rDir R @ epath e" and ?isdir = "hTypeflag (fst e) = TypeDir"
  have e: "tree_entry opts e" "epath e \<notin> epath ` set es0" "epath e \<noteq> []" and dirs: "dirs_to s (rDir R) (butlast (epath e))"
    using Cons.prems by (auto simp: tree_entry_def)
  have "?p \<notin> (\<lambda>e. rDir R @ epath e) ` set es0" using e(2) by auto
  then have "ino_at s ?p = ino_at s0 ?p" using Cons.prems(1) by (simp add: tree_so_far_def grown_def)
  then have free: "ino_at s ?p = None" using Cons.prems(6) by simp
  from unpackEntry_makes [OF nf Cons.prems(2,3) dirs free e(1), of dest] obtain s1 nd where
    1: "unpackEntry h R dest opts None e s = (Inr (if ?isdir then Some (dir_entry h e) else None), s1)"
      "made_new ?p nd s s1" "made_like h opts (ehdr opts e) (snd e) nd" "timed_like h (fst e) nd" by blast
  note made = 1(2) Cons.prems(2) free
  have path: "butlast (epath e) @ [last (epath e)] = epath e" using e(3) by simp
  have st: "stands R e nd s1"
    using made_new_placed [OF _ Cons.prems(2,3) dirs, of "last (epath e)" nd s1] 1(2) free path by (simp add: stands_def)
  have so: "tree_so_far h opts R s0 (es0 @ [e]) s1"
    by (rule tree_so_far_made [OF Cons.prems(1) made e(2,1) 1(3) st])
  have ok: "inos_ok s1" by (rule made_new_inos [OF 1(2) Cons.prems(2)])
  have root: "dir_at s1 (rDir R)" using st by (simp add: stands_def placed_def)
  have parent: "dir_at s (butlast ?p)"
    using dirs Cons.prems(3) e(3) by (cases "butlast (epath e)" rule: rev_cases) (auto simp: butlast_append dirs_to_snoc)
  have times: "\<forall>x \<in> set (es0 @ [e]). hTypeflag (fst x) \<noteq> TypeDir \<longrightarrow> timed h R s1 x"
  proof (intro ballI impI)
    fix x assume x: "x \<in> set (es0 @ [e])" "hTypeflag (fst x) \<noteq> TypeDir"
    show "timed h R s1 x"
    proof (cases "x = e")
      case True
      then show ?thesis unfolding timed_def using st 1(4) by blast
    next
      case False
      then have x0: "x \<in> set es0" using x(1) by simp
      then have "timed h R s x" using Cons.prems(4) x(2) by blast
      moreover have "built h opts R s x" using Cons.prems(1) x0 unfolding tree_so_far_def by blast
      ultimately show ?thesis using timed_made [OF _ made _ x(2) parent] by blast
    qed
  qed
  let ?D = "if ?isdir then D(epath e := True) else D"
  have D: "dirs_to s1 (rDir R) q" if "?D q" for q
  proof (cases "D q")
    case True
    then show ?thesis using made_new_dirs [OF made] Cons.prems(9) by blast
  next
    case False
    then have q: "q = epath e" "?isdir" using that by (auto split: if_splits)
    have "ikind nd = KDir" using 1(3) q(2) by (simp add: made_like_def entry_kind_def ehdr_def)
    moreover have "node_at s1 ?p = Some nd" "dirs_to s1 (rDir R) (butlast (epath e))"
      using st path by (simp_all add: stands_def placed_def)
    ultimately have "dir_at s1 (rDir R @ epath e)" "dirs_to s1 (rDir R) (butlast (epath e))" by (simp_all add: dir_at_def)
    from dirs_of_path [OF e(3) this(2,1)] show ?thesis unfolding q(1) .
  qed
  have "\<exists>s'. unpackLoop h R dest opts None (map (dir_entry h) (dir_entries (es0 @ [e]))) es None s1 = (Inr (), s') \<and>
      tree_so_far h opts R s0 ((es0 @ [e]) @ es) s' \<and> (\<forall>x \<in> set ((es0 @ [e]) @ es). timed h R s' x)"
    by (rule Cons.IH [OF so ok root times _ _ _ _ D]) (use Cons.prems in simp_all)
  moreover have "unpackLoop h R dest opts None (map (dir_entry h) (dir_entries es0)) (e # es) None s =
      unpackLoop h R dest opts None (map (dir_entry h) (dir_entries (es0 @ [e]))) es None s1"
    using 1(1) by (simp add: bindE_def dir_entries_def)
  ultimately show ?case by simp
qed

lemma Unpack_builds:
  assumes nf: "\<And>s. no_faults h s" and root: "root_ok h (root_at h dest) s"
    and opts: "oWhiteoutFormat opts \<noteq> OverlayWhiteoutFormat" "tsEnd archive = None"
    and tree: "tree_archive opts (root_at h dest) s (tsEntries archive)"
  shows "\<exists>s'. Unpack h m archive dest (Some opts) s = (Inr (), s') \<and>
    tree_so_far h opts (root_at h dest) s (tsEntries archive) s' \<and>
    (\<forall>e \<in> set (tsEntries archive). timed h (root_at h dest) s' e)"
proof -
  let ?R = "root_at h dest"
  have ok: "inos_ok s" "dir_at s (rDir ?R)" using root by (simp_all add: root_ok_def)
  note opened = os_OpenRoot_opens [OF root nf]
  have "tree_so_far h opts ?R s [] s" by (simp add: tree_so_far_def grown_refl)
  from unpackLoop_builds [OF nf this ok, of "tsEntries archive" "dirs_to s (rDir ?R)" dest] tree
  show ?thesis using opts
    by (simp add: tree_archive_def Unpack_def bindE_def opened getWhiteoutConverter_def dir_entries_def)
qed

end

section \<open>The property\<close>

text \<open>
  C2: on a machine that refuses nothing, \<open>Unpack\<close> returns, and makes the tree the archive describes, for an archive
  of directories, regular files and symlinks with parents first and names that are free: every entry is
  there under its name, with the kind, data and target of the entry, the twelve mode bits of its header, the
  mapped owner, and the header's times, those of directories too although entries were
  put into them later; no other name appears or goes, and of what was there only times of directories
  changed.
\<close>

theorem Unpack_tree:
  assumes "unix_effects h procfd" and "\<And>s. no_faults h s" and "root_ok h (root_at h dest) s"
    and "oWhiteoutFormat opts \<noteq> OverlayWhiteoutFormat" and "tsEnd archive = None"
    and "tree_archive opts (root_at h dest) s (tsEntries archive)"
  shows "\<exists>s'. Unpack h m archive dest (Some opts) s = (Inr (), s') \<and>
    (\<forall>e \<in> set (tsEntries archive). \<exists>nd. node_at s' (hRoot h @ comps dest @ epath e) = Some nd \<and>
       made_like h opts (ehdr opts e) (snd e) nd \<and> timed_like h (fst e) nd) \<and>
    (\<forall>p. p \<notin> (\<lambda>e. hRoot h @ comps dest @ epath e) ` set (tsEntries archive) \<longrightarrow> ino_at s' p = ino_at s p) \<and>
    (\<forall>i < nextino s. \<exists>t. inodes s' i = map_option (\<lambda>nd. nd\<lparr>imtime := t\<rparr>) (inodes s i))"
proof -
  let ?es = "tsEntries archive" and ?R = "root_at h dest"
  from unix_effects.Unpack_builds [OF assms] obtain s' where
    u: "Unpack h m archive dest (Some opts) s = (Inr (), s')" "tree_so_far h opts ?R s ?es s'" "\<forall>e \<in> set ?es. timed h ?R s' e" by blast
  have "\<exists>nd. node_at s' (hRoot h @ comps dest @ epath e) = Some nd \<and>
       made_like h opts (ehdr opts e) (snd e) nd \<and> timed_like h (fst e) nd" if "e \<in> set ?es" for e
  proof -
    have e: "epath e \<noteq> []" "built h opts ?R s' e" "timed h ?R s' e"
      using u(2,3) that by (auto simp: tree_so_far_def tree_entry_def)
    then show ?thesis by (auto simp: built_def timed_def stands_def placed_def root_at_def)
  qed
  moreover have "grown s s' ((\<lambda>e. hRoot h @ comps dest @ epath e) ` set ?es)" using u(2) by (simp add: tree_so_far_def root_at_def)
  ultimately show ?thesis using u(1) unfolding grown_def by blast
qed

definition small_tree :: tarStream where
  "small_tree =
     \<lparr>tsEntries =
        [(suid_header\<lparr>hTypeflag := TypeDir, hName := ''/app/'', hModTime := 9 * second\<rparr>, \<lparr>bData = [], bErr = None\<rparr>),
         (suid_header\<lparr>hName := ''app/../app/./su''\<rparr>, \<lparr>bData = ''x'', bErr = None\<rparr>),
         (suid_header\<lparr>hTypeflag := TypeSymlink, hName := ''app/out'', hLinkname := ''/''\<rparr>, \<lparr>bData = [], bErr = None\<rparr>)],
      tsEnd = None\<rparr>"

theorem Unpack_tree_witness:
  "\<exists>s'. Unpack posix_host no_map small_tree ''/dest'' (Some (zeroTarOptions shift_map)) demo_fs = (Inr (), s') \<and>
     (\<exists>nd. node_at s' [''dest'', ''app'', ''su''] = Some nd \<and> iperm nd = 0x9ED \<and> iuid nd = 100007)"
proof -
  have nf: "no_faults posix_host s" for s by (simp add: no_faults_def)
  have opts: "oWhiteoutFormat (zeroTarOptions shift_map) \<noteq> OverlayWhiteoutFormat" "tsEnd small_tree = None"
    by (simp_all add: zeroTarOptions_def small_tree_def)
  have tree: "tree_archive (zeroTarOptions shift_map) (root_at posix_host ''/dest'') demo_fs (tsEntries small_tree)" by code_simp
  let ?e = "(suid_header\<lparr>hName := ''app/../app/./su''\<rparr>, \<lparr>bData = ''x'', bErr = None\<rparr>)"
  have e: "?e \<in> set (tsEntries small_tree)" by (simp add: small_tree_def)
  have p: "hRoot posix_host @ comps ''/dest'' @ epath ?e = [''dest'', ''app'', ''su'']" by code_simp
  have m: "iperm nd = 0x9ED \<and> iuid nd = 100007"
    if "made_like posix_host (zeroTarOptions shift_map) (ehdr (zeroTarOptions shift_map) ?e) b nd" for b nd
    using that by (simp add: made_like_def ehdr_def remapIDs_def Let_def zeroTarOptions_def shift_map_def entry_owner_def suid_header_def zeroHeader_def)
  from Unpack_tree [OF posix_effects.unix_effects_axioms nf demo_root_ok opts tree, of no_map] obtain s' where
    u: "Unpack posix_host no_map small_tree ''/dest'' (Some (zeroTarOptions shift_map)) demo_fs = (Inr (), s')"
    "\<forall>e \<in> set (tsEntries small_tree). \<exists>nd. node_at s' (hRoot posix_host @ comps ''/dest'' @ epath e) = Some nd \<and>
       made_like posix_host (zeroTarOptions shift_map) (ehdr (zeroTarOptions shift_map) e) (snd e) nd \<and> timed_like posix_host (fst e) nd" by blast
  from bspec [OF u(2) e] m u(1) show ?thesis unfolding p by blast
qed

end
