(* ===== verification/PackTree.thy ===== *)
theory PackTree
  imports Archives CollectFacts UnpackTree Extract
begin

text \<open>
  Creating an archive of a tree and extracting it: what \<open>TarWithOptions\<close> writes of a directory of
  directories, regular files and symlinks, and that \<open>TarUntar\<close> copies such a directory.
\<close>

unbundle bit_operations_syntax

section \<open>One entry\<close>

text \<open>
  A node that an entry of its own describes fully: a directory, a regular file or a symlink, with one name and
  without a capability.
\<close>

fun plain_ikind :: "ikind \<Rightarrow> bool" where
  "plain_ikind KDir = True"
| "plain_ikind (KReg d) = (int (length d) < 2 ^ 63)"
| "plain_ikind (KSym t) = (t \<noteq> [])"
| "plain_ikind _ = False"

definition copyable :: "fsys \<Rightarrow> nat \<Rightarrow> inode \<Rightarrow> bool" where
  "copyable s i nd \<longleftrightarrow>
     plain_ikind (ikind nd) \<and> (ikind nd = KDir \<or> length (filter (\<lambda>e. snd e = i) (dents s)) \<le> 1) \<and>
     map_of (ixattrs nd) ''security.capability'' = None"

text \<open>The entry of the node at \<open>q\<close>: header and data.\<close>

definition packs :: "string list \<Rightarrow> inode \<Rightarrow> tarHeader \<times> string \<Rightarrow> bool" where
  "packs q nd e \<longleftrightarrow>
     hName (fst e) = canonicalTarName (join_slash q) (ikind nd = KDir) \<and> hTypeflag (fst e) = kind_flag (ikind nd) \<and>
     hMode (fst e) = ucast (iperm nd AND 0xFFF) \<and> hUid (fst e) = iuid nd \<and> hGid (fst e) = igid nd \<and>
     hModTime (fst e) = imtime nd div second * second \<and> hAccessTime (fst e) = zero_time \<and> hPAXRecords (fst e) = [] \<and>
     (case ikind nd of KSym t \<Rightarrow> hLinkname (fst e) = t | _ \<Rightarrow> True) \<and>
     snd e = (case ikind nd of KReg d \<Rightarrow> d | _ \<Rightarrow> [])"

definition link_of :: "inode \<Rightarrow> string" where
  "link_of nd = (case ikind nd of KSym t \<Rightarrow> t | _ \<Rightarrow> [])"

lemma FileInfoHeader_packs:
  assumes "plain_ikind (ikind nd)"
  shows "\<exists>hdr. FileInfoHeader h (join_slash q) (fileinfo s i nd) (link_of nd) = Inr hdr \<and>
    packs q nd (hdr, case ikind nd of KReg d \<Rightarrow> d | _ \<Rightarrow> []) \<and>
    hSize hdr = (case ikind nd of KReg d \<Rightarrow> word_of_int (int (length d)) | _ \<Rightarrow> 0)"
  using assms
  by (cases "ikind nd")
    (simp_all add: FileInfoHeader_def FileInfoHeaderNoLookups_def tar_FileInfoHeader_def sysStat_def Let_def
      chmodTarEntry_def fileinfo_def type_bits_and perm_of_inode packs_def link_of_def zeroHeader_def fi_is_dir_def mode_is_dir_def,
      simp_all add: mode_defs)

definition ready_appender :: "tarAppender \<Rightarrow> bool" where
  "ready_appender ta \<longleftrightarrow> twLeft (taWriter ta) = 0 \<and> taWhiteoutConverter ta = None \<and> taChownOpts ta = None \<and>
     imEmpty (taIdentityMapping ta)"

definition appended :: "tarHeader \<times> string \<Rightarrow> tarAppender \<Rightarrow> tarAppender" where
  "appended e ta = ta\<lparr>taWriter := (taWriter ta)\<lparr>twEntries := twEntries (taWriter ta) @ [e], twLeft := 0\<rparr>\<rparr>"


lemma kresolve_follow:
  assumes "kresolve h False path s = Inr p" and "node_at s p = Some nd" and "\<And>t. ikind nd \<noteq> KSym t"
  shows "kresolve h True path s = Inr p"
  using assms by (auto simp: kresolve_def map_sum_def split: if_splits sum.splits dest!: walk_follow)

lemma write_packed:
  assumes "packs q nd (hdr, d)" and "\<And>hdr. enc hdr = None" and "ready_appender ta"
  shows "onWriter (WriteHeader enc hdr) ta =
    (Inr (), ta\<lparr>taWriter := (taWriter ta)\<lparr>twEntries := twEntries (taWriter ta) @ [(hdr, [])],
      twLeft := (if header_only (hTypeflag hdr) then 0 else unat (hSize hdr))\<rparr>\<rparr>)"
proof -
  have "hTypeflag hdr = kind_flag (ikind nd)" using assms(1) by (simp add: packs_def)
  then have "hTypeflag hdr \<noteq> TypeOther 0" by (cases "ikind nd") simp_all
  then have w: "written_type hdr = hTypeflag hdr" by (simp add: written_type_def)
  then have "hdr\<lparr>hTypeflag := written_type hdr\<rparr> = hdr" by simp
  then show ?thesis using assms(2,3) w by (simp add: onWriter_def WriteHeader_def ready_appender_def)
qed

context host_reads
begin

lemma addTarFile_appends:
  assumes nf: "no_faults h s" and res: "kresolve h False path s = Inr p"
    and i: "ino_at s p = Some i" "inodes s i = Some nd" and nd: "copyable s i nd"
    and enc: "\<And>hdr. enc hdr = None" and ta: "ready_appender ta"
  shows "\<exists>e. packs q nd e \<and> addTarFile h enc s path (join_slash q) ta = (Inr (), appended e ta)"
proof -
  let ?fi = "fileinfo s i nd" and ?d = "case ikind nd of KReg d \<Rightarrow> d | _ \<Rightarrow> []"
  have plain: "plain_ikind (ikind nd)" using nd by (simp add: copyable_def)
  have node: "node_at s p = Some nd" using i by (simp add: node_at_def)
  obtain hdr where hdr: "FileInfoHeader h (join_slash q) ?fi (link_of nd) = Inr hdr" "packs q nd (hdr, ?d)"
    "hSize hdr = (case ikind nd of KReg d \<Rightarrow> word_of_int (int (length d)) | _ \<Rightarrow> 0)"
    using FileInfoHeader_packs [OF plain] by blast
  have stat: "fst (os_Lstat h path s) = Inr ?fi"
    using nf res i by (simp add: os_Lstat_def path_op_def no_faults_def p_stat_def)
  have link: "(if fi_is_symlink ?fi then readE (\<lambda>_. fst (os_Readlink h path s)) else ret []) ta = (Inr (link_of nd), ta)"
  proof (cases "ikind nd")
    case (KSym t)
    have "fst (os_Readlink h path s) = Inr t"
      using nf res node KSym by (simp add: os_Readlink_def path_op_def no_faults_def p_readlink_def)
    then show ?thesis by (simp add: readE_def link_of_def KSym)
  qed (simp_all add: link_of_def)
  have "lgetxattr h path ''security.capability'' s = Inr None"
    using nd by (simp add: lgetxattr_def getxattr_at [OF res node] lgetxattr_calls_value [of _ "map_of (ixattrs nd) ''security.capability''"] copyable_def)
  then have sec: "ReadSecurityXattrToTarHeader h path s hdr = Inr hdr" by (simp add: ReadSecurityXattrToTarHeader_def)
  have dir: "fi_is_dir ?fi \<longleftrightarrow> ikind nd = KDir" by simp
  have lnk: "linkEntry ?fi hdr ta = (Inr hdr, ta)"
    using nd unfolding linkEntry_def dir copyable_def by (auto simp: fileinfo_def)
  have own: "ownEntry ?fi hdr ta = Inr hdr" using ta by (simp add: ownEntry_def ready_appender_def)
  let ?ta = "ta\<lparr>taWriter := (taWriter ta)\<lparr>twEntries := twEntries (taWriter ta) @ [(hdr, [])],
      twLeft := (if header_only (hTypeflag hdr) then 0 else unat (hSize hdr))\<rparr>\<rparr>"
  obtain tb where tb: "tb = ?ta" by simp
  have "writeHeaders h enc s path ?fi hdr ta = (Inr hdr, tb)" unfolding tb
    using ta write_packed [OF hdr(2) enc ta] by (simp add: writeHeaders_def bindE_readE ready_appender_def bindE_def)
  then have run: "addTarFile h enc s path (join_slash q) ta =
      (if hTypeflag hdr = TypeReg \<and> 0 <s hSize hdr
       then bindE (readE (\<lambda>_. fst (os_OpenBody h path s))) (\<lambda>b. onWriter (copy_body b)) tb else (Inr (), tb))"
    unfolding addTarFile_def bindE_readE stat sum.case bindE_Inr [where m = "if fi_is_symlink ?fi then _ else _", OF link] ToSlash_def hdr(1) sec
    by (simp add: bindE_Inr [where m = "linkEntry ?fi hdr", OF lnk] bindE_readE own bindE_Inr [where m = "writeHeaders h enc s path ?fi hdr"])
  have "(Inr (), appended (hdr, ?d) ta) = addTarFile h enc s path (join_slash q) ta"
  proof (cases "ikind nd")
    case (KReg d)
    have t: "hTypeflag hdr = TypeReg" using hdr(2) KReg by (simp add: packs_def)
    have sz: "hSize hdr = word_of_int (int (length d))" "int (length d) < 2 ^ 63" using hdr(3) plain KReg by simp_all
    have u: "unat (hSize hdr) = length d" using sz(2) unfolding sz(1) unat_eq_nat_uint uint_word_of_int by simp
    show ?thesis
    proof (cases "d = []")
      case True
      then show ?thesis using t sz u KReg by (simp add: run tb appended_def)
    next
      case False
      have pos: "0 <s hSize hdr" unfolding sz(1) using signed_pos [of "int (length d)"] sz(2) False by simp
      have "kresolve h True path s = Inr p" using kresolve_follow [OF res node] KReg by simp
      then have "fst (os_OpenBody h path s) = Inr \<lparr>bData = d, bErr = None\<rparr>"
        using nf node KReg by (simp add: os_OpenBody_def path_op_def no_faults_def)
      then show ?thesis using t pos u KReg
        by (simp add: run tb bindE_readE onWriter_def copy_body_def tar_Write_def Let_def append_last_def appended_def)
    qed
  qed (use hdr(2) in \<open>simp_all add: run tb packs_def appended_def\<close>)
  with hdr(2) show ?thesis by metis
qed

end


section \<open>The walk\<close>

lemma signal_id:
  assumes "no_skip m"
  shows "bindE (tryE m) (\<lambda>r. case r of Inl SkipDir \<Rightarrow> x | Inl e \<Rightarrow> fail e | Inr (_ :: unit) \<Rightarrow> y) = bindE m (\<lambda>_. y)"
proof
  fix st
  obtain r st' where r: "m st = (r, st')" by (cases "m st")
  then have "r \<noteq> Inl SkipDir" using assms unfolding no_skip_def by (metis fst_conv)
  then show "bindE (tryE m) (\<lambda>r. case r of Inl SkipDir \<Rightarrow> x | Inl e \<Rightarrow> fail e | Inr (_ :: unit) \<Rightarrow> y) st = bindE m (\<lambda>_. y) st"
    using r by (auto simp: bindE_def tryE_def split: sum.split wsignal.split)
qed

lemma walk_entries_foreach:
  "(\<And>n d. no_skip (f n d)) \<Longrightarrow> walk_entries f es = foreachE (\<lambda>(n, d). f n d) es"
proof (induction es)
  case (Cons e es)
  then show ?case by (cases e) (simp add: signal_id del: ret_run)
qed simp

lemma try_readE: "bindE (tryE (readE (\<lambda>_. r))) f = f r"
  by (simp add: fun_eq_iff bindE_def tryE_def readE_def)

lemma no_skip_try: "no_skip (tryE m)"
  by (simp add: no_skip_def tryE_def split: prod.split)

lemma no_skip_walkDir: "(\<And>p d e. no_skip (fn p d e)) \<Longrightarrow> no_skip (walkDir n rd fn path d)"
proof (induction n arbitrary: path d)
  case (Suc n)
  have w: "no_skip (walk_entries (\<lambda>nm. walkDir n rd fn (Join [path, nm])) es)" for es
    by (simp add: walk_entries_foreach [OF Suc.IH [OF Suc.prems]]) (rule no_skip_foreach, use Suc.IH [OF Suc.prems] in auto)
  have "no_skip (if \<not> d then ret ()
           else bindE (tryE (rd path)) (\<lambda>dirs.
               case dirs of
                 Inl err \<Rightarrow> bindE (fn path d (Some err)) (\<lambda>_. ret ())
               | Inr es \<Rightarrow> walk_entries (\<lambda>nm. walkDir n rd fn (Join [path, nm])) es))"
    by (auto simp: w Suc.prems no_skip_def [of "ret _"] no_skip_try split: sum.split intro!: no_skip_bind)
  then show ?case by (simp only: walkDir.simps signal_id [OF Suc.prems]) (rule no_skip_bind, simp_all add: Suc.prems)
qed (simp add: no_skip_def)

lemma tl_walk_list:
  "tl (walk_list (Suc n) s b q) = (if dir_at s (b @ q) then concat (map (\<lambda>c. walk_list n s b (q @ [c])) (children s (b @ q))) else [])"
  by simp

lemma walkDir_order:
  assumes t: "tree_ok s" and nf: "no_faults h s" and d: "dirs_to s (hRoot h) p"
    and names: "list_all is_name p" and ns: "\<And>p d e. no_skip (fn p d e)"
  shows "deep_enough s (hRoot h @ p) q n \<Longrightarrow> ino_at s (hRoot h @ p @ q) \<noteq> None \<Longrightarrow>
    (\<And>c. is_name c \<Longrightarrow> Join [path, c] = abs_path (p @ q @ [c])) \<Longrightarrow>
    (dir_at s (hRoot h @ p @ q) \<Longrightarrow> kresolve h True path s = Inr (hRoot h @ p @ q)) \<Longrightarrow>
    walkDir n (\<lambda>p. readE (\<lambda>_. fst (os_ReadDir h p s))) fn path (dir_at s (hRoot h @ p @ q)) =
      bindE (fn path (dir_at s (hRoot h @ p @ q)) None)
        (\<lambda>_. foreachE (\<lambda>q. fn (abs_path (p @ q)) (dir_at s (hRoot h @ p @ q)) None) (tl (walk_list n s (hRoot h @ p) q)))"
proof (induction n arbitrary: q path)
  case 0
  then have "ino_at s ((hRoot h @ p) @ q @ []) = None" unfolding deep_enough_def by blast
  then show ?case using 0 by simp
next
  case (Suc n)
  let ?b = "hRoot h @ p" and ?rd = "\<lambda>p. readE (\<lambda>_ :: 'a. fst (os_ReadDir h p s))"
  let ?visit = "\<lambda>q. fn (abs_path (p @ q)) (dir_at s (hRoot h @ p @ q)) None"
  have qn: "list_all is_name q" using below_names [OF t, of ?b q] Suc.prems(2) by simp
  show ?case
  proof (cases "dir_at s (?b @ q)")
    case False
    then show ?thesis
      by (simp only: walkDir.simps signal_id [OF ns] tl_walk_list append_assoc if_False if_True not_False_eq_True foreachE.simps)
  next
    case True
    have dq: "dirs_to s (hRoot h) (p @ q)" using dirs_to_dir [OF t d] True by simp
    obtain nd where nd: "node_at s (?b @ q) = Some nd" "ikind nd = KDir" using True by (auto simp: dir_at_node)
    have rd: "fst (os_ReadDir h path s) = Inr (map (\<lambda>n. (n, dir_at s (?b @ q @ [n]))) (children s (?b @ q)))"
      using nf Suc.prems(4) True nd by (simp add: os_ReadDir_def path_op_def no_faults_def p_readdir_def)
    have child: "walkDir n ?rd fn (Join [path, c]) (dir_at s (?b @ q @ [c])) = foreachE ?visit (walk_list n s ?b (q @ [c]))"
      if "c \<in> set (children s (?b @ q))" for c
    proof -
      have ci: "ino_at s (?b @ q @ [c]) \<noteq> None" using that by (simp add: set_children)
      then have cn: "is_name c" using tree_ok_snoc [OF t, of "?b @ q" c] by simp
      have deep: "deep_enough s ?b (q @ [c]) n" by (rule deep_enough_child [OF Suc.prems(1)])
      then obtain m where m: "n = Suc m" using ci by (cases n) (auto simp: deep_enough_def dest: spec [of _ "[]"])
      have "kresolve h True (abs_path (p @ q @ [c])) s = Inr (hRoot h @ p @ q @ [c])" if "dir_at s (hRoot h @ p @ q @ [c])"
        using kresolve_dirs [of s h "p @ q @ [c]" True] dirs_to_dir [OF t d, of "q @ [c]"] that names qn cn by simp
      moreover have "Join [abs_path (p @ q @ [c]), e] = abs_path (p @ (q @ [c]) @ [e])" if "is_name e" for e
        using Join_abs [of "p @ q @ [c]" e] that names qn cn by simp
      ultimately have "walkDir n ?rd fn (abs_path (p @ q @ [c])) (dir_at s (hRoot h @ p @ q @ [c])) =
          bindE (?visit (q @ [c])) (\<lambda>_. foreachE ?visit (tl (walk_list n s ?b (q @ [c]))))"
        by (intro Suc.IH [OF deep]) (use ci in simp_all)
      then show ?thesis using Suc.prems(3) [OF cn] m by simp
    qed
    have "walkDir (Suc n) ?rd fn path True =
        bindE (fn path True None) (\<lambda>_. foreachE (\<lambda>(c, d). walkDir n ?rd fn (Join [path, c]) d)
          (map (\<lambda>n. (n, dir_at s (?b @ q @ [n]))) (children s (?b @ q))))"
      unfolding walkDir.simps signal_id [OF ns] rd try_readE sum.case walk_entries_foreach [OF no_skip_walkDir [OF ns]] by simp
    also have "\<dots> = bindE (fn path True None) (\<lambda>_. foreachE (\<lambda>c. foreachE ?visit (walk_list n s ?b (q @ [c]))) (children s (?b @ q)))"
      using foreachE_cong [of "children s (?b @ q)", OF child] by (simp add: foreachE_map)
    finally show ?thesis using True unfolding tl_walk_list foreachE_concat append_assoc by (simp only: if_True)
  qed
qed


text \<open>The walk starts at the directory with a dot after it.\<close>

lemma walk_root:
  assumes "list_all is_name p"
  shows "getWalkRoot (abs_path p) dot = abs_path (p @ [dot])" and "Rel (abs_path p) (abs_path (p @ [dot])) = Some dot"
    and "is_name c \<Longrightarrow> Join [abs_path (p @ [dot]), c] = abs_path (p @ [c])"
proof -
  have comp: "is_comp dot" "list_all is_comp (p @ [dot])" using names_are_comps [OF assms] by (simp_all add: is_comp_def)
  have c: "comps (abs_path (p @ [dot])) = p @ [dot]"
    unfolding abs_path_def by (rule comps_abs_render [OF comp(2)])
  have clean: "Clean x = render (IsAbs x) (clean_stack (IsAbs x) [] (comps x))" for x
    by (simp add: Clean_def comps_def clean_stack_comps)
  have st: "clean_stack True [] (p @ dot # q) = p @ q" if "list_all is_name q" for q
    using clean_stack_names [OF assms, of True "[]" "dot # q"] clean_stack_names [OF that, of True p "[]"] by simp
  show "getWalkRoot (abs_path p) dot = abs_path (p @ [dot])"
  proof (cases "p = []")
    case False
    then have l: "abs_path p \<noteq> []" "last (abs_path p) \<noteq> slash"
    proof -
      obtain q n where q: "p = q @ [n]" using False by (metis append_butlast_last_id)
      then have n: "n \<noteq> []" "slash \<notin> set n" using assms by (simp_all add: is_name_def is_comp_def)
      then show "last (abs_path p) \<noteq> slash" using n last_in_set [of n] by (metis q abs_path_snoc last_append last_ConsR list.distinct(1))
    qed (simp add: abs_path_def render_def)
    then have "\<not> HasSuffix (abs_path p) [slash]" by (cases "rev (abs_path p)") (auto simp: HasSuffix_def)
    then show ?thesis using False by (simp add: getWalkRoot_def TrimSuffix_def abs_path_snoc)
  qed (simp add: getWalkRoot_def abs_path_snoc, code_simp)
  have "Clean (abs_path (p @ [dot])) = abs_path p"
    using st [of "[]"] by (simp add: clean c IsAbs_abs) (simp add: abs_path_def)
  then show "Rel (abs_path p) (abs_path (p @ [dot])) = Some dot" by (simp add: Rel_def Clean_abs [OF assms])
  assume n: "is_name c"
  then have "Join [abs_path (p @ [dot]), c] = Clean (abs_path (p @ [dot]) @ slash # c)"
    by (auto simp: Join_def abs_path_def render_def is_name_def is_comp_def)
  also have "\<dots> = render True (clean_stack True [] (comps (abs_path (p @ [dot]) @ slash # c)))"
    unfolding clean by (simp add: abs_path_def render_def)
  also have "comps (abs_path (p @ [dot]) @ slash # c) = p @ dot # [c]"
    using n by (simp add: comps_append_slash c comps_single is_name_def)
  finally show "Join [abs_path (p @ [dot]), c] = abs_path (p @ [c])" using st [of "[c]"] n by (simp add: abs_path_def)
qed

lemma kresolve_walk_root:
  assumes "list_all is_name p" and "dirs_to s (hRoot h) p"
  shows "kresolve h f (abs_path (p @ [dot])) s = Inr (hRoot h @ p)"
proof -
  have "list_all is_comp (p @ [dot])" using names_are_comps [OF assms(1)] by (simp add: is_comp_def)
  then have split: "split_slash (abs_path (p @ [dot])) = [] # p @ [dot]"
    using split_join_comps [of "p @ [dot]"] by (simp add: abs_path_def render_def)
  have "walk s InRoot (hRoot h) f (hLinks h) [] ([] # p @ [dot]) = Inr p"
    using walk_dirs [of s "hRoot h" "[]" p InRoot f "hLinks h" "[dot]"] assms by (simp add: walk_skip)
  then show ?thesis unfolding kresolve_def split by (simp add: abs_path_def render_def)
qed


text \<open>A matcher without patterns lets everything through.\<close>

definition lets_all :: "'m patternMatcher \<Rightarrow> bool" where
  "lets_all pm \<longleftrightarrow> (\<forall>rel m. \<exists>m'. pmMatches pm rel m = Inr (False, m'))"

lemma matchEntry_lets:
  "lets_all pm \<Longrightarrow> \<exists>ps'. onParents (matchEntry pm incl rel d) st = (Inr False, st\<lparr>psParents := ps'\<rparr>)"
proof -
  assume l: "lets_all pm"
  obtain m' where "pmMatches pm rel (if popParents rel (psParents st) \<noteq> [] then snd (last (popParents rel (psParents st))) else pmZero pm)
      = Inr (False, m')" using l unfolding lets_all_def by blast
  then show ?thesis
    by (cases "incl = rel") (auto simp: onParents_def matchEntry_def Let_def intro: exI [of _ "psParents st"])
qed

lemma no_skip_tarVisit:
  assumes "lets_all pm"
  shows "no_skip (tarVisit g s pm opts srcPath incl path d e)"
proof -
  have w: "no_skip (\<lambda>st. if rel \<in> set (psSeen st) then (Inr (), st)
                     else bindE (tryE m) (\<lambda>r. case r of
                           Inr _ \<Rightarrow> ret ()
                         | Inl e \<Rightarrow> if is_closed_pipe e \<or> is_panic e then fail (WalkErr e) else ret ())
                         (st\<lparr>psSeen := rel # psSeen st\<rparr>))" for rel and m :: "('a packState, goerror, unit) io"
    by (simp add: no_skip_def bindE_def tryE_def split: prod.split sum.split)
  have "no_skip (bindE (onParents (matchEntry pm incl rel d)) (\<lambda>skip. if skip then f else g))"
    if "no_skip g" for rel f and g :: "('a packState, wsignal, unit) io"
  proof (unfold no_skip_def, intro allI)
    fix st
    obtain ps' where "onParents (matchEntry pm incl rel d) st = (Inr False, st\<lparr>psParents := ps'\<rparr>)"
      using matchEntry_lets [OF assms] by blast
    then show "fst (bindE (onParents (matchEntry pm incl rel d)) (\<lambda>skip. if skip then f else g) st) \<noteq> Inl SkipDir"
      using that by (simp add: bindE_def no_skip_def)
  qed
  note m = this [OF w]
  show ?thesis
  proof (cases e; cases "Rel srcPath path")
    fix rel assume *: "e = None" "Rel srcPath path = Some rel"
    obtain r where r: "(if oIncludeSourceDir opts \<and> incl = dot \<and> rel \<noteq> dot then dot @ [slash] @ rel else rel) = r" by simp
    show ?thesis unfolding tarVisit_def * prod.case option.case Let_def r
      by (cases "\<not> oIncludeSourceDir opts \<and> rel = dot \<and> d") (simp add: no_skip_def, simp only: if_False, rule m)
  qed (simp_all add: tarVisit_def no_skip_def)
qed

context host_reads
begin

lemma tarVisit_packs:
  assumes g: "eHost g = h" "\<And>hdr. eEnc g hdr = None" and nf: "no_faults h s" and pm: "lets_all pm"
    and opts: "\<not> oIncludeSourceDir opts" "oRebaseNames opts = []"
    and names: "list_all is_name p" "list_all is_name q" "q \<noteq> []" and d: "dirs_to s (hRoot h) (p @ butlast q)"
    and i: "ino_at s (hRoot h @ p @ q) = Some i" "inodes s i = Some nd" and nd: "copyable s i nd"
    and st: "ready_appender (psAppender st)" "join_slash q \<notin> set (psSeen st)"
  shows "\<exists>e st'. packs q nd e \<and> tarVisit g s pm opts (abs_path p) dot (abs_path (p @ q)) isd None st = (Inr (), st') \<and>
    psAppender st' = appended e (psAppender st) \<and> psSeen st' = join_slash q # psSeen st"
proof -
  have rel: "Rel (abs_path p) (abs_path (p @ q)) = Some (join_slash q)"
    using Rel_below [OF names(1,2)] names(3) by (simp add: abs_path_def)
  have ne: "join_slash q \<noteq> dot"
  proof
    assume "join_slash q = dot"
    then have "comps (join_slash q) = [dot]" by (simp add: comps_single is_comp_def)
    then show False using comps_join_names names by (auto simp: is_name_def)
  qed
  obtain ps' where m: "onParents (matchEntry pm dot (join_slash q) isd) st = (Inr False, st\<lparr>psParents := ps'\<rparr>)"
    using matchEntry_lets [OF pm] by blast
  have "kresolve h False (abs_path (p @ q)) s = Inr (hRoot h @ p @ q)"
  proof -
    have "list_all is_name (p @ butlast q)" "is_name (last q)" using names by (auto simp: list_all_iff dest: in_set_butlastD)
    from kresolve_abs [OF d this, of False] show ?thesis using names(3) by simp
  qed
  from addTarFile_appends [of s _ _ i nd "eEnc g" _ q, OF nf this i nd g(2) st(1)] obtain e where
    e: "packs q nd e" "addTarFile h (eEnc g) s (abs_path (p @ q)) (join_slash q) (psAppender st) = (Inr (), appended e (psAppender st))"
    by blast
  have name: "rebaseName opts dot (join_slash q) = join_slash q" using opts by (simp add: rebaseName_def)
  have "tarVisit g s pm opts (abs_path p) dot (abs_path (p @ q)) isd None st =
      (Inr (), st\<lparr>psParents := ps', psSeen := join_slash q # psSeen st, psAppender := appended e (psAppender st)\<rparr>)"
    using st(2) opts(1) ne unfolding tarVisit_def rel option.case prod.case
    by (simp add: Let_def bindE_def m name g(1) onAppender_def tryE_def e(2))
  with e(1) show ?thesis by (intro exI conjI) auto
qed

end


section \<open>The order of the entries\<close>

lemma distinct_concat_map:
  assumes "distinct cs" and "\<And>c. c \<in> set cs \<Longrightarrow> distinct (f c)"
    and "\<And>c d. c \<in> set cs \<Longrightarrow> d \<in> set cs \<Longrightarrow> c \<noteq> d \<Longrightarrow> set (f c) \<inter> set (f d) = {}"
  shows "distinct (concat (map f cs))"
  using assms by (induction cs) fastforce+

lemma walk_list_prefix: "r \<in> set (walk_list n s b q) \<Longrightarrow> prefix q r"
  by (induction n arbitrary: q) (auto split: if_splits dest!: append_prefixD)

lemma distinct_walk_list: "distinct (walk_list n s b q)"
proof (induction n arbitrary: q)
  case (Suc n)
  let ?f = "\<lambda>c. walk_list n s b (q @ [c])"
  have "c = d" if "r \<in> set (?f c)" "r \<in> set (?f d)" for c d r
    using walk_list_prefix [OF that(1)] walk_list_prefix [OF that(2)] by (auto simp: prefix_def)
  then have "distinct (concat (map ?f (children s (b @ q))))"
    by (intro distinct_concat_map) (use Suc in auto)
  moreover have "q \<notin> set (?f c)" for c
    using walk_list_prefix [of q n s b "q @ [c]"] by (auto simp: prefix_def)
  ultimately show ?case by auto
qed simp

text \<open>\<open>parents_first\<close> on paths, \<open>T\<close> telling which are directories.\<close>

fun paths_first :: "(string list \<Rightarrow> bool) \<Rightarrow> (string list \<Rightarrow> bool) \<Rightarrow> string list list \<Rightarrow> bool" where
  "paths_first T D [] = True"
| "paths_first T D (q # qs) = (D (butlast q) \<and> paths_first T (if T q then D(q := True) else D) qs)"

lemma paths_first_mono: "paths_first T D qs \<Longrightarrow> (\<And>q. D q \<Longrightarrow> E q) \<Longrightarrow> paths_first T E qs"
proof (induction qs arbitrary: D E)
  case (Cons q qs)
  have "paths_first T (if T q then E(q := True) else E) qs"
    by (rule Cons.IH [where D = "if T q then D(q := True) else D"]) (use Cons.prems in \<open>auto split: if_splits\<close>)
  then show ?case using Cons.prems by simp
qed simp

lemma paths_first_append: "paths_first T D xs \<Longrightarrow> paths_first T D ys \<Longrightarrow> paths_first T D (xs @ ys)"
proof (induction xs arbitrary: D)
  case (Cons q xs)
  have "paths_first T (if T q then D(q := True) else D) ys"
    by (rule paths_first_mono [OF Cons.prems(2)]) simp
  then show ?case using Cons by simp
qed simp

lemma paths_first_concat: "(\<And>c. c \<in> set cs \<Longrightarrow> paths_first T D (f c)) \<Longrightarrow> paths_first T D (concat (map f cs))"
  by (induction cs) (simp_all add: paths_first_append)

lemma walk_list_first: "D (butlast q) \<Longrightarrow> paths_first (\<lambda>q. dir_at s (b @ q)) D (walk_list n s b q)"
proof (induction n arbitrary: q D)
  case (Suc n)
  show ?case
  proof (cases "dir_at s (b @ q)")
    case True
    have "paths_first (\<lambda>q. dir_at s (b @ q)) (D(q := True)) (concat (map (\<lambda>c. walk_list n s b (q @ [c])) (children s (b @ q))))"
      by (rule paths_first_concat) (rule Suc.IH, simp)
    then show ?thesis using Suc.prems True by simp
  qed (use Suc.prems in simp)
qed simp

lemma tl_walk_list_first:
  assumes "D []"
  shows "paths_first (\<lambda>q. dir_at s (b @ q)) D (tl (walk_list n s b []))"
proof (cases n)
  case (Suc m)
  have "paths_first (\<lambda>q. dir_at s (b @ q)) D (concat (map (\<lambda>c. walk_list m s b ([] @ [c])) (children s (b @ []))))"
    by (rule paths_first_concat) (rule walk_list_first, simp add: assms)
  then show ?thesis by (simp add: Suc)
qed simp

text \<open>The path of an entry is the one it was made from.\<close>

definition as_read :: "tarHeader \<times> string \<Rightarrow> tarHeader \<times> body" where
  "as_read e = (fst e, \<lparr>bData = snd e, bErr = None\<rparr>)"

lemma epath_packed:
  assumes "packs q nd e" and "list_all is_name q" and "q \<noteq> []"
  shows "epath (as_read e) = q"
proof -
  have j: "join_slash q = c # cs \<Longrightarrow> c \<noteq> slash" for c cs
    using assms(2,3) by (cases q; cases "hd q"; cases "tl q") (auto simp: is_name_def is_comp_def)
  have ne: "join_slash q \<noteq> []" using assms(2,3) by (simp add: join_slash_eq_Nil names_are_comps)
  then obtain c cs where c: "join_slash q = c # cs" by (cases "join_slash q") auto
  have strip: "TrimLeft (join_slash q @ x) slash = join_slash q @ x" for x using j [OF c] by (simp add: TrimLeft_def c)
  have "Clean (join_slash q @ [slash]) = join_slash q" using Clean_slash [of "join_slash q"] Clean_names [OF assms(2,3)] by simp
  moreover have "hName (fst e) = join_slash q \<or> hName (fst e) = join_slash q @ [slash]"
    using assms(1) by (simp add: packs_def canonicalTarName_def ToSlash_def Let_def)
  ultimately have "Clean (TrimLeft (hName (fst e)) slash) = join_slash q"
    using strip [of "[]"] strip [of "[slash]"] Clean_names [OF assms(2,3)] by auto
  then show ?thesis using assms(2) by (simp add: epath_def as_read_def)
qed

lemma parents_first_packed:
  "list_all2 (\<lambda>q e. q \<noteq> [] \<and> epath e = q \<and> (hTypeflag (fst e) = TypeDir \<longleftrightarrow> T q)) qs es \<Longrightarrow> paths_first T D qs \<Longrightarrow> parents_first D es"
proof (induction qs es arbitrary: D rule: list_all2_induct)
  case (Cons q qs e es)
  have e: "epath e = q" "(hTypeflag (fst e) = TypeDir) = T q" using Cons.hyps by blast+
  have "parents_first (if T q then D(q := True) else D) es" by (rule Cons.IH) (use Cons.prems in simp)
  then show ?case using Cons.prems unfolding parents_first.simps e by simp
qed simp


section \<open>The archive of a directory\<close>

definition copyable_tree :: "fsys \<Rightarrow> loc \<Rightarrow> bool" where
  "copyable_tree s b \<longleftrightarrow>
     (\<forall>q i nd. q \<noteq> [] \<longrightarrow> ino_at s (b @ q) = Some i \<longrightarrow> inodes s i = Some nd \<longrightarrow> copyable s i nd)"

definition recorded :: "fsys \<Rightarrow> loc \<Rightarrow> string list \<Rightarrow> tarHeader \<times> string \<Rightarrow> bool" where
  "recorded s b q e \<longleftrightarrow> (\<exists>nd. node_at s (b @ q) = Some nd \<and> packs q nd e)"

lemma append_appended: "twEntries (taWriter (appended e ta)) = twEntries (taWriter ta) @ [e]"
  "ready_appender ta \<Longrightarrow> ready_appender (appended e ta)"
  by (simp_all add: appended_def ready_appender_def)

context host_reads
begin

lemma visits_pack:
  assumes g: "eHost g = h" "\<And>hdr. eEnc g hdr = None" and nf: "no_faults h s" and t: "tree_ok s" and pm: "lets_all pm"
    and opts: "\<not> oIncludeSourceDir opts" "oRebaseNames opts = []" and p: "plain_dir h s p" and c: "copyable_tree s (hRoot h @ p)"
  shows "distinct qs \<Longrightarrow> (\<And>q. q \<in> set qs \<Longrightarrow> q \<noteq> [] \<and> ino_at s (hRoot h @ p @ q) \<noteq> None) \<Longrightarrow>
    join_slash ` set qs \<inter> set (psSeen st) = {} \<Longrightarrow> ready_appender (psAppender st) \<Longrightarrow>
    \<exists>es st'. foreachE (\<lambda>q. tarVisit g s pm opts (abs_path p) dot (abs_path (p @ q)) (dir_at s (hRoot h @ p @ q)) None) qs st = (Inr (), st') \<and>
      list_all2 (recorded s (hRoot h @ p)) qs es \<and> ready_appender (psAppender st') \<and>
      twEntries (taWriter (psAppender st')) = twEntries (taWriter (psAppender st)) @ es"
proof (induction qs arbitrary: st)
  case Nil
  then show ?case by (intro exI [of _ "[]"] exI [of _ st]) simp
next
  case (Cons q qs)
  have pn: "list_all is_name p" and dp: "dirs_to s (hRoot h) p" using p by (simp_all add: plain_dir_def)
  have q: "q \<noteq> []" "ino_at s ((hRoot h @ p) @ q) \<noteq> None" using Cons.prems(2) [of q] by simp_all
  have names: "list_all is_name x" if "x \<in> set (q # qs)" for x
    using below_names [OF t, of "hRoot h @ p" x] Cons.prems(2) [OF that] by simp
  have dirs: "dirs_to s (hRoot h) (p @ butlast q)"
    using dp below_dirs_to [OF t q(2,1)] by (simp add: dirs_to_append)
  obtain i nd where i: "ino_at s (hRoot h @ p @ q) = Some i" "inodes s i = Some nd"
    using q(2) tree_okD(1) [OF t] by fastforce
  have nd: "copyable s i nd" using c i q(1) by (simp add: copyable_tree_def)
  have seen: "join_slash q \<notin> set (psSeen st)" using Cons.prems(3) by auto
  have qn: "list_all is_name q" by (rule names) simp
  note visit = tarVisit_packs [where isd = "dir_at s (hRoot h @ p @ q)", OF g nf pm opts pn qn q(1) dirs i nd Cons.prems(4) seen]
  obtain e st1 where
    1: "packs q nd e" "tarVisit g s pm opts (abs_path p) dot (abs_path (p @ q)) (dir_at s (hRoot h @ p @ q)) None st = (Inr (), st1)"
    "psAppender st1 = appended e (psAppender st)" "psSeen st1 = join_slash q # psSeen st" using visit by blast
  have new: "join_slash q \<noteq> join_slash x" if "x \<in> set qs" for x
  proof
    assume "join_slash q = join_slash x"
    then have "comps (join_slash q) = comps (join_slash x)" by (rule arg_cong)
    moreover have "list_all is_name x" by (rule names) (simp add: that)
    ultimately have "q = x" using qn by (simp only: comps_join_names)
    then show False using that Cons.prems(1) by simp
  qed
  have "join_slash ` set qs \<inter> set (psSeen st1) = {}" using Cons.prems(3) new unfolding 1(4) by auto
  moreover have "ready_appender (psAppender st1)" using 1(3) append_appended(2) [OF Cons.prems(4)] by simp
  moreover have "distinct qs" "\<And>q. q \<in> set qs \<Longrightarrow> q \<noteq> [] \<and> ino_at s (hRoot h @ p @ q) \<noteq> None" using Cons.prems(1,2) by simp_all
  ultimately obtain es st2 where
    2: "foreachE (\<lambda>q. tarVisit g s pm opts (abs_path p) dot (abs_path (p @ q)) (dir_at s (hRoot h @ p @ q)) None) qs st1 = (Inr (), st2)"
      "list_all2 (recorded s (hRoot h @ p)) qs es" "ready_appender (psAppender st2)"
      "twEntries (taWriter (psAppender st2)) = twEntries (taWriter (psAppender st1)) @ es"
    using Cons.IH [of st1] by blast
  have "recorded s (hRoot h @ p) q e" using 1(1) i by (auto simp: recorded_def node_at_def)
  then show ?case using 1(2) 2 append_appended(1) [of e "psAppender st"] 1(3)
    by (intro exI [of _ "e # es"] exI [of _ st2]) (simp add: bindE_Inr)
qed

end


text \<open>The names below a directory, each directory before what is in it.\<close>

definition names_below :: "fsys \<Rightarrow> loc \<Rightarrow> string list list" where
  "names_below s b = tl (walk_list (walk_depth s) s b [])"

lemma names_below:
  assumes t: "tree_ok s" and d: "dir_at s b"
  shows "distinct (names_below s b)" "set (names_below s b) = {q. q \<noteq> [] \<and> ino_at s (b @ q) \<noteq> None}"
    "D [] \<Longrightarrow> paths_first (\<lambda>q. dir_at s (b @ q)) D (names_below s b)"
proof -
  have deep: "deep_enough s b [] (walk_depth s)"
    using walk_depth_enough [of s "b @ _"] by (fastforce simp: deep_enough_def)
  have "set (walk_list (walk_depth s) s b []) = {q. ino_at s (b @ q) \<noteq> None}"
    using set_walk_list [OF t deep] dir_at_ino [OF d] by simp
  moreover have "walk_list (Suc m) s b [] = [] # tl (walk_list (Suc m) s b [])" for m by simp
  then have w: "walk_list (walk_depth s) s b [] = [] # names_below s b" by (simp only: names_below_def walk_depth_def)
  moreover have dw: "distinct (walk_list (walk_depth s) s b [])" by (rule distinct_walk_list)
  ultimately have "insert [] (set (names_below s b)) = {q. ino_at s (b @ q) \<noteq> None}" "[] \<notin> set (names_below s b)"
    by simp_all
  then show "set (names_below s b) = {q. q \<noteq> [] \<and> ino_at s (b @ q) \<noteq> None}" by blast
  show "distinct (names_below s b)" using dw w by simp
  show "D [] \<Longrightarrow> paths_first (\<lambda>q. dir_at s (b @ q)) D (names_below s b)"
    unfolding names_below_def by (rule tl_walk_list_first)
qed

definition plain_tarballer :: "'m tarballer \<Rightarrow> bool" where
  "plain_tarballer t \<longleftrightarrow>
     oIncludeFiles (tbOptions t) = [] \<and> \<not> oIncludeSourceDir (tbOptions t) \<and> oRebaseNames (tbOptions t) = [] \<and>
     imEmpty (oIDMap (tbOptions t)) \<and> oChownOpts (tbOptions t) = None \<and> tbWhiteoutConverter t = None \<and> lets_all (tbPm t)"

context host_reads
begin

lemma Do_packs:
  assumes g: "eHost g = h" "\<And>hdr. eEnc g hdr = None" and nf: "no_faults h s" and t: "tree_ok s"
    and p: "plain_dir h s p" and c: "copyable_tree s (hRoot h @ p)"
    and tb: "plain_tarballer tb" "tbSrcPath tb = abs_path p"
  shows "\<exists>es. tarball_Do g tb s = Inr \<lparr>twEntries = es, twLeft = 0, twTrailer = True\<rparr> \<and>
    list_all2 (recorded s (hRoot h @ p)) (names_below s (hRoot h @ p)) es"
proof -
  let ?b = "hRoot h @ p" and ?opts = "tbOptions tb" and ?w = "abs_path (p @ [dot])"
  let ?ta = "(newTarAppender (oIDMap ?opts) (oChownOpts ?opts))\<lparr>taWhiteoutConverter := tbWhiteoutConverter tb\<rparr>"
  let ?st = "\<lparr>psAppender = ?ta, psSeen = [], psParents = []\<rparr>"
  let ?fn = "tarVisit g s (tbPm tb) ?opts (abs_path p) dot"
  have pn: "list_all is_name p" and dp: "dirs_to s (hRoot h) p" and dir: "dir_at s ?b" using p by (simp_all add: plain_dir_def)
  have lets: "lets_all (tbPm tb)" and opts: "\<not> oIncludeSourceDir ?opts" "oRebaseNames ?opts = []" using tb by (simp_all add: plain_tarballer_def)
  have ta: "ready_appender ?ta" using tb by (simp add: ready_appender_def newTarAppender_def newTarWriter_def plain_tarballer_def)
  note below = names_below [OF t dir]
  obtain es st' where run: "foreachE (\<lambda>q. ?fn (abs_path (p @ q)) (dir_at s (hRoot h @ p @ q)) None) (names_below s ?b) ?st = (Inr (), st')"
    and es: "list_all2 (recorded s ?b) (names_below s ?b) es" "ready_appender (psAppender st')"
      "twEntries (taWriter (psAppender st')) = es"
    using visits_pack [OF g nf t lets opts p c below(1), of ?st] ta below(2) by (auto simp: newTarAppender_def newTarWriter_def)
  obtain fi where fi: "fst (os_Lstat h (abs_path p) s) = Inr fi" "fi_is_dir fi" "fst (os_Lstat h ?w s) = Inr fi"
  proof -
    obtain fi where i: "info_at s ?b = Some fi" "fst (os_Lstat h (abs_path p) s) = Inr fi"
      using plain_dir_Lstat [OF p nf t] by auto
    then have "fst (os_Lstat h ?w s) = Inr fi"
      using os_Lstat_abs [OF nf kresolve_walk_root [OF pn dp, of False]] by (auto simp: info_at_def split: option.splits)
    then show ?thesis using that i info_at_dir [of s ?b] dir by simp
  qed
  have deep: "deep_enough s ?b [] (walk_depth s)"
    using walk_depth_enough [of s "?b @ _"] by (fastforce simp: deep_enough_def)
  have "?fn ?w True None = ret ()"
    using opts by (simp add: tarVisit_def walk_root(2) [OF pn])
  then have walk: "walkDir (walk_depth s) (\<lambda>p. readE (\<lambda>_. fst (os_ReadDir h p s))) ?fn ?w True ?st = (Inr (), st')"
    using walkDir_order [where fn = ?fn and path = ?w, OF t nf dp pn no_skip_tarVisit [OF lets] deep] dir dir_at_ino [OF dir]
      walk_root(3) [OF pn] kresolve_walk_root [OF pn dp, of True] run
    by (simp add: names_below_def)
  have "tarWalk g s (tbPm tb) ?opts (abs_path p) dot ?st = (Inr (), st')"
    using fi walk by (simp add: tarWalk_def WalkDir_in_def walk_root(1) [OF pn] g(1) readE_def)
  then have "includeLoop g s (tbPm tb) ?opts (abs_path p) [dot] ?st = (Inr (), st')"
    by (simp add: bindE_def tryE_def)
  then have "tarball_Do g tb s = Inr (snd (tar_Close (taWriter (psAppender st'))))"
    using tb fi by (simp add: tarball_Do_def Let_def g(1) plain_tarballer_def del: includeLoop.simps)
  moreover have "snd (tar_Close (taWriter (psAppender st'))) = \<lparr>twEntries = es, twLeft = 0, twTrailer = True\<rparr>"
    using es(2,3) by (simp add: tar_Close_def ready_appender_def)
  ultimately show ?thesis using es(1) by auto
qed

end


section \<open>Copying a directory\<close>

text \<open>The archive of a directory made with the zero options.\<close>

definition archived :: "'m goEnv \<Rightarrow> string \<Rightarrow> fsys \<Rightarrow> tarWriter \<Rightarrow> bool" where
  "archived g src s tw \<longleftrightarrow>
     (\<exists>tb. NewTarballer g src (zeroTarOptions (eEmptyMap g)) = Inr tb \<and> tarball_Do g tb s = Inr tw)"

text \<open>
  What \<open>archive/tar\<close> wrote is not taken for a compressed stream and is read as it was written. (It begins with
  the name of the first entry.)
\<close>

definition reads_back :: "'m goEnv \<Rightarrow> tarWriter \<Rightarrow> bool" where
  "reads_back g tw \<longleftrightarrow>
     Detect (to_bytes (take 10 (eTarBytes g tw))) = CompNone \<and>
     eParse g \<lparr>bData = eTarBytes g tw, bErr = None\<rparr> = \<lparr>tsEntries = map as_read (twEntries tw), tsEnd = None\<rparr>"

lemma named_like_bzip2: "Detect (to_bytes (take 10 (''BZh'' @ x))) = Bzip2"
  by (simp add: Detect_def compressionMap_def magicNumberMatcher_def bzip2Magic_def to_bytes_def)

definition ids_mapped :: "IdentityMapping \<Rightarrow> fsys \<Rightarrow> loc \<Rightarrow> bool" where
  "ids_mapped m s b \<longleftrightarrow> (\<forall>q nd. node_at s (b @ q) = Some nd \<longrightarrow> snd (imToHost m (iuid nd) (igid nd)) = None)"

definition copied :: "host \<Rightarrow> IdentityMapping \<Rightarrow> inode \<Rightarrow> inode \<Rightarrow> bool" where
  "copied h m nd nd' \<longleftrightarrow>
     (let t = imtime nd div second * second
      in ikind nd' = ikind nd \<and> iperm nd' = (if (\<exists>x. ikind nd = KSym x) then 0x1FF else iperm nd AND 0xFFF) \<and>
         (iuid nd', igid nd') = fst (imToHost m (iuid nd) (igid nd)) \<and> ixattrs nd' = [] \<and>
         imtime nd' = boundTime h t \<and> iatime nd' = boundTime h (latestTime zero_time t))"

lemma plain_packed:
  assumes "packs q nd e" and "plain_ikind (ikind nd)"
  shows "plain_entry (fst (as_read e)) (snd (as_read e))"
    and "entry_kind (ehdr opts (as_read e)) (snd (as_read e)) = ikind nd"
    and "hTypeflag (fst (as_read e)) = TypeDir \<longleftrightarrow> ikind nd = KDir"
  using assms by (cases "ikind nd"; simp add: packs_def as_read_def plain_entry_def ehdr_def entry_kind_def remapIDs_def Let_def)+

lemma copied_packed:
  assumes e: "packs q nd e" and k: "plain_ikind (ikind nd)" and opts: "\<not> oNoLchown opts" "oChownOpts opts = None"
    and m: "made_like h opts (ehdr opts (as_read e)) (snd (as_read e)) nd'" and t: "timed_like h (fst (as_read e)) nd'"
  shows "copied h (oIDMap opts) nd nd'"
proof -
  have "hTypeflag (fst e) = TypeSymlink \<longleftrightarrow> (\<exists>x. ikind nd = KSym x)" using e by (cases "ikind nd") (simp_all add: packs_def)
  moreover have "(ucast (ucast (iperm nd AND 0xFFF) :: 64 word) :: filemode) AND 0xFFF = iperm nd AND 0xFFF"
    by (simp add: ucast_up_ucast_id is_up and.assoc)
  ultimately show ?thesis using plain_packed(2) [OF e k, of opts] e m t opts
    by (simp add: copied_def made_like_def timed_like_def as_read_def ehdr_def remapIDs_def Let_def packs_def entry_owner_def)
qed

lemma Tar_plain:
  assumes g: "eNewMatcher g [] = Inr pm" "lets_all pm" "imEmpty (eEmptyMap g)"
  shows "\<exists>tb. NewTarballer g src (zeroTarOptions (eEmptyMap g)) = Inr tb \<and> plain_tarballer tb \<and> tbSrcPath tb = src \<and>
    (\<forall>tw. tarball_Do g tb s = Inr tw \<longrightarrow> Tar g src CompNone s = Inr \<lparr>bData = eTarBytes g tw, bErr = None\<rparr>)"
proof -
  let ?o = "zeroTarOptions (eEmptyMap g)"
  have "?o\<lparr>oCompression := CompNone\<rparr> = ?o" by (simp add: zeroTarOptions_def)
  moreover obtain tb where "NewTarballer g src ?o = Inr tb" "plain_tarballer tb" "tbSrcPath tb = src" "tbCompressWriter tb = NopWriteCloser"
    using g by (simp add: NewTarballer_def zeroTarOptions_def CompressStream_def addLongPathPrefix_def getWhiteoutConverter_def plain_tarballer_def)
  ultimately show ?thesis by (auto simp: Tar_def TarWithOptions_def)
qed

lemma Untar_plain:
  assumes "reads_back g tw" and "list_all is_name qs"
  shows "Untar g (Some \<lparr>bData = eTarBytes g tw, bErr = None\<rparr>) (abs_path qs) (Some opts) =
    Unpack (eHost g) (eEmptyMap g) \<lparr>tsEntries = map as_read (twEntries tw), tsEnd = None\<rparr> (abs_path qs) (Some opts)"
  using assms
  by (simp add: fun_eq_iff Untar_def untarHandler_def Let_def Clean_abs bindE_readE DecompressStream_def newBufferedReader_def
      bufferedReader_Peek_def reads_back_def)


lemma list_all2_map_eq: "list_all2 P qs es \<Longrightarrow> (\<And>q e. P q e \<Longrightarrow> f e = q) \<Longrightarrow> map f es = qs"
  by (induction rule: list_all2_induct) simp_all

lemma list_all2_left: "list_all2 P qs es \<Longrightarrow> q \<in> set qs \<Longrightarrow> \<exists>e \<in> set es. P q e"
  by (induction rule: list_all2_induct) auto

lemma list_all2_right: "list_all2 P qs es \<Longrightarrow> e \<in> set es \<Longrightarrow> \<exists>q \<in> set qs. P q e"
  by (induction rule: list_all2_induct) auto

lemma empty_below:
  assumes t: "tree_ok s" and free: "\<And>n. ino_at s (b @ [n]) = None" and q: "q \<noteq> []"
  shows "ino_at s (b @ q) = None"
proof (cases q)
  case (Cons n r)
  have "ino_at s (b @ [n] @ r) = None"
  proof (rule ccontr)
    assume i: "ino_at s (b @ [n] @ r) \<noteq> None"
    show False using below_dirs [OF t, of "b @ [n]" "[]" r] free [of n] i dir_at_ino [of s "b @ [n]"]
      by (cases "r = []") auto
  qed
  then show ?thesis by (simp add: Cons)
qed (use q in simp)

lemma tree_archive_packed:
  assumes t: "tree_ok s" and d: "dir_at s b" and c: "copyable_tree s b" and m: "ids_mapped (oIDMap opts) s b"
    and opts: "oExcludePatterns opts = []" and free: "\<And>n. ino_at s (rDir R @ [n]) = None"
    and es: "list_all2 (recorded s b) (names_below s b) es"
  shows "tree_archive opts R s (map as_read es)" and "map epath (map as_read es) = names_below s b"
    and "q \<noteq> [] \<Longrightarrow> node_at s (b @ q) = Some nd \<Longrightarrow> \<exists>e \<in> set es. packs q nd e \<and> epath (as_read e) = q \<and> plain_ikind (ikind nd)"
proof -
  note below = names_below [OF t d]
  have node: "q \<noteq> [] \<and> list_all is_name q \<and> packs q nd e \<and> epath (as_read e) = q \<and> plain_ikind (ikind nd)"
    if p: "q \<in> set (names_below s b)" "node_at s (b @ q) = Some nd" "packs q nd e" for q e nd
  proof -
    have q: "q \<noteq> []" "ino_at s (b @ q) \<noteq> None" using p(1) below(2) by auto
    have names: "list_all is_name q" using below_names [OF t q(2)] .
    obtain i where "ino_at s (b @ q) = Some i" "inodes s i = Some nd" using p(2) by (auto simp: node_at_def split: option.splits)
    then have "copyable s i nd" using c q(1) by (simp add: copyable_tree_def)
    then show ?thesis using p(3) names q(1) epath_packed [OF p(3) names q(1)] by (simp add: copyable_def)
  qed
  have entry: "epath (as_read e) = q \<and> (hTypeflag (fst (as_read e)) = TypeDir \<longleftrightarrow> dir_at s (b @ q)) \<and> tree_entry opts (as_read e)"
    if q: "q \<in> set (names_below s b)" "recorded s b q e" for q e
  proof -
    obtain nd where nd: "node_at s (b @ q) = Some nd" "packs q nd e" using q(2) by (auto simp: recorded_def)
    note n = node [OF q(1) nd]
    have "fst (remapIDs (oIDMap opts) (fst (as_read e))) = None"
      using m nd by (simp add: ids_mapped_def remapIDs_def Let_def as_read_def packs_def)
    then show ?thesis using n nd(1) opts plain_packed(1,3) [OF nd(2)] by (auto simp: tree_entry_def dir_at_node)
  qed
  from es have two: "list_all2 (\<lambda>q e. recorded s b q e \<and> q \<in> set (names_below s b)) (names_below s b) es"
    by (simp add: list_all2_conv_all_nth)
  show paths: "map epath (map as_read es) = names_below s b"
    unfolding map_map comp_def by (rule list_all2_map_eq [OF two]) (use entry in blast)
  have "list_all2 (\<lambda>q e. q \<noteq> [] \<and> epath e = q \<and> (hTypeflag (fst e) = TypeDir \<longleftrightarrow> dir_at s (b @ q))) (names_below s b) (map as_read es)"
    unfolding list_all2_map2 by (rule list_all2_mono [OF two]) (use entry below(2) in blast)
  then have first: "parents_first (dirs_to s (rDir R)) (map as_read es)" by (rule parents_first_packed [OF _ below(3)]) simp
  have all: "tree_entry opts (as_read e) \<and> epath (as_read e) \<noteq> []" if e: "e \<in> set es" for e
  proof -
    obtain q where "recorded s b q e" "q \<in> set (names_below s b)"
      using list_all2_right [OF es e] by blast
    then show ?thesis using entry below(2) by blast
  qed
  show "tree_archive opts R s (map as_read es)"
    unfolding tree_archive_def paths using all first below(1) empty_below [OF t free] by (auto simp: list_all_iff)
  assume q: "q \<noteq> []" "node_at s (b @ q) = Some nd"
  then have mem: "q \<in> set (names_below s b)" using below(2) by (auto simp: node_at_def split: option.splits)
  then obtain e where "e \<in> set es" "recorded s b q e"
    using list_all2_left [OF es mem] by blast
  then show "\<exists>e \<in> set es. packs q nd e \<and> epath (as_read e) = q \<and> plain_ikind (ikind nd)"
    using node [OF mem q(2)] q(2) unfolding recorded_def by (metis option.inject)
qed


context host_reads
begin

lemma TarUntar_unpacks:
  assumes g: "eHost g = h" "\<And>hdr. eEnc g hdr = None" "eNewMatcher g [] = Inr pm" "lets_all pm" "imEmpty (eEmptyMap g)"
    and nf: "no_faults h s" and t: "tree_ok s" and p: "plain_dir h s src" and c: "copyable_tree s (hRoot h @ src)"
    and rb: "\<And>tw. archived g (abs_path src) s tw \<Longrightarrow> reads_back g tw" and dst: "list_all is_name dst" and ar: "arUntar ar = Untar g"
  shows "\<exists>es. list_all2 (recorded s (hRoot h @ src)) (names_below s (hRoot h @ src)) es \<and>
    TarUntar g ar (abs_path src) (abs_path dst) s =
      Unpack h (eEmptyMap g) \<lparr>tsEntries = map as_read es, tsEnd = None\<rparr> (abs_path dst)
        (Some (zeroTarOptions (eEmptyMap g)\<lparr>oIDMap := arIDMapping ar\<rparr>)) s"
proof -
  obtain tb where tb: "NewTarballer g (abs_path src) (zeroTarOptions (eEmptyMap g)) = Inr tb" "plain_tarballer tb" "tbSrcPath tb = abs_path src"
    "\<And>tw. tarball_Do g tb s = Inr tw \<Longrightarrow> Tar g (abs_path src) CompNone s = Inr \<lparr>bData = eTarBytes g tw, bErr = None\<rparr>"
    using Tar_plain [OF g(3-5), of "abs_path src" s] by blast
  obtain es where es: "tarball_Do g tb s = Inr \<lparr>twEntries = es, twLeft = 0, twTrailer = True\<rparr>"
    "list_all2 (recorded s (hRoot h @ src)) (names_below s (hRoot h @ src)) es"
    using Do_packs [OF g(1,2) nf t p c tb(2,3)] by blast
  have "reads_back g \<lparr>twEntries = es, twLeft = 0, twTrailer = True\<rparr>"
    by (rule rb) (use tb(1) es(1) in \<open>auto simp: archived_def\<close>)
  from Untar_plain [OF this dst] es(2) show ?thesis
    by (intro exI [of _ es]) (simp add: TarUntar_def bindE_readE tb(4) [OF es(1)] ar g(1))
qed

end

section \<open>The property\<close>

text \<open>
  C3: \<open>TarUntar\<close> copies a directory: on a machine that refuses nothing, from a directory of directories, regular
  files and symlinks, each file under one name, into an empty directory outside of it, the call returns and every
  name below the source is a name below the destination and the other way round, with the same kind, data
  and target, the twelve mode bits, the owner on the host, and the modification time to the second (bounded
  as \<open>boundTime\<close> says); every other name is untouched, and of what was there only times change.
\<close>

theorem TarUntar_copies:
  assumes "host_reads (eHost g)" and "unix_effects (eHost g) procfd" and "\<And>s. no_faults (eHost g) s"
    and "\<And>hdr. eEnc g hdr = None" and "eNewMatcher g [] = Inr pm" and "lets_all pm" and "imEmpty (eEmptyMap g)"
    and "\<And>tw. archived g (abs_path src) s tw \<Longrightarrow> reads_back g tw"
    and "tree_ok s" and "plain_dir (eHost g) s src" and "copyable_tree s (hRoot (eHost g) @ src)"
    and "root_ok (eHost g) (root_at (eHost g) (abs_path dst)) s" and "list_all is_name dst"
    and "\<And>n. ino_at s (hRoot (eHost g) @ dst @ [n]) = None" and "\<not> prefix src dst"
    and "arUntar ar = Untar g" and "ids_mapped (arIDMapping ar) s (hRoot (eHost g) @ src)"
  shows "\<exists>s'. TarUntar g ar (abs_path src) (abs_path dst) s = (Inr (), s') \<and>
    (\<forall>q. q \<noteq> [] \<longrightarrow> rel_option (copied (eHost g) (arIDMapping ar))
       (node_at s (hRoot (eHost g) @ src @ q)) (node_at s' (hRoot (eHost g) @ dst @ q))) \<and>
    (\<forall>l. \<not> strict_prefix (hRoot (eHost g) @ dst) l \<longrightarrow> ino_at s' l = ino_at s l) \<and>
    (\<forall>i < nextino s. \<exists>t. inodes s' i = map_option (\<lambda>nd. nd\<lparr>imtime := t\<rparr>) (inodes s i))"
proof -
  let ?h = "eHost g" and ?b = "hRoot (eHost g) @ src" and ?R = "root_at (eHost g) (abs_path dst)"
  let ?opts = "zeroTarOptions (eEmptyMap g)\<lparr>oIDMap := arIDMapping ar\<rparr>"
  have R: "rDir ?R = hRoot ?h @ dst" "comps (abs_path dst) = dst" using assms(13) by (simp_all add: root_at_def comps_abs)
  let ?stream = "\<lambda>es. \<lparr>tsEntries = map as_read es, tsEnd = None\<rparr>"
  obtain es where es: "list_all2 (recorded s ?b) (names_below s ?b) es"
    and run: "TarUntar g ar (abs_path src) (abs_path dst) s =
      Unpack ?h (eEmptyMap g) (?stream es) (abs_path dst) (Some ?opts) s"
    using host_reads.TarUntar_unpacks [OF assms(1) refl assms(4-7,3,9-11,8,13,16)] by blast
  have opts: "oWhiteoutFormat ?opts \<noteq> OverlayWhiteoutFormat" "oExcludePatterns ?opts = []" "\<not> oNoLchown ?opts" "oChownOpts ?opts = None"
    "oIDMap ?opts = arIDMapping ar" by (simp_all add: zeroTarOptions_def)
  have dir: "dir_at s ?b" using assms(10) by (simp add: plain_dir_def)
  have ids: "ids_mapped (oIDMap ?opts) s ?b" and free: "ino_at s (rDir ?R @ [n]) = None" for n
    using assms(14,17) opts(5) by (simp_all add: R)
  note packed = tree_archive_packed [OF assms(9) dir assms(11) ids opts(2) free es]
  have "tsEnd (?stream es) = None" "tree_archive ?opts ?R s (tsEntries (?stream es))" using packed(1) by simp_all
  from Unpack_tree [OF assms(2,3,12) opts(1) this, of "eEmptyMap g"] obtain s' where
    u: "Unpack ?h (eEmptyMap g) (?stream es) (abs_path dst) (Some ?opts) s = (Inr (), s')"
    "\<And>e. e \<in> set es \<Longrightarrow> \<exists>nd. node_at s' (hRoot ?h @ dst @ epath (as_read e)) = Some nd \<and>
       made_like ?h ?opts (ehdr ?opts (as_read e)) (snd (as_read e)) nd \<and> timed_like ?h (fst (as_read e)) nd"
    "\<And>l. l \<notin> (\<lambda>e. hRoot ?h @ dst @ epath (as_read e)) ` set es \<Longrightarrow> ino_at s' l = ino_at s l"
    "\<forall>i < nextino s. \<exists>t. inodes s' i = map_option (\<lambda>nd. nd\<lparr>imtime := t\<rparr>) (inodes s i)"
    by (auto simp: R image_image)
  have set: "epath (as_read e) \<in> set (names_below s ?b)" if "e \<in> set es" for e
    using packed(2) that by (metis image_eqI list.set_map)
  note below = names_below(2) [OF assms(9) dir]
  have copy: "rel_option (copied ?h (arIDMapping ar)) (node_at s (hRoot ?h @ src @ q)) (node_at s' (hRoot ?h @ dst @ q))" if q: "q \<noteq> []" for q
  proof (cases "node_at s (?b @ q)")
    case None
    have "ino_at s (?b @ q) = None" using None by (cases "ino_at s (?b @ q)") (auto elim: tree_okD [OF assms(9)])
    then have "q \<notin> set (names_below s ?b)" using below by simp
    then have "ino_at s' (hRoot ?h @ dst @ q) = ino_at s (hRoot ?h @ dst @ q)"
      by (intro u(3)) (use set in fastforce)
    moreover have "ino_at s (hRoot ?h @ dst @ q) = None"
      using empty_below [OF assms(9), of "hRoot ?h @ dst" q] assms(14) q by simp
    ultimately show ?thesis using None by (simp add: node_at_def)
  next
    case (Some nd)
    from packed(3) [OF q Some] obtain e where e: "e \<in> set es" "packs q nd e" "epath (as_read e) = q" "plain_ikind (ikind nd)" by blast
    from u(2) [OF e(1)] obtain nd' where "node_at s' (hRoot ?h @ dst @ q) = Some nd'"
      "made_like ?h ?opts (ehdr ?opts (as_read e)) (snd (as_read e)) nd'" "timed_like ?h (fst (as_read e)) nd'" unfolding e(3) by blast
    then show ?thesis using copied_packed [OF e(2,4) opts(3,4)] Some opts(5) by simp
  qed
  have rest: "ino_at s' l = ino_at s l" if "\<not> strict_prefix (hRoot ?h @ dst) l" for l
  proof (rule u(3), rule notI)
    assume "l \<in> (\<lambda>e. hRoot ?h @ dst @ epath (as_read e)) ` set es"
    then obtain e where e: "e \<in> set es" "l = (hRoot ?h @ dst) @ epath (as_read e)" by auto
    moreover have "epath (as_read e) \<noteq> []" using set [OF e(1)] below by blast
    ultimately show False using that by (simp add: strict_prefix_def)
  qed
  show ?thesis unfolding run by (intro exI [of _ s'] conjI allI impI u(1) copy rest u(4) [rule_format])
qed


text \<open>A small format for archives: the fields of every entry, modes in binary and other numbers in unary.\<close>

definition print_entry :: "tarHeader \<times> string \<Rightarrow> string" where
  "print_entry e =
     concat (map (\<lambda>l. l @ ''|'')
       [hName (fst e), case hTypeflag (fst e) of TypeDir \<Rightarrow> ''d'' | TypeSymlink \<Rightarrow> ''l'' | _ \<Rightarrow> ''f'', hLinkname (fst e),
        map (\<lambda>i. if bit (hMode (fst e)) i then CHR ''1'' else CHR ''0'') [0..<12], replicate (nat (hUid (fst e))) CHR ''1'',
        replicate (nat (hGid (fst e))) CHR ''1'', replicate (nat (hModTime (fst e) div second)) CHR ''1'', snd e])"

fun fields :: "string \<Rightarrow> string \<Rightarrow> string list" where
  "fields acc [] = []"
| "fields acc (c # cs) = (if c = CHR ''|'' then rev acc # fields [] cs else fields (c # acc) cs)"

fun from_bits :: "string \<Rightarrow> 64 word" where
  "from_bits [] = 0"
| "from_bits (c # cs) = (if c = CHR ''1'' then 1 else 0) + 2 * from_bits cs"

fun parse_entries :: "string list \<Rightarrow> (tarHeader \<times> body) list" where
  "parse_entries (n # t # l # m # u # v # w # d # r) =
     (zeroHeader\<lparr>hName := n, hTypeflag := (if t = ''d'' then TypeDir else if t = ''l'' then TypeSymlink else TypeReg), hLinkname := l,
        hMode := from_bits m, hUid := int (length u), hGid := int (length v), hModTime := int (length w) * second, hSize := of_nat (length d)\<rparr>,
      \<lparr>bData = d, bErr = None\<rparr>) # parse_entries r"
| "parse_entries _ = []"

definition copy_env :: "unit goEnv" where
  "copy_env =
     \<lparr>eHost = posix_host, eCodecs = sample_codecs, eEnc = (\<lambda>_. None), eTarBytes = (\<lambda>tw. concat (map print_entry (twEntries tw))),
      eParse = (\<lambda>b. \<lparr>tsEntries = parse_entries (fields [] (bData b)), tsEnd = None\<rparr>),
      eNewMatcher = (\<lambda>_. Inr no_matcher), eEmptyMap = no_map\<rparr>"

definition copy_tb :: "unit tarballer" where
  "copy_tb =
     \<lparr>tbSrcPath = ''/src'', tbOptions = zeroTarOptions no_map, tbPm = no_matcher, tbCompressWriter = NopWriteCloser,
      tbWhiteoutConverter = None\<rparr>"

text \<open>\<open>/src\<close> with a directory that anyone may write to, a set-user-ID program in it and a symlink; \<open>/dst\<close> is empty.\<close>

definition copy_fs :: fsys where
  "copy_fs = fs_of
     [([], mk_node KDir 0x1ED), ([''src''], mk_node KDir 0x1ED), ([''src'', ''a''], mk_node KDir 0x3FF),
      ([''src'', ''a'', ''su''], (mk_node (KReg ''xy'') 0x9ED)\<lparr>iuid := 7, imtime := 5 * second + 3\<rparr>),
      ([''src'', ''l''], mk_node (KSym ''a/su'') 0x1FF), ([''dst''], mk_node KDir 0x1ED)]"

lemma copy_reads_back: "archived copy_env ''/src'' copy_fs tw \<Longrightarrow> reads_back copy_env tw"
proof -
  assume "archived copy_env ''/src'' copy_fs tw"
  moreover have "NewTarballer copy_env ''/src'' (zeroTarOptions (eEmptyMap copy_env)) = Inr copy_tb"
    by (simp add: NewTarballer_def copy_env_def copy_tb_def zeroTarOptions_def CompressStream_def addLongPathPrefix_def getWhiteoutConverter_def)
  ultimately have "tarball_Do copy_env copy_tb copy_fs = Inr tw" by (simp add: archived_def)
  moreover have "case tarball_Do copy_env copy_tb copy_fs of Inl e \<Rightarrow> False | Inr tw \<Rightarrow> reads_back copy_env tw" by code_simp
  ultimately show ?thesis by simp
qed


lemma copyable_tree_list:
  assumes "list_all (\<lambda>(p, i). case inodes s i of None \<Rightarrow> True | Some nd \<Rightarrow> copyable s i nd) (dents s)"
  shows "copyable_tree s b"
  using assms by (fastforce simp: copyable_tree_def ino_at_def list_all_iff dest!: map_of_SomeD)

theorem TarUntar_copies_witness:
  "\<exists>s'. TarUntar copy_env (NewDefaultArchiver copy_env) ''/src'' ''/dst'' copy_fs = (Inr (), s') \<and>
     (\<exists>nd. node_at s' [''dst'', ''a'', ''su''] = Some nd \<and> ikind nd = KReg ''xy'' \<and> iperm nd = 0x9ED \<and> iuid nd = 7 \<and>
       imtime nd = 5 * second)"
proof -
  have nf: "no_faults (eHost copy_env) s" for s by (simp add: no_faults_def copy_env_def)
  have env: "host_reads (eHost copy_env)" "unix_effects (eHost copy_env) []" "\<And>hdr. eEnc copy_env hdr = None"
    "eNewMatcher copy_env [] = Inr no_matcher" "imEmpty (eEmptyMap copy_env)"
    using posix_reads.host_reads_axioms posix_effects.unix_effects_axioms by (simp_all add: copy_env_def no_map_def)
  have lets: "lets_all no_matcher" by (simp add: lets_all_def no_matcher_def)
  have abs: "abs_path [''src''] = ''/src''" "abs_path [''dst''] = ''/dst''" by code_simp+
  have root: "root_ok (eHost copy_env) (root_at (eHost copy_env) (abs_path [''dst''])) copy_fs"
    unfolding root_ok_def
  proof (intro conjI)
    show "inos_ok copy_fs" by (simp add: inos_ok_def copy_fs_def fs_of_def ino_at_def)
  qed code_simp+
  have t: "tree_ok copy_fs" by (rule tree_ok_list) code_simp
  have src: "plain_dir (eHost copy_env) copy_fs [''src'']" by code_simp
  have c: "copyable_tree copy_fs b" for b by (rule copyable_tree_list) code_simp
  have free: "ino_at copy_fs (hRoot (eHost copy_env) @ [''dst''] @ [n]) = None" for n
    by (simp add: ino_at_def copy_fs_def fs_of_def copy_env_def posix_host_def base_host_def)
  have ar: "arUntar (NewDefaultArchiver copy_env) = Untar copy_env" by (simp add: NewDefaultArchiver_def)
  have ids: "ids_mapped (arIDMapping (NewDefaultArchiver copy_env)) copy_fs b" for b
    by (simp add: ids_mapped_def NewDefaultArchiver_def copy_env_def no_map_def)
  have rb: "archived copy_env (abs_path [''src'']) copy_fs tw \<Longrightarrow> reads_back copy_env tw" for tw
    unfolding abs by (rule copy_reads_back)
  have dst: "list_all is_name [''dst'']" "\<not> prefix [''src''] [''dst'']" by code_simp+
  from TarUntar_copies [OF env(1,2) nf env(3,4) lets env(5) rb t src c root dst(1) free dst(2) ar ids] obtain s' where
    u: "TarUntar copy_env (NewDefaultArchiver copy_env) ''/src'' ''/dst'' copy_fs = (Inr (), s')"
    "\<And>q. q \<noteq> [] \<Longrightarrow> rel_option (copied (eHost copy_env) (arIDMapping (NewDefaultArchiver copy_env)))
       (node_at copy_fs (hRoot (eHost copy_env) @ [''src''] @ q)) (node_at s' (hRoot (eHost copy_env) @ [''dst''] @ q))"
    unfolding abs by blast
  let ?nd = "(mk_node (KReg ''xy'') 0x9ED)\<lparr>iuid := 7, imtime := 5 * second + 3\<rparr>"
  have root: "hRoot (eHost copy_env) = []" by (simp add: copy_env_def posix_host_def base_host_def)
  have "node_at copy_fs [''src'', ''a'', ''su''] = Some ?nd"
    by (simp add: node_at_def ino_at_def copy_fs_def fs_of_def)
  with u(2) [of "[''a'', ''su'']"] obtain nd where nd: "node_at s' [''dst'', ''a'', ''su''] = Some nd"
    "copied (eHost copy_env) (arIDMapping (NewDefaultArchiver copy_env)) ?nd nd" by (auto simp: root option_rel_Some1)
  have "(5 * second + 3) div second = 5" "boundTime (eHost copy_env) (5 * second) = 5 * second" by code_simp+
  with nd(2) have "ikind nd = KReg ''xy'' \<and> iperm nd = 0x9ED \<and> iuid nd = 7 \<and> imtime nd = 5 * second"
    by (simp add: copied_def Let_def mk_node_def NewDefaultArchiver_def copy_env_def no_map_def)
  with u(1) nd(1) show ?thesis by blast
qed

end
