(* ===== verification/LayerView.thy ===== *)
theory LayerView
  imports CollectFacts UnpackTree
begin

text \<open>
  What the tree below a root looks like (\<open>view_of\<close>) and what the steps of \<open>UnpackLayer\<close> do to it: making a
  node, changing a directory in place, removing a tree, and the walk of an opaque marker, which hides what is below its
  directory but for the paths the layer has unpacked.
\<close>

section \<open>What a tree looks like\<close>

text \<open>
  An inode without its number and its time of access. The modification time of a directory moves with every
  name that is made in it, so it is left out here; \<open>UnpackLayer\<close> restores it at its end.
\<close>

record shape =
  shKind :: ikind
  shPerm :: filemode
  shUid :: int
  shGid :: int
  shXattrs :: "(string \<times> string) list"
  shMtime :: "time option"

definition shape_of :: "inode \<Rightarrow> shape" where
  "shape_of nd =
     \<lparr>shKind = ikind nd, shPerm = iperm nd, shUid = iuid nd, shGid = igid nd, shXattrs = ixattrs nd,
      shMtime = (if ikind nd = KDir then None else Some (imtime nd))\<rparr>"

type_synonym shapes = "string list \<Rightarrow> shape option"

text \<open>The paths below the root and what is there.\<close>

definition view_of :: "goRoot \<Rightarrow> fsys \<Rightarrow> shapes" where
  "view_of R s q = map_option shape_of (node_at s (rDir R @ q))"

definition dir_in :: "shapes \<Rightarrow> string list \<Rightarrow> bool" where
  "dir_in t q \<longleftrightarrow> (case t q of None \<Rightarrow> False | Some x \<Rightarrow> shKind x = KDir)"

text \<open>The tree without what is at \<open>p\<close> and below.\<close>

definition prune :: "string list \<Rightarrow> shapes \<Rightarrow> shapes" where
  "prune p t = (\<lambda>q. if prefix p q then None else t q)"

text \<open>A directory has one name; and what every step keeps of the file system.\<close>

definition single_dirs :: "fsys \<Rightarrow> bool" where
  "single_dirs s \<longleftrightarrow> (\<forall>p q i. ino_at s p = Some i \<longrightarrow> ino_at s q = Some i \<longrightarrow> dir_at s p \<longrightarrow> q = p)"

definition layer_fs :: "goRoot \<Rightarrow> fsys \<Rightarrow> bool" where
  "layer_fs R s \<longleftrightarrow> inos_ok s \<and> tree_ok s \<and> single_dirs s \<and> dir_at s (rDir R)"

lemma dir_in_view: "dir_in (view_of R s) q \<longleftrightarrow> dir_at s (rDir R @ q)"
  by (auto simp: dir_in_def view_of_def dir_at_node shape_of_def split: option.split)

lemma view_dirs: "tree_ok s \<Longrightarrow> dir_at s (rDir R @ q) \<Longrightarrow> dirs_to s (rDir R) q"
  using below_dirs_to [of s "rDir R" q] dir_at_ino [of s "rDir R @ q"]
  by (cases q rule: rev_cases) (auto simp: dirs_to_snoc)

lemma view_None: "tree_ok s \<Longrightarrow> view_of R s q = None \<longleftrightarrow> ino_at s (rDir R @ q) = None"
  by (auto simp: view_of_def node_at_def tree_ok_def split: option.split)

lemma prune_None:
  assumes "tree_ok s" and "ino_at s (rDir R @ p) = None"
  shows "prune p (view_of R s) = view_of R s"
proof
  fix q
  show "prune p (view_of R s) q = view_of R s q"
  proof (cases "prefix p q")
    case True
    then obtain r where q: "q = p @ r" by (auto simp: prefix_def)
    have "ino_at s (rDir R @ p @ r) = None"
      using below_dirs [OF assms(1), of "rDir R" p r] dir_at_ino [of s "rDir R @ p"] assms(2)
      by (cases "r = []") (auto simp del: not_None_eq)
    then have "view_of R s (p @ r) = None" by (simp only: view_None [OF assms(1)])
    then show ?thesis by (simp add: prune_def q)
  qed (simp add: prune_def)
qed

section \<open>What the operations do to it\<close>

lemma made_new_view:
  assumes m: "made_new (rDir R @ p) nd s s'" and ok: "layer_fs R s" and free: "ino_at s (rDir R @ p) = None"
    and p: "p \<noteq> []" "is_name (last p)" "dir_at s (rDir R @ butlast p)"
  shows "layer_fs R s'" and "view_of R s' = (view_of R s)(p \<mapsto> shape_of nd)"
proof -
  let ?p = "rDir R @ p" and ?i = "nextino s"
  have i: "inos_ok s" "tree_ok s" "single_dirs s" "dir_at s (rDir R)" using ok by (simp_all add: layer_fs_def)
  note d = made_new_dir [OF m i(1) free]
  have names: "ino_at s' q = (if q = ?p then Some ?i else ino_at s q)" for q using m by (simp add: made_new_def)
  have old: "ino_at s q = Some j \<Longrightarrow> j \<noteq> ?i" for q j using i(1) by (auto simp: inos_ok_def)
  have nodes: "\<exists>t. inodes s' j = map_option (\<lambda>nd. nd\<lparr>imtime := t\<rparr>) (inodes s j)" if "j \<noteq> ?i" for j
    using m that by (simp add: made_new_def)
  have at: "node_at s' ?p = Some nd" using m by (simp add: made_new_def node_at_def)
  have par: "butlast ?p = rDir R @ butlast p" "?p \<noteq> []" "last ?p = last p" using p(1) by (simp_all add: butlast_append)
  have "tree_ok s'" unfolding tree_ok_def
  proof (intro allI impI)
    fix q j assume j: "ino_at s' q = Some j"
    show "inodes s' j \<noteq> None \<and> (q \<noteq> [] \<longrightarrow> is_name (last q) \<and> dir_at s' (butlast q))"
    proof (cases "q = ?p")
      case True
      then have "j = ?i" using j names by simp
      moreover have "dir_at s' (butlast ?p)"
        using d [of "butlast ?p"] p(3) free dir_at_ino [of s "butlast ?p"] par by (metis par(1))
      ultimately show ?thesis using m True p(2) par by (simp add: made_new_def)
    next
      case False
      then have js: "ino_at s q = Some j" using j names by simp
      obtain t where t: "inodes s' j = map_option (\<lambda>nd. nd\<lparr>imtime := t\<rparr>) (inodes s j)" using nodes [OF old [OF js]] by blast
      have "dir_at s' (butlast q)" if "dir_at s (butlast q)"
        using d [of "butlast q"] that dir_at_ino free by metis
      then show ?thesis using i(2) js t by (auto simp: tree_ok_def)
    qed
  qed
  moreover have "single_dirs s'" unfolding single_dirs_def
  proof (intro allI impI)
    fix q r j assume a: "ino_at s' q = Some j" "ino_at s' r = Some j" "dir_at s' q"
    show "r = q"
    proof (cases "q = ?p \<or> r = ?p")
      case True
      then have "j = ?i" using a names by (auto split: if_splits)
      then show ?thesis using a(1,2) names old by (auto split: if_splits)
    next
      case False
      then have "dir_at s q" "ino_at s q = Some j" "ino_at s r = Some j" using a names d by auto
      then show ?thesis using i(3) unfolding single_dirs_def by blast
    qed
  qed
  moreover have "dir_at s' (rDir R)" using d [of "rDir R"] i(4) p(1) by simp
  ultimately show "layer_fs R s'" using made_new_inos [OF m i(1)] by (simp add: layer_fs_def)
  show "view_of R s' = (view_of R s)(p \<mapsto> shape_of nd)"
  proof
    fix q
    show "view_of R s' q = ((view_of R s)(p \<mapsto> shape_of nd)) q"
    proof (cases "q = p \<or> ino_at s (rDir R @ q) = None")
      case True
      then show ?thesis using at names by (auto simp: view_of_def node_at_def)
    next
      case False
      then obtain j where j: "ino_at s (rDir R @ q) = Some j" "ino_at s' (rDir R @ q) = Some j" using names by auto
      obtain t where t: "inodes s' j = map_option (\<lambda>nd. nd\<lparr>imtime := t\<rparr>) (inodes s j)" using nodes [OF old [OF j(1)]] by blast
      have "map_option shape_of (inodes s' j) = map_option shape_of (inodes s j)"
      proof (cases "ino_at s (butlast ?p) = Some j")
        case True
        then obtain x where "inodes s j = Some x" "ikind x = KDir" using p(3) par(1) by (auto simp: dir_at_node node_at_def)
        then show ?thesis using t by (simp add: shape_of_def)
      next
        case False
        then show ?thesis using m old [OF j(1)] by (simp add: made_new_def)
      qed
      then show ?thesis using False j by (simp add: view_of_def node_at_def)
    qed
  qed
qed

lemma ino_at_remove_tree: "ino_at (remove_tree now p s) q = (if prefix p q then None else ino_at s q)"
proof -
  have "map_of (filter (\<lambda>e. \<not> prefix p (fst e)) es) q = (if prefix p q then None else map_of es q)" for es :: "(loc \<times> nat) list"
    by (induction es) auto
  then show ?thesis by (simp add: remove_tree_def touch_parent_def upd_at_def upd_inode_def ino_at_def split: option.split)
qed

lemma inodes_remove_tree:
  "\<exists>t. inodes (remove_tree now p s) i = map_option (\<lambda>nd. nd\<lparr>imtime := t\<rparr>) (inodes s i) \<and>
     (ino_at s (butlast p) \<noteq> Some i \<or> prefix p (butlast p) \<longrightarrow> inodes (remove_tree now p s) i = inodes s i)"
proof -
  let ?s = "s\<lparr>dents := filter (\<lambda>e. \<not> prefix p (fst e)) (dents s)\<rparr>"
  have n: "ino_at ?s q = (if prefix p q then None else ino_at s q)" for q
    using ino_at_remove_tree [of now p s q]
    by (simp add: remove_tree_def touch_parent_def upd_at_def upd_inode_def ino_at_def split: option.splits)
  have same: "\<exists>t. x = map_option (\<lambda>nd::inode. nd\<lparr>imtime := t\<rparr>) x" for x
    by (rule exI [of _ "imtime (the x)"]) (cases x, simp_all)
  show ?thesis
  proof (cases "ino_at ?s (butlast p)")
    case None
    then show ?thesis using same by (simp add: remove_tree_def touch_parent_def upd_at_def)
  next
    case (Some j)
    then have "ino_at s (butlast p) = Some j" "\<not> prefix p (butlast p)" using n by (auto split: if_splits)
    moreover have "remove_tree now p s = upd_inode j (\<lambda>nd. nd\<lparr>imtime := now\<rparr>) ?s"
      unfolding remove_tree_def touch_parent_def upd_at_def by (simp only: Some option.case)
    ultimately show ?thesis using same by (auto simp: inodes_upd_inode)
  qed
qed

lemma remove_tree_view:
  assumes ok: "layer_fs R s" and p: "p \<noteq> []" "ino_at s (rDir R @ p) \<noteq> None" and s': "s' = remove_tree now (rDir R @ p) s"
  shows "layer_fs R s'" and "view_of R s' = prune p (view_of R s)"
proof -
  let ?p = "rDir R @ p"
  have i: "inos_ok s" "tree_ok s" "single_dirs s" "dir_at s (rDir R)" using ok by (simp_all add: layer_fs_def)
  note names = ino_at_remove_tree [of now ?p s, folded s'] and nodes = inodes_remove_tree [of now ?p s, folded s']
  have d: "dir_at s' q = (dir_at s q \<and> \<not> prefix ?p q)" for q
  proof (cases "ino_at s q")
    case (Some j)
    obtain t where "inodes s' j = map_option (\<lambda>nd. nd\<lparr>imtime := t\<rparr>) (inodes s j)" using nodes by blast
    then show ?thesis using Some names by (auto simp: dir_at_def node_at_def split: option.split)
  qed (simp add: names dir_at_def node_at_def)
  have up: "\<not> prefix ?p (butlast q)" if "\<not> prefix ?p q" for q
    using that prefix_order.trans [OF _ prefixeq_butlast] by blast
  have "nextino s' = nextino s"
    by (simp add: s' remove_tree_def touch_parent_def upd_at_def upd_inode_def split: option.split)
  then have "inos_ok s'" using i(1) by (auto simp: inos_ok_def names)
  moreover have "tree_ok s'" unfolding tree_ok_def
  proof (intro allI impI)
    fix q j assume j: "ino_at s' q = Some j"
    then have js: "ino_at s q = Some j" "\<not> prefix ?p q" using names by (auto split: if_splits)
    obtain t where "inodes s' j = map_option (\<lambda>nd. nd\<lparr>imtime := t\<rparr>) (inodes s j)" using nodes by blast
    then show "inodes s' j \<noteq> None \<and> (q \<noteq> [] \<longrightarrow> is_name (last q) \<and> dir_at s' (butlast q))"
      using i(2) js up by (auto simp: tree_ok_def d)
  qed
  moreover have "single_dirs s'" using i(3) by (auto simp: single_dirs_def d names)
  moreover have "dir_at s' (rDir R)" using i(4) p(1) by (simp add: d)
  ultimately show "layer_fs R s'" by (simp add: layer_fs_def)
  show "view_of R s' = prune p (view_of R s)"
  proof
    fix q
    show "view_of R s' q = prune p (view_of R s) q"
    proof (cases "prefix p q \<or> ino_at s (rDir R @ q) = None")
      case False
      then obtain j where j: "ino_at s (rDir R @ q) = Some j" "ino_at s' (rDir R @ q) = Some j" by (auto simp: names)
      from nodes obtain t where t: "inodes s' j = map_option (\<lambda>nd. nd\<lparr>imtime := t\<rparr>) (inodes s j)"
        "ino_at s (butlast ?p) \<noteq> Some j \<or> prefix ?p (butlast ?p) \<longrightarrow> inodes s' j = inodes s j" by blast
      have "map_option shape_of (inodes s' j) = map_option shape_of (inodes s j)"
      proof (cases "ino_at s (butlast ?p) = Some j")
        case True
        have "dir_at s (butlast ?p)" using i(2) p by (auto simp: tree_ok_def)
        then have "dir_at s (rDir R @ q)" using True j by (auto simp: dir_at_node node_at_def)
        then show ?thesis using t j by (auto simp: shape_of_def dir_at_node node_at_def)
      next
        case False
        then show ?thesis using t by simp
      qed
      then show ?thesis using False j by (simp add: view_of_def node_at_def prune_def)
    qed (auto simp: view_of_def node_at_def prune_def names)
  qed
qed


lemma upd_dir_view:
  assumes ok: "layer_fs R s" and at: "node_at s (rDir R @ p) = Some nd" "ikind nd = KDir" and f: "\<And>x. ikind (f x) = ikind x"
  shows "layer_fs R (upd_at (rDir R @ p) f s)" and "view_of R (upd_at (rDir R @ p) f s) = (view_of R s)(p \<mapsto> shape_of (f nd))"
proof -
  obtain i where i: "ino_at s (rDir R @ p) = Some i" "inodes s i = Some nd" using at(1) by (auto simp: node_at_def split: option.splits)
  then have u: "upd_at (rDir R @ p) f s = upd_inode i f s" by (simp add: upd_at_def)
  have d: "dir_at (upd_inode i f s) q = dir_at s q" for q by (rule dir_at_upd_inode) (simp add: f)
  have only: "ino_at s q = Some i \<longleftrightarrow> q = rDir R @ p" for q
    using ok i at(2) unfolding layer_fs_def single_dirs_def by (auto simp: dir_at_node node_at_def)
  have "nextino (upd_inode i f s) = nextino s" by (simp add: upd_inode_def)
  then show "layer_fs R (upd_at (rDir R @ p) f s)" using ok
    by (auto simp: layer_fs_def u d inos_ok_def tree_ok_def single_dirs_def inodes_upd_inode)
  show "view_of R (upd_at (rDir R @ p) f s) = (view_of R s)(p \<mapsto> shape_of (f nd))"
    using i(2) by (auto simp: fun_eq_iff u view_of_def node_at_upd_inode only)
qed

section \<open>Removing\<close>

lemma entry_resolve:
  assumes "layer_fs R s" and "dir_at s (rDir R @ q)" and "list_all is_name (q @ [n])"
  shows "rresolve h R False (join_slash (q @ [n])) s = Inr (rDir R @ q @ [n])"
proof -
  have "dirs_to s (rDir R) q" "dir_at s (rDir R)" using assms view_dirs by (auto simp: layer_fs_def)
  then show ?thesis using assms(3) fresh_resolve [of s R q n h False] placed_resolve [of R q n _ s False h]
    by (cases "node_at s (rDir R @ q @ [n])") (auto simp: placed_def)
qed

lemma RemoveAll_view:
  assumes ok: "layer_fs R s" and nf: "no_faults h s" and d: "dir_at s (rDir R @ q)" and names: "list_all is_name (q @ [n])"
  shows "\<exists>s'. root_RemoveAll h R (join_slash (q @ [n])) s = (Inr (), s') \<and> layer_fs R s' \<and>
    view_of R s' = prune (q @ [n]) (view_of R s) \<and>
    (s' = s \<or> s' = remove_tree (hNow h) (rDir R @ q @ [n]) s)"
proof -
  let ?p = "join_slash (q @ [n])"
  have n: "n \<noteq> []" "slash \<notin> set n" "n \<noteq> dot" using names by (auto simp: is_name_def is_comp_def)
  have p: "?p = (if q = [] then [] else join_slash q @ [slash]) @ n" by (simp add: join_slash_append)
  have "last ?p = last n" "?p \<noteq> []" using n(1) p by simp_all
  moreover have "last n \<noteq> slash" using n last_in_set by metis
  ultimately have tr: "TrimRight ?p slash = ?p" by (simp add: TrimRight_id)
  have nd: "\<not> ends_with_dot ?p"
  proof
    assume "ends_with_dot ?p"
    then have "?p = dot \<or> (\<exists>x. ?p = x @ slash # dot)" 
      using suffix_to_prefix [of "''/.''" ?p] by (auto simp: ends_with_dot_def HasSuffix_def suffix_def)
    then have "SplitFile ?p = dot"
      using split_append_slash [of dot] split_no_slash [of dot] by auto
    then show False using split_local(1) [OF names] n(3) by simp
  qed
  note res = entry_resolve [OF ok d names, of h]
  show ?thesis
  proof (cases "ino_at s (rDir R @ q @ [n])")
    case None
    then have "root_RemoveAll h R ?p s = (Inr (), s)"
      using nd nf by (simp add: root_RemoveAll_def tr root_op_def no_faults_def res p_remove_all_def)
    then show ?thesis using ok prune_None [of s R "q @ [n]"] None by (auto simp: layer_fs_def)
  next
    case (Some i)
    then have "root_RemoveAll h R ?p s = (Inr (), remove_tree (hNow h) (rDir R @ q @ [n]) s)"
      using nd nf by (simp add: root_RemoveAll_def tr root_op_def no_faults_def res p_remove_all_def)
    then show ?thesis using remove_tree_view [OF ok, of "q @ [n]", OF _ _ refl] Some by auto
  qed
qed

section \<open>The node of an entry\<close>

text \<open>
  The node an entry makes where nothing is; what it leaves of a directory that is there, whose extended
  attributes stay; and the tree with the entry: a directory joins a directory, everything else replaces what is there
  with all that is below.
\<close>

definition entry_shape :: "host \<Rightarrow> TarOptions \<Rightarrow> tarHeader \<times> body \<Rightarrow> shape" where
  "entry_shape h opts e =
     (let hdr = ehdr opts e
      in \<lparr>shKind = entry_kind hdr (snd e),
          shPerm = (if hTypeflag hdr = TypeSymlink then 0x1FF else ucast (hMode hdr) AND 0xFFF),
          shUid = fst (entry_owner h opts hdr), shGid = snd (entry_owner h opts hdr), shXattrs = [],
          shMtime = (if hTypeflag hdr = TypeDir then None else Some (boundTime h (hModTime hdr)))\<rparr>)"

definition merged_shape :: "host \<Rightarrow> TarOptions \<Rightarrow> tarHeader \<times> body \<Rightarrow> shape \<Rightarrow> shape" where
  "merged_shape h opts e x =
     (let hdr = ehdr opts e
      in x\<lparr>shPerm := ucast (hMode hdr) AND 0xFFF,
           shUid := (if oNoLchown opts then shUid x else fst (entry_owner h opts hdr)),
           shGid := (if oNoLchown opts then shGid x else snd (entry_owner h opts hdr))\<rparr>)"

definition put_entry :: "host \<Rightarrow> TarOptions \<Rightarrow> tarHeader \<times> body \<Rightarrow> shapes \<Rightarrow> shapes" where
  "put_entry h opts e t =
     (if hTypeflag (fst e) = TypeDir \<and> dir_in t (epath e)
      then t(epath e \<mapsto> merged_shape h opts e (the (t (epath e))))
      else (prune (epath e) t)(epath e \<mapsto> entry_shape h opts e))"

lemma entry_shape_made:
  assumes "made_like h opts (ehdr opts e) (snd e) nd" and "timed_like h (fst e) nd"
  shows "shape_of nd = entry_shape h opts e"
  using assms
  by (auto simp: made_like_def timed_like_def shape_of_def entry_shape_def Let_def ehdr_def entry_kind_def prod_eq_iff split: typeflag.splits)

lemma entry_shape_merged:
  assumes "hTypeflag hdr = TypeDir" and "ikind nd = KDir" and "hdr = (ehdr opts e)\<lparr>hName := n\<rparr>"
  shows "shape_of (entry_update h opts hdr nd) = merged_shape h opts e (shape_of nd)"
  using assms
  by (simp add: shape_of_def merged_shape_def entry_update_def set_times_def set_perm_def set_owner_def owner_of_def entry_owner_def
      Let_def kill_setid_def split: option.split)

section \<open>One node\<close>

lemma root_Lstat_view:
  assumes "layer_fs R s" and "no_faults h s" and "dir_at s (rDir R @ q)" and "list_all is_name (q @ [n])"
  shows "case node_at s (rDir R @ q @ [n]) of
     None \<Rightarrow> \<exists>err. root_Lstat h R (join_slash (q @ [n])) s = (Inl err, s)
   | Some nd \<Rightarrow> \<exists>i. root_Lstat h R (join_slash (q @ [n])) s = (Inr (fileinfo s i nd), s)"
  using assms(2)
  by (auto simp: root_Lstat_def root_op_def no_faults_def entry_resolve [OF assms(1,3,4)] p_stat_def node_at_def split: option.split)

context unix_effects
begin

lemma node_view:
  assumes nf: "\<And>s. no_faults h s" and ok: "layer_fs R s" and d: "dir_at s (rDir R @ butlast (epath e))"
    and names: "epath e \<noteq> []" "list_all is_name (epath e)" and plain: "plain_entry (fst e) (snd e)"
  defines "dst \<equiv> join_slash (epath e)"
  shows "\<exists>s1 s2. clearLayerTarget h R (fst e\<lparr>hName := dst\<rparr>) dst s = (Inr (), s1) \<and>
    createTarFile h R dst (ehdr opts e\<lparr>hName := dst\<rparr>) (snd e) (Some opts) s1 = (Inr (), s2) \<and>
    layer_fs R s2 \<and> view_of R s2 = put_entry h opts e (view_of R s)"
proof -
  let ?q = "butlast (epath e)" and ?n = "last (epath e)" and ?p = "rDir R @ epath e" and ?t = "view_of R s"
  let ?hdr = "ehdr opts e\<lparr>hName := dst\<rparr>"
  have path: "?q @ [?n] = epath e" "?q @ ?n # [] = epath e" and n: "list_all is_name (?q @ [?n])" "is_name ?n"
    using names by (simp_all add: list_all_iff)
  have dst: "dst = join_slash (?q @ [?n])" by (simp add: dst_def names(1))
  have hdr: "plain_entry ?hdr (snd e)" "hTypeflag ?hdr = hTypeflag (fst e)" using plain by (simp_all add: ehdr_def)
  note lstat = root_Lstat_view [OF ok nf d n(1), folded dst, unfolded path]
  text \<open>Where nothing is there, the node is made.\<close>
  have new: "\<exists>s2. createTarFile h R dst ?hdr (snd e) (Some opts) s1 = (Inr (), s2) \<and> layer_fs R s2 \<and>
      view_of R s2 = (view_of R s1)(epath e \<mapsto> entry_shape h opts e)"
    if s1: "layer_fs R s1" "dir_at s1 (rDir R @ ?q)" "ino_at s1 ?p = None" for s1
  proof -
    have i: "inos_ok s1" "dir_at s1 (rDir R)" "dirs_to s1 (rDir R) ?q" using s1(1) view_dirs [OF _ s1(2)] by (simp_all add: layer_fs_def)
    from createTarFile_makes [OF nf i _ n(1) hdr(1), of opts] s1(3) obtain s2 nd where
      2: "createTarFile h R dst ?hdr (snd e) (Some opts) s1 = (Inr (), s2)" "made_new ?p nd s1 s2"
        "made_like h opts ?hdr (snd e) nd" "timed_like h ?hdr nd" unfolding dst path by blast
    have "shape_of nd = entry_shape h opts e" by (rule entry_shape_made) (use 2(3,4) in \<open>simp_all add: ehdr_def\<close>)
    then show ?thesis using made_new_view [OF 2(2) s1(1,3) names(1) n(2) s1(2)] 2(1) by auto
  qed
  show ?thesis
  proof (cases "node_at s ?p")
    case None
    then have free: "ino_at s ?p = None" using ok view_None [of s R "epath e"] by (simp add: layer_fs_def view_of_def)
    have "\<not> dir_in ?t (epath e)" using None by (simp add: dir_in_view dir_at_def)
    moreover have "prune (epath e) ?t = ?t" using prune_None free ok by (simp add: layer_fs_def)
    moreover have "clearLayerTarget h R (fst e\<lparr>hName := dst\<rparr>) dst s = (Inr (), s)"
      using lstat None by (auto simp: clearLayerTarget_def bindE_tryE)
    ultimately show ?thesis using new [OF ok d free] by (auto simp: put_entry_def)
  next
    case (Some nd)
    then obtain i where l: "root_Lstat h R dst s = (Inr (fileinfo s i nd), s)" using lstat by auto
    show ?thesis
    proof (cases "hTypeflag (fst e) = TypeDir \<and> ikind nd = KDir")
      case True
      then have clear: "clearLayerTarget h R (fst e\<lparr>hName := dst\<rparr>) dst s = (Inr (), s)"
        using l by (simp add: clearLayerTarget_def bindE_tryE)
      have at: "placed R ?q ?n nd s" using Some ok view_dirs [OF _ d] path(1) by (simp add: placed_def layer_fs_def)
      have "createNode h R dst ?hdr (snd e) (oInUserNS opts) [] s = (Inr True, s)"
        unfolding dst by (rule createNode_keeps_dir [OF at _ n(1) nf]) (use True hdr(2) in simp_all)
      moreover have "no_sym nd" using True by (simp add: no_sym_def)
      ultimately have "createTarFile h R dst ?hdr (snd e) (Some opts) s = (Inr (), upd_at ?p (entry_update h opts ?hdr) s)"
        using createTarFile_updates [OF nf n(1) hdr(1) _ at] unfolding dst path by blast
      moreover have "shape_of (entry_update h opts ?hdr nd) = merged_shape h opts e (shape_of nd)"
        by (rule entry_shape_merged) (use True hdr(2) in simp_all)
      moreover have "?t (epath e) = Some (shape_of nd)" using Some by (simp add: view_of_def)
      moreover from this have "dir_in ?t (epath e)" using True by (simp add: dir_in_def shape_of_def)
      ultimately show ?thesis using clear True upd_dir_view [OF ok Some] by (auto simp: put_entry_def)
    next
      case False
      then have clear: "clearLayerTarget h R (fst e\<lparr>hName := dst\<rparr>) dst s = root_RemoveAll h R dst s"
        using l by (auto simp: clearLayerTarget_def bindE_tryE)
      from RemoveAll_view [OF ok nf d n(1)] obtain s1 where
        1: "root_RemoveAll h R dst s = (Inr (), s1)" "layer_fs R s1" "view_of R s1 = prune (epath e) ?t"
        unfolding dst path by blast
      have "view_of R s1 (epath e) = None" using 1(3) by (simp add: prune_def)
      then have free: "ino_at s1 ?p = None" using view_None 1(2) by (simp add: layer_fs_def)
      have "\<not> prefix (epath e) ?q" using names(1) prefix_length_le [of "epath e" ?q] by (cases "epath e" rule: rev_cases) auto
      then have "dir_in (view_of R s1) ?q" using 1(3) d by (simp add: dir_in_def prune_def) (simp add: dir_in_def [symmetric] dir_in_view)
      then have "dir_at s1 (rDir R @ ?q)" by (simp add: dir_in_view)
      from new [OF 1(2) this free] show ?thesis using 1 clear False Some
        by (auto simp: put_entry_def dir_in_view dir_at_node)
    qed
  qed
qed

end

section \<open>Opaque directories\<close>

text \<open>The tree without what is below \<open>d\<close>, but for the paths \<open>U\<close> whose parents up to \<open>d\<close> are in \<open>U\<close> too.\<close>

definition hide_below :: "string list \<Rightarrow> string list list \<Rightarrow> shapes \<Rightarrow> shapes" where
  "hide_below d U t =
     (\<lambda>q. if \<exists>x \<in> set (prefixes q). strict_prefix d x \<and> x \<notin> set U then None else t q)"

text \<open>What one visit of the walk hides: the path, or what is below it, unless it was unpacked.\<close>

definition swept :: "string list list \<Rightarrow> string list \<Rightarrow> string list \<Rightarrow> bool" where
  "swept U r q \<longleftrightarrow> (\<exists>x \<in> set (prefixes q). prefix r x \<and> x \<notin> set U)"

lemma swept_prefix: "swept U r q \<Longrightarrow> prefix r q"
  by (auto simp: swept_def)

lemma swept_not: "r \<notin> set U \<Longrightarrow> swept U r q \<longleftrightarrow> prefix r q"
  by (auto simp: swept_def)

lemma hide_below_swept:
  "hide_below d U t q = (if \<exists>n. swept U (d @ [n]) q then None else t q)"
proof -
  have "strict_prefix d x \<longleftrightarrow> (\<exists>n. prefix (d @ [n]) x)" for x
    by (auto simp: strict_prefix_def prefix_def) (metis append_Cons append_Nil append_assoc neq_Nil_conv)
  then have "(\<exists>x \<in> set (prefixes q). strict_prefix d x \<and> x \<notin> set U) \<longleftrightarrow> (\<exists>n. swept U (d @ [n]) q)"
    by (auto simp: swept_def)
  then show ?thesis by (simp add: hide_below_def)
qed

lemma sweep_kept:
  assumes "r \<in> set U"
  shows "(if swept U r q then None else t q) = hide_below r U t q"
proof -
  have "prefix r x \<and> x \<notin> set U \<longleftrightarrow> strict_prefix r x \<and> x \<notin> set U" for x using assms by (auto simp: strict_prefix_def)
  then show ?thesis by (simp add: swept_def hide_below_def)
qed

text \<open>A root opened by the absolute path of a directory.\<close>

definition named_root :: "host \<Rightarrow> string list \<Rightarrow> goRoot \<Rightarrow> bool" where
  "named_root h ps R \<longleftrightarrow> list_all is_name ps \<and> R = \<lparr>rName = abs_path ps, rDir = hRoot h @ ps\<rparr>"

lemma named_dirs:
  assumes "named_root h ps R" and "layer_fs R s" and "dir_at s (rDir R @ q)"
  shows "dirs_to s (hRoot h) (ps @ q)"
proof -
  have t: "tree_ok s" and d: "dir_at s (hRoot h @ ps)" using assms by (simp_all add: layer_fs_def named_root_def)
  have "dirs_to s (hRoot h) ps"
    using below_dirs_to [OF t, of "hRoot h" ps] dir_at_ino [OF d] d by (cases ps rule: rev_cases) (auto simp: dirs_to_snoc)
  from dirs_to_dir [OF t this, of q] assms show ?thesis by (simp add: named_root_def)
qed

lemma ReadDir_named:
  assumes R: "named_root h ps R" and ok: "layer_fs R s" and nf: "no_faults h s" and names: "list_all is_name q"
  shows "dir_at s (rDir R @ q) \<Longrightarrow>
      os_ReadDir h (abs_path (ps @ q)) s = (Inr (map (\<lambda>n. (n, dir_at s (rDir R @ q @ [n]))) (children s (rDir R @ q))), s)"
    and "q \<noteq> [] \<Longrightarrow> dir_at s (rDir R @ butlast q) \<Longrightarrow> ino_at s (rDir R @ q) = None \<Longrightarrow>
      os_ReadDir h (abs_path (ps @ q)) s = (Inl (PathError ''open'' (abs_path (ps @ q)) (Errno ENOENT)), s)"
proof -
  have pn: "list_all is_name ps" "rDir R = hRoot h @ ps" using R by (simp_all add: named_root_def)
  show "os_ReadDir h (abs_path (ps @ q)) s = (Inr (map (\<lambda>n. (n, dir_at s (rDir R @ q @ [n]))) (children s (rDir R @ q))), s)"
    if d: "dir_at s (rDir R @ q)"
  proof -
    have "kresolve h True (abs_path (ps @ q)) s = Inr (rDir R @ q)"
      using kresolve_dirs [OF named_dirs [OF R ok d], of True] names pn by simp
    then show ?thesis using nf d by (auto simp: os_ReadDir_def path_op_def no_faults_def p_readdir_def dir_at_node)
  qed
  show "os_ReadDir h (abs_path (ps @ q)) s = (Inl (PathError ''open'' (abs_path (ps @ q)) (Errno ENOENT)), s)"
    if q: "q \<noteq> []" "dir_at s (rDir R @ butlast q)" "ino_at s (rDir R @ q) = None"
  proof -
    obtain p n where s: "q = p @ [n]" using q(1) by (cases q rule: rev_cases) auto
    have d: "dirs_to s (hRoot h) (ps @ p)" using named_dirs [OF R ok, of p] q(2) s by simp
    have "node_at s (rDir R @ q) = None" using q(3) by (simp add: node_at_def)
    then have "kresolve h True (abs_path (ps @ q)) s = Inr (rDir R @ q)"
      using kresolve_abs [OF d, of n True] names pn by (simp add: s)
    then show ?thesis using nf q(3) by (simp add: os_ReadDir_def path_op_def no_faults_def p_readdir_def node_at_def)
  qed
qed

section \<open>The visits\<close>

lemma opaqueVisit_named:
  assumes R: "named_root h ps R" and nf: "no_faults h s" and ok: "layer_fs R s"
    and d: "dir_at s (rDir R @ q)" and names: "list_all is_name (q @ [n])" and top: "q @ [n] \<noteq> a" "list_all is_name a"
    and U: "\<forall>u \<in> set U. u \<noteq> [] \<and> list_all is_name u"
  shows "\<exists>s'. opaqueVisit h R (abs_path (ps @ a)) (map join_slash U) (abs_path (ps @ q @ [n])) dflag None s = (Inr (), s') \<and>
    layer_fs R s' \<and> view_of R s' = (if q @ [n] \<in> set U then view_of R s else prune (q @ [n]) (view_of R s)) \<and>
    (s' = s \<or> s' = remove_tree (hNow h) (rDir R @ q @ [n]) s)"
proof -
  have pn: "list_all is_name ps" "rName R = abs_path ps" using R by (simp_all add: named_root_def)
  have ne: "abs_path (ps @ q @ [n]) \<noteq> abs_path (ps @ a)" using abs_path_inj [of "ps @ q @ [n]" "ps @ a"] names top pn(1) by simp
  have rel: "Rel (rName R) (abs_path (ps @ q @ [n])) = Some (join_slash (q @ [n]))"
    using Rel_below [OF pn(1) names] pn(2) by (simp add: abs_path_def)
  have "u = q @ [n]" if "u \<in> set U" "join_slash (q @ [n]) = join_slash u" for u
    using that U names comps_join [of u] comps_join [of "q @ [n]"] names_are_comps by (metis snoc_eq_iff_butlast)
  then have mem: "join_slash (q @ [n]) \<in> set (map join_slash U) \<longleftrightarrow> q @ [n] \<in> set U" by auto
  from RemoveAll_view [OF ok nf d names] obtain s' where s':
    "root_RemoveAll h R (join_slash (q @ [n])) s = (Inr (), s')" "layer_fs R s'" "view_of R s' = prune (q @ [n]) (view_of R s)"
    "s' = s \<or> s' = remove_tree (hNow h) (rDir R @ q @ [n]) s" by blast
  show ?thesis
  proof (cases "q @ [n] \<in> set U")
    case True
    then show ?thesis using ok mem by (simp add: opaqueVisit_def ne rel)
  next
    case False
    then show ?thesis using s' mem by (auto simp: opaqueVisit_def ne rel)
  qed
qed

text \<open>The children of a directory, each visited by \<open>f\<close>.\<close>

lemma sweep_children:
  assumes f: "\<And>n s. n \<in> set ns \<Longrightarrow> layer_fs R s \<Longrightarrow> dir_at s (rDir R @ r) \<Longrightarrow> ino_at s (rDir R @ r @ [n]) \<noteq> None \<Longrightarrow>
      (\<And>q. ino_at s q \<noteq> None \<Longrightarrow> ino_at s0 q \<noteq> None) \<Longrightarrow>
      \<exists>s'. f n (dir_at s (rDir R @ r @ [n])) s = (Inr (), s') \<and> layer_fs R s' \<and>
        view_of R s' = (\<lambda>q. if swept U (r @ [n]) q then None else view_of R s q) \<and>
        (\<forall>q. ino_at s' q \<noteq> None \<longrightarrow> ino_at s q \<noteq> None)"
  shows "distinct ns \<Longrightarrow> layer_fs R s \<Longrightarrow> dir_at s (rDir R @ r) \<Longrightarrow>
    (\<And>n. n \<in> set ns \<Longrightarrow> ino_at s (rDir R @ r @ [n]) \<noteq> None \<and> dflag n = dir_at s (rDir R @ r @ [n])) \<Longrightarrow>
    (\<And>q. ino_at s q \<noteq> None \<Longrightarrow> ino_at s0 q \<noteq> None) \<Longrightarrow>
    \<exists>s'. walk_entries f (map (\<lambda>n. (n, dflag n)) ns) s = (Inr (), s') \<and> layer_fs R s' \<and>
      view_of R s' = (\<lambda>q. if \<exists>n \<in> set ns. swept U (r @ [n]) q then None else view_of R s q) \<and>
      (\<forall>q. ino_at s' q \<noteq> None \<longrightarrow> ino_at s q \<noteq> None)"
  using f
proof (induction ns arbitrary: s)
  case (Cons n ns)
  from Cons.prems(6) [of n s] Cons.prems(1-5) obtain s1 where
    1: "f n (dflag n) s = (Inr (), s1)" "layer_fs R s1"
      "view_of R s1 = (\<lambda>q. if swept U (r @ [n]) q then None else view_of R s q)" "\<forall>q. ino_at s1 q \<noteq> None \<longrightarrow> ino_at s q \<noteq> None"
    by auto
  have keep: "view_of R s1 q = view_of R s q" if "\<not> prefix (r @ [n]) q" for q using that swept_prefix 1(3) by auto
  have d1: "dir_at s1 (rDir R @ r)" using keep [of r] Cons.prems(3) by (simp add: dir_in_view [symmetric] dir_in_def)
  have k1: "ino_at s1 (rDir R @ r @ [m]) \<noteq> None \<and> dflag m = dir_at s1 (rDir R @ r @ [m])" if m: "m \<in> set ns" for m
  proof -
    have "m \<noteq> n" using m Cons.prems(1) by auto
    then have "view_of R s1 (r @ [m]) = view_of R s (r @ [m])" using keep by simp
    then show ?thesis using Cons.prems(4) [of m] m view_None [of s R "r @ [m]"] view_None [of s1 R "r @ [m]"] Cons.prems(2) 1(2)
      by (simp add: layer_fs_def dir_in_view [symmetric] dir_in_def del: not_None_eq)
  qed
  have "\<exists>s'. walk_entries f (map (\<lambda>n. (n, dflag n)) ns) s1 = (Inr (), s') \<and> layer_fs R s' \<and>
      view_of R s' = (\<lambda>q. if \<exists>n \<in> set ns. swept U (r @ [n]) q then None else view_of R s1 q) \<and>
      (\<forall>q. ino_at s' q \<noteq> None \<longrightarrow> ino_at s1 q \<noteq> None)"
    by (rule Cons.IH [OF _ 1(2) d1 k1]) (use Cons.prems 1(4) in \<open>simp_all del: not_None_eq\<close>)
  then show ?case using 1 by (auto simp: bindE_tryE fun_eq_iff simp del: not_None_eq)
qed auto

lemma hide_children:
  assumes "layer_fs R s"
  shows "(\<lambda>q. if \<exists>n \<in> set (children s (rDir R @ r)). swept U (r @ [n]) q then None else view_of R s q) = hide_below r U (view_of R s)"
proof
  fix q
  have "view_of R s q = None" if "swept U (r @ [n]) q" "n \<notin> set (children s (rDir R @ r))" for n
  proof -
    have "ino_at s (rDir R @ r @ [n]) = None" using that(2) set_children [of n s "rDir R @ r"] by simp
    then have "prune (r @ [n]) (view_of R s) = view_of R s" using prune_None assms by (simp add: layer_fs_def)
    then have "view_of R s q = prune (r @ [n]) (view_of R s) q" by simp
    then show ?thesis using swept_prefix [OF that(1)] by (simp add: prune_def)
  qed
  then show "(if \<exists>n \<in> set (children s (rDir R @ r)). swept U (r @ [n]) q then None else view_of R s q) = hide_below r U (view_of R s) q"
    unfolding hide_below_swept by auto
qed

lemma subset_remove: "s' = s \<or> s' = remove_tree now p s \<Longrightarrow> ino_at s' q \<noteq> None \<Longrightarrow> ino_at s q \<noteq> None"
  by (auto simp: ino_at_remove_tree split: if_splits)

lemma opaque_walk:
  assumes R: "named_root h ps R" and nf: "\<And>s. no_faults h s" and U: "\<forall>u \<in> set U. u \<noteq> [] \<and> list_all is_name u"
    and a: "list_all is_name a"
  defines "visit \<equiv> opaqueVisit h R (abs_path (ps @ a)) (map join_slash U)"
  shows "layer_fs R s \<Longrightarrow> dir_at s (rDir R @ butlast r) \<Longrightarrow> strict_prefix a r \<Longrightarrow> ino_at s (rDir R @ r) \<noteq> None \<Longrightarrow>
    deep_enough s0 (rDir R) r k \<Longrightarrow> (\<And>q. ino_at s q \<noteq> None \<Longrightarrow> ino_at s0 q \<noteq> None) \<Longrightarrow>
    \<exists>s'. walkDir k (os_ReadDir h) visit (abs_path (ps @ r)) (dir_at s (rDir R @ r)) s = (Inr (), s') \<and> layer_fs R s' \<and>
      view_of R s' = (\<lambda>q. if swept U r q then None else view_of R s q) \<and>
      (\<forall>q. ino_at s' q \<noteq> None \<longrightarrow> ino_at s q \<noteq> None)"
proof (induction k arbitrary: s r)
  case 0
  then have "ino_at s0 (rDir R @ r @ []) \<noteq> None" by simp
  then show ?case using 0(5) unfolding deep_enough_def by (blast dest: spec [of _ "[]"])
next
  case (Suc k)
  let ?p = "abs_path (ps @ r)"
  have t: "tree_ok s" using Suc.prems(1) by (simp add: layer_fs_def)
  have pn: "list_all is_name ps" using R by (simp add: named_root_def)
  have rn: "list_all is_name r" using below_names [OF t Suc.prems(4)] .
  have ne: "r \<noteq> []" "r \<noteq> a" using Suc.prems(3) by (auto simp: strict_prefix_def)
  then have snoc: "butlast r @ [last r] = r" by simp
  from opaqueVisit_named [OF R nf Suc.prems(1,2), of "last r" a U "dir_at s (rDir R @ r)"] rn ne a U obtain s1 where
    1: "visit ?p (dir_at s (rDir R @ r)) None s = (Inr (), s1)" "layer_fs R s1"
      "view_of R s1 = (if r \<in> set U then view_of R s else prune r (view_of R s))"
      "s1 = s \<or> s1 = remove_tree (hNow h) (rDir R @ r) s"
    unfolding visit_def snoc by auto
  note sub = subset_remove [OF 1(4)]
  consider (cut) "r \<notin> set U" | (leaf) "r \<in> set U" "\<not> dir_at s (rDir R @ r)" | (kept) "r \<in> set U" "dir_at s (rDir R @ r)" by blast
  then show ?case
  proof cases
    case cut
    then have v: "view_of R s1 = (\<lambda>q. if swept U r q then None else view_of R s q)" using 1(3) by (simp add: swept_not prune_def)
    have "view_of R s1 r = None" "\<not> prefix r (butlast r)"
      using 1(3) cut prefix_length_le [of r "butlast r"] ne(1) by (auto simp: prune_def) (cases r; simp)
    then have none: "ino_at s1 (rDir R @ r) = None" and "dir_in (view_of R s1) (butlast r) = dir_in (view_of R s) (butlast r)"
      using view_None [of s1 R r] 1(2,3) cut by (simp_all add: layer_fs_def prune_def dir_in_def)
    then have "dir_at s1 (rDir R @ butlast r)" using Suc.prems(2) by (simp add: dir_in_view)
    from ReadDir_named(2) [OF R 1(2) nf rn ne(1) this none]
    have "walkDir (Suc k) (os_ReadDir h) visit ?p (dir_at s (rDir R @ r)) s = (Inr (), s1)"
      using 1(1) by (simp add: bindE_tryE visit_def opaqueVisit_def)
    then show ?thesis using 1(2) v sub by blast
  next
    case leaf
    then have s1: "view_of R s1 = view_of R s" using 1(3) by simp
    have "view_of R s q = None" if sw: "swept U r q" for q
    proof -
      obtain z where q: "q = r @ z" using swept_prefix [OF sw] by (auto simp: prefix_def)
      have "q \<noteq> r" using sw leaf(1) by (auto simp: swept_def dest: prefix_order.antisym)
      then have "ino_at s (rDir R @ r @ z) = None" using below_dirs [OF t, of "rDir R" r z] leaf(2) q by (auto simp del: not_None_eq)
      then show ?thesis using view_None [OF t] q by simp
    qed
    then have "view_of R s1 = (\<lambda>q. if swept U r q then None else view_of R s q)" using s1 by (auto simp: fun_eq_iff)
    then show ?thesis using 1(1,2) leaf(2) sub by (intro exI [of _ s1]) (simp add: bindE_tryE del: not_None_eq)
  next
    case kept
    have d1: "dir_at s1 (rDir R @ r)" using kept 1(3) by (simp add: dir_in_view [symmetric])
    have rd: "os_ReadDir h ?p s1 = (Inr (map (\<lambda>n. (n, dir_at s1 (rDir R @ r @ [n]))) (children s1 (rDir R @ r))), s1)"
      using ReadDir_named(1) [OF R 1(2) nf rn d1] .
    have "\<exists>s'. walk_entries (\<lambda>n. walkDir k (os_ReadDir h) visit (Join [?p, n]))
        (map (\<lambda>n. (n, dir_at s1 (rDir R @ r @ [n]))) (children s1 (rDir R @ r))) s1 = (Inr (), s') \<and> layer_fs R s' \<and>
      view_of R s' = (\<lambda>q. if \<exists>n \<in> set (children s1 (rDir R @ r)). swept U (r @ [n]) q then None else view_of R s1 q) \<and>
      (\<forall>q. ino_at s' q \<noteq> None \<longrightarrow> ino_at s1 q \<noteq> None)"
    proof (rule sweep_children [where ?s0.0 = s0, OF _ _ 1(2) d1])
      fix n s2
      assume n: "n \<in> set (children s1 (rDir R @ r))" and s2: "layer_fs R s2" "dir_at s2 (rDir R @ r)" "ino_at s2 (rDir R @ r @ [n]) \<noteq> None"
        "\<And>q. ino_at s2 q \<noteq> None \<Longrightarrow> ino_at s0 q \<noteq> None"
      have "is_name n" using s2(1,3) tree_ok_snoc [of s2 "rDir R @ r" n] by (simp add: layer_fs_def)
      then have j: "Join [?p, n] = abs_path (ps @ r @ [n])" using Join_abs [of "ps @ r" n] pn rn by simp
      have "strict_prefix a (r @ [n])" using Suc.prems(3) by (auto simp: strict_prefix_def prefix_def)
      then show "\<exists>s'. walkDir k (os_ReadDir h) visit (Join [?p, n]) (dir_at s2 (rDir R @ r @ [n])) s2 = (Inr (), s') \<and> layer_fs R s' \<and>
        view_of R s' = (\<lambda>q. if swept U (r @ [n]) q then None else view_of R s2 q) \<and>
        (\<forall>q. ino_at s' q \<noteq> None \<longrightarrow> ino_at s2 q \<noteq> None)"
        unfolding j by (intro Suc.IH s2(1,3,4) deep_enough_child [OF Suc.prems(5)]) (use s2(2) in \<open>simp_all add: butlast_append\<close>)
    next
      show "\<And>q. ino_at s1 q \<noteq> None \<Longrightarrow> ino_at s0 q \<noteq> None" using sub Suc.prems(6) by blast
    qed (auto simp: set_children simp del: not_None_eq)
    then obtain s' where 2: "walk_entries (\<lambda>n. walkDir k (os_ReadDir h) visit (Join [?p, n]))
        (map (\<lambda>n. (n, dir_at s1 (rDir R @ r @ [n]))) (children s1 (rDir R @ r))) s1 = (Inr (), s')" "layer_fs R s'"
      "view_of R s' = hide_below r U (view_of R s)" "\<forall>q. ino_at s' q \<noteq> None \<longrightarrow> ino_at s1 q \<noteq> None"
      unfolding hide_children [OF 1(2)] using 1(3) kept(1) by auto
    have "walkDir (Suc k) (os_ReadDir h) visit ?p (dir_at s (rDir R @ r)) s = (Inr (), s')"
      using 1(1) 2(1) rd kept(2) by (simp add: bindE_tryE)
    moreover have "view_of R s' = (\<lambda>q. if swept U r q then None else view_of R s q)"
      using 2(3) sweep_kept [OF kept(1), of _ "view_of R s"] by (auto simp: fun_eq_iff)
    ultimately show ?thesis using 2(2,4) sub by blast
  qed
qed

lemma named_canon:
  assumes "named_root h ps R" and "layer_fs R s"
  shows "canon_root h R s"
proof -
  have "dir_at s (rDir R @ [])" using assms(2) by (simp add: layer_fs_def)
  from named_dirs [OF assms this] assms(1) show ?thesis
    by (simp add: canon_root_def named_root_def comps_abs abs_path_def [symmetric] Let_def)
qed

lemma opaque_view:
  assumes R: "named_root h ps R" and nf: "\<And>s. no_faults h s" and U: "\<forall>u \<in> set U. u \<noteq> [] \<and> list_all is_name u"
    and ok: "layer_fs R s" and d: "dir_at s (rDir R @ a)" and a: "list_all is_name a"
  shows "\<exists>s'. applyWhiteout h R (map join_slash U) WhiteoutOpaqueDir (join_slash (a @ [WhiteoutOpaqueDir])) s = (Inr (), s') \<and>
    layer_fs R s' \<and> view_of R s' = hide_below a U (view_of R s)"
proof -
  let ?dir = "if a = [] then dot else join_slash a" and ?p = "abs_path (ps @ a)" and ?fn = "opaqueVisit h R (abs_path (ps @ a)) (map join_slash U)"
  have pn: "list_all is_name ps" "rName R = abs_path ps" "rDir R = hRoot h @ ps" using R by (simp_all add: named_root_def)
  have t: "tree_ok s" using ok by (simp add: layer_fs_def)
  have wn: "is_name WhiteoutOpaqueDir" by code_simp
  have Dir: "Dir (join_slash (a @ [WhiteoutOpaqueDir])) = ?dir" using dir_parent [of a] a wn by simp
  obtain i nd where i: "ino_at s (rDir R @ a) = Some i" "inodes s i = Some nd" "ikind nd = KDir"
    using d by (auto simp: dir_at_node node_at_def split: option.splits)
  note da = view_dirs [OF t d]
  have "\<exists>fi. root_Lstat h R ?dir s = (Inr fi, s)"
  proof (cases a rule: rev_cases)
    case Nil
    then have "rresolve h R False ?dir s = Inr (rDir R @ a)" by (simp add: rresolve_def walk_skip IsAbs_def)
    then show ?thesis using nf i by (simp add: root_Lstat_def root_op_def no_faults_def p_stat_def)
  next
    case (snoc q n)
    then have "dir_at s (rDir R @ q)" using tree_ok_snoc [OF t, of "rDir R @ q" n] i by simp
    from root_Lstat_view [OF ok nf this, of n] snoc a i show ?thesis by (auto simp: node_at_def)
  qed
  then obtain fi where lstat: "root_Lstat h R ?dir s = (Inr fi, s)" by blast
  have "chroot_resolve R True ?dir s = Inr a"
  proof (cases "a = []")
    case True
    then show ?thesis by (simp add: chroot_resolve_def walk_skip)
  next
    case False
    then show ?thesis using walk_dirs [of s "rDir R" "[]" a InRoot True 255 "[]"] da a
      by (simp add: chroot_resolve_def split_join_comps names_are_comps)
  qed
  then have root: "fsRootPath h (rName R) ?dir s = Inr ?p"
    using fsRootPath_walk [OF named_canon [OF R ok] nf, of ?dir a] Join_names [OF clean_form_names [OF pn(1)] a]
    by (simp add: pn(2) abs_path_def)
  have names: "list_all is_name (ps @ a)" using pn a by simp
  have "kresolve h False ?p s = Inr (rDir R @ a)" using kresolve_dirs [OF named_dirs [OF R ok d] names, of False] pn by simp
  from os_Lstat_abs [OF nf this] i obtain fi' where fi': "os_Lstat h ?p s = (Inr fi', s)" "fi_is_dir fi'" by simp
  obtain k where k: "walk_depth s = Suc k" by (simp add: walk_depth_def)
  have deep: "deep_enough s (rDir R) a (Suc k)"
    using walk_depth_enough [of s "rDir R @ a @ _"] by (fastforce simp: deep_enough_def k)
  have "\<exists>s'. walk_entries (\<lambda>n. walkDir k (os_ReadDir h) ?fn (Join [?p, n]))
      (map (\<lambda>n. (n, dir_at s (rDir R @ a @ [n]))) (children s (rDir R @ a))) s = (Inr (), s') \<and> layer_fs R s' \<and>
    view_of R s' = (\<lambda>q. if \<exists>n \<in> set (children s (rDir R @ a)). swept U (a @ [n]) q then None else view_of R s q) \<and>
    (\<forall>q. ino_at s' q \<noteq> None \<longrightarrow> ino_at s q \<noteq> None)"
  proof (rule sweep_children [where ?s0.0 = s, OF _ _ ok d])
    fix n s2
    assume s2: "layer_fs R s2" "dir_at s2 (rDir R @ a)" "ino_at s2 (rDir R @ a @ [n]) \<noteq> None"
      "\<And>q. ino_at s2 q \<noteq> None \<Longrightarrow> ino_at s q \<noteq> None"
    have "is_name n" using s2(1,3) tree_ok_snoc [of s2 "rDir R @ a" n] by (simp add: layer_fs_def)
    then have j: "Join [?p, n] = abs_path (ps @ a @ [n])" using Join_abs [OF names] by simp
    show "\<exists>s'. walkDir k (os_ReadDir h) ?fn (Join [?p, n]) (dir_at s2 (rDir R @ a @ [n])) s2 = (Inr (), s') \<and> layer_fs R s' \<and>
      view_of R s' = (\<lambda>q. if swept U (a @ [n]) q then None else view_of R s2 q) \<and>
      (\<forall>q. ino_at s' q \<noteq> None \<longrightarrow> ino_at s2 q \<noteq> None)"
      unfolding j by (rule opaque_walk [OF R nf U a s2(1) _ _ s2(3) deep_enough_child [OF deep] s2(4)]) (use s2(2) in \<open>simp_all add: butlast_append strict_prefix_def\<close>)
  qed (auto simp: set_children simp del: not_None_eq)
  then obtain s' where s': "walk_entries (\<lambda>n. walkDir k (os_ReadDir h) ?fn (Join [?p, n]))
      (map (\<lambda>n. (n, dir_at s (rDir R @ a @ [n]))) (children s (rDir R @ a))) s = (Inr (), s')" "layer_fs R s'"
    "view_of R s' = hide_below a U (view_of R s)"
    unfolding hide_children [OF ok] by blast
  have "?fn ?p True None s = (Inr (), s)" by (simp add: opaqueVisit_def)
  then have "walkDir (walk_depth s) (os_ReadDir h) ?fn ?p True s = (Inr (), s')"
    using s'(1) ReadDir_named(1) [OF R ok nf a d] by (simp add: k bindE_tryE)
  then have "WalkDir h ?p ?fn s = (Inr (), s')" using fi' by (simp add: WalkDir_def WalkDir_in_def)
  moreover have "applyWhiteout h R (map join_slash U) WhiteoutOpaqueDir (join_slash (a @ [WhiteoutOpaqueDir])) s = WalkDir h ?p ?fn s"
    using lstat root by (simp add: applyWhiteout_def Dir Let_def bindE_def readE_def)
  ultimately show ?thesis using s'(2,3) by auto
qed

end
