(* ===== verification/LayerApply.thy ===== *)
theory LayerApply
  imports LayerView
begin

text \<open>
  Applying a layer as a function on trees (\<open>apply_layer\<close>), and that \<open>UnpackLayer\<close> refines it on a machine that
  refuses nothing.
\<close>

section \<open>Applying a layer to a tree\<close>

text \<open>The tree, and the paths unpacked so far, which an opaque marker spares.\<close>

definition apply_entry :: "host \<Rightarrow> TarOptions \<Rightarrow> tarHeader \<times> body \<Rightarrow> shapes \<times> string list list \<Rightarrow> shapes \<times> string list list" where
  "apply_entry h opts e tu =
     (let (t, U) = tu; d = butlast (epath e); n = last (epath e)
      in if n = WhiteoutOpaqueDir then (hide_below d U t, U)
         else if HasPrefix n WhiteoutPrefix then (prune (d @ [drop (length WhiteoutPrefix) n]) t, U)
         else (put_entry h opts e t, epath e # U))"

text \<open>An entry that is no whiteout; the entries that fit a tree; and a layer each of whose entries fits the tree it meets.\<close>

definition is_node :: "tarHeader \<times> body \<Rightarrow> bool" where
  "is_node e \<longleftrightarrow> \<not> HasPrefix (last (epath e)) WhiteoutPrefix"

definition entry_fits :: "TarOptions \<Rightarrow> tarHeader \<times> body \<Rightarrow> shapes \<Rightarrow> bool" where
  "entry_fits opts e t \<longleftrightarrow>
     epath e \<noteq> [] \<and> list_all is_name (epath e) \<and> dir_in t (butlast (epath e)) \<and>
     (HasPrefix (join_slash (epath e)) WhiteoutMetaPrefix \<longrightarrow> epath e = [WhiteoutOpaqueDir]) \<and>
     (if is_node e then plain_entry (fst e) (snd e) \<and> fst (remapIDs (oIDMap opts) (fst e)) = None
      else last (epath e) = WhiteoutOpaqueDir \<or> is_name (drop (length WhiteoutPrefix) (last (epath e))))"

fun layer_fits :: "host \<Rightarrow> TarOptions \<Rightarrow> (tarHeader \<times> body) list \<Rightarrow> shapes \<times> string list list \<Rightarrow> bool" where
  "layer_fits h opts [] tu = True"
| "layer_fits h opts (e # es) tu = (entry_fits opts e (fst tu) \<and> layer_fits h opts es (apply_entry h opts e tu))"

definition apply_layer :: "host \<Rightarrow> TarOptions \<Rightarrow> (tarHeader \<times> body) list \<Rightarrow> shapes \<Rightarrow> shapes" where
  "apply_layer h opts es t = fst (fold (apply_entry h opts) es (t, []))"

text \<open>The directories whose times are restored at the end, in order.\<close>

definition layer_dirs :: "(tarHeader \<times> body) list \<Rightarrow> (tarHeader \<times> body) list" where
  "layer_dirs es = filter (\<lambda>e. is_node e \<and> hTypeflag (fst e) = TypeDir) es"

section \<open>The loop\<close>

definition layer_at :: "goRoot \<Rightarrow> shapes \<times> string list list \<Rightarrow> layerState \<Rightarrow> bool" where
  "layer_at R tu st \<longleftrightarrow>
     layer_fs R (lsFs st) \<and> view_of R (lsFs st) = fst tu \<and> lsUnpacked st = map join_slash (snd tu) \<and>
     (\<forall>u \<in> set (snd tu). u \<noteq> [] \<and> list_all is_name u) \<and> lsTempdir st = []"

lemma onFs_run: "m (lsFs st) = (r, s') \<Longrightarrow> onFs m st = (r, st\<lparr>lsFs := s'\<rparr>)"
  by (simp add: onFs_def)

lemma HasPrefix_drop: "HasPrefix n p \<Longrightarrow> n = p @ drop (length p) n"
  by (auto simp: HasPrefix_def prefix_def)

context unix_effects
begin

lemma layerEntry_applies:
  assumes R: "named_root h ps R" and nf: "\<And>s. no_faults h s" and st: "layer_at R tu st" and e: "entry_fits opts e (fst tu)"
  shows "\<exists>st'. layerEntry h R dest opts e st = (Inr (), st') \<and> layer_at R (apply_entry h opts e tu) st' \<and>
    lsSize st' = lsSize st + hSize (fst e) \<and> lsDirs st' = lsDirs st @ map (dir_entry h) (layer_dirs [e])"
proof -
  obtain t U where tu: "tu = (t, U)" by (cases tu)
  let ?q = "butlast (epath e)" and ?n = "last (epath e)" and ?dst = "join_slash (epath e)"
  define st1 where "st1 = st\<lparr>lsSize := lsSize st + hSize (fst e)\<rparr>"
  have s: "layer_fs R (lsFs st1)" "view_of R (lsFs st1) = t" "lsUnpacked st1 = map join_slash U"
    "\<forall>u \<in> set U. u \<noteq> [] \<and> list_all is_name u" "lsTempdir st1 = []"
    using st by (simp_all add: layer_at_def tu st1_def)
  have names: "epath e \<noteq> []" "list_all is_name (epath e)" and d: "dir_at (lsFs st1) (rDir R @ ?q)"
    using e s(2) by (simp_all add: entry_fits_def tu dir_in_view [symmetric])
  have path: "?q @ [?n] = epath e" and n: "list_all is_name (?q @ [?n])" "list_all is_name ?q" using names by (simp_all add: list_all_butlast)
  have clean: "Clean (TrimLeft (hName (fst e)) slash) = ?dst" using Clean_names_of [OF TrimLeft_rel] names(2) unfolding epath_def by metis
  have loc: "?dst \<noteq> dot" "IsLocal ?dst"
    using local_path_not_dot [of ?dst] local_path_IsLocal [of ?dst] names by (auto simp: local_path_def)
  have base: "Base ?dst = ?n" using Base_names [OF n(1)] path by simp
  have dirs: "dirs_to (lsFs st1) (rDir R) ?q" "dir_at (lsFs st1) (rDir R)" using s(1) view_dirs [OF _ d] by (simp_all add: layer_fs_def)
  have res: "resolveArchivePath h R ?dst (lsFs st1) = Inr \<lparr>raPath = ?dst, parentWasPresent = True\<rparr>"
    using resolve_present [OF dirs n(1) nf] path by simp
  let ?hdr = "fst e\<lparr>hName := ?dst\<rparr>"
  have "layerEntry h R dest opts e st = layerPath h R opts ?hdr (snd e) st1"
  proof -
    have "?dst = WhiteoutOpaqueDir" if "HasPrefix ?dst WhiteoutMetaPrefix" using e that by (simp add: entry_fits_def)
    moreover have "\<not> HasPrefix WhiteoutOpaqueDir WhiteoutLinkDir" by code_simp
    ultimately show ?thesis
      using loc by (auto simp: layerEntry_def clean bindE_def modifyL_def st1_def unrepresentableOnWindows_def Let_def)
  qed
  also have "layerPath h R opts ?hdr (snd e) st1 =
      (if is_node e then layerNode h R opts ?hdr (snd e) ?dst st1
       else onFs (applyWhiteout h R (map join_slash U) ?n ?dst) st1)"
    using s(3) by (simp add: layerPath_def FromSlash_def bindE_def onFs_def readE_def res base is_node_def createImpliedDirectories_def getL_def Let_def)
  finally have run: "layerEntry h R dest opts e st =
      (if is_node e then layerNode h R opts ?hdr (snd e) ?dst st1 else onFs (applyWhiteout h R (map join_slash U) ?n ?dst) st1)" .
  show ?thesis
  proof (cases "is_node e")
    case True
    then have plain: "plain_entry (fst e) (snd e)" "fst (remapIDs (oIDMap opts) (fst e)) = None"
      using e by (simp_all add: entry_fits_def)
    have "HasPrefix WhiteoutOpaqueDir WhiteoutPrefix" by code_simp
    then have "?n \<noteq> WhiteoutOpaqueDir" using True by (auto simp: is_node_def)
    then have put: "apply_entry h opts e tu = (put_entry h opts e t, epath e # U)"
      using True by (simp add: apply_entry_def tu is_node_def Let_def)
    from node_view [OF nf s(1) d names plain(1), of opts] obtain s1 s2 where
      1: "clearLayerTarget h R ?hdr ?dst (lsFs st1) = (Inr (), s1)"
        "createTarFile h R ?dst (ehdr opts e\<lparr>hName := ?dst\<rparr>) (snd e) (Some opts) s1 = (Inr (), s2)"
        "layer_fs R s2" "view_of R s2 = put_entry h opts e t" unfolding s(2) by blast
    have "hTypeflag ?hdr \<noteq> TypeLink" using plain(1) by (auto simp: plain_entry_def)
    then have "layerNode h R opts ?hdr (snd e) ?dst st1 = (Inr (), st1\<lparr>lsFs := s2,
        lsDirs := (if hTypeflag (fst e) = TypeDir then lsDirs st1 @ [dir_entry h e] else lsDirs st1), lsUnpacked := ?dst # lsUnpacked st1\<rparr>)"
      using 1(1,2) plain(2)
      by (simp add: layerNode_def bindE_def onFs_def entrySource_def ehdr_def dir_entry_def modifyL_def Let_def)
    then show ?thesis using run True 1(3,4) s(3-5) names by (auto simp: layer_at_def put layer_dirs_def st1_def)
  next
    case False
    let ?m = "drop (length WhiteoutPrefix) ?n"
    have wh: "?n = WhiteoutPrefix @ ?m" by (rule HasPrefix_drop) (use False in \<open>simp add: is_node_def\<close>)
    have "\<exists>s'. applyWhiteout h R (map join_slash U) ?n ?dst (lsFs st1) = (Inr (), s') \<and> layer_fs R s' \<and>
        (view_of R s', U) = apply_entry h opts e tu"
    proof (cases "?n = WhiteoutOpaqueDir")
      case True
      from opaque_view [OF R nf s(4,1) d n(2)] path True show ?thesis by (auto simp: apply_entry_def tu s(2))
    next
      case name: False
      then have m: "list_all is_name (?q @ [?m])" using e n(2) False by (simp add: entry_fits_def)
      have "?m \<noteq> ''.wh..opq''" using name wh by (auto simp: whiteout_names)
      from applyWhiteout_name [OF m this, folded wh, of h R "map join_slash U"] path
      have "applyWhiteout h R (map join_slash U) ?n ?dst = root_RemoveAll h R (join_slash (?q @ [?m]))" by simp
      then show ?thesis using RemoveAll_view [OF s(1) nf d m] name False by (auto simp: apply_entry_def tu s(2) is_node_def)
    qed
    then obtain s' where s': "onFs (applyWhiteout h R (map join_slash U) ?n ?dst) st1 = (Inr (), st1\<lparr>lsFs := s'\<rparr>)" "layer_fs R s'"
      "(view_of R s', U) = apply_entry h opts e tu" using onFs_run by blast
    have "layer_at R (view_of R s', U) (st1\<lparr>lsFs := s'\<rparr>)" using s'(2) s(3-5) by (simp add: layer_at_def)
    then show ?thesis using run False s' by (auto simp: layer_dirs_def st1_def)
  qed
qed

lemma layerLoop_applies:
  assumes R: "named_root h ps R" and nf: "\<And>s. no_faults h s"
  shows "layer_at R tu st \<Longrightarrow> layer_fits h opts es tu \<Longrightarrow>
    \<exists>st'. layerLoop h R dest opts es None st = (Inr (), st') \<and> layer_at R (fold (apply_entry h opts) es tu) st' \<and>
      lsSize st' = lsSize st + (\<Sum>e \<leftarrow> es. hSize (fst e)) \<and> lsDirs st' = lsDirs st @ map (dir_entry h) (layer_dirs es)"
proof (induction es arbitrary: tu st)
  case (Cons e es)
  from layerEntry_applies [OF R nf Cons.prems(1), of opts e dest] Cons.prems(2) obtain st1 where
    1: "layerEntry h R dest opts e st = (Inr (), st1)" "layer_at R (apply_entry h opts e tu) st1"
      "lsSize st1 = lsSize st + hSize (fst e)" "lsDirs st1 = lsDirs st @ map (dir_entry h) (layer_dirs [e])" by auto
  from Cons.IH [OF 1(2)] Cons.prems(2) obtain st' where
    2: "layerLoop h R dest opts es None st1 = (Inr (), st')" "layer_at R (fold (apply_entry h opts) es (apply_entry h opts e tu)) st'"
      "lsSize st' = lsSize st1 + (\<Sum>e \<leftarrow> es. hSize (fst e))" "lsDirs st' = lsDirs st1 @ map (dir_entry h) (layer_dirs es)" by auto
  then show ?case using 1 by (intro exI [of _ st']) (simp add: bindE_def add.assoc layer_dirs_def)
qed (simp add: layer_dirs_def)

end

section \<open>The times of directories\<close>

definition dir_timed :: "host \<Rightarrow> goRoot \<Rightarrow> fsys \<Rightarrow> tarHeader \<times> body \<Rightarrow> bool" where
  "dir_timed h R s e \<longleftrightarrow> (\<exists>nd. node_at s (rDir R @ epath e) = Some nd \<and> timed_like h (fst e) nd)"

lemma restore_view:
  assumes nf: "\<And>s. no_faults h s"
  shows "layer_fs R s \<Longrightarrow> (\<And>e. e \<in> set ds \<Longrightarrow> epath e \<noteq> [] \<and> list_all is_name (epath e) \<and> dir_in (view_of R s) (epath e)) \<Longrightarrow>
    \<exists>s'. restoreDirTimes h R (map (dir_entry h) ds) s = (Inr (), s') \<and> layer_fs R s' \<and> view_of R s' = view_of R s \<and>
      (\<forall>q. q \<notin> epath ` set ds \<longrightarrow> node_at s' (rDir R @ q) = node_at s (rDir R @ q)) \<and>
      (\<forall>ds1 e ds2. ds = ds1 @ e # ds2 \<longrightarrow> epath e \<notin> epath ` set ds2 \<longrightarrow> dir_timed h R s' e)"
proof (induction ds arbitrary: s)
  case (Cons e ds)
  let ?p = "rDir R @ epath e" and ?f = "set_times h (fst e)"
  let ?s1 = "upd_at ?p ?f s"
  have e: "epath e \<noteq> []" "list_all is_name (epath e)" "dir_at s ?p" using Cons.prems(2) [of e] by (simp_all add: dir_in_view)
  then obtain nd where nd: "node_at s ?p = Some nd" "ikind nd = KDir" by (auto simp: dir_at_node)
  have t: "tree_ok s" "dir_at s (rDir R)" using Cons.prems(1) by (simp_all add: layer_fs_def)
  have path: "butlast (epath e) @ [last (epath e)] = epath e" using e(1) by simp
  have "dirs_to s (rDir R) (butlast (epath e))" using dirs_to_butlast view_dirs [OF t(1) e(3)] by blast
  then have "placed R (butlast (epath e)) (last (epath e)) nd s" using nd t(2) path by (simp add: placed_def)
  then have run: "chtimes h R (udName (dir_entry h e)) (udAtime (dir_entry h e)) (udMtime (dir_entry h e)) s = (Inr (), ?s1)"
    using run_chtimes [of R "butlast (epath e)" "last (epath e)" nd s h] e(2) nf nd(2) path
    by (simp add: dir_entry_def no_sym_def set_times_def [abs_def])
  have 1: "layer_fs R ?s1" "view_of R ?s1 = (view_of R s)(epath e \<mapsto> shape_of (?f nd))"
    using upd_dir_view [OF Cons.prems(1) nd, of ?f] by simp_all
  have "shape_of (?f nd) = shape_of nd" using nd(2) by (simp add: shape_of_def set_times_def)
  then have v1: "view_of R ?s1 = view_of R s" using 1(2) nd(1) by (simp add: view_of_def fun_upd_idem)
  obtain i where i: "ino_at s ?p = Some i" "inodes s i = Some nd" using nd(1) by (auto simp: node_at_def split: option.splits)
  have only: "ino_at s q = Some i \<longleftrightarrow> q = ?p" for q
    using Cons.prems(1) i e(3) unfolding layer_fs_def single_dirs_def by blast
  have nodes: "node_at ?s1 (rDir R @ q) = (if q = epath e then Some (?f nd) else node_at s (rDir R @ q))" for q
    using i(2) unfolding upd_at_some [OF i(1)] by (simp add: node_at_upd_inode only)
  from Cons.IH [OF 1(1)] Cons.prems(2) v1 obtain s' where
    2: "restoreDirTimes h R (map (dir_entry h) ds) ?s1 = (Inr (), s')" "layer_fs R s'" "view_of R s' = view_of R s"
      "\<forall>q. q \<notin> epath ` set ds \<longrightarrow> node_at s' (rDir R @ q) = node_at ?s1 (rDir R @ q)"
      "\<forall>ds1 e ds2. ds = ds1 @ e # ds2 \<longrightarrow> epath e \<notin> epath ` set ds2 \<longrightarrow> dir_timed h R s' e" by auto
  have "dir_timed h R s' x" if "e # ds = ds1 @ x # ds2" "epath x \<notin> epath ` set ds2" for ds1 x ds2
  proof (cases ds1)
    case Nil
    then have "x = e" "ds2 = ds" using that(1) by simp_all
    then show ?thesis using 2(4) that(2) nodes by (auto simp: dir_timed_def timed_like_def set_times_def)
  next
    case (Cons y ys)
    then have "ds = ys @ x # ds2" using that(1) by simp
    then show ?thesis using 2(5) that(2) by blast
  qed
  moreover have "restoreDirTimes h R (map (dir_entry h) (e # ds)) s = (Inr (), s')"
    using run 2(1) by (simp add: restoreDirTimes_def bindE_def)
  ultimately show ?case using 2(2-4) nodes by (intro exI [of _ s']) auto
qed (simp add: restoreDirTimes_def)

section \<open>The property\<close>

lemma root_at_named: "canon_root h (root_at h dest) s \<Longrightarrow> named_root h (comps dest) (root_at h dest)"
  by (auto simp: canon_root_def root_at_def named_root_def Let_def abs_path_def)

lemma layer_fits_dirs:
  "layer_fits h opts es tu \<Longrightarrow> e \<in> set (layer_dirs es) \<Longrightarrow> epath e \<noteq> [] \<and> list_all is_name (epath e)"
proof (induction es arbitrary: tu)
  case (Cons x es)
  have "e = x \<or> e \<in> set (layer_dirs es)" using Cons.prems(2) by (auto simp: layer_dirs_def split: if_splits)
  moreover have "epath x \<noteq> [] \<and> list_all is_name (epath x)" using Cons.prems(1) by (simp add: entry_fits_def)
  moreover have "layer_fits h opts es (apply_entry h opts x tu)" using Cons.prems(1) by simp
  ultimately show ?case using Cons.IH by metis
qed (simp add: layer_dirs_def)

context unix_effects
begin

lemma UnpackLayer_run:
  assumes nf: "\<And>s. no_faults h s" and root: "root_ok h (root_at h dest) s" and t: "tree_ok s" "single_dirs s"
    and layer: "tsEnd layer = None" "layer_fits h opts (tsEntries layer) (view_of (root_at h dest) s, [])"
    and dirs: "list_all (\<lambda>e. dir_in (apply_layer h opts (tsEntries layer) (view_of (root_at h dest) s)) (epath e)) (layer_dirs (tsEntries layer))"
  shows "\<exists>s'. UnpackLayer h m dest layer (Some opts) s = (Inr (\<Sum>e \<leftarrow> tsEntries layer. hSize (fst e)), s') \<and>
    view_of (root_at h dest) s' = apply_layer h opts (tsEntries layer) (view_of (root_at h dest) s) \<and>
    (\<forall>ds1 e ds2. layer_dirs (tsEntries layer) = ds1 @ e # ds2 \<longrightarrow> epath e \<notin> epath ` set ds2 \<longrightarrow> dir_timed h (root_at h dest) s' e)"
proof -
  let ?R = "root_at h dest" and ?es = "tsEntries layer"
  have R: "named_root h (comps dest) ?R" by (rule root_at_named [of h dest s]) (use root in \<open>simp add: root_ok_def\<close>)
  have "layer_at ?R (view_of ?R s, []) (initLayerState s)"
    using root t by (simp add: layer_at_def layer_fs_def initLayerState_def root_ok_def)
  from layerLoop_applies [OF R nf this layer(2), of dest] obtain st where
    1: "layerLoop h ?R dest opts ?es None (initLayerState s) = (Inr (), st)"
      "layer_at ?R (fold (apply_entry h opts) ?es (view_of ?R s, [])) st"
      "lsSize st = (\<Sum>e \<leftarrow> ?es. hSize (fst e))" "lsDirs st = map (dir_entry h) (layer_dirs ?es)"
    by (auto simp: initLayerState_def)
  have 2: "layer_fs ?R (lsFs st)" "view_of ?R (lsFs st) = apply_layer h opts ?es (view_of ?R s)" "lsTempdir st = []"
    using 1(2) by (simp_all add: layer_at_def apply_layer_def)
  have "epath e \<noteq> [] \<and> list_all is_name (epath e) \<and> dir_in (view_of ?R (lsFs st)) (epath e)" if "e \<in> set (layer_dirs ?es)" for e
    using that layer_fits_dirs [OF layer(2)] dirs by (auto simp: 2(2) list_all_iff)
  from restore_view [OF nf 2(1) this] obtain s' where
    3: "restoreDirTimes h ?R (lsDirs st) (lsFs st) = (Inr (), s')" "view_of ?R s' = view_of ?R (lsFs st)"
      "\<forall>ds1 e ds2. layer_dirs ?es = ds1 @ e # ds2 \<longrightarrow> epath e \<notin> epath ` set ds2 \<longrightarrow> dir_timed h ?R s' e"
    unfolding 1(4) by blast
  have "layerBody h ?R dest opts layer (initLayerState s) = (Inr (lsSize st), st\<lparr>lsFs := s'\<rparr>)"
    using 1(1) 3(1) layer(1) by (simp add: layerBody_def bindE_def getL_def onFs_def)
  then have "UnpackLayer h m dest layer (Some opts) s = (Inr (lsSize st), s')"
    using 2(3) by (simp add: UnpackLayer_def bindE_def os_OpenRoot_opens [OF root nf] deferE_def removeTempdir_def getL_def)
  then show ?thesis using 1(3) 2(2) 3(2,3) by auto
qed

end

text \<open>
  C4: \<open>UnpackLayer\<close> refines the application of a layer to a tree. On a machine that refuses nothing, for a layer of
  directories, regular files, symlinks, whiteouts and opaque markers whose parents are there when their turn comes (and
  whose directories are still there at the end), it returns the sum of the sizes in the headers, and the tree below the
  destination is \<open>apply_layer\<close> of what it was: a whiteout removes what it names with all that is below; an
  opaque marker removes what is below its directory unless it was unpacked from this layer; an entry for a directory
  gives a directory that is there its mode and owner and keeps its contents; every other entry replaces what
  is there. The kinds, data, targets, modes, owners and attributes are those, the times of files and symlinks too, and
  every directory of the layer has the times of its last entry although names were made and removed in it after that.
\<close>

theorem UnpackLayer_applies:
  assumes "unix_effects h procfd" and "\<And>s. no_faults h s" and "root_ok h (root_at h dest) s"
    and "tree_ok s" and "single_dirs s" and "tsEnd layer = None"
    and "layer_fits h opts (tsEntries layer) (view_of (root_at h dest) s, [])"
    and "list_all (\<lambda>e. dir_in (apply_layer h opts (tsEntries layer) (view_of (root_at h dest) s)) (epath e)) (layer_dirs (tsEntries layer))"
  shows "\<exists>s'. UnpackLayer h m dest layer (Some opts) s = (Inr (\<Sum>e \<leftarrow> tsEntries layer. hSize (fst e)), s') \<and>
    view_of (root_at h dest) s' = apply_layer h opts (tsEntries layer) (view_of (root_at h dest) s) \<and>
    (\<forall>ds1 e ds2. layer_dirs (tsEntries layer) = ds1 @ e # ds2 \<longrightarrow> epath e \<notin> epath ` set ds2 \<longrightarrow>
      (\<exists>nd. node_at s' (hRoot h @ comps dest @ epath e) = Some nd \<and> timed_like h (fst e) nd))"
  using unix_effects.UnpackLayer_run [OF assms, of m] by (simp add: dir_timed_def root_at_def)

text \<open>
  A layer that remakes \<open>etc\<close>: a new file and an opaque marker in it, a file in place of a symlink, and a
  whiteout.
\<close>

definition etc_layer :: tarStream where
  "etc_layer =
     \<lparr>tsEntries =
        [(suid_header\<lparr>hTypeflag := TypeDir, hName := ''etc/'', hModTime := 9 * second\<rparr>, \<lparr>bData = [], bErr = None\<rparr>),
         (suid_header\<lparr>hName := ''etc/new'', hSize := 4\<rparr>, \<lparr>bData = ''data'', bErr = None\<rparr>),
         (suid_header\<lparr>hName := ''etc/.wh..wh..opq''\<rparr>, \<lparr>bData = [], bErr = None\<rparr>),
         (suid_header\<lparr>hName := ''link'', hSize := 1\<rparr>, \<lparr>bData = ''x'', bErr = None\<rparr>),
         (suid_header\<lparr>hName := ''/.wh.up''\<rparr>, \<lparr>bData = [], bErr = None\<rparr>)],
      tsEnd = None\<rparr>"

lemma single_dirs_list:
  assumes "\<forall>(p, i) \<in> set (dents s). \<forall>(q, j) \<in> set (dents s). i = j \<longrightarrow> dir_at s p \<longrightarrow> q = p"
  shows "single_dirs s"
  using assms unfolding single_dirs_def ino_at_def by (blast dest: map_of_SomeD)

theorem UnpackLayer_applies_witness:
  "\<exists>s'. UnpackLayer posix_host no_map ''/dest'' etc_layer (Some (zeroTarOptions shift_map)) demo_fs = (Inr 5, s') \<and>
     map (\<lambda>q. map_option (\<lambda>x. (shKind x, shUid x)) (view_of demo_root s' q)) [[''etc''], [''etc'', ''new''], [''etc'', ''motd''], [''link''], [''up'']] =
       [Some (KDir, 100007), Some (KReg ''data'', 100007), None, Some (KReg ''x'', 100007), None]"
proof -
  have nf: "no_faults posix_host s" for s by (simp add: no_faults_def)
  have R: "demo_root = root_at posix_host ''/dest''" by code_simp
  have s: "tree_ok demo_fs" "single_dirs demo_fs" by (rule tree_ok_list, code_simp) (rule single_dirs_list, code_simp)
  have eos: "tsEnd etc_layer = None" by (simp add: etc_layer_def)
  have fits: "layer_fits posix_host (zeroTarOptions shift_map) (tsEntries etc_layer) (view_of (root_at posix_host ''/dest'') demo_fs, [])"
    by code_simp
  have dirs: "list_all (\<lambda>e. dir_in (apply_layer posix_host (zeroTarOptions shift_map) (tsEntries etc_layer) (view_of (root_at posix_host ''/dest'') demo_fs)) (epath e))
      (layer_dirs (tsEntries etc_layer))" by code_simp
  from UnpackLayer_applies [OF posix_effects.unix_effects_axioms nf demo_root_ok s eos fits dirs, of no_map] obtain s' where
    u: "UnpackLayer posix_host no_map ''/dest'' etc_layer (Some (zeroTarOptions shift_map)) demo_fs =
        (Inr (\<Sum>e \<leftarrow> tsEntries etc_layer. hSize (fst e)), s')"
      "view_of demo_root s' = apply_layer posix_host (zeroTarOptions shift_map) (tsEntries etc_layer) (view_of demo_root demo_fs)"
    unfolding R by blast
  have "(\<Sum>e \<leftarrow> tsEntries etc_layer. hSize (fst e)) = 5" by code_simp
  moreover have "map (\<lambda>q. map_option (\<lambda>x. (shKind x, shUid x)) (apply_layer posix_host (zeroTarOptions shift_map) (tsEntries etc_layer) (view_of demo_root demo_fs) q))
      [[''etc''], [''etc'', ''new''], [''etc'', ''motd''], [''link''], [''up'']] =
    [Some (KDir, 100007), Some (KReg ''data'', 100007), None, Some (KReg ''x'', 100007), None]" by code_simp
  ultimately show ?thesis using u by auto
qed

end
