(* ===== verification/Unshare.thy ===== *)
theory Unshare
  imports GoTypes
begin

text \<open>
  \<open>unshare.Go\<close> of \<open>internal/unshare\<close>: a goroutine on a thread of its own, as a state machine. Its
  steps are the system calls and the two functions it is given, each with the outcome it has; the
  map of reversible flags is iterated in an order that is a parameter.
\<close>

section \<open>Flags\<close>

text \<open>The constants of \<open>golang.org/x/sys/unix\<close> the function uses.\<close>

definition CLONE_NEWTIME :: "64 word" where "CLONE_NEWTIME = 0x80"
definition CLONE_FS :: "64 word" where "CLONE_FS = 0x200"
definition CLONE_NEWNS :: "64 word" where "CLONE_NEWNS = 0x20000"
definition CLONE_NEWCGROUP :: "64 word" where "CLONE_NEWCGROUP = 0x2000000"
definition CLONE_NEWUTS :: "64 word" where "CLONE_NEWUTS = 0x4000000"
definition CLONE_NEWPID :: "64 word" where "CLONE_NEWPID = 0x20000000"
definition CLONE_NEWNET :: "64 word" where "CLONE_NEWNET = 0x40000000"

definition reversibleSetnsFlags :: "(64 word \<times> string) list" where
  "reversibleSetnsFlags =
     [(CLONE_NEWCGROUP, ''cgroup''), (CLONE_NEWNET, ''net''), (CLONE_NEWUTS, ''uts''),
      (CLONE_NEWPID, ''pid''), (CLONE_NEWTIME, ''time'')]"

definition maskedFlags :: "64 word \<Rightarrow> 64 word" where
  "maskedFlags flags = fold (\<lambda>e m. m AND NOT (fst e)) reversibleSetnsFlags flags"

definition isReversible :: "64 word \<Rightarrow> bool" where
  "isReversible flags \<longleftrightarrow> maskedFlags flags = 0"

text \<open>The namespaces the flags name.\<close>

definition flagged :: "64 word \<Rightarrow> string \<Rightarrow> bool" where
  "flagged flags ns \<longleftrightarrow> (\<exists>e \<in> set reversibleSetnsFlags. snd e = ns \<and> flags AND fst e = fst e)"

section \<open>The goroutine\<close>

text \<open>
  Of its thread: the id, the namespace it is in for each kind, the state that no \<open>setns\<close> can restore, and
  whether the goroutine is locked to it.
\<close>

record thread =
  thTid :: nat
  thNs :: "string \<Rightarrow> nat"
  thRest :: nat
  thLocked :: bool

datatype gopc = Locking | Saving "(64 word \<times> string) list" | Unsharing | Setting | Running | Unwinding | Ended

text \<open>
  \<open>gSaved\<close> are the descriptors of the namespaces saved so far, each with a deferred function,
  the last one on top; \<open>gReversible\<close> is the variable; \<open>gSent\<close> is what went through the channel
  \<open>started\<close>: an error, or nil when it was closed.
\<close>

record goroutine =
  gPc :: gopc
  gThread :: thread
  gReversible :: bool
  gSaved :: "(string \<times> nat) list"
  gSent :: "goerror option option"

text \<open>
  The steps with their outcomes. After \<open>unshare(2)\<close>, in \<open>setupfn\<close> and in \<open>fn\<close>, what the flags
  disassociate may become anything: a function from kinds to namespaces, and a number for the rest.
\<close>

datatype goevent =
    EvLock
  | EvSave "errno option"
  | EvUnshare "errno option" "string \<Rightarrow> nat" nat
  | EvSetup "goerror option" "string \<Rightarrow> nat" nat
  | EvRun "string \<Rightarrow> nat" nat
  | EvRestore "errno option"
  | EvReturn

definition change_thread :: "64 word \<Rightarrow> (string \<Rightarrow> nat) \<Rightarrow> nat \<Rightarrow> thread \<Rightarrow> thread" where
  "change_thread flags new rest t =
     t\<lparr>thNs := (\<lambda>ns. if flagged flags ns then new ns else thNs t ns),
       thRest := (if isReversible flags then thRest t else rest)\<rparr>"

definition next_save :: "(64 word \<times> string) list \<Rightarrow> gopc" where
  "next_save todo = (if todo = [] then Unsharing else Saving todo)"

definition goStart :: "64 word \<Rightarrow> thread \<Rightarrow> goroutine" where
  "goStart flags t =
     \<lparr>gPc = Locking, gThread = t, gReversible = isReversible flags, gSaved = [], gSent = None\<rparr>"

text \<open>The path of a namespace of a thread.\<close>

definition nsPath :: "nat \<Rightarrow> string \<Rightarrow> string" where
  "nsPath tid ns = ''/proc/self/task/'' @ itoa tid @ ''/ns/'' @ ns"

text \<open>One step; \<open>None\<close> where the event is not possible.\<close>

fun goStep :: "64 word \<Rightarrow> (64 word \<times> string) list \<Rightarrow> goroutine \<Rightarrow> goevent \<Rightarrow> goroutine option" where
  "goStep flags order g EvLock =
     (if gPc g = Locking
      then Some (g\<lparr>gThread := (gThread g)\<lparr>thLocked := True\<rparr>,
                   gPc := (if isReversible flags
                           then next_save (filter (\<lambda>e. flags AND fst e = fst e) order) else Unsharing)\<rparr>)
      else None)"
| "goStep flags order g (EvSave r) =
     (case gPc g of
        Saving ((f, ns) # rest) \<Rightarrow>
          (case r of
             Some e \<Rightarrow> Some (g\<lparr>gSent := Some (Some (PathError ''open'' (nsPath (thTid (gThread g)) ns) (Errno e))), gPc := Unwinding\<rparr>)
           | None \<Rightarrow> Some (g\<lparr>gSaved := (ns, thNs (gThread g) ns) # gSaved g, gPc := next_save rest\<rparr>))
      | _ \<Rightarrow> None)"
| "goStep flags order g (EvUnshare r new rest) =
     (if gPc g = Unsharing
      then
        (case r of
           Some e \<Rightarrow> Some (g\<lparr>gSent := Some (Some (PathError ''unshare'' [] (Errno e))), gPc := Unwinding\<rparr>)
         | None \<Rightarrow> Some (g\<lparr>gThread := change_thread flags new rest (gThread g), gPc := Setting\<rparr>))
      else None)"
| "goStep flags order g (EvSetup r new rest) =
     (if gPc g = Setting
      then
        (case r of
           Some e \<Rightarrow> Some (g\<lparr>gThread := change_thread flags new rest (gThread g), gSent := Some (Some e), gPc := Unwinding\<rparr>)
         | None \<Rightarrow> Some (g\<lparr>gThread := change_thread flags new rest (gThread g), gSent := Some None, gPc := Running\<rparr>))
      else None)"
| "goStep flags order g (EvRun new rest) =
     (if gPc g = Running
      then Some (g\<lparr>gThread := change_thread flags new rest (gThread g), gPc := Unwinding\<rparr>)
      else None)"
| "goStep flags order g (EvRestore r) =
     (if gPc g = Unwinding
      then
        (case gSaved g of
           [] \<Rightarrow> None
         | (ns, i) # saved \<Rightarrow>
             Some (if \<not> gReversible g then g\<lparr>gSaved := saved\<rparr>
                   else
                     (case r of
                        Some _ \<Rightarrow> g\<lparr>gReversible := False, gSaved := saved\<rparr>
                      | None \<Rightarrow> g\<lparr>gThread := (gThread g)\<lparr>thNs := (thNs (gThread g))(ns := i)\<rparr>, gSaved := saved\<rparr>)))
      else None)"
| "goStep flags order g EvReturn =
     (if gPc g = Unwinding \<and> gSaved g = []
      then Some (g\<lparr>gThread := (gThread g)\<lparr>thLocked := \<not> (isReversible flags \<and> gReversible g)\<rparr>, gPc := Ended\<rparr>)
      else None)"

text \<open>The states a call can reach, from a fresh thread and for some order of the map.\<close>

inductive go_reach :: "64 word \<Rightarrow> (64 word \<times> string) list \<Rightarrow> thread \<Rightarrow> goroutine \<Rightarrow> bool"
  for flags order t
where
  start: "go_reach flags order t (goStart flags t)"
| step: "go_reach flags order t g \<Longrightarrow> goStep flags order g ev = Some g' \<Longrightarrow> go_reach flags order t g'"

text \<open>A run of the machine, for evaluation.\<close>

fun goRun :: "64 word \<Rightarrow> (64 word \<times> string) list \<Rightarrow> goroutine \<Rightarrow> goevent list \<Rightarrow> goroutine option" where
  "goRun flags order g [] = Some g"
| "goRun flags order g (ev # evs) =
     (case goStep flags order g ev of None \<Rightarrow> None | Some g' \<Rightarrow> goRun flags order g' evs)"

lemma goRun_reach: "go_reach flags order t g \<Longrightarrow> goRun flags order g evs = Some g' \<Longrightarrow> go_reach flags order t g'"
  by (induction evs arbitrary: g) (auto intro: go_reach.step split: option.splits)

section \<open>The invariant\<close>

text \<open>
  Before \<open>unshare(2)\<close> the thread is untouched; afterwards each flagged namespace is saved. While
  the deferred functions run, a namespace is either still to be restored or back, unless one
  could not be restored.
\<close>

definition saved_ok :: "thread \<Rightarrow> (string \<times> nat) list \<Rightarrow> bool" where
  "saved_ok t saved \<longleftrightarrow> (\<forall>e \<in> set saved. snd e = thNs t (fst e))"

definition as_before :: "64 word \<Rightarrow> thread \<Rightarrow> goroutine \<Rightarrow> bool" where
  "as_before flags t g \<longleftrightarrow>
     (\<forall>ns. ns \<notin> fst ` set (gSaved g) \<longrightarrow> thNs (gThread g) ns = thNs t ns) \<and> thRest (gThread g) = thRest t"

definition todo_of :: "gopc \<Rightarrow> (64 word \<times> string) list" where
  "todo_of pc = (case pc of Saving todo \<Rightarrow> todo | _ \<Rightarrow> [])"

definition go_inv :: "64 word \<Rightarrow> thread \<Rightarrow> goroutine \<Rightarrow> bool" where
  "go_inv flags t g \<longleftrightarrow>
     saved_ok t (gSaved g) \<and>
     (gSent g = None \<longleftrightarrow> gPc g \<in> {Locking, Unsharing, Setting} \<or> todo_of (gPc g) \<noteq> []) \<and>
     (gPc g = Running \<longrightarrow> gSent g = Some None) \<and>
     (gPc g \<noteq> Unwinding \<longrightarrow> gPc g \<noteq> Ended \<longrightarrow> gReversible g = isReversible flags) \<and>
     (gPc g \<in> {Locking, Unsharing} \<or> todo_of (gPc g) \<noteq> [] \<longrightarrow>
        thNs (gThread g) = thNs t \<and> thRest (gThread g) = thRest t) \<and>
     (isReversible flags \<longrightarrow> gPc g \<noteq> Locking \<longrightarrow> gPc g \<notin> {Unwinding, Ended} \<longrightarrow>
        (\<forall>ns. flagged flags ns \<longrightarrow> ns \<in> fst ` set (gSaved g) \<or> ns \<in> snd ` set (todo_of (gPc g)))) \<and>
     (isReversible flags \<longrightarrow> gReversible g \<longrightarrow> as_before flags t g) \<and>
     (gPc g = Ended \<longrightarrow> gSaved g = [] \<and> (thLocked (gThread g) \<longleftrightarrow> \<not> (isReversible flags \<and> gReversible g))) \<and>
     (\<forall>todo. gPc g = Saving todo \<longrightarrow> todo \<noteq> [])"

lemma todo_next [simp]: "todo_of (next_save todo) = todo"
  by (simp add: todo_of_def next_save_def)

lemma next_save_pc [simp]:
  "next_save todo \<noteq> Locking" "next_save todo \<noteq> Setting" "next_save todo \<noteq> Running" "next_save todo \<noteq> Unwinding"
  "next_save todo \<noteq> Ended" "next_save todo = Unsharing \<longleftrightarrow> todo = []" "next_save todo = Saving x \<longleftrightarrow> x = todo \<and> todo \<noteq> []"
  by (auto simp: next_save_def)

lemma flagged_todo:
  assumes "set order = set reversibleSetnsFlags" and "flagged flags ns"
  shows "ns \<in> snd ` set (filter (\<lambda>e. flags AND fst e = fst e) order)"
  using assms by (auto simp: flagged_def)

lemma change_thread_before:
  assumes "as_before flags t g" and "isReversible flags"
    and "\<forall>ns. flagged flags ns \<longrightarrow> ns \<in> fst ` set (gSaved g)"
  shows "as_before flags t (g\<lparr>gThread := change_thread flags new rest (gThread g)\<rparr>)"
  using assms by (auto simp: as_before_def change_thread_def)

lemma go_inv_start: "go_inv flags t (goStart flags t)"
  by (simp add: go_inv_def goStart_def saved_ok_def as_before_def todo_of_def)

lemma go_inv_step:
  assumes inv: "go_inv flags t g" and s: "goStep flags order g ev = Some g'"
    and order: "set order = set reversibleSetnsFlags"
  shows "go_inv flags t g'"
proof (cases ev)
  case EvLock
  then have g: "gPc g = Locking" and g': "g' = g\<lparr>gThread := (gThread g)\<lparr>thLocked := True\<rparr>,
      gPc := (if isReversible flags then next_save (filter (\<lambda>e. flags AND fst e = fst e) order) else Unsharing)\<rparr>"
    using s by (auto split: if_splits)
  show ?thesis using inv g flagged_todo [OF order, of flags]
    by (auto simp: g' go_inv_def as_before_def todo_of_def [of Unsharing])
next
  case (EvSave r)
  then obtain f ns rest where pc: "gPc g = Saving ((f, ns) # rest)" using s
    by (auto split: gopc.splits list.splits)
  show ?thesis
  proof (cases r)
    case None
    then have g': "g' = g\<lparr>gSaved := (ns, thNs (gThread g) ns) # gSaved g, gPc := next_save rest\<rparr>"
      using s EvSave pc by simp
    show ?thesis using inv pc by (auto simp: g' go_inv_def as_before_def saved_ok_def todo_of_def [of "Saving _"])
  next
    case (Some e)
    then have g': "g' = g\<lparr>gSent := Some (Some (PathError ''open'' (nsPath (thTid (gThread g)) ns) (Errno e))), gPc := Unwinding\<rparr>"
      using s EvSave pc by simp
    show ?thesis using inv pc by (auto simp: g' go_inv_def as_before_def todo_of_def)
  qed
next
  case (EvUnshare r new rest)
  then have pc: "gPc g = Unsharing" using s by (auto split: if_splits)
  show ?thesis
  proof (cases r)
    case None
    then have g': "g' = g\<lparr>gThread := change_thread flags new rest (gThread g), gPc := Setting\<rparr>"
      using s EvUnshare pc by simp
    show ?thesis using inv pc change_thread_before [of flags t g new rest]
      by (auto simp: g' go_inv_def todo_of_def as_before_def)
  next
    case (Some e)
    then show ?thesis using inv pc s EvUnshare by (auto simp: go_inv_def todo_of_def as_before_def)
  qed
next
  case (EvSetup r new rest)
  then have pc: "gPc g = Setting" using s by (auto split: if_splits)
  have "isReversible flags \<Longrightarrow> as_before flags t (g\<lparr>gThread := change_thread flags new rest (gThread g)\<rparr>)"
    using inv pc by (intro change_thread_before) (auto simp: go_inv_def todo_of_def)
  then show ?thesis using inv pc s EvSetup
    by (cases r) (auto simp: go_inv_def todo_of_def as_before_def)
next
  case (EvRun new rest)
  then have pc: "gPc g = Running" using s by (auto split: if_splits)
  have "isReversible flags \<Longrightarrow> as_before flags t (g\<lparr>gThread := change_thread flags new rest (gThread g)\<rparr>)"
    using inv pc by (intro change_thread_before) (auto simp: go_inv_def todo_of_def)
  then show ?thesis using inv pc s EvRun by (auto simp: go_inv_def todo_of_def as_before_def)
next
  case (EvRestore r)
  then obtain ns i saved where pc: "gPc g = Unwinding" and sv: "gSaved g = (ns, i) # saved"
    using s by (auto split: if_splits list.splits)
  show ?thesis
  proof (cases "gReversible g")
    case False
    then show ?thesis using inv pc sv s EvRestore by (auto simp: go_inv_def todo_of_def saved_ok_def)
  next
    case True
    then show ?thesis using inv pc sv s EvRestore
      by (cases r) (auto simp: go_inv_def todo_of_def saved_ok_def as_before_def)
  qed
next
  case EvReturn
  then have "gPc g = Unwinding" "gSaved g = []"
    "g' = g\<lparr>gThread := (gThread g)\<lparr>thLocked := \<not> (isReversible flags \<and> gReversible g)\<rparr>, gPc := Ended\<rparr>"
    using s by (auto split: if_splits)
  then show ?thesis using inv by (auto simp: go_inv_def todo_of_def as_before_def)
qed

lemma go_inv_reach:
  assumes "go_reach flags order t g" and "set order = set reversibleSetnsFlags"
  shows "go_inv flags t g"
  using assms(1) by (induction) (auto intro: go_inv_start go_inv_step [OF _ _ assms(2)])


section \<open>The properties\<close>

text \<open>An upper bound of the steps still to be taken.\<close>

definition steps_left :: "(64 word \<times> string) list \<Rightarrow> goroutine \<Rightarrow> nat" where
  "steps_left order g =
     (case gPc g of
        Locking \<Rightarrow> 2 * length order + length (gSaved g) + 5
      | Saving todo \<Rightarrow> 2 * length todo + length (gSaved g) + 4
      | Unsharing \<Rightarrow> length (gSaved g) + 4
      | Setting \<Rightarrow> length (gSaved g) + 3
      | Running \<Rightarrow> length (gSaved g) + 2
      | Unwinding \<Rightarrow> length (gSaved g) + 1
      | Ended \<Rightarrow> 0)"

lemma goStep_decreases: "goStep flags order g ev = Some g' \<Longrightarrow> steps_left order g' < steps_left order g"
proof (cases ev)
  case EvLock
  have l: "length (filter (\<lambda>e. flags AND fst e = fst e) order) \<le> length order" by simp
  assume "goStep flags order g ev = Some g'"
  then have g: "gPc g = Locking" and g': "gSaved g' = gSaved g" and pc: "gPc g' =
      (if isReversible flags then next_save (filter (\<lambda>e. flags AND fst e = fst e) order) else Unsharing)"
    using EvLock by (auto split: if_splits)
  have "steps_left order g' \<le> 2 * length order + length (gSaved g) + 4"
    using l by (simp add: steps_left_def pc g' next_save_def del: length_filter_le)
  then show ?thesis by (simp add: steps_left_def g)
qed (auto simp: steps_left_def next_save_def split: if_splits gopc.splits list.splits option.splits)

lemma goStep_possible:
  assumes "go_inv flags t g" and "gPc g \<noteq> Ended"
  shows "\<exists>ev g'. goStep flags order g ev = Some g'"
proof (cases "gPc g")
  case Locking
  then show ?thesis by (intro exI [of _ EvLock]) simp
next
  case (Saving todo)
  then have "todo \<noteq> []" using assms(1) by (simp add: go_inv_def)
  then obtain e rest where "todo = e # rest" by (cases todo) auto
  then show ?thesis using Saving by (intro exI [of _ "EvSave None"]) (cases e, simp)
next
  case Unsharing
  then show ?thesis by (intro exI [of _ "EvUnshare None undefined 0"]) simp
next
  case Setting
  then show ?thesis by (intro exI [of _ "EvSetup None undefined 0"]) simp
next
  case Running
  then show ?thesis by (intro exI [of _ "EvRun undefined 0"]) simp
next
  case Unwinding
  show ?thesis
  proof (cases "gSaved g")
    case Nil
    then show ?thesis using Unwinding by (intro exI [of _ EvReturn]) simp
  next
    case (Cons e saved)
    then show ?thesis using Unwinding by (intro exI [of _ "EvRestore None"]) (cases e, simp)
  qed
qed (use assms(2) in simp)

text \<open>A run that saves the network namespace, disassociates it and restores it.\<close>

definition sample_thread :: thread where
  "sample_thread = \<lparr>thTid = 12, thNs = (\<lambda>_. 1), thRest = 7, thLocked = False\<rparr>"

definition sample_events :: "goevent list" where
  "sample_events =
     [EvLock, EvSave None, EvUnshare None (\<lambda>_. 2) 0, EvSetup None (\<lambda>_. 3) 0, EvRun (\<lambda>_. 4) 0, EvRestore None, EvReturn]"

lemma sample_run:
  obtains g where "goRun CLONE_NEWNET reversibleSetnsFlags (goStart CLONE_NEWNET sample_thread) sample_events = Some g"
    and "gPc g = Ended" and "\<not> thLocked (gThread g)"
proof -
  have "(case goRun CLONE_NEWNET reversibleSetnsFlags (goStart CLONE_NEWNET sample_thread) sample_events of
      None \<Rightarrow> False | Some g \<Rightarrow> gPc g = Ended \<and> \<not> thLocked (gThread g))" by code_simp
  then show ?thesis using that by (auto split: option.splits)
qed

text \<open>
  C31: A thread that \<open>unshare.Go\<close> gives back to the runtime is as it found it: when the goroutine has
  ended and is no longer locked to its thread, every namespace and all other state of the thread
  is what it was before the call, whatever the functions did and however the calls failed.
\<close>

theorem Go_restores_thread:
  assumes "go_reach flags order t g" and "set order = set reversibleSetnsFlags"
    and "gPc g = Ended" and "\<not> thLocked (gThread g)"
  shows "thNs (gThread g) = thNs t \<and> thRest (gThread g) = thRest t"
  using go_inv_reach [OF assms(1,2)] assms(3,4) by (auto simp: go_inv_def as_before_def)

theorem Go_restores_thread_witness:
  "\<exists>g. goRun CLONE_NEWNET reversibleSetnsFlags (goStart CLONE_NEWNET sample_thread) sample_events = Some g \<and>
     thNs (gThread g) ''net'' = 1"
proof -
  obtain g where g: "goRun CLONE_NEWNET reversibleSetnsFlags (goStart CLONE_NEWNET sample_thread) sample_events = Some g"
    "gPc g = Ended" "\<not> thLocked (gThread g)" by (rule sample_run)
  from Go_restores_thread [OF goRun_reach [OF go_reach.start g(1)] refl g(2,3)] g(1) show ?thesis
    by (simp add: sample_thread_def)
qed



end
