(* ===== verification/WalkOther.thy ===== *)
theory WalkOther
  imports WalkerFacts
begin

text \<open>
  \<open>changes_other.go\<close>: collecting two trees without the parallel walk, on systems other than
  Linux, and that it gives the same reports. The file system is only read: it is the argument \<open>s\<close>.
\<close>

section \<open>The collector\<close>

definition collectInfoVisit ::
  "host \<Rightarrow> fsys \<Rightarrow> string \<Rightarrow> string \<Rightarrow> bool \<Rightarrow> goerror option \<Rightarrow> (finfo, wsignal, unit) io" where
  "collectInfoVisit h s sourceDir path d err root =
     (case err of
        Some e \<Rightarrow> (Inl (WalkErr e), root)
      | None \<Rightarrow>
          (case Rel sourceDir path of
             None \<Rightarrow> (Inl (WalkErr (ErrMsg ''Rel: can't make relative'' [path, sourceDir])), root)
           | Some rel \<Rightarrow>
               (let relPath = Join [[slash], rel]
                in if relPath = [slash] then (Inr (), root)
                   else
                     (case LookUp root (Dir relPath) of
                        None \<Rightarrow>
                          (Inl (WalkErr (ErrMsg ''collectFileInfo: Unexpectedly no parent for'' [relPath])), root)
                      | Some parent \<Rightarrow>
                          (case fst (os_Lstat h path s) of
                             Inl e \<Rightarrow> (Inl (WalkErr e), root)
                           | Inr st \<Rightarrow>
                               (case lgetxattr h path ''security.capability'' s of
                                  Inl (GoPanic e) \<Rightarrow> (Inl (WalkErr (GoPanic e)), root)
                                | r \<Rightarrow>
                                    (let capability = (case r of Inr (Some c) \<Rightarrow> c | _ \<Rightarrow> []);
                                         info = FNode (Base relPath) (Some st) capability []
                                     in (Inr (), insert_elems (split_slash (Dir relPath)) (Base relPath) info root))))))))"

definition collectFileInfo :: "host \<Rightarrow> string \<Rightarrow> fsys \<Rightarrow> goerror + finfo" where
  "collectFileInfo h sourceDir s =
     (case WalkDir_in (\<lambda>_. s) (\<lambda>p. readE (\<lambda>_. fst (os_Lstat h p s))) (\<lambda>p. readE (\<lambda>_. fst (os_ReadDir h p s)))
             sourceDir (collectInfoVisit h s sourceDir) newRootFileInfo of
        (Inl err, _) \<Rightarrow> Inl err
      | (Inr _, root) \<Rightarrow> Inr root)"

text \<open>
  The two directories are collected by two goroutines; the error that arrives first is returned,
  and \<open>newFirst\<close> says whose that is when both fail.
\<close>

definition collectFileInfoForChanges_other ::
  "host \<Rightarrow> bool \<Rightarrow> string \<Rightarrow> string \<Rightarrow> fsys \<Rightarrow> goerror + finfo \<times> finfo" where
  "collectFileInfoForChanges_other h newFirst oldDir newDir s =
     (case (collectFileInfo h oldDir s, collectFileInfo h newDir s) of
        (Inr oldRoot, Inr newRoot) \<Rightarrow> Inr (oldRoot, newRoot)
      | (Inl err1, Inl err2) \<Rightarrow> Inl (if newFirst then err2 else err1)
      | (Inl err1, Inr _) \<Rightarrow> Inl err1
      | (Inr _, Inl err2) \<Rightarrow> Inl err2)"

section \<open>What it collects\<close>

context host_reads
begin

lemma collectInfoVisit_fills:
  assumes t: "tree_ok s" and nf: "no_faults h s" and r: "ready s (hRoot h @ ps) q r"
    and names: "list_all is_name ps" "list_all is_name q" and d: "dirs_to s (hRoot h) ps"
    and i: "ino_at s (hRoot h @ ps @ q) \<noteq> None"
  shows "\<exists>r'. collectInfoVisit h s (abs_path ps) (abs_path (ps @ q)) isd None r = (Inr (), r') \<and>
    partly s (hRoot h @ ps) K q {} r r'"
proof -
  have rel: "Rel (abs_path ps) (abs_path (ps @ q)) = Some (if q = [] then dot else join_slash q)"
    using Rel_below [OF names] by (simp add: abs_path_def)
  note path = Join_rebased [OF names(2)]
  show ?thesis
  proof (cases "q = []")
    case True
    have "partly s (hRoot h @ ps) K q {} r r" using r True by (auto simp: partly_def ready_def)
    then show ?thesis unfolding collectInfoVisit_def option.case rel Let_def path using True by simp
  next
    case False
    obtain p n where pn: "q = p @ [n]" using False by (metis append_butlast_last_id)
    obtain fi where fi: "info_at s (hRoot h @ ps @ q) = Some fi" using i info_at_None [OF t, of "hRoot h @ ps @ q"] by auto
    obtain r' where r': "walkchunk h s (abs_path q) (Some fi) (abs_path ps) r = (Inr (), r')"
      "partly s (hRoot h @ ps) K q {} r r'"
      using walkchunk_fills [OF t r False names d, of K] fi by auto
    have dirs: "dirs_to s (hRoot h) (ps @ p)"
      using below_dirs_to [OF t, of "hRoot h @ ps" q] i d by (simp add: dirs_to_append pn)
    have "kresolve h False (abs_path (ps @ q)) s = Inr (hRoot h @ ps @ q)"
      using kresolve_abs [OF dirs, of n False] names by (simp add: pn)
    from os_Lstat_abs [OF nf this] fi have st: "fst (os_Lstat h (abs_path (ps @ q)) s) = Inr fi"
      by (auto simp: info_at_def split: option.splits)
    have "abs_path q \<noteq> [slash]" using False abs_path_slash [OF names(2)] by simp
    then have "collectInfoVisit h s (abs_path ps) (abs_path (ps @ q)) isd None r = (Inr (), r')"
      using r'(1) Join_abs2 [OF names]
      unfolding collectInfoVisit_def walkchunk_def option.case rel Let_def path st sum.case
      by (auto split: option.splits sum.splits goerror.splits)
    with r'(2) show ?thesis by blast
  qed
qed

end

text \<open>The loop over the entries of a directory.\<close>

lemma entries_partly:
  assumes t: "tree_ok s" and o: "ready s b q o1"
    and step: "\<And>n d r. (n, d) \<in> set es \<Longrightarrow> ready s b (q @ [n]) r \<Longrightarrow>
      \<exists>r'. f n d r = (Inr (), r') \<and> filled s b K (q @ [n]) r r'"
  shows "distinct (map fst es) \<Longrightarrow> fst ` set es \<inter> M = {} \<Longrightarrow> partly s b K q M o1 r \<Longrightarrow>
    \<exists>r'. walk_entries f es r = (Inr (), r') \<and> partly s b K q (fst ` set es \<union> M) o1 r'"
  using step
proof (induction es arbitrary: r M)
  case (Cons e es)
  obtain n d where e: "e = (n, d)" by (cases e)
  have n: "n \<notin> M" using Cons.prems by (simp add: e)
  obtain r1 where f: "f n d r = (Inr (), r1)" "filled s b K (q @ [n]) r r1"
    using Cons.prems(4) [of n d r] partly_ready [OF Cons.prems(3) o n t] by (auto simp: e)
  note p = partly_step [OF Cons.prems(3) f(2) n]
  have es: "distinct (map fst es)" "fst ` set es \<inter> insert n M = {}" using Cons.prems by (auto simp: e)
  have "\<exists>u. walk_entries f es r1 = (Inr (), u) \<and> partly s b K q (fst ` set es \<union> insert n M) o1 u"
    using Cons.prems(4) by (intro Cons.IH [OF es p]) auto
  then show ?case using f(1) by (auto simp: e bindE_tryE)
qed simp

context host_reads
begin

lemma collect_walk:
  assumes t: "tree_ok s" and nf: "no_faults h s" and d: "dirs_to s (hRoot h) ps"
    and names: "list_all is_name ps"
  shows "ino_at s (hRoot h @ ps @ q) \<noteq> None \<Longrightarrow> list_all is_name q \<Longrightarrow>
    deep_enough s (hRoot h @ ps) q m \<Longrightarrow> ready s (hRoot h @ ps) q r \<Longrightarrow>
    \<exists>r'. walkDir m (\<lambda>p. readE (\<lambda>_. fst (os_ReadDir h p s))) (collectInfoVisit h s (abs_path ps))
        (abs_path (ps @ q)) (dir_at s (hRoot h @ ps @ q)) r = (Inr (), r') \<and>
      filled s (hRoot h @ ps) (\<lambda>_. True) q r r'"
proof (induction m arbitrary: q r)
  case 0
  then show ?case by (auto simp: deep_enough_def dest: spec [of _ "[]"])
next
  case (Suc m)
  let ?b = "hRoot h @ ps" and ?K = "\<lambda>_ :: string list. True"
  let ?d = "dir_at s (?b @ q)"
  let ?es = "if ?d then map (\<lambda>n. (n, dir_at s (?b @ q @ [n]))) (children s (?b @ q)) else []"
  let ?rd = "\<lambda>p :: string. readE (\<lambda>_ :: finfo. fst (os_ReadDir h p s))"
  let ?f = "\<lambda>n. walkDir m ?rd (collectInfoVisit h s (abs_path ps)) (Join [abs_path (ps @ q), n])"
  note q = Suc.prems(2)
  obtain u where u: "collectInfoVisit h s (abs_path ps) (abs_path (ps @ q)) ?d None r = (Inr (), u)"
    "partly s ?b ?K q {} r u"
    using collectInfoVisit_fills [OF t nf Suc.prems(4) names q d Suc.prems(1), of ?d ?K] by auto
  have run: "walkDir (Suc m) ?rd (collectInfoVisit h s (abs_path ps)) (abs_path (ps @ q)) ?d r = walk_entries ?f ?es u"
  proof (cases ?d)
    case True
    have dq: "dirs_to s (hRoot h) (ps @ q)" using dirs_to_dir [OF t d] True by simp
    have res: "kresolve h True (abs_path (ps @ q)) s = Inr (?b @ q)"
      using kresolve_dirs [OF dq] names q True by simp
    obtain nd where nd: "node_at s (?b @ q) = Some nd" "ikind nd = KDir" using True by (auto simp: dir_at_node)
    have "fst (os_ReadDir h (abs_path (ps @ q)) s) = Inr ?es"
      using nf res nd True by (simp add: os_ReadDir_def path_op_def no_faults_def p_readdir_def)
    then show ?thesis using True u(1) by (simp add: bindE_tryE readE_def)
  qed (use u(1) in \<open>simp add: bindE_tryE\<close>)
  have es: "distinct (map fst ?es)" "fst ` set ?es = {c. ino_at s (?b @ q @ [c]) \<noteq> None}"
  proof -
    show "distinct (map fst ?es)" by (simp add: comp_def)
    have "fst ` set ?es = (if ?d then set (children s (?b @ q)) else {})" by (simp add: image_image)
    also have "\<dots> = {c. ino_at s (?b @ q @ [c]) \<noteq> None}"
      using tree_ok_snoc [OF t, of "?b @ q"] by (auto simp: set_children simp del: not_None_eq)
    finally show "fst ` set ?es = {c. ino_at s (?b @ q @ [c]) \<noteq> None}" .
  qed
  have "\<exists>r'. walk_entries ?f ?es u = (Inr (), r') \<and> partly s ?b ?K q (fst ` set ?es \<union> {}) r r'"
  proof (rule entries_partly [OF t Suc.prems(4) _ es(1) _ u(2)])
    fix c isd v assume c: "(c, isd) \<in> set ?es" and v: "ready s ?b (q @ [c]) v"
    have isd: "isd = dir_at s (?b @ (q @ [c]))" using c by (auto split: if_splits)
    from c have "c \<in> fst ` set ?es" by force
    then have i: "ino_at s (?b @ q @ [c]) \<noteq> None" unfolding es(2) by simp
    then have cn: "is_name c" using tree_ok_snoc [OF t, of "?b @ q" c] by simp
    have "Join [abs_path (ps @ q), c] = abs_path (ps @ (q @ [c]))"
      using Join_abs [of "ps @ q" c] names q cn by simp
    moreover have "\<exists>r'. walkDir m ?rd (collectInfoVisit h s (abs_path ps)) (abs_path (ps @ (q @ [c]))) (dir_at s (hRoot h @ ps @ (q @ [c]))) v = (Inr (), r') \<and>
        filled s ?b ?K (q @ [c]) v r'"
      by (rule Suc.IH) (use i q cn v deep_enough_child [OF Suc.prems(3)] in simp_all)
    ultimately show "\<exists>r'. ?f c isd v = (Inr (), r') \<and> filled s ?b ?K (q @ [c]) v r'"
      by (simp add: isd)
  qed simp
  then obtain v where v: "walk_entries ?f ?es u = (Inr (), v)" "partly s ?b ?K q (fst ` set ?es) r v" by auto
  have "filled s ?b ?K q r v"
  proof (rule partly_filled [OF v(2)])
    fix c q' assume "c \<notin> fst ` set ?es"
    then have i: "ino_at s (?b @ q @ [c]) = None" unfolding es(2) by simp
    have "ino_at s (?b @ q @ c # q') = None"
    proof (cases "q' = []")
      case False
      then have "ino_at s (?b @ q @ c # q') \<noteq> None \<longrightarrow> dir_at s (?b @ q @ [c])"
        using below_dirs [OF t, of "?b @ q @ [c]" "[]" q'] by simp
      with dir_at_ino i show ?thesis by blast
    qed (use i in simp)
    then show "only ?K (fs_view s ?b) (q @ c # q') = None" by (simp add: only_def fs_view_def)
  qed simp
  with trans [OF run v(1)] show ?case unfolding append_assoc by blast
qed

lemma collectFileInfo_view:
  assumes t: "tree_ok s" and nf: "no_faults h s" and d: "plain_dir h s ps"
  shows "\<exists>r. collectFileInfo h (abs_path ps) s = Inr r \<and> wf_tree r \<and> look r = fs_view s (hRoot h @ ps)"
proof -
  let ?b = "hRoot h @ ps" and ?r = newRootFileInfo
  have deep: "deep_enough s ?b [] (walk_depth s)"
    using walk_depth_enough [of s "?b @ _"] by (fastforce simp: deep_enough_def)
  have ready: "ready s ?b [] ?r" by (rule ready_root)
  have dir: "dir_at s ?b" and names: "list_all is_name ps" and dirs: "dirs_to s (hRoot h) ps"
    using d by (simp_all add: plain_dir_def)
  then have i: "ino_at s ?b \<noteq> None" by (simp add: dir_at_ino)
  obtain fi where fi: "fst (os_Lstat h (abs_path ps) s) = Inr fi" "fi_is_dir fi"
    using plain_dir_Lstat [OF d nf t] info_at_dir [of s ?b] dir by (auto split: option.splits)
  obtain r where r: "walkDir (walk_depth s) (\<lambda>p. readE (\<lambda>_. fst (os_ReadDir h p s)))
      (collectInfoVisit h s (abs_path ps)) (abs_path ps) True ?r = (Inr (), r)"
    "filled s ?b (\<lambda>_. True) [] ?r r"
    using collect_walk [OF t nf dirs names, of "[]" "walk_depth s" ?r] i dir deep ready by auto
  have "collectFileInfo h (abs_path ps) s = Inr r"
    using r(1) fi by (simp add: collectFileInfo_def WalkDir_in_def readE_def)
  moreover have "look r = fs_view s ?b"
    using r(2) by (auto simp: filled_def fun_eq_iff only_def fs_view_def look_def newRootFileInfo_def)
  ultimately show ?thesis using r(2) by (auto simp: filled_def)
qed


lemma collectors_agree:
  assumes t: "tree_ok s" and n: "inodes_ok s" and nf: "no_faults h s"
    and d: "plain_dir h s old" "plain_dir h s new"
  shows "\<exists>cs cs'. ChangesDirs_by (collectFileInfoForChanges_other h newFirst) h tmp (abs_path new) (abs_path old) s = (Inr cs, s) \<and>
    ChangesDirs h tmp behind (abs_path new) (abs_path old) s = (Inr cs', s) \<and> set cs = set cs'"
proof -
  obtain r1 r2 where r: "collectFileInfo h (abs_path old) s = Inr r1" "wf_tree r1" "look r1 = fs_view s (hRoot h @ old)"
    "collectFileInfo h (abs_path new) s = Inr r2" "wf_tree r2" "look r2 = fs_view s (hRoot h @ new)"
    using collectFileInfo_view [OF t nf d(1)] collectFileInfo_view [OF t nf d(2)] by blast
  have "ChangesDirs_by (collectFileInfoForChanges_other h newFirst) h tmp (abs_path new) (abs_path old) s =
      (Inr (info_Changes r2 (Some r1)), s)"
    by (simp add: ChangesDirs_by_def collectFileInfoForChanges_other_def bindE_readE r(1,4))
  moreover have "c \<in> set (info_Changes r2 (Some r1)) \<longleftrightarrow>
      (\<exists>q k. q \<noteq> [] \<and> c = \<lparr>cPath = abs_path q, cKind = k\<rparr> \<and>
        change_at (fs_view s (hRoot h @ new)) (fs_view s (hRoot h @ old)) q k)" for c
    by (simp add: info_Changes_set [OF r(5,2)] change_spec_look r(3,6))
  ultimately show ?thesis using ChangesDirs_views [OF t n nf d, of tmp behind] by auto
qed

end

section \<open>The property\<close>

text \<open>
  C38: The portable collector and the parallel walk of Linux give the same reports: on two
  directories \<open>ChangesDirs\<close> returns with either, changes nothing, and reports the same set, although
  the one collects both trees whole and the other leaves out what has the same inode on both sides.
\<close>

theorem ChangesDirs_portable:
  assumes "host_reads h" and "no_faults h s" and "tree_ok s" and "inodes_ok s"
    and "plain_dir h s old" and "plain_dir h s new"
  shows "\<exists>cs cs'. ChangesDirs_by (collectFileInfoForChanges_other h newFirst) h tmp (abs_path new) (abs_path old) s = (Inr cs, s) \<and>
    ChangesDirs h tmp behind (abs_path new) (abs_path old) s = (Inr cs', s) \<and> set cs = set cs'"
  using host_reads.collectors_agree [OF assms(1,3,4,2,5,6)] by blast

theorem ChangesDirs_portable_witness:
  "\<exists>cs cs'. ChangesDirs_by (collectFileInfoForChanges_other posix_host True) posix_host ''/tmp'' ''/new'' ''/old'' layers_fs = (Inr cs, layers_fs) \<and>
     ChangesDirs posix_host ''/tmp'' [] ''/new'' ''/old'' layers_fs = (Inr cs', layers_fs) \<and> set cs = set cs'"
proof -
  have paths: "abs_path [''new''] = ''/new''" "abs_path [''old''] = ''/old''" by code_simp+
  from ChangesDirs_portable [OF posix_reads.host_reads_axioms layers_ok(3,1,2,4,5), of True "''/tmp''" "[]"]
  show ?thesis unfolding paths .
qed

end
