(* ===== verification/Reexec.thy ===== *)
theory Reexec
  imports ChrootFacts
begin

text \<open>
  \<open>chrootarchive/archive_unix_nolinux.go\<close>: on Unix systems other than Linux the work in the chroot
  is done by a child process, the program itself run anew (\<open>github.com/moby/sys/reexec\<close>). The
  child gets the options as JSON on a pipe, the archive on its standard input, and answers on its
  standard output. The process calls and \<open>encoding/json\<close> are parameters.
\<close>

section \<open>The child process\<close>

text \<open>
  \<open>rxErrorText\<close> is what \<open>Fprintln\<close> prints of an error, \<open>rxValueText\<close> of a \<open>PathError\<close> value (not
  a pointer, so not an error). \<open>rxLog\<close> is what the child logs on its standard error while it
  works; \<open>rxExit\<close> the error of \<open>Wait\<close> for an exit status; \<open>rxDrained\<close> says whether the child lets
  the copy to its standard input come to the end of a stream.
\<close>

record reexecEnv =
  rxPipe :: "procState \<Rightarrow> goerror option"
  rxStdoutPipe :: "procState \<Rightarrow> goerror option"
  rxStart :: "string list \<Rightarrow> procState \<Rightarrow> goerror option"
  rxExit :: "nat \<Rightarrow> goerror"
  rxDrained :: "string list \<Rightarrow> body \<Rightarrow> bool"
  rxEncodeOptions :: "TarOptions \<Rightarrow> goerror + string"
  rxDecodeOptions :: "string \<Rightarrow> goerror + TarOptions"
  rxEncodeSize :: "64 word \<Rightarrow> goerror + string"
  rxDecodeSize :: "string \<Rightarrow> goerror + 64 word"
  rxErrorText :: "goerror \<Rightarrow> string"
  rxValueText :: "goerror \<Rightarrow> string"
  rxLog :: "string list \<Rightarrow> procState \<Rightarrow> string"

text \<open>
  The state of a child: its thread and what it has written, in the order of the writes; \<open>True\<close>
  marks its standard error. \<open>os.Exit(n)\<close> is the error \<open>n\<close>.
\<close>

record childState =
  chProc :: procState
  chOutput :: "(bool \<times> string) list"

definition chStdout :: "childState \<Rightarrow> string" where
  "chStdout c = concat (map snd (filter (\<lambda>w. \<not> fst w) (chOutput c)))"

definition chStderr :: "childState \<Rightarrow> string" where
  "chStderr c = concat (map snd (filter fst (chOutput c)))"

definition chBoth :: "childState \<Rightarrow> string" where
  "chBoth c = concat (map snd (chOutput c))"

definition write_to :: "bool \<Rightarrow> string \<Rightarrow> (childState, 'e, unit) io" where
  "write_to stderr x c = (Inr (), c\<lparr>chOutput := chOutput c @ [(stderr, x)]\<rparr>)"

definition Fprintln_stderr :: "string \<Rightarrow> (childState, 'e, unit) io" where
  "Fprintln_stderr x = write_to True (x @ [CHR 0x0A])"

definition onChild :: "(procState, 'e, 'a) io \<Rightarrow> (childState, 'e, 'a) io" where
  "onChild m c = (case m (chProc c) of (r, p) \<Rightarrow> (r, c\<lparr>chProc := p\<rparr>))"

text \<open>
  The other systems know one whiteout format: \<open>getWhiteoutConverter\<close> of \<open>archive_other.go\<close> returns
  nil, which it is for the format of AUFS.
\<close>

definition no_converter :: "TarOptions \<Rightarrow> TarOptions" where
  "no_converter options = options\<lparr>oWhiteoutFormat := AUFSWhiteoutFormat\<rparr>"

definition packCmd :: string where
  "packCmd = ''chrootarchive-pack-in-chroot''"

definition unpackCmd :: string where
  "unpackCmd = ''chrootarchive-unpack-in-chroot''"

definition unpackLayerCmd :: string where
  "unpackLayerCmd = ''chrootarchive-unpack-layer-in-chroot''"

definition recvOptions :: "reexecEnv \<Rightarrow> string \<Rightarrow> goerror + TarOptions" where
  "recvOptions x optionsPipe = rxDecodeOptions x optionsPipe"

type_synonym childWork = "TarOptions \<Rightarrow> string list \<Rightarrow> (childState, goerror, unit) io"

definition reexecMain ::
  "mountcalls \<Rightarrow> reexecEnv \<Rightarrow> childWork \<Rightarrow> string list \<Rightarrow> string \<Rightarrow> (childState, nat, unit) io" where
  "reexecMain mc x f args optionsPipe =
     (if length args < 2
      then bindE (Fprintln_stderr ''root parameter is required'') (\<lambda>_. fail 1)
      else
        (let root = args ! 1
         in case recvOptions x optionsPipe of
              Inl err \<Rightarrow> bindE (Fprintln_stderr (rxErrorText x err)) (\<lambda>_. fail 1)
            | Inr options \<Rightarrow>
                bindE (tryE (onChild (callE (PathError ''chroot'' root) (mcChroot mc root)))) (\<lambda>r.
                case r of
                  Inl err \<Rightarrow> bindE (Fprintln_stderr (rxValueText x err)) (\<lambda>_. fail 2)
                | Inr _ \<Rightarrow>
                    bindE (tryE (f options (drop 2 args))) (\<lambda>r.
                    case r of
                      Inl err \<Rightarrow> bindE (Fprintln_stderr (rxErrorText x err)) (\<lambda>_. fail 3)
                    | Inr _ \<Rightarrow> ret ()))))"

definition unpackInChroot :: "mountcalls \<Rightarrow> 'm goEnv \<Rightarrow> string \<Rightarrow> childWork" where
  "unpackInChroot mc g stdin options args =
     (case args of
        [] \<Rightarrow> fail (ErrMsg ''destination parameter is required'' [])
      | relDest # _ \<Rightarrow>
          onChild (onPs mc (\<lambda>h.
            Unpack h (eEmptyMap g) (eParse g \<lparr>bData = stdin, bErr = None\<rparr>) relDest (Some (no_converter options)))))"

definition packInChroot :: "mountcalls \<Rightarrow> 'm goEnv \<Rightarrow> childWork" where
  "packInChroot mc g options args =
     (case args of
        [] \<Rightarrow> fail (ErrMsg ''source parameter is required'' [])
      | relSrc # _ \<Rightarrow>
          bindE (onChild (onPs mc (\<lambda>h. readE (TarWithOptions (g\<lparr>eHost := h\<rparr>) relSrc (no_converter options))))) (\<lambda>tb.
          bindE (write_to False (bData tb)) (\<lambda>_.
          case bErr tb of None \<Rightarrow> ret () | Some err \<Rightarrow> fail err)))"

definition unpackLayerInChroot :: "mountcalls \<Rightarrow> reexecEnv \<Rightarrow> 'm goEnv \<Rightarrow> string \<Rightarrow> childWork" where
  "unpackLayerInChroot mc x g stdin options args =
     bindE (onChild (onPs mc (\<lambda>h.
       bindE (set_umask 0) (\<lambda>_.
       UnpackLayer h (eEmptyMap g) [slash] (eParse g \<lparr>bData = stdin, bErr = None\<rparr>) (Some (no_converter options)))))) (\<lambda>size.
     case rxEncodeSize x size of
       Inl err \<Rightarrow> fail err
     | Inr json \<Rightarrow> write_to False json)"

text \<open>What \<open>reexec.Init\<close> runs: the function registered for the name of the command.\<close>

definition registered ::
  "mountcalls \<Rightarrow> reexecEnv \<Rightarrow> 'm goEnv \<Rightarrow> string \<Rightarrow> string list \<Rightarrow> string \<Rightarrow> (childState, nat, unit) io" where
  "registered mc x g stdin args =
     (if hd args = packCmd then reexecMain mc x (packInChroot mc g) args
      else if hd args = unpackCmd then reexecMain mc x (unpackInChroot mc g stdin) args
      else reexecMain mc x (unpackLayerInChroot mc x g stdin) args)"

section \<open>The parent\<close>

text \<open>
  The child runs to its end before the parent goes on; the file system is shared, its root, working
  directory and umask are its own.
\<close>

definition runChild ::
  "mountcalls \<Rightarrow> reexecEnv \<Rightarrow> 'm goEnv \<Rightarrow> string list \<Rightarrow> string \<Rightarrow> string \<Rightarrow>
     (procState, goerror, (nat + unit) \<times> childState) io" where
  "runChild mc x g args stdin optionsPipe p =
     (case registered mc x g stdin args optionsPipe \<lparr>chProc = p, chOutput = [(True, rxLog x args p)]\<rparr> of
        (status, c) \<Rightarrow> (Inr (status, c), p\<lparr>psFs := (psFs (chProc c))\<lparr>umask := umask (psFs p)\<rparr>\<rparr>))"

text \<open>
  Starting the child and sending it the options. Options that cannot be encoded leave the pipe
  empty: the child sees the end of it when it is closed, and nobody waits for the child.
\<close>

definition startChild ::
  "mountcalls \<Rightarrow> reexecEnv \<Rightarrow> 'm goEnv \<Rightarrow> string list \<Rightarrow> string \<Rightarrow> TarOptions \<Rightarrow>
     (procState, goerror, (nat + unit) \<times> childState) io" where
  "startChild mc x g args stdin options =
     bindE (readE (\<lambda>p. case rxStart x args p of
                          Some err \<Rightarrow> Inl (ErrWrap ''re-exec error'' [] err) | None \<Rightarrow> Inr ())) (\<lambda>_.
     case rxEncodeOptions x options of
       Inl err \<Rightarrow>
         bindE (runChild mc x g args stdin []) (\<lambda>_. fail (ErrWrap ''tar options encoding failed'' [] err))
     | Inr json \<Rightarrow> runChild mc x g args stdin json)"

definition os_Pipe :: "reexecEnv \<Rightarrow> (procState, goerror, unit) io" where
  "os_Pipe x = readE (\<lambda>p. case rxPipe x p of Some err \<Rightarrow> Inl err | None \<Rightarrow> Inr ())"

text \<open>
  \<open>cmd.Wait\<close>: the exit status, or else the error of the copy to the standard input, where the
  copy came to it.
\<close>

definition Wait :: "reexecEnv \<Rightarrow> string list \<Rightarrow> body option \<Rightarrow> nat + unit \<Rightarrow> goerror option" where
  "Wait x args stdin status =
     (case status of
        Inl n \<Rightarrow> Some (rxExit x n)
      | Inr _ \<Rightarrow>
          (case stdin of
             None \<Rightarrow> None
           | Some b \<Rightarrow> if rxDrained x args b then bErr b else None))"

definition reexec_doUnpack ::
  "mountcalls \<Rightarrow> reexecEnv \<Rightarrow> 'm goEnv \<Rightarrow> body \<Rightarrow> string \<Rightarrow> string \<Rightarrow> TarOptions \<Rightarrow> (procState, goerror, unit) io" where
  "reexec_doUnpack mc x g decompressedArchive relDest root options =
     bindE (os_Pipe x) (\<lambda>_.
     let args = [unpackCmd, root, relDest]
     in bindE (startChild mc x g args (bData decompressedArchive) options) (\<lambda>(status, c).
        case Wait x args (Some decompressedArchive) status of
          Some err \<Rightarrow> fail (ErrWrap (chStderr c) [] err)
        | None \<Rightarrow> ret ()))"

text \<open>
  What the caller of \<open>doPack\<close> reads: the goroutine copies the child's output and then closes the
  end of the pipe that is read, so that the next read returns \<open>io.ErrClosedPipe\<close>.
\<close>

definition reexec_doPack ::
  "mountcalls \<Rightarrow> reexecEnv \<Rightarrow> 'm goEnv \<Rightarrow> string \<Rightarrow> string \<Rightarrow> TarOptions \<Rightarrow> (procState, goerror, body) io" where
  "reexec_doPack mc x g relSrc root options =
     bindE (os_Pipe x) (\<lambda>_.
     bindE (readE (\<lambda>p. case rxStdoutPipe x p of Some err \<Rightarrow> Inl err | None \<Rightarrow> Inr ())) (\<lambda>_.
     bindE (startChild mc x g [packCmd, root, relSrc] [] options) (\<lambda>(status, c).
     ret \<lparr>bData = chStdout c, bErr = Some ErrClosedPipe\<rparr>)))"

definition reexec_doUnpackLayer ::
  "mountcalls \<Rightarrow> reexecEnv \<Rightarrow> 'm goEnv \<Rightarrow> string \<Rightarrow> body \<Rightarrow> TarOptions \<Rightarrow> (procState, goerror, 64 word) io" where
  "reexec_doUnpackLayer mc x g root layer options =
     bindE (os_Pipe x) (\<lambda>_.
     let args = [unpackLayerCmd, root]
     in bindE (startChild mc x g args (bData layer) options) (\<lambda>(status, c).
        case Wait x args (Some layer) status of
          Some err \<Rightarrow> fail (ErrWrap (chBoth c) [] err)
        | None \<Rightarrow>
            (case rxDecodeSize x (chBoth c) of
               Inl err \<Rightarrow> fail (ErrWrap ''json decoding error'' [] err)
             | Inr result \<Rightarrow> ret result)))"


section \<open>What the child can do\<close>

lemma onChild_run: "onChild m c = (fst (m (chProc c)), c\<lparr>chProc := snd (m (chProc c))\<rparr>)"
  by (simp add: onChild_def split: prod.split)

lemma onPs_run: "onPs mc m p = (fst (m (proc_host mc p) (psFs p)), p\<lparr>psFs := snd (m (proc_host mc p) (psFs p))\<rparr>)"
  by (simp add: onPs_def split: prod.split)

lemma write_to_proc [simp]: "chProc (snd (write_to b t c)) = chProc c"
  by (simp add: write_to_def)

lemma println_exit:
  "chProc (snd (bindE (Fprintln_stderr t) (\<lambda>_. fail n) c)) = chProc c"
  by (simp add: bindE_def Fprintln_stderr_def write_to_def)

lemma runChild_run:
  "runChild mc x g args stdin data p =
     (let m = registered mc x g stdin args data \<lparr>chProc = p, chOutput = [(True, rxLog x args p)]\<rparr>
      in (Inr m, p\<lparr>psFs := (psFs (chProc (snd m)))\<lparr>umask := umask (psFs p)\<rparr>\<rparr>))"
  by (simp add: runChild_def Let_def split: prod.split)

context mount_calls
begin

text \<open>A child whose work stays below its root stays below the directory it is given.\<close>

lemma reexecMain_within:
  assumes c: "in_root rt rt rs s0 (chProc c)"
    and f: "\<And>options c. recvOptions x data = Inr options \<Longrightarrow> in_root (rt @ rs) rt rs s0 (chProc c) \<Longrightarrow>
      within (rt @ rs) s0 (psFs (chProc (snd (f options rest c))))"
  shows "within (rt @ rs) s0 (psFs (chProc (snd (reexecMain mc x f (cmd # abs_path rs # rest) data c))))"
proof (cases "recvOptions x data")
  case (Inl err)
  then show ?thesis using c by (simp add: reexecMain_def println_exit in_root_def)
next
  case (Inr options)
  let ?ch = "onChild (callE (PathError ''chroot'' (abs_path rs)) (mcChroot mc (abs_path rs)))"
  let ?work = "\<lambda>r. case r of
      Inl err \<Rightarrow> bindE (Fprintln_stderr (rxErrorText x err)) (\<lambda>_. fail 3) | Inr _ \<Rightarrow> ret ()"
  have run: "reexecMain mc x f (cmd # abs_path rs # rest) data c =
      (case fst (?ch c) of
         Inl err \<Rightarrow> bindE (Fprintln_stderr (rxValueText x err)) (\<lambda>_. fail 2) (snd (?ch c))
       | Inr _ \<Rightarrow> ?work (fst (f options rest (snd (?ch c)))) (snd (f options rest (snd (?ch c)))))"
    by (simp add: reexecMain_def Inr Let_def bindE_tryE split: sum.split)
  show ?thesis
  proof (cases "mcChroot mc (abs_path rs) (chProc c)")
    case (Pair e p')
    show ?thesis
    proof (cases e)
      case (Some err)
      with Pair chroot_err have "p' = chProc c" by blast
      then show ?thesis using c Pair Some
        by (simp add: run onChild_def callE_def println_exit in_root_def)
    next
      case None
      with Pair chroot obtain q cw where "kresolve (proc_host mc (chProc c)) True (abs_path rs) (psFs (chProc c)) = Inr q"
        "p' = (chProc c)\<lparr>psRoot := q, psCwd := cw\<rparr>" by blast
      with in_root_resolves [OF c] have "in_root (rt @ rs) rt rs s0 p'"
        using in_root_move [OF c] in_root_cwd by simp
      then have "within (rt @ rs) s0 (psFs (chProc (snd (f options rest (c\<lparr>chProc := p'\<rparr>)))))" by (intro f [OF Inr]) simp
      then show ?thesis using Pair None
        by (simp add: run onChild_def callE_def println_exit split: sum.split)
    qed
  qed
qed

lemma startChild_within:
  assumes p: "in_root rt rt rs s0 p"
    and m: "\<And>data c. in_root rt rt rs s0 (chProc c) \<Longrightarrow>
      within (rt @ rs) s0 (psFs (chProc (snd (registered mc x g stdin args data c))))"
    and run: "startChild mc x g args stdin options p = (r, p')"
  shows "within (rt @ rs) s0 (psFs p') \<and> psRoot p' = psRoot p \<and> psCwd p' = psCwd p"
proof -
  have child: "within (rt @ rs) s0 (psFs q) \<and> psRoot q = psRoot p \<and> psCwd q = psCwd p"
    if "snd (runChild mc x g args stdin data p) = q" for data q
    using that m [of "\<lparr>chProc = p, chOutput = [(True, rxLog x args p)]\<rparr>" data] p
    by (auto simp: runChild_run Let_def within_umask)
  have "p' = p \<or> (\<exists>data. p' = snd (runChild mc x g args stdin data p))"
    using run unfolding startChild_def
    by (auto simp: bindE_def readE_def runChild_run Let_def split: prod.splits sum.splits option.splits)
  then show ?thesis using child p by (auto simp: in_root_def)
qed


lemma top_onPs:
  assumes c: "in_root (rt @ rs) rt rs s0 (chProc c)"
    and m: "\<And>h s. hRoot h = rt @ rs \<Longrightarrow> root_ok h (root_at h [slash]) s \<Longrightarrow> h = mcHost mc (rt @ rs) (psCwd (chProc c)) \<Longrightarrow>
      within (rt @ rs) s (snd (m h s))"
  shows "within (rt @ rs) s0 (psFs (chProc (snd (onChild (onPs mc m) c))))"
proof -
  have h: "proc_host mc (chProc c) = mcHost mc (rt @ rs) (psCwd (chProc c))"
    using c by (simp add: proc_host_def in_root_def)
  have "within (rt @ rs) (psFs (chProc c)) (snd (m (proc_host mc (chProc c)) (psFs (chProc c))))"
    unfolding h by (rule m [OF host_root root_at_top [OF c] refl])
  then show ?thesis using c within_trans by (auto simp: onChild_run onPs_run in_root_def)
qed

lemma unpackInChroot_within:
  assumes "in_root (rt @ rs) rt rs s0 (chProc c)" and "oInternalOptions options = None"
  shows "within (rt @ rs) s0 (psFs (chProc (snd (unpackInChroot mc g stdin options [[slash]] c))))"
proof -
  have fd: "procfd_ok [] (oInternalOptions (no_converter options))" for fd
    using assms(2) by (simp add: procfd_ok_def no_converter_def)
  show ?thesis unfolding unpackInChroot_def list.case
  proof (rule top_onPs [OF assms(1)])
    fix h s assume h: "h = mcHost mc (rt @ rs) (psCwd (chProc c))" and ok: "root_ok h (root_at h [slash]) s"
    show "within (rt @ rs) s (snd (Unpack h (eEmptyMap g) (eParse g \<lparr>bData = stdin, bErr = None\<rparr>) [slash] (Some (no_converter options)) s))"
      using unix_calls.Unpack_within [OF host_calls host_honest _ ok [unfolded h] prod.collapse [symmetric],
          of "Some (no_converter options)" "[]" "eEmptyMap g" "eParse g \<lparr>bData = stdin, bErr = None\<rparr>"] fd
      by (simp add: comps_top host_root h)
  qed
qed

lemma unpackLayerInChroot_within:
  assumes "in_root (rt @ rs) rt rs s0 (chProc c)" and "oInternalOptions options = None"
    and entries: "\<And>e. e \<in> set (tsEntries (eParse g \<lparr>bData = stdin, bErr = None\<rparr>)) \<Longrightarrow> \<not> stashed (fst e)"
  shows "within (rt @ rs) s0 (psFs (chProc (snd (unpackLayerInChroot mc x g stdin options args c))))"
proof -
  let ?o = "no_converter options" and ?t = "eParse g \<lparr>bData = stdin, bErr = None\<rparr>"
  have fd: "procfd_ok [] (oInternalOptions ?o)"
    using assms(2) by (simp add: procfd_ok_def no_converter_def)
  let ?m = "onChild (onPs mc (\<lambda>h. bindE (set_umask 0) (\<lambda>_. UnpackLayer h (eEmptyMap g) [slash] ?t (Some ?o))))"
  have "within (rt @ rs) s0 (psFs (chProc (snd (?m c))))"
  proof (rule top_onPs [OF assms(1)])
    fix h s assume h: "h = mcHost mc (rt @ rs) (psCwd (chProc c))" and ok: "root_ok h (root_at h [slash]) s"
    let ?s = "s\<lparr>umask := 0\<rparr>"
    have ok': "root_ok (mcHost mc (rt @ rs) (psCwd (chProc c))) (root_at (mcHost mc (rt @ rs) (psCwd (chProc c))) [slash]) ?s"
      using ok by (simp add: root_ok_umask h)
    have "within (rt @ rs) ?s (snd (UnpackLayer h (eEmptyMap g) [slash] ?t (Some ?o) ?s))"
      using unix_calls.UnpackLayer_within [OF host_calls host_honest _ ok' entries prod.collapse [symmetric], of "Some ?o" "[]" ?t "eEmptyMap g"] fd
      by (simp add: comps_top host_root h)
    moreover have "within r ?s t \<Longrightarrow> within r s t" for r t by (simp add: within_def ino_at_def named_in_def)
    ultimately show "within (rt @ rs) s (snd (bindE (set_umask 0) (\<lambda>_. UnpackLayer h (eEmptyMap g) [slash] ?t (Some ?o)) s))"
      by (simp add: bindE_def set_umask_def)
  qed
  moreover have "chProc (snd (unpackLayerInChroot mc x g stdin options args c)) = chProc (snd (?m c))"
    by (auto simp: unpackLayerInChroot_def bindE_def write_to_def split: prod.split sum.split)
  ultimately show ?thesis by simp
qed

end

text \<open>
  What is relied on of \<open>encoding/json\<close>: it neither writes nor reads the field \<open>internalOptions\<close>,
  which is not exported, and a size that was written is read back.
\<close>

locale reexec_calls = mount_calls mc for mc :: mountcalls +
  fixes x :: reexecEnv
  assumes decoded: "rxDecodeOptions x data = Inr options \<Longrightarrow> oInternalOptions options = None"
    and size_back: "rxEncodeSize x n = Inr json \<Longrightarrow> rxDecodeSize x json = Inr n"
begin

lemma registered_unpack_within:
  assumes "in_root rt rt rs s0 (chProc c)"
  shows "within (rt @ rs) s0 (psFs (chProc (snd (registered mc x g stdin [unpackCmd, abs_path rs, [slash]] data c))))"
proof -
  have "unpackCmd \<noteq> packCmd" by (simp add: unpackCmd_def packCmd_def)
  moreover have "within (rt @ rs) s0 (psFs (chProc (snd (unpackInChroot mc g stdin options [[slash]] c))))"
    if "recvOptions x data = Inr options" "in_root (rt @ rs) rt rs s0 (chProc c)" for options c
    using unpackInChroot_within [OF that(2) decoded] that(1) by (simp add: recvOptions_def)
  ultimately show ?thesis
    using reexecMain_within [OF assms, of x data "unpackInChroot mc g stdin" "[[slash]]" unpackCmd] by (simp add: registered_def)
qed

lemma registered_layer_within:
  assumes "in_root rt rt rs s0 (chProc c)"
    and "\<And>e. e \<in> set (tsEntries (eParse g \<lparr>bData = stdin, bErr = None\<rparr>)) \<Longrightarrow> \<not> stashed (fst e)"
  shows "within (rt @ rs) s0 (psFs (chProc (snd (registered mc x g stdin [unpackLayerCmd, abs_path rs] data c))))"
proof -
  have "unpackLayerCmd \<noteq> packCmd" "unpackLayerCmd \<noteq> unpackCmd" by (simp_all add: unpackCmd_def packCmd_def unpackLayerCmd_def)
  moreover have "within (rt @ rs) s0 (psFs (chProc (snd (unpackLayerInChroot mc x g stdin options [] c))))"
    if "recvOptions x data = Inr options" "in_root (rt @ rs) rt rs s0 (chProc c)" for options c
    using unpackLayerInChroot_within [OF that(2) decoded assms(2)] that(1) by (simp add: recvOptions_def)
  ultimately show ?thesis
    using reexecMain_within [OF assms(1), of x data "unpackLayerInChroot mc x g stdin" "[]" unpackLayerCmd] by (simp add: registered_def)
qed

lemma reexec_doUnpack_within:
  assumes p: "in_root rt rt rs s0 p" and run: "reexec_doUnpack mc x g archive [slash] (abs_path rs) options p = (r, p')"
  shows "within (rt @ rs) s0 (psFs p') \<and> psRoot p' = psRoot p \<and> psCwd p' = psCwd p"
proof -
  have "p' = p \<or> (\<exists>r. startChild mc x g [unpackCmd, abs_path rs, [slash]] (bData archive) options p = (r, p'))"
    using run by (auto simp: reexec_doUnpack_def os_Pipe_def bindE_def readE_def Let_def split: prod.splits sum.splits option.splits)
  then show ?thesis
  proof (elim disjE exE)
    fix r' assume "startChild mc x g [unpackCmd, abs_path rs, [slash]] (bData archive) options p = (r', p')"
    from startChild_within [OF p registered_unpack_within this] show ?thesis .
  qed (use p in \<open>simp add: in_root_def\<close>)
qed

lemma reexec_doUnpackLayer_within:
  assumes p: "in_root rt rt rs s0 p" and run: "reexec_doUnpackLayer mc x g (abs_path rs) layer options p = (r, p')"
    and e: "\<And>e. e \<in> set (tsEntries (eParse g \<lparr>bData = bData layer, bErr = None\<rparr>)) \<Longrightarrow> \<not> stashed (fst e)"
  shows "within (rt @ rs) s0 (psFs p') \<and> psRoot p' = psRoot p \<and> psCwd p' = psCwd p"
proof -
  have "p' = p \<or> (\<exists>r. startChild mc x g [unpackLayerCmd, abs_path rs] (bData layer) options p = (r, p'))"
    using run by (auto simp: reexec_doUnpackLayer_def os_Pipe_def bindE_def readE_def Let_def split: prod.splits sum.splits option.splits)
  then show ?thesis
  proof (elim disjE exE)
    fix r' assume "startChild mc x g [unpackLayerCmd, abs_path rs] (bData layer) options p = (r', p')"
    from startChild_within [OF p registered_layer_within [OF _ e] this] show ?thesis .
  qed (use p in \<open>simp add: in_root_def\<close>)
qed

end

section \<open>The size of a layer\<close>

text \<open>
  Standard output and standard error of the child go to one buffer: what the child logs stands
  before the size that is decoded.
\<close>

lemma reexec_doUnpackLayer_result:
  assumes "rxPipe x p = None" and "rxStart x [unpackLayerCmd, root] p = None"
    and "rxEncodeOptions x options = Inr json" and "rxDecodeOptions x json = Inr decoded"
    and "mcChroot mc root p = (None, q)"
    and "UnpackLayer (proc_host mc q) (eEmptyMap g) [slash] (eParse g \<lparr>bData = bData layer, bErr = None\<rparr>)
      (Some (no_converter decoded)) ((psFs q)\<lparr>umask := 0\<rparr>) = (Inr n, s')"
    and "rxEncodeSize x n = Inr sz" and "bErr layer = None"
  shows "fst (reexec_doUnpackLayer mc x g root layer options p) =
    (case rxDecodeSize x (rxLog x [unpackLayerCmd, root] p @ sz) of
       Inl err \<Rightarrow> Inl (ErrWrap ''json decoding error'' [] err) | Inr m \<Rightarrow> Inr m)"
proof -
  let ?args = "[unpackLayerCmd, root]"
  let ?c = "\<lparr>chProc = p, chOutput = [(True, rxLog x ?args p)]\<rparr>"
  have cmds: "unpackLayerCmd \<noteq> packCmd" "unpackLayerCmd \<noteq> unpackCmd"
    by (simp_all add: unpackCmd_def packCmd_def unpackLayerCmd_def)
  have "registered mc x g (bData layer) ?args json ?c =
      (Inr (), \<lparr>chProc = q\<lparr>psFs := s'\<rparr>, chOutput = [(True, rxLog x ?args p), (False, sz)]\<rparr>)"
    by (simp add: registered_def cmds reexecMain_def recvOptions_def assms(4-7) tryE_def onChild_def callE_def bindE_def
        write_to_def unpackLayerInChroot_def onPs_def set_umask_def)
  moreover have "startChild mc x g ?args (bData layer) options p = runChild mc x g ?args (bData layer) json p"
    by (simp add: startChild_def bindE_readE assms(2,3))
  ultimately show ?thesis
    by (simp add: reexec_doUnpackLayer_def os_Pipe_def bindE_readE assms(1))
      (simp add: bindE_def runChild_run Let_def Wait_def assms(8) chBoth_def split: sum.split)
qed

text \<open>A child that logs nothing: the size it found.\<close>

context reexec_calls
begin

lemma reexec_layer_size:
  assumes "rxLog x [unpackLayerCmd, root] p = []"
    and "rxPipe x p = None" and "rxStart x [unpackLayerCmd, root] p = None"
    and "rxEncodeOptions x options = Inr json" and "rxDecodeOptions x json = Inr decoded"
    and "mcChroot mc root p = (None, q)"
    and "UnpackLayer (proc_host mc q) (eEmptyMap g) [slash] (eParse g \<lparr>bData = bData layer, bErr = None\<rparr>)
      (Some (no_converter decoded)) ((psFs q)\<lparr>umask := 0\<rparr>) = (Inr n, s')"
    and "rxEncodeSize x n = Inr sz" and "bErr layer = None"
  shows "fst (reexec_doUnpackLayer mc x g root layer options p) = Inr n"
  using reexec_doUnpackLayer_result [OF assms(2-9)] size_back [OF assms(8)] by (simp add: assms(1))

end

section \<open>The contract on a concrete machine\<close>

text \<open>A codec for the options the samples use, and sizes written in unary.\<close>

definition sample_reexec :: reexecEnv where
  "sample_reexec =
     \<lparr>rxPipe = (\<lambda>_. None), rxStdoutPipe = (\<lambda>_. None), rxStart = (\<lambda>_ _. None),
      rxExit = (\<lambda>n. ErrMsg ''exit status'' [replicate n CHR ''I'']), rxDrained = (\<lambda>_ _. True),
      rxEncodeOptions = (\<lambda>_. Inr ''{}''),
      rxDecodeOptions = (\<lambda>json. if json = ''{}'' then Inr (zeroTarOptions (eEmptyMap (sample_env base_host sample_codecs)))
        else Inl (IOError ''EOF'')),
      rxEncodeSize = (\<lambda>n. Inr (replicate (unat n) CHR ''I'')), rxDecodeSize = (\<lambda>json. Inr (of_nat (length json))),
      rxErrorText = (\<lambda>_. ''error''), rxValueText = (\<lambda>_. ''{chroot}''), rxLog = (\<lambda>_ _. [])\<rparr>"

interpretation sample_calls: reexec_calls posix_mounts sample_reexec
  by (intro reexec_calls.intro posix_mount.mount_calls_axioms reexec_calls_axioms.intro)
    (auto simp: sample_reexec_def zeroTarOptions_def split: if_splits)

section \<open>The properties\<close>

text \<open>
  C39: also where the work is done by a child process, extraction into a chroot is contained: whatever
  the archive holds, and however the child and the call end, no name outside the root directory is
  created, removed or bound to another inode, no inode changes that has no name inside, and the
  caller keeps its root and working directory. For layers, those with no regular file in the AUFS
  link directory.
\<close>

theorem reexec_confined:
  assumes "reexec_calls mc x"
    and "root_ok (proc_host mc p) (root_at (proc_host mc p) root) (psFs p)"
    and "reexec_doUnpack mc x g archive [slash] root options p = (r, p') \<or>
      (\<forall>e \<in> set (tsEntries (eParse g \<lparr>bData = bData archive, bErr = None\<rparr>)). \<not> stashed (fst e)) \<and>
      reexec_doUnpackLayer mc x g root archive options p = (n, p')"
  shows "(\<forall>q. \<not> strict_prefix (psRoot p @ comps root) q \<longrightarrow> ino_at (psFs p') q = ino_at (psFs p) q) \<and>
    (\<forall>i < nextino (psFs p). \<not> named_in (psFs p) (psRoot p @ comps root) i \<longrightarrow>
       inodes (psFs p') i = inodes (psFs p) i \<and> \<not> named_in (psFs p') (psRoot p @ comps root) i) \<and>
    psRoot p' = psRoot p \<and> psCwd p' = psCwd p"
proof -
  from assms(1) have mc: "mount_calls mc" by (simp add: reexec_calls_def)
  from root_ok_in_root [OF assms(2) mc] obtain rs where rs: "root = abs_path rs" "comps root = rs"
    "in_root (psRoot p) (psRoot p) rs (psFs p) p" .
  from assms(3) have "within (psRoot p @ rs) (psFs p) (psFs p') \<and> psRoot p' = psRoot p \<and> psCwd p' = psCwd p"
  proof (elim disjE conjE)
    assume "reexec_doUnpack mc x g archive [slash] root options p = (r, p')"
    from reexec_calls.reexec_doUnpack_within [OF assms(1) rs(3) this [unfolded rs(1)]] show ?thesis .
  next
    assume e: "\<forall>e \<in> set (tsEntries (eParse g \<lparr>bData = bData archive, bErr = None\<rparr>)). \<not> stashed (fst e)"
      and "reexec_doUnpackLayer mc x g root archive options p = (n, p')"
    from reexec_calls.reexec_doUnpackLayer_within [OF assms(1) rs(3) this(2) [unfolded rs(1)]] e show ?thesis by blast
  qed
  then show ?thesis unfolding rs(2) by (simp add: within_def)
qed

theorem reexec_confined_witness:
  "ino_at (psFs (snd (reexec_doUnpack posix_mounts sample_reexec (chroot_env evil_archive) \<lparr>bData = [], bErr = None\<rparr>
       [slash] ''/dest'' (zeroTarOptions (eEmptyMap (chroot_env evil_archive))) proc_thread))) [''secret''] = ino_at proc_fs [''secret'']"
    (is "ino_at (psFs (snd ?run)) _ = _")
proof -
  obtain r p' where run: "?run = (r, p')" by fastforce
  have "\<not> strict_prefix (psRoot proc_thread @ comps ''/dest'') [''secret'']" by code_simp
  with reexec_confined [OF sample_calls.reexec_calls_axioms proc_root_ok disjI1 [OF run]] run show ?thesis
    by (simp add: proc_thread_def)
qed



end
