(* ===== verification/Platforms.thy ===== *)
theory Platforms
  imports Pack Extract Changes
begin

text \<open>
  What the other systems do differently, where it can be said without their system calls: the header
  fields on FreeBSD (\<open>tarheader_unix.go\<close>), devices on FreeBSD and Darwin, modes, options and
  attributes of \<open>chmod_unix_nolinux.go\<close>, \<open>archive_other.go\<close> and \<open>xattr_unsupported.go\<close>, and the
  functions of \<open>path_windows.go\<close>, \<open>copy_windows.go\<close>, \<open>archive_windows.go\<close> and \<open>changes_windows.go\<close>
  on paths, modes and file infos. A name that exists on Linux too has the system at its end.
\<close>

unbundle bit_operations_syntax

section \<open>Headers on FreeBSD\<close>

definition sysStat_freebsd :: "host \<Rightarrow> FileInfo \<Rightarrow> tarHeader \<Rightarrow> tarHeader" where
  "sysStat_freebsd h fi hdr =
     (if hTypeflag hdr \<noteq> TypeBlock \<and> hTypeflag hdr \<noteq> TypeChar then hdr else sysStat h fi hdr)"

definition FileInfoHeaderNoLookups_freebsd :: "host \<Rightarrow> FileInfo \<Rightarrow> string \<Rightarrow> string \<Rightarrow> goerror + tarHeader" where
  "FileInfoHeaderNoLookups_freebsd h fi name link =
     (case tar_FileInfoHeader fi name link of Inl err \<Rightarrow> Inl err | Inr hdr \<Rightarrow> Inr (sysStat_freebsd h fi hdr))"

text \<open>
  The device number of a regular file never reaches its header, which is what the early return of
  \<open>sysStat\<close> is for; but neither does its owner.
\<close>

theorem freebsd_owner_lost:
  assumes "FileInfoHeaderNoLookups_freebsd h fi name link = Inr hdr"
    and "hTypeflag hdr \<noteq> TypeBlock" and "hTypeflag hdr \<noteq> TypeChar"
  shows "hUid hdr = 0 \<and> hGid hdr = 0 \<and> hDevmajor hdr = 0 \<and> hDevminor hdr = 0"
proof -
  obtain hdr0 where hdr0: "tar_FileInfoHeader fi name link = Inr hdr0" "hdr = sysStat_freebsd h fi hdr0"
    using assms(1) by (auto simp: FileInfoHeaderNoLookups_freebsd_def split: sum.splits)
  have "hTypeflag (sysStat h fi hdr0) = hTypeflag hdr0" by (simp add: sysStat_def Let_def)
  then have "hdr = hdr0" using hdr0(2) assms(2,3) by (auto simp: sysStat_freebsd_def split: if_splits)
  then show ?thesis using hdr0(1)
    by (auto simp: tar_FileInfoHeader_def Let_def zeroHeader_def split: if_splits)
qed

section \<open>Devices\<close>

definition mknodInRoot_freebsd ::
  "host \<Rightarrow> goRoot \<Rightarrow> string \<Rightarrow> filemode \<Rightarrow> 64 word \<Rightarrow> (fsys, goerror, unit) io" where
  "mknodInRoot_freebsd h R path mode dev =
     bindE (root_OpenDir h R (Dir path)) (\<lambda>parent.
     wrap_unix Errno (uMknodat (hUnix h) parent (Base path) mode dev))"

text \<open>\<open>unix.Mknod\<close>, a parameter, takes the device as an \<open>int\<close>, except on FreeBSD.\<close>

definition mknod ::
  "(string \<Rightarrow> filemode \<Rightarrow> int \<Rightarrow> fsys \<Rightarrow> unix_result) \<Rightarrow> string \<Rightarrow> filemode \<Rightarrow> 64 word \<Rightarrow> (fsys, goerror, unit) io" where
  "mknod unixMknod path mode dev = wrap_unix Errno (unixMknod path mode (sint dev))"

definition mknod_darwin ::
  "(string \<Rightarrow> filemode \<Rightarrow> int \<Rightarrow> fsys \<Rightarrow> unix_result) \<Rightarrow> string \<Rightarrow> filemode \<Rightarrow> 64 word \<Rightarrow> (fsys, goerror, unit) io" where
  "mknod_darwin unixMknod path mode dev = wrap_unix Errno (unixMknod path mode (sint dev))"

definition mknod_freebsd ::
  "(string \<Rightarrow> filemode \<Rightarrow> 64 word \<Rightarrow> fsys \<Rightarrow> unix_result) \<Rightarrow> string \<Rightarrow> filemode \<Rightarrow> 64 word \<Rightarrow> (fsys, goerror, unit) io" where
  "mknod_freebsd unixMknod path mode dev = wrap_unix Errno (unixMknod path mode dev)"

text \<open>Darwin has no \<open>mknodat\<close>: the path is resolved first, and \<open>unix.Mknod\<close> is given the result.\<close>

definition mknodInRoot_darwin ::
  "(string \<Rightarrow> filemode \<Rightarrow> int \<Rightarrow> fsys \<Rightarrow> unix_result) \<Rightarrow>
     host \<Rightarrow> goRoot \<Rightarrow> string \<Rightarrow> filemode \<Rightarrow> 64 word \<Rightarrow> (fsys, goerror, unit) io" where
  "mknodInRoot_darwin unixMknod h R path mode dev =
     bindE (readE (fsRootPath h (rName R) path)) (\<lambda>abs.
     wrap_unix Errno (unixMknod abs mode (sint dev)))"

section \<open>The system's data of a file\<close>

text \<open>What \<open>FileInfo.Sys\<close> returns: a \<open>Stat_t\<close>, or a value of the type that is named.\<close>

datatype sysData = Stat_t FileInfo | OtherData string

definition getInodeFromStat :: "sysData \<Rightarrow> goerror + nat" where
  "getInodeFromStat stat =
     (case stat of
        Stat_t s \<Rightarrow> Inr (fiIno s)
      | OtherData t \<Rightarrow> Inl (ErrMsg ''unexpected stat type %T'' [t]))"

definition getFileUIDGID :: "sysData \<Rightarrow> goerror + int \<times> int" where
  "getFileUIDGID stat =
     (case stat of
        Stat_t s \<Rightarrow> Inr (fiUid s, fiGid s)
      | OtherData _ \<Rightarrow> Inl (ErrMsg ''cannot convert stat value to syscall.Stat_t'' []))"

section \<open>Modes, options and attributes\<close>

text \<open>
  The fallback opens the file itself, without following a symlink; \<open>openat\<close> gives a descriptor and
  \<open>fchmod\<close> changes what it stands for.
\<close>

definition chmodNoSymlinkFallback_other ::
  "(loc \<Rightarrow> string \<Rightarrow> fsys \<Rightarrow> errno + nat) \<Rightarrow> (nat \<Rightarrow> filemode \<Rightarrow> fsys \<Rightarrow> unix_result) \<Rightarrow>
     loc \<Rightarrow> string \<Rightarrow> string \<Rightarrow> filemode \<Rightarrow> archiveOptions option \<Rightarrow> (fsys, goerror, unit) io" where
  "chmodNoSymlinkFallback_other openat fchmod parentFD base name perm opts =
     bindE (readE (\<lambda>s. case openat parentFD base s of
                          Inl e \<Rightarrow> Inl (PathError ''openat'' name (Errno e))
                        | Inr fd \<Rightarrow> Inr fd)) (\<lambda>fd.
     wrap_unix (\<lambda>e. PathError ''fchmod'' name (Errno e)) (fchmod fd perm))"

definition withProcSelfFD_other :: "IdentityMapping \<Rightarrow> TarOptions option \<Rightarrow> (fsys, goerror, TarOptions) io" where
  "withProcSelfFD_other emptyMap opts =
     ret (case opts of None \<Rightarrow> zeroTarOptions emptyMap | Some opt \<Rightarrow> opt)"

definition lgetxattr_unsupported :: "string \<Rightarrow> string \<Rightarrow> goerror + string option" where
  "lgetxattr_unsupported path attr = Inr None"

definition lsetxattr_unsupported :: "string \<Rightarrow> string \<Rightarrow> string \<Rightarrow> (fsys, goerror, unit) io" where
  "lsetxattr_unsupported path attr data = ret ()"

section \<open>Paths on Windows\<close>

abbreviation backslash :: char where
  "backslash \<equiv> CHR 0x5C"

definition IsPathSeparator_windows :: "char \<Rightarrow> bool" where
  "IsPathSeparator_windows c \<longleftrightarrow> c = backslash \<or> c = slash"

definition FromSlash_windows :: "string \<Rightarrow> string" where
  "FromSlash_windows path = map (\<lambda>c. if c = slash then backslash else c) path"

text \<open>The length of the volume name of a path, as package \<open>internal/filepathlite\<close> has it.\<close>

definition upper_ascii :: "char \<Rightarrow> char" where
  "upper_ascii c =
     (let n = of_char c :: nat in if 0x61 \<le> n \<and> n \<le> 0x7A then char_of (n - 0x20) else c)"

definition pathHasPrefixFold :: "string \<Rightarrow> string \<Rightarrow> bool" where
  "pathHasPrefixFold s pre \<longleftrightarrow>
     length pre \<le> length s \<and>
     list_all2 (\<lambda>p c. if IsPathSeparator_windows p then IsPathSeparator_windows c else upper_ascii p = upper_ascii c)
       pre (take (length pre) s) \<and>
     (length pre < length s \<longrightarrow> IsPathSeparator_windows (s ! length pre))"

text \<open>Up to the second separator after the prefix.\<close>

definition uncLen :: "string \<Rightarrow> nat \<Rightarrow> nat" where
  "uncLen path prefixLen =
     (let stop = (\<lambda>i. IsPathSeparator_windows (path ! i));
          seps = filter stop [prefixLen ..< length path]
      in case seps of _ # i # _ \<Rightarrow> i | _ \<Rightarrow> length path)"

definition volumeNameLen :: "string \<Rightarrow> nat" where
  "volumeNameLen path =
     (if length path \<ge> 2 \<and> path ! 1 = CHR '':'' then 2
      else if path = [] \<or> \<not> IsPathSeparator_windows (hd path) then 0
      else if pathHasPrefixFold path (backslash # backslash # CHR ''.'' # backslash # ''UNC'')
      then uncLen path 8
      else if pathHasPrefixFold path [backslash, backslash, CHR ''.''] \<or>
              pathHasPrefixFold path [backslash, backslash, CHR ''?''] \<or>
              pathHasPrefixFold path [backslash, CHR ''?'', CHR ''?'']
      then
        (if length path = 3 then 3
         else
           (case dropWhile (\<lambda>c. \<not> IsPathSeparator_windows c) (drop 4 path) of
              [] \<Rightarrow> length path
            | _ # rest \<Rightarrow> length path - length rest - 1))
      else if length path \<ge> 2 \<and> IsPathSeparator_windows (path ! 1) then uncLen path 2
      else 0)"

definition IsAbs_windows :: "string \<Rightarrow> bool" where
  "IsAbs_windows path =
     (let l = volumeNameLen path; rest = drop l path
      in if l = 0 then False
         else if IsPathSeparator_windows (hd path) \<and> IsPathSeparator_windows (path ! 1) then True
         else rest \<noteq> [] \<and> IsPathSeparator_windows (hd rest))"

definition checkSystemDriveAndRemoveDriveLetter :: "string \<Rightarrow> goerror + string" where
  "checkSystemDriveAndRemoveDriveLetter path = Inr path"

definition checkSystemDriveAndRemoveDriveLetter_windows :: "string \<Rightarrow> goerror + string" where
  "checkSystemDriveAndRemoveDriveLetter_windows path =
     (if length path = 2 \<and> path ! 1 = CHR '':'' then Inl (ErrMsg ''no relative path specified in'' [path])
      else if \<not> IsAbs_windows path \<or> length path < 2 then Inr (FromSlash_windows path)
      else if path ! 1 = CHR '':'' \<and> upper_ascii (hd path) \<noteq> CHR ''C''
      then Inl (ErrMsg ''the specified path is not on the system drive (C:)'' [])
      else Inr (FromSlash_windows (drop 2 path)))"

definition normalizePath_windows :: "string \<Rightarrow> string" where
  "normalizePath_windows path = FromSlash_windows path"

definition longPathPrefix_windows :: string where
  "longPathPrefix_windows = [backslash, backslash, CHR ''?'', backslash]"

definition addLongPathPrefix_windows :: "string \<Rightarrow> string" where
  "addLongPathPrefix_windows srcPath =
     (if HasPrefix srcPath longPathPrefix_windows then srcPath
      else if HasPrefix srcPath [backslash, backslash]
      then longPathPrefix_windows @ ''UNC'' @ drop 1 srcPath
      else longPathPrefix_windows @ srcPath)"

lemma FromSlash_windows_no_slash: "slash \<notin> set (FromSlash_windows path)"
  by (auto simp: FromSlash_windows_def)

lemma addLongPathPrefix_idem:
  "addLongPathPrefix_windows (addLongPathPrefix_windows p) = addLongPathPrefix_windows p"
  by (simp add: addLongPathPrefix_windows_def HasPrefix_def longPathPrefix_windows_def)

text \<open>An absolute path with a drive letter passes on the system drive only, and loses the letter.\<close>

lemma drive_path:
  assumes "IsPathSeparator_windows sep"
  shows "checkSystemDriveAndRemoveDriveLetter_windows (d # CHR '':'' # sep # rest) =
    (if upper_ascii d = CHR ''C'' then Inr (backslash # FromSlash_windows rest)
     else Inl (ErrMsg ''the specified path is not on the system drive (C:)'' []))"
proof -
  have "IsAbs_windows (d # CHR '':'' # sep # rest)"
    using assms by (simp add: IsAbs_windows_def volumeNameLen_def)
  moreover have "FromSlash_windows (sep # rest) = backslash # FromSlash_windows rest"
    using assms by (auto simp: FromSlash_windows_def IsPathSeparator_windows_def)
  ultimately show ?thesis by (simp add: checkSystemDriveAndRemoveDriveLetter_windows_def)
qed

text \<open>
  A path relative to the directory of a drive is let through with its letter, whatever the drive; a
  UNC path loses its two leading backslashes.
\<close>

lemma drive_relative_passes:
  "\<not> IsPathSeparator_windows c \<Longrightarrow>
     checkSystemDriveAndRemoveDriveLetter_windows (d # CHR '':'' # c # rest) = Inr (FromSlash_windows (d # CHR '':'' # c # rest))"
  by (simp add: checkSystemDriveAndRemoveDriveLetter_windows_def IsAbs_windows_def volumeNameLen_def
      IsPathSeparator_windows_def)

lemma drive_paths:
  "checkSystemDriveAndRemoveDriveLetter_windows ''d:x'' = Inr ''d:x''"
  "checkSystemDriveAndRemoveDriveLetter_windows ''c:/x'' = Inr (backslash # ''x'')"
  "checkSystemDriveAndRemoveDriveLetter_windows ''//server/share'' = Inr (''server'' @ backslash # ''share'')"
  by code_simp+

section \<open>Modes and file infos on Windows\<close>

definition chmodTarEntry_windows :: "64 word \<Rightarrow> 64 word" where
  "chmodTarEntry_windows mode = (mode AND 0x1ED) OR 0x49"

definition statDifferent_windows :: "FileInfo \<Rightarrow> FileInfo \<Rightarrow> bool" where
  "statDifferent_windows oldStat newStat \<longleftrightarrow>
     \<not> sameFsTime (fiModTime oldStat) (fiModTime newStat) \<or>
     fiMode oldStat \<noteq> fiMode newStat \<or>
     (fiSize oldStat \<noteq> fiSize newStat \<and> \<not> fi_is_dir oldStat)"

definition getIno_windows :: "FileInfo \<Rightarrow> nat" where
  "getIno_windows fi = 0"

definition hasHardlinks_windows :: "FileInfo \<Rightarrow> bool" where
  "hasHardlinks_windows fi = False"

text \<open>A mode in a header made on Windows: everyone may execute, no one but the owner may write.\<close>

lemma chmodTarEntry_windows_bits:
  "chmodTarEntry_windows mode AND 0x49 = 0x49" "chmodTarEntry_windows mode AND 0x12 = 0"
  "chmodTarEntry_windows (chmodTarEntry_windows mode) = chmodTarEntry_windows mode"
  by (simp_all add: chmodTarEntry_windows_def bit.conj_disj_distrib2 and.assoc or.assoc)

text \<open>A directory whose time alone has changed differs on Windows and not elsewhere.\<close>

lemma statDifferent_dirs:
  assumes "fi_is_dir a" and "fi_is_dir b" and "fiMode a = fiMode b"
    and "fiUid a = fiUid b" and "fiGid a = fiGid b" and "fiRdev a = fiRdev b"
  shows "\<not> statDifferent a b"
    and "statDifferent_windows a b \<longleftrightarrow> \<not> sameFsTime (fiModTime a) (fiModTime b)"
  using assms by (auto simp: statDifferent_def statDifferent_windows_def)

end
