(* ===== verification/Windows.thy ===== *)
theory Windows
  imports Platforms
begin

text \<open>
  What can be said of the program on Windows: \<open>time_windows.go\<close>, the functions of \<open>archive_windows.go\<close>,
  \<open>diff_windows.go\<close> and \<open>tarheader_windows.go\<close> that stand for those of Unix, and the handlers of
  \<open>chrootarchive/archive_windows.go\<close> and \<open>chrootarchive/diff_windows.go\<close>. The state is any type: the file system of
  Windows is reached through \<open>golang.org/x/sys/windows\<close> and \<open>os.Root\<close>, which are parameters (\<open>wincalls\<close>).
\<close>

section \<open>Cleaning and joining paths\<close>

text \<open>
  \<open>filepath.Clean\<close> writes into a buffer that is only allocated when the output departs from the path
  (\<open>lazybuf\<close>); what it does with a colon in the first element depends on that.
\<close>

record lazybuf =
  lbPath :: string
  lbBuf :: "string option"
  lbW :: nat

definition lb_append :: "char \<Rightarrow> lazybuf \<Rightarrow> lazybuf" where
  "lb_append c b =
     (case lbBuf b of
        None \<Rightarrow>
          if lbW b < length (lbPath b) \<and> lbPath b ! lbW b = c then b\<lparr>lbW := lbW b + 1\<rparr>
          else b\<lparr>lbBuf := Some (((take (lbW b) (lbPath b)) @ replicate (length (lbPath b) - lbW b) (char_of (0::nat)))[lbW b := c]),
                lbW := lbW b + 1\<rparr>
      | Some d \<Rightarrow> b\<lparr>lbBuf := Some (d[lbW b := c]), lbW := lbW b + 1\<rparr>)"

definition lb_data :: "lazybuf \<Rightarrow> string" where
  "lb_data b = (case lbBuf b of None \<Rightarrow> lbPath b | Some d \<Rightarrow> d)"

definition lb_out :: "lazybuf \<Rightarrow> string" where
  "lb_out b = take (lbW b) (lb_data b)"

definition lb_prepend :: "string \<Rightarrow> lazybuf \<Rightarrow> lazybuf" where
  "lb_prepend pre b = b\<lparr>lbBuf := Some (pre @ lb_data b), lbW := lbW b + length pre\<rparr>"

text \<open>Backtracking over the last element, down to \<open>dd\<close> at most.\<close>

fun lb_back :: "nat \<Rightarrow> string \<Rightarrow> nat \<Rightarrow> nat" where
  "lb_back dd d 0 = 0"
| "lb_back dd d (Suc w) =
     (if w > dd \<and> \<not> IsPathSeparator_windows (d ! w) then lb_back dd d w else w)"

definition ends_elem :: "string \<Rightarrow> bool" where
  "ends_elem r \<longleftrightarrow> r = [] \<or> IsPathSeparator_windows (hd r)"

definition dotdot_elem :: "bool \<Rightarrow> nat \<Rightarrow> lazybuf \<Rightarrow> lazybuf \<times> nat" where
  "dotdot_elem rooted dd b =
     (if lbW b > dd then (b\<lparr>lbW := lb_back dd (lb_data b) (lbW b)\<rparr>, dd)
      else if \<not> rooted
      then
        (let b1 = (if lbW b > 0 then lb_append backslash b else b);
             b2 = lb_append CHR ''.'' (lb_append CHR ''.'' b1)
         in (b2, lbW b2))
      else (b, dd))"

definition real_elem :: "bool \<Rightarrow> string \<Rightarrow> lazybuf \<Rightarrow> lazybuf" where
  "real_elem rooted e b =
     fold lb_append e
       (if rooted \<and> lbW b \<noteq> 1 \<or> \<not> rooted \<and> lbW b \<noteq> 0 then lb_append backslash b else b)"

text \<open>The loop; \<open>r\<close> is what is left of the path.\<close>

function clean_loop :: "bool \<Rightarrow> nat \<Rightarrow> lazybuf \<Rightarrow> string \<Rightarrow> lazybuf" where
  "clean_loop rooted dd b r =
     (if r = [] then b
      else if IsPathSeparator_windows (hd r) \<or> hd r = CHR ''.'' \<and> ends_elem (drop 1 r)
      then clean_loop rooted dd b (drop 1 r)
      else if hd r = CHR ''.'' \<and> r ! 1 = CHR ''.'' \<and> ends_elem (drop 2 r)
      then (case dotdot_elem rooted dd b of (b', dd') \<Rightarrow> clean_loop rooted dd' b' (drop 2 r))
      else
        clean_loop rooted dd (real_elem rooted (takeWhile (\<lambda>c. \<not> IsPathSeparator_windows c) r) b)
          (dropWhile (\<lambda>c. \<not> IsPathSeparator_windows c) r))"
  by pat_completeness auto
termination
proof (relation "measure (\<lambda>(rooted, dd, b, r). length r)", simp_all, goal_cases)
  case (1 r)
  then show ?case by (cases r) (auto intro: le_less_trans [OF length_dropWhile_le])
qed

declare clean_loop.simps [simp del]

definition postClean :: "nat \<Rightarrow> lazybuf \<Rightarrow> lazybuf" where
  "postClean volLen b =
     (case lbBuf b of
        None \<Rightarrow> b
      | Some d \<Rightarrow>
          if volLen \<noteq> 0 then b
          else if CHR '':'' \<in> set (takeWhile (\<lambda>c. \<not> IsPathSeparator_windows c) d) then lb_prepend [CHR ''.'', backslash] b
          else if length d \<ge> 3 \<and> IsPathSeparator_windows (d ! 0) \<and> d ! 1 = CHR ''?'' \<and> d ! 2 = CHR ''?''
          then lb_prepend [backslash, CHR ''.''] b
          else b)"

definition Clean_windows :: "string \<Rightarrow> string" where
  "Clean_windows originalPath =
     (let volLen = volumeNameLen originalPath; path = drop volLen originalPath
      in if path = []
         then
           (if volLen > 1 \<and> IsPathSeparator_windows (originalPath ! 0) \<and> IsPathSeparator_windows (originalPath ! 1)
            then FromSlash_windows originalPath else originalPath @ ''.'')
         else
           (let rooted = IsPathSeparator_windows (hd path);
                b0 = \<lparr>lbPath = path, lbBuf = None, lbW = 0\<rparr>;
                b1 = (if rooted then lb_append backslash b0 else b0);
                b2 = clean_loop rooted (if rooted then 1 else 0) b1 (if rooted then drop 1 path else path);
                b3 = (if lbW b2 = 0 then lb_append CHR ''.'' b2 else b2)
            in FromSlash_windows (take volLen originalPath @ lb_out (postClean volLen b3))))"

text \<open>\<open>filepath.Join\<close>: \<open>b\<close> is what has been written.\<close>

definition join_elem :: "string \<Rightarrow> string \<Rightarrow> string" where
  "join_elem e b =
     (if b = [] then e
      else if IsPathSeparator_windows (last b)
      then
        (let e' = dropWhile IsPathSeparator_windows e
         in if length b = 1 \<and> HasPrefix e' ''??'' \<and> ends_elem (drop 2 e') then b @ [CHR ''.'', backslash] @ e'
            else b @ e')
      else if last b = CHR '':'' then b @ e
      else b @ backslash # e)"

definition Join_windows :: "string list \<Rightarrow> string" where
  "Join_windows elems = (let b = fold join_elem elems [] in if b = [] then [] else Clean_windows b)"

definition getWalkRoot_windows :: "string \<Rightarrow> string \<Rightarrow> string" where
  "getWalkRoot_windows srcPath include = Join_windows [srcPath, include]"

lemma clean_samples:
  "Clean_windows ''C:/a/../b/.'' = ''C:'' @ backslash # ''b''"
  "Clean_windows ''a/../c:'' = CHR ''.'' # backslash # ''c:''"
  "Clean_windows ''//h/s/x/../..'' = backslash # backslash # ''h'' @ backslash # ''s'' @ [backslash]"
  "Clean_windows ''../a//b'' = ''..'' @ backslash # ''a'' @ backslash # ''b''"
  "Clean_windows ''C:'' = ''C:.''"
  "Join_windows [''C:'', ''f''] = ''C:f''"
  by code_simp+


section \<open>The system\<close>

text \<open>
  The arguments of \<open>NtCreateFile\<close>. A handle is a number; \<open>ObjectName\<close> is counted in bytes, as 16-bit numbers.
\<close>

record ntRequest =
  nrAccess :: "32 word"
  nrRootDirectory :: nat
  nrLength :: "16 word"
  nrMaximumLength :: "16 word"
  nrBuffer :: "16 word list"
  nrAttributes :: "32 word"
  nrFileAttributes :: "32 word"
  nrShare :: "32 word"
  nrDisposition :: "32 word"
  nrOptions :: "32 word"

definition SYNCHRONIZE :: "32 word" where "SYNCHRONIZE = 0x100000"
definition FILE_WRITE_ATTRIBUTES :: "32 word" where "FILE_WRITE_ATTRIBUTES = 0x100"
definition OBJ_CASE_INSENSITIVE :: "32 word" where "OBJ_CASE_INSENSITIVE = 0x40"
definition OBJ_DONT_REPARSE :: "32 word" where "OBJ_DONT_REPARSE = 0x1000"
definition FILE_ATTRIBUTE_NORMAL :: "32 word" where "FILE_ATTRIBUTE_NORMAL = 0x80"
definition FILE_SHARE_READ :: "32 word" where "FILE_SHARE_READ = 0x1"
definition FILE_SHARE_WRITE :: "32 word" where "FILE_SHARE_WRITE = 0x2"
definition FILE_SHARE_DELETE :: "32 word" where "FILE_SHARE_DELETE = 0x4"
definition FILE_OPEN :: "32 word" where "FILE_OPEN = 0x1"
definition FILE_OPEN_FOR_BACKUP_INTENT :: "32 word" where "FILE_OPEN_FOR_BACKUP_INTENT = 0x4000"
definition FILE_SYNCHRONOUS_IO_NONALERT :: "32 word" where "FILE_SYNCHRONOUS_IO_NONALERT = 0x20"

text \<open>
  \<open>wOpenFile root name\<close> opens a directory below an \<open>os.Root\<close>; \<open>wUTF16\<close> is \<open>UTF16FromString\<close>, whose result ends with a
  zero; \<open>wReparse\<close> is \<open>STATUS_REPARSE_POINT_ENCOUNTERED\<close>; \<open>wBase\<close> and \<open>wDir\<close> are those of \<open>path/filepath\<close>.
\<close>

record 's wincalls =
  wDir :: "string \<Rightarrow> string"
  wBase :: "string \<Rightarrow> string"
  wOpenFile :: "goRoot \<Rightarrow> string \<Rightarrow> ('s, goerror, nat) io"
  wClose :: "nat \<Rightarrow> ('s, goerror, unit) io"
  wUTF16 :: "string \<Rightarrow> goerror + 16 word list"
  wNtCreateFile :: "ntRequest \<Rightarrow> ('s, goerror, nat) io"
  wNsecToFiletime :: "int \<Rightarrow> 64 word"
  wSetFileTime :: "nat \<Rightarrow> 64 word \<Rightarrow> 64 word \<Rightarrow> 64 word \<Rightarrow> ('s, goerror, unit) io"
  wReparse :: goerror

text \<open>\<open>errors.Is\<close> for a target that is one value.\<close>

fun errors_is_value :: "goerror \<Rightarrow> goerror \<Rightarrow> bool" where
  "errors_is_value (PathError a b e) t = (PathError a b e = t \<or> errors_is_value e t)"
| "errors_is_value (BreakoutErr e) t = (BreakoutErr e = t \<or> errors_is_value e t)"
| "errors_is_value (ErrWrap a b e) t = (ErrWrap a b e = t \<or> errors_is_value e t)"
| "errors_is_value e t = (e = t)"

section \<open>Times\<close>

definition write_attributes_request :: "nat \<Rightarrow> 16 word list \<Rightarrow> bool \<Rightarrow> ntRequest" where
  "write_attributes_request parent name16 noFollow =
     \<lparr>nrAccess = SYNCHRONIZE OR FILE_WRITE_ATTRIBUTES, nrRootDirectory = parent,
      nrLength = of_nat ((length name16 - 1) * 2), nrMaximumLength = of_nat (length name16 * 2), nrBuffer = name16,
      nrAttributes = (if noFollow then OBJ_CASE_INSENSITIVE OR OBJ_DONT_REPARSE else OBJ_CASE_INSENSITIVE),
      nrFileAttributes = FILE_ATTRIBUTE_NORMAL, nrShare = FILE_SHARE_READ OR FILE_SHARE_WRITE OR FILE_SHARE_DELETE,
      nrDisposition = FILE_OPEN, nrOptions = FILE_OPEN_FOR_BACKUP_INTENT OR FILE_SYNCHRONOUS_IO_NONALERT\<rparr>"

definition openForWriteAttributesAt :: "'s wincalls \<Rightarrow> nat \<Rightarrow> string \<Rightarrow> bool \<Rightarrow> ('s, goerror, nat) io" where
  "openForWriteAttributesAt w parent name noFollow =
     bindE (readE (\<lambda>_. wUTF16 w name)) (\<lambda>name16.
     wNtCreateFile w (write_attributes_request parent name16 noFollow))"

definition chtimesAt :: "'s wincalls \<Rightarrow> nat \<Rightarrow> string \<Rightarrow> time \<Rightarrow> time \<Rightarrow> bool \<Rightarrow> ('s, goerror, unit) io" where
  "chtimesAt w parent name atime mtime noFollow =
     bindE (tryE (openForWriteAttributesAt w parent name noFollow)) (\<lambda>r.
       case r of
         Inl err \<Rightarrow> if noFollow \<and> errors_is_value err (wReparse w) then fail (BreakoutErr err) else fail err
       | Inr h \<Rightarrow>
           deferE (wClose w h)
             (wSetFileTime w h (wNsecToFiletime w (time_unix_nano mtime)) (wNsecToFiletime w (time_unix_nano atime))
               (wNsecToFiletime w (time_unix_nano mtime))))"

definition chtimes_windows :: "'s wincalls \<Rightarrow> goRoot \<Rightarrow> string \<Rightarrow> time \<Rightarrow> time \<Rightarrow> ('s, goerror, unit) io" where
  "chtimes_windows w root name atime mtime =
     bindE (wOpenFile w root (wDir w name)) (\<lambda>parent.
     deferE (wClose w parent) (chtimesAt w parent (wBase w name) atime mtime True))"

definition lchtimes_windows :: "goRoot \<Rightarrow> string \<Rightarrow> time \<Rightarrow> time \<Rightarrow> ('s, goerror, unit) io" where
  "lchtimes_windows root name atime mtime = ret ()"

text \<open>
  The lengths are exact for names of up to 32766 code units, far beyond what a file system has; one of 32768 units
  would name the directory itself.
\<close>

lemma request_lengths:
  assumes "length name16 \<le> 32767"
  shows "unat (nrLength (write_attributes_request parent name16 b)) = 2 * (length name16 - 1)"
    and "unat (nrMaximumLength (write_attributes_request parent name16 b)) = 2 * length name16"
proof -
  have u: "unat (of_nat m :: 16 word) = m" if "m < 65536" for m using that by (simp add: unat_of_nat)
  show "unat (nrLength (write_attributes_request parent name16 b)) = 2 * (length name16 - 1)"
    unfolding write_attributes_request_def ntRequest.simps using assms by (subst u) simp_all
  show "unat (nrMaximumLength (write_attributes_request parent name16 b)) = 2 * length name16"
    unfolding write_attributes_request_def ntRequest.simps using assms by (subst u) simp_all
qed

lemma request_wraps:
  "length name16 = 32769 \<Longrightarrow> nrLength (write_attributes_request parent name16 b) = 0"
  by (simp add: write_attributes_request_def)

text \<open>
  A reparse point is never followed: \<open>chtimes\<close> asks the system not to, and takes its refusal for an attempt to
  break out.
\<close>

lemma request_no_reparse:
  "nrAttributes (write_attributes_request parent name16 True) AND OBJ_DONT_REPARSE = OBJ_DONT_REPARSE"
  by (simp add: write_attributes_request_def OBJ_CASE_INSENSITIVE_def OBJ_DONT_REPARSE_def)

lemma chtimesAt_reparse:
  assumes "wUTF16 w name = Inr name16" and "wNtCreateFile w (write_attributes_request parent name16 True) s = (Inl err, s')"
    and "errors_is_value err (wReparse w)"
  shows "chtimesAt w parent name atime mtime True s = (Inl (BreakoutErr err), s')"
  using assms by (simp add: chtimesAt_def openForWriteAttributesAt_def bindE_readE bindE_tryE)

text \<open>Every handle is closed, whatever happens.\<close>

lemma chtimes_closes:
  assumes "wOpenFile w root (wDir w name) s = (Inr parent, s1)"
  shows "snd (chtimes_windows w root name atime mtime s) =
    snd (wClose w parent (snd (chtimesAt w parent (wBase w name) atime mtime True s1)))"
  using assms by (simp add: chtimes_windows_def bindE_def deferE_def split: prod.split)

section \<open>What Windows does not have\<close>

definition getInodeFromStat_windows :: "'a \<Rightarrow> goerror + nat" where
  "getInodeFromStat_windows stat = Inr 0"

definition getFileUIDGID_windows :: "'a \<Rightarrow> goerror + int \<times> int" where
  "getFileUIDGID_windows stat = Inr (0, 0)"

definition handleTarTypeBlockCharFifo_windows :: "goRoot \<Rightarrow> tarHeader \<Rightarrow> string \<Rightarrow> ('s, goerror, unit) io" where
  "handleTarTypeBlockCharFifo_windows root hdr path = ret ()"

definition handleLChmod_windows ::
  "goRoot \<Rightarrow> string \<Rightarrow> string \<Rightarrow> tarHeader \<Rightarrow> filemode \<Rightarrow> archiveOptions option \<Rightarrow> ('s, goerror, unit) io" where
  "handleLChmod_windows root dstPath hardlinkTarget hdr hdrInfo opts = ret ()"

definition sysStat_windows :: "FileInfo \<Rightarrow> tarHeader \<Rightarrow> tarHeader" where
  "sysStat_windows fi hdr = hdr"

definition overrideUmask_windows :: "filemode \<Rightarrow> ('s, 'e, 'a) io \<Rightarrow> ('s, 'e, 'a) io" where
  "overrideUmask_windows newmask body = body"

section \<open>The handlers of package chrootarchive\<close>

text \<open>
  There is no chroot: the functions of package \<open>archive\<close> are called directly. These, as they are on Windows, and the calls
  of package \<open>os\<close> are the fields of \<open>winarchive\<close>.
\<close>

record 's winarchive =
  waStat :: "string \<Rightarrow> ('s, goerror, FileInfo) io"
  waMkdirAll :: "string \<Rightarrow> filemode \<Rightarrow> ('s, goerror, unit) io"
  waUntar :: "body \<Rightarrow> string \<Rightarrow> TarOptions option \<Rightarrow> ('s, goerror, unit) io"
  waUntarUncompressed :: "body \<Rightarrow> string \<Rightarrow> TarOptions option \<Rightarrow> ('s, goerror, unit) io"
  waTarWithOptions :: "string \<Rightarrow> TarOptions \<Rightarrow> ('s, goerror, body) io"
  waUnpackLayer :: "string \<Rightarrow> body \<Rightarrow> TarOptions option \<Rightarrow> ('s, goerror, 64 word) io"

definition chroot_addLongPathPrefix_windows :: "string \<Rightarrow> string" where
  "chroot_addLongPathPrefix_windows srcPath =
     (if HasPrefix srcPath longPathPrefix_windows then srcPath
      else if HasPrefix srcPath [backslash, backslash]
      then longPathPrefix_windows @ ''UNC'' @ drop 1 srcPath
      else longPathPrefix_windows @ srcPath)"

definition chroot_untarHandler_windows ::
  "'s winarchive \<Rightarrow> body option \<Rightarrow> string \<Rightarrow> TarOptions option \<Rightarrow> bool \<Rightarrow> string \<Rightarrow> ('s, goerror, unit) io" where
  "chroot_untarHandler_windows wa tarArchive dest0 options decompress root =
     (case tarArchive of
        None \<Rightarrow> fail (ErrMsg ''empty archive'' [])
      | Some archive \<Rightarrow>
          (let dest = (if dest0 = root then Clean_windows dest0 else dest0)
           in bindE
                (if dest0 = root
                 then bindE (tryE (waStat wa dest)) (\<lambda>r.
                        case r of
                          Inl err \<Rightarrow> if is_not_exist err then waMkdirAll wa dest 0 else ret ()
                        | Inr _ \<Rightarrow> ret ())
                 else ret ()) (\<lambda>_.
              if decompress then waUntar wa archive (chroot_addLongPathPrefix_windows dest) options
              else waUntarUncompressed wa archive (chroot_addLongPathPrefix_windows dest) options)))"

definition invokePack_windows :: "'s winarchive \<Rightarrow> string \<Rightarrow> TarOptions \<Rightarrow> string \<Rightarrow> ('s, goerror, body) io" where
  "invokePack_windows wa srcPath options root = waTarWithOptions wa srcPath options"

text \<open>The options are not passed on. (The text of the error names the reader, which is left out here.)\<close>

definition chroot_applyLayerHandler_windows ::
  "'s winarchive \<Rightarrow> codecs \<Rightarrow> string \<Rightarrow> body \<Rightarrow> TarOptions option \<Rightarrow> bool \<Rightarrow> ('s, goerror, 64 word) io" where
  "chroot_applyLayerHandler_windows wa cd dest0 layer options decompress =
     bindE (if decompress then readE (\<lambda>_. DecompressStream cd layer) else ret layer) (\<lambda>layer'.
     let dest = chroot_addLongPathPrefix_windows (Clean_windows dest0)
     in bindE (tryE (waUnpackLayer wa dest layer' None)) (\<lambda>r.
          case r of
            Inl err \<Rightarrow> fail (ErrWrap ''ApplyLayer %s failed UnpackLayer to %s: %w'' [dest] err)
          | Inr s \<Rightarrow> ret s))"

lemma long_path_prefixes: "chroot_addLongPathPrefix_windows p = addLongPathPrefix_windows p"
  by (simp add: chroot_addLongPathPrefix_windows_def addLongPathPrefix_windows_def)

lemma long_path: "HasPrefix (chroot_addLongPathPrefix_windows p) longPathPrefix_windows"
  by (simp add: chroot_addLongPathPrefix_windows_def HasPrefix_def)

text \<open>\<open>ApplyUncompressedLayer\<close> takes options, for instance a mapping of owners; on Windows they make no difference.\<close>

lemma layer_options_ignored:
  "chroot_applyLayerHandler_windows wa cd dest layer options decompress =
   chroot_applyLayerHandler_windows wa cd dest layer None decompress"
  by (simp add: chroot_applyLayerHandler_windows_def)

end
