(* ===== verification/Spec2Isabelle.thy ===== *)
theory Spec2Isabelle
  imports CmdPipe Containment Changes WalkerFacts Archives CollectFacts ChrootFacts EntryFacts PackTree LayerApply Unshare WalkOther Reexec Windows
begin

text \<open>
  A verification library for go-archive (\<open>github.com/moby/go-archive\<close>), the Go package that creates, extracts
  and compares the tar archives of container images: package \<open>archive\<close> at the top of \<open>src/\<close>, its subpackages
  \<open>compression\<close>, \<open>chrootarchive\<close> and \<open>tarheader\<close>, and \<open>internal/mounttree\<close>, \<open>internal/unshare\<close> and
  \<open>internal/archiveoptions\<close>. What is said here holds of the program as built for Linux; the other systems have the
  theories \<open>WalkOther\<close>, \<open>Reexec\<close>, \<open>Platforms\<close> and \<open>Windows\<close>.
\<close>

section \<open>How the program is modelled\<close>

text \<open>
  A Go function with effects is a state transformer (\<open>io\<close> in \<open>Prelude\<close>): it takes the state, usually the file
  system, and returns \<open>Inl\<close> of an error or \<open>Inr\<close> of a value, with the state it leaves in both cases. \<open>bindE\<close> is
  a statement followed by \<open>if err != nil { return err }\<close>, \<open>tryE\<close> a call whose error is examined, \<open>foreachE\<close> and
  the like are loops over a slice; deferred calls are written where the function ends, on every outcome. Functions
  that only read the file system have it as an argument. Errors are the datatype \<open>goerror\<close> of \<open>GoTypes\<close>, whose
  wrappers are those of the packages \<open>os\<close>, \<open>fmt\<close> and \<open>golang.org/x/sys/unix\<close>; \<open>errors.Is\<close> unwraps them. Modes, flags
  and device numbers are words of their width, sizes and times (nanoseconds) integers that are cut down to 64 bits where
  the code does so, strings and paths lists of bytes.

  The file system (\<open>FileSys\<close>) maps names, lists of components, to inode numbers and these to inodes, so that hard links
  share an inode; symlinks, devices, extended attributes, owners, set-ID bits and times are there. Path resolution
  (\<open>walk\<close>) follows at most a number of links the host has and is what the kernel does, for a process in a chroot too
  (\<open>InRoot\<close>), and what \<open>os.Root\<close> does (\<open>Beneath\<close>). \<open>OsCalls\<close> has the calls of package \<open>os\<close> over it. The record
  \<open>host\<close> holds what the machine decides: which calls it refuses, and when (\<open>hFault\<close>), the calls of
  \<open>golang.org/x/sys/unix\<close>, the range of times, whether the process is in a user namespace. No theorem fixes these; a
  hypothesis says what is relied on.

  Parameters, because they are not in the repository: \<open>archive/tar\<close> (a stream is a list of headers and bodies with what
  ends it; which headers an encoder refuses is \<open>encoder\<close>, how bytes are parsed is \<open>eParse\<close>), the codecs and the commands
  that decompress, \<open>patternmatcher\<close>, \<open>moby/sys/user\<close> (\<open>IdentityMapping\<close>), \<open>moby/sys/mount\<close> (\<open>mountcalls\<close>),
  \<open>moby/sys/reexec\<close> and \<open>encoding/json\<close> (\<open>reexeccalls\<close>). \<open>GoPath\<close> models the functions of \<open>strings\<close>, \<open>path\<close> and
  \<open>path/filepath\<close> that are used and proves what cleaning, joining and making relative do to the components of a path.
\<close>

section \<open>The parts and their theories\<close>

text \<open>
  \<^bold>\<open>Resolving paths\<close> (\<open>rootpath.go\<close>, \<open>archive.go\<close>: \<open>isPathEscapes\<close>, \<open>resolveArchivePath\<close>,
  \<open>resolveHardlinkTarget\<close>). \<open>RootPath\<close> has the definitions. \<open>RootPathFacts\<close> shows that \<open>fsRootPath\<close> is the
  resolution of a chrooted process, errors and the limit of 255 links included, that no symlink remains on what it
  returns, and that \<open>os.Root\<close>, given the path chosen for an entry, reaches the place a chrooted process would.

  \<^bold>\<open>Extracting\<close> (\<open>archive.go\<close>: \<open>createTarFile\<close>, \<open>Unpack\<close>, \<open>createImpliedDirectories\<close>; \<open>archive_unix.go\<close>,
  \<open>archive_linux.go\<close>, \<open>chmod_linux.go\<close>, \<open>xattr_supported.go\<close>, \<open>time.go\<close>, \<open>time_nonwindows.go\<close>). \<open>Times\<close>,
  \<open>Options\<close>, \<open>TarFile\<close> and \<open>Unpack\<close> have the definitions. \<open>Confine\<close> and \<open>Containment\<close> show that every statement of
  the extractors keeps the preorder \<open>confined\<close>: no name outside the destination changes and no inode that has no name
  inside. \<open>EntryMake\<close> says which node each kind of entry makes, stage by stage, \<open>UnpackTree\<close> that a whole archive makes
  the tree it describes; \<open>EntryFacts\<close> has the modes and times.

  \<^bold>\<open>Layers\<close> (\<open>diff.go\<close>, \<open>diff_unix.go\<close>, \<open>whiteouts.go\<close>). \<open>Layer\<close> models \<open>UnpackLayer\<close> with AUFS whiteouts and
  opaque directories and the functions that apply a layer; \<open>Containment\<close> confines it. \<open>LayerView\<close> abstracts the file
  system to the tree below the root and \<open>LayerApply\<close> shows that \<open>UnpackLayer\<close> refines the application of a layer to
  that tree, opaque directories included.

  \<^bold>\<open>Comparing\<close> (\<open>changes.go\<close>, \<open>changes_unix.go\<close>, \<open>changes_linux.go\<close>, \<open>changes_other.go\<close>). \<open>Changes\<close> models the tree
  of file infos and shows that \<open>addChanges\<close> reports exactly the added, deleted, modified and touched paths. \<open>Dirent\<close> and
  \<open>Walker\<close> model the parallel walk down to the bytes of \<open>getdents\<close>; \<open>WalkerFacts\<close> shows that pruning by inode
  changes no report. \<open>WalkOther\<close> has the portable collector and its equivalence with the walk. \<open>Collect\<close> and
  \<open>CollectFacts\<close> model \<open>Changes\<close> on an AUFS branch and show that its reports are justified, ordered and complete.

  \<^bold>\<open>Creating archives\<close> (\<open>archive.go\<close>: \<open>tarAppender\<close>, \<open>Tarballer\<close>; \<open>tarheader\<close>; \<open>changes.go\<close>: \<open>ExportChanges\<close>).
  \<open>Pack\<close> models one entry and \<open>Tarball\<close> whole archives. \<open>TarballFacts\<close> proves invariants of the appender once for both
  writers of archives, \<open>Archives\<close> states what the archives are like.

  \<^bold>\<open>Rewriting and copying\<close> (\<open>wrap.go\<close>, \<open>copy.go\<close>, \<open>archive.go\<close>: \<open>ReplaceFileTarWrapper\<close>, \<open>Archiver\<close>). \<open>Streams\<close>
  models the rewriting of streams, \<open>CopyPaths\<close> the paths of a copy, \<open>Extract\<close> the entry points that tie extraction,
  creation and copying together. \<open>PackTree\<close> proves what the archive of a directory holds, and with \<open>UnpackTree\<close> that
  \<open>TarUntar\<close> copies a directory.

  \<^bold>\<open>Compression\<close> (\<open>compression/\<close>). \<open>Compress\<close> has the detection of formats, the buffered reader and the choice of the
  codec. \<open>CmdPipe\<close> models \<open>cmdStream\<close> as the concurrent program it is, a step relation over the command, the goroutines,
  the pipe and the reader, and shows that it refines the sequential description and that closing always returns.

  \<^bold>\<open>Chroot\<close> (\<open>chrootarchive/\<close>, \<open>internal/mounttree\<close>, \<open>internal/unshare\<close>). \<open>Chroot\<close> models \<open>SwitchRoot\<close> and the handlers
  on Linux, over a thread with a root and a working directory; \<open>ChrootFacts\<close> shows with triples (\<open>runs\<close>) that what is
  run in the chroot is confined to it. \<open>Unshare\<close> has the goroutine of \<open>unshare.Go\<close> as a step relation with its
  invariant. \<open>Reexec\<close> models the child process of the other Unix systems and what can go wrong between it and its
  parent.

  \<^bold>\<open>Other systems\<close>. \<open>Platforms\<close> has the functions that differ on FreeBSD and Darwin, and those on paths, modes and file
  infos on Windows. \<open>Windows\<close> has \<open>filepath.Clean\<close> and \<open>Join\<close> as they are there, the times (a request to
  \<open>NtCreateFile\<close>, with the lengths of its 16-bit fields, that never follows a reparse point) and the handlers of
  \<open>chrootarchive\<close>.
\<close>

section \<open>Interfaces\<close>

text \<open>
  \<open>guarantee\<close> and \<open>guarantee_on\<close> (\<open>Prelude\<close>): a preorder on states, and that every combinator keeps it; interpreted
  with \<open>confined\<close>, with \<open>layer_confined\<close> and with \<open>I s \<longrightarrow> I t\<close> for every invariant \<open>I\<close>.
  \<open>unix_calls\<close> (\<open>Containment\<close>) and \<open>unix_effects\<close> (\<open>EntryMake\<close>): what is relied on of \<open>golang.org/x/sys/unix\<close>.
  \<open>host_reads\<close> (\<open>WalkerFacts\<close>): that \<open>getdents\<close> and \<open>lgetxattr\<close> tell what the file system has.
  \<open>appender_invariant\<close> and \<open>export_invariant\<close> (\<open>TarballFacts\<close>): an invariant of \<open>addTarFile\<close> is one of
  \<open>Tarballer.Do\<close> and \<open>ExportChanges\<close>. \<open>mount_calls\<close> (\<open>ChrootFacts\<close>) and \<open>reexec_calls\<close> (\<open>Reexec\<close>): the mount calls,
  and the mount and process calls. \<open>Posix\<close> is a concrete host on which the contracts are interpreted and the
  concrete runs evaluated.
\<close>

section \<open>Bounds and fuel\<close>

text \<open>
  \<open>fsRootPath\<close> counts links as the code does and its recursion ends by that count and the length of what is left.
  \<open>walk\<close> counts the host's limit. The walks over a directory tree (\<open>walkDir\<close>, \<open>fpWalk\<close>) have the
  fuel \<open>walk_depth\<close>, two more than the number of components of the longest name, which \<open>deep_enough\<close> shows to be enough; running
  out is a value of its own that no theorem about a complete result allows. The loops that end only if the kernel
  cooperates (\<open>lgetxattr_loop\<close>, \<open>readdir_loop\<close>) are partial functions into an option, and that they return is proved
  (\<open>lgetxattr_returns\<close>, \<open>parseDirent_roundtrip\<close>). The steps of \<open>CmdPipe\<close> and \<open>Unshare\<close> use up a measure.

  Where a goroutine writes an archive into a pipe and the caller reads from it, the model runs the writer first, on the
  file system as it is when the goroutine starts: the writer only reads the file system, and concurrent
  changes to the source are outside the model. The child process of \<open>Reexec\<close> runs in the same way. The two goroutines of
  \<open>changes_other.go\<close> only read.
\<close>

section \<open>Not modelled\<close>

text \<open>
  \<^item> \<open>sequential_*.go\<close>: one flag for the system call that opens a file, without an effect on what is read.
  \<^item> \<open>example_changes.go\<close>: an example built only under a tag of its own.
  \<^item> The Windows file system behind \<open>golang.org/x/sys/windows\<close> and \<open>os.Root\<close>: the functions of \<open>Windows\<close> have its calls as
    parameters and are not composed into a second extractor or archiver.
  \<^item> The tests.
  \<^item> The codecs, the bytes of a tar archive, compiled patterns, logging, and the cancellation of a context outside
    \<open>cmdStream\<close>.
\<close>

end
